(* ===== verification/Prelude.thy ===== *)
theory Prelude
  imports Main "HOL-Library.Sublist"
begin

text \<open>
  What every component of the model shares: the Go string functions the code calls
  (\<^verbatim>\<open>strings.ToLower\<close>, \<^verbatim>\<open>strings.EqualFold\<close>, \<^verbatim>\<open>strings.TrimSpace\<close>, \<^verbatim>\<open>strings.Join\<close>,
  \<^verbatim>\<open>strconv.Atoi\<close>), the Unicode classes used by the scanner, and generic list lemmas.

  Text is a list of characters, one character per rune, with code points U+0000 to U+00FF.
  On that range the Unicode classes and the case mapping below are those of Go's
  \<^verbatim>\<open>unicode\<close> package. Where the code counts bytes (\<^verbatim>\<open>len(s)\<close>, \<^verbatim>\<open>s[i:j]\<close>), \<open>utf8\<close> gives the
  bytes of a text.
\<close>

named_theorems go_string \<open>facts about the Go string functions\<close>

section \<open>Runes\<close>

definition code :: "char \<Rightarrow> nat" where
  "code c = of_char c"

definition is_space :: "char \<Rightarrow> bool" where
  "is_space c = (code c \<in> {9, 10, 11, 12, 13, 32, 133, 160})"

definition is_digit :: "char \<Rightarrow> bool" where
  "is_digit c = (48 \<le> code c \<and> code c \<le> 57)"

definition is_ascii_letter :: "char \<Rightarrow> bool" where
  "is_ascii_letter c = ((65 \<le> code c \<and> code c \<le> 90) \<or> (97 \<le> code c \<and> code c \<le> 122))"

definition is_letter :: "char \<Rightarrow> bool" where
  "is_letter c = (is_ascii_letter c \<or> code c \<in> {170, 181, 186}
     \<or> (192 \<le> code c \<and> code c \<le> 214) \<or> (216 \<le> code c \<and> code c \<le> 246) \<or> 248 \<le> code c)"

definition lower_rune :: "char \<Rightarrow> char" where
  "lower_rune c =
     (if (65 \<le> code c \<and> code c \<le> 90) \<or> (192 \<le> code c \<and> code c \<le> 222 \<and> code c \<noteq> 215)
      then char_of (code c + 32) else c)"

section \<open>Strings\<close>

abbreviation backslash :: char where
  "backslash \<equiv> CHR 0x5C"

abbreviation dquote :: char where
  "dquote \<equiv> CHR 0x22"

abbreviation squote :: char where
  "squote \<equiv> CHR 0x27"

definition to_lower :: "string \<Rightarrow> string" where
  "to_lower s = map lower_rune s"

definition equal_fold :: "string \<Rightarrow> string \<Rightarrow> bool" where
  "equal_fold s t = (to_lower s = to_lower t)"

definition trim_left :: "(char \<Rightarrow> bool) \<Rightarrow> string \<Rightarrow> string" where
  "trim_left p s = dropWhile p s"

definition trim_right :: "(char \<Rightarrow> bool) \<Rightarrow> string \<Rightarrow> string" where
  "trim_right p s = rev (dropWhile p (rev s))"

definition trim_space :: "string \<Rightarrow> string" where
  "trim_space s = trim_right is_space (trim_left is_space s)"

definition trim_prefix :: "string \<Rightarrow> string \<Rightarrow> string" where
  "trim_prefix p s = (if prefix p s then drop (length p) s else s)"

fun join :: "string \<Rightarrow> string list \<Rightarrow> string" where
  "join sep [] = []"
| "join sep [x] = x"
| "join sep (x # y # xs) = x @ sep @ join sep (y # xs)"

text \<open>The UTF-8 bytes of a text: one byte below U+0080, two from there to U+00FF.\<close>

definition utf8_rune :: "char \<Rightarrow> char list" where
  "utf8_rune c =
     (if code c < 128 then [c]
      else [char_of (192 + code c div 64), char_of (128 + code c mod 64)])"

definition utf8 :: "string \<Rightarrow> char list" where
  "utf8 s = concat (map utf8_rune s)"

definition ascii :: "string \<Rightarrow> bool" where
  "ascii s = list_all (\<lambda>c. code c < 128) s"

section \<open>Decimal numbers\<close>

definition digit_char :: "nat \<Rightarrow> char" where
  "digit_char d = char_of (48 + d)"

definition digit_val :: "char \<Rightarrow> nat" where
  "digit_val c = code c - 48"

fun digits_of :: "nat \<Rightarrow> string" where
  "digits_of n = (if n < 10 then [digit_char n] else digits_of (n div 10) @ [digit_char (n mod 10)])"

declare digits_of.simps [simp del]

definition digits_val :: "string \<Rightarrow> nat" where
  "digits_val s = foldl (\<lambda>a c. 10 * a + digit_val c) 0 s"

text \<open>\<^verbatim>\<open>strconv.Itoa\<close>.\<close>

definition decimal :: "int \<Rightarrow> string" where
  "decimal n = (if n < 0 then ''-'' @ digits_of (nat (- n)) else digits_of (nat n))"

definition in_int64 :: "int \<Rightarrow> bool" where
  "in_int64 n = (- (2 ^ 63) \<le> n \<and> n < 2 ^ 63)"

text \<open>The 64-bit value of an integer expression.\<close>

definition wrap64 :: "int \<Rightarrow> int" where
  "wrap64 n = (n + 2 ^ 63) mod 2 ^ 64 - 2 ^ 63"

text \<open>\<^verbatim>\<open>strconv.Atoi\<close>: an optional sign and decimal digits, in the range of a 64-bit \<^verbatim>\<open>int\<close>.\<close>

definition atoi :: "string \<Rightarrow> int option" where
  "atoi s =
     (let neg = prefix ''-'' s;
          body = (if prefix ''-'' s \<or> prefix ''+'' s then tl s else s)
      in if body = [] \<or> \<not> list_all is_digit body then None
         else let n = (if neg then - int (digits_val body) else int (digits_val body))
              in if in_int64 n then Some n else None)"

text \<open>The value \<^verbatim>\<open>Atoi\<close> returns beside its error: 0 on a malformed text, the nearest bound on overflow.\<close>

definition atoi_value :: "string \<Rightarrow> int" where
  "atoi_value s =
     (let neg = prefix ''-'' s;
          body = (if prefix ''-'' s \<or> prefix ''+'' s then tl s else s);
          n = (if neg then - int (digits_val body) else int (digits_val body))
      in if body = [] \<or> \<not> list_all is_digit body then 0
         else max (- (2 ^ 63)) (min (2 ^ 63 - 1) n))"

text \<open>\<^verbatim>\<open>strings.TrimSpace\<close> on the UTF-8 bytes of such a text.\<close>

definition is_space_byte :: "char \<Rightarrow> bool" where
  "is_space_byte c = (code c \<in> {9, 10, 11, 12, 13, 32})"

fun trim_left_bytes :: "char list \<Rightarrow> char list" where
  "trim_left_bytes [] = []"
| "trim_left_bytes (c # cs) =
     (if is_space_byte c then trim_left_bytes cs
      else case cs of
          d # ds \<Rightarrow> if code c = 194 \<and> code d \<in> {133, 160} then trim_left_bytes ds else c # cs
        | [] \<Rightarrow> c # cs)"

fun trim_rev_bytes :: "char list \<Rightarrow> char list" where
  "trim_rev_bytes [] = []"
| "trim_rev_bytes (c # cs) =
     (if is_space_byte c then trim_rev_bytes cs
      else case cs of
          d # ds \<Rightarrow> if code d = 194 \<and> code c \<in> {133, 160} then trim_rev_bytes ds else c # cs
        | [] \<Rightarrow> c # cs)"

definition trim_space_bytes :: "char list \<Rightarrow> char list" where
  "trim_space_bytes bs = rev (trim_rev_bytes (rev (trim_left_bytes bs)))"

section \<open>Lemmas\<close>

lemma code_less [simp]: "code c < 256"
  by (simp add: code_def)

lemma code_inject: "code a = code b \<longleftrightarrow> a = b"
  by (simp add: code_def)

lemma char_of_code [simp]: "char_of (code c) = c"
  by (simp add: code_def)

lemma code_char_of: "n < 256 \<Longrightarrow> code (char_of n) = n"
  by (simp add: code_def)

lemma to_lower_Nil [simp]: "to_lower [] = []"
  by (simp add: to_lower_def)

lemma length_to_lower [simp]: "length (to_lower s) = length s"
  by (simp add: to_lower_def)

lemma lower_rune_idem [simp]: "lower_rune (lower_rune c) = lower_rune c"
  by (auto simp: lower_rune_def code_char_of)

lemma to_lower_idem [simp]: "to_lower (to_lower s) = to_lower s"
  by (simp add: to_lower_def)

lemma equal_fold_refl [simp]: "equal_fold s s"
  by (simp add: equal_fold_def)

lemma trim_left_Nil [simp]: "trim_left p [] = []"
  by (simp add: trim_left_def)

lemma trim_right_Nil [simp]: "trim_right p [] = []"
  by (simp add: trim_right_def)

lemma trim_space_Nil [simp]: "trim_space [] = []"
  by (simp add: trim_space_def)

lemma trim_left_id: "s = [] \<or> \<not> p (hd s) \<Longrightarrow> trim_left p s = s"
  by (cases s) (auto simp: trim_left_def)

lemma trim_right_id: "s = [] \<or> \<not> p (last s) \<Longrightarrow> trim_right p s = s"
  by (cases s rule: rev_cases) (auto simp: trim_right_def)

lemma trim_space_id [go_string]:
  "s = [] \<or> (\<not> is_space (hd s) \<and> \<not> is_space (last s)) \<Longrightarrow> trim_space s = s"
  by (auto simp: trim_space_def trim_left_id trim_right_id)

lemma is_digit_digit_char: "d < 10 \<Longrightarrow> is_digit (digit_char d)"
  by (simp add: is_digit_def digit_char_def code_char_of)

lemma digit_val_digit_char: "d < 10 \<Longrightarrow> digit_val (digit_char d) = d"
  by (simp add: digit_val_def digit_char_def code_char_of)

lemma digits_of_digits: "list_all is_digit (digits_of n)"
proof (induction n rule: digits_of.induct)
  case (1 n)
  then show ?case
    by (subst digits_of.simps) (auto simp: is_digit_digit_char)
qed

lemma digits_of_nonempty [simp]: "digits_of n \<noteq> []"
  by (subst digits_of.simps) simp

lemma digits_val_append: "digits_val (xs @ [c]) = 10 * digits_val xs + digit_val c"
  by (simp add: digits_val_def)

lemma digits_val_digits_of [go_string]: "digits_val (digits_of n) = n"
proof (induction n rule: digits_of.induct)
  case (1 n)
  show ?case
  proof (cases "n < 10")
    case True
    then show ?thesis
      by (subst digits_of.simps) (simp add: digits_val_def digit_val_digit_char)
  next
    case False
    with 1 show ?thesis
      by (subst digits_of.simps) (simp add: digits_val_append digit_val_digit_char)
  qed
qed

lemma is_digit_not_sign: "is_digit c \<Longrightarrow> c \<noteq> CHR ''-'' \<and> c \<noteq> CHR ''+''"
  by (auto simp: is_digit_def code_def)

lemma atoi_digits_of [go_string]:
  assumes "int n < 2 ^ 63"
  shows "atoi (digits_of n) = Some (int n)"
proof -
  obtain c cs where d: "digits_of n = c # cs"
    using digits_of_nonempty by (cases "digits_of n") blast+
  have "is_digit c" using digits_of_digits [of n] d by simp
  then have "\<not> prefix ''-'' (digits_of n)" "\<not> prefix ''+'' (digits_of n)"
    using d by (auto dest: is_digit_not_sign)
  then show ?thesis
    using assms digits_of_digits [of n]
    by (simp add: atoi_def digits_val_digits_of in_int64_def)
qed

lemma utf8_ascii: "ascii s \<Longrightarrow> utf8 s = s"
  by (induction s) (auto simp: ascii_def utf8_def utf8_rune_def)

lemma takeWhile_append_stop:
  "list_all p xs \<Longrightarrow> (ys = [] \<or> \<not> p (hd ys)) \<Longrightarrow> takeWhile p (xs @ ys) = xs"
  by (induction xs; cases ys; auto)

lemma dropWhile_append_stop:
  "list_all p xs \<Longrightarrow> (ys = [] \<or> \<not> p (hd ys)) \<Longrightarrow> dropWhile p (xs @ ys) = ys"
  by (induction xs; cases ys; auto)

section \<open>First occurrences\<close>

text \<open>A loop that keeps an element when its key has not been seen.\<close>

fun firsts_by :: "('a \<Rightarrow> 'b) \<Rightarrow> 'b list \<Rightarrow> 'a list \<Rightarrow> 'a list" where
  "firsts_by key seen [] = []"
| "firsts_by key seen (x # xs) =
     (if key x \<in> set seen then firsts_by key seen xs else x # firsts_by key (key x # seen) xs)"

lemma firsts_by_keys: "key ` set (firsts_by key seen xs) = key ` set xs - set seen"
  by (induction key seen xs rule: firsts_by.induct) auto

lemma firsts_by_distinct: "distinct (map key (firsts_by key seen xs))"
proof (induction key seen xs rule: firsts_by.induct)
  case (2 key seen x xs)
  then show ?case using firsts_by_keys [of key "key x # seen" xs] by auto
qed simp

lemma firsts_by_subseq: "subseq (firsts_by key seen xs) xs"
  by (induction key seen xs rule: firsts_by.induct) auto

lemma firsts_by_id: "distinct (map key xs) \<Longrightarrow> key ` set xs \<inter> set seen = {} \<Longrightarrow> firsts_by key seen xs = xs"
  by (induction key seen xs rule: firsts_by.induct) auto

lemma firsts_by_first:
  "k \<notin> set seen \<Longrightarrow> find (\<lambda>x. key x = k) (firsts_by key seen xs) = find (\<lambda>x. key x = k) xs"
  by (induction key seen xs rule: firsts_by.induct) auto

end
