(* ===== verification/SplLexer.thy ===== *)
theory SplLexer
  imports Prelude
begin

text \<open>
  The SPL scanner, \<^verbatim>\<open>internal/spl/lexer/lexer.go\<close>. The scanner state \<open>lexer\<close> is the input
  slice cut at \<^verbatim>\<open>l.pos\<close>: \<open>seen\<close> holds the runes before it, the latest first, and \<open>ahead\<close>
  the runes from it on, so \<^verbatim>\<open>l.pos\<close> is the length of \<open>seen\<close>. \<open>lex_next\<close> is \<^verbatim>\<open>Next\<close>.

  \<^verbatim>\<open>Tokenize\<close> loops until \<^verbatim>\<open>Next\<close> yields the end token or an unknown character. That loop need
  not end, so \<open>tokens_from\<close> is a partial function and \<open>None\<close> means that it never returns.
  The lemmas show what a token slice tells about its input, on which inputs the loop returns,
  and that a quoted literal is read back as the text it was written for.
\<close>

section \<open>Tokens\<close>

datatype token_kind =
    TokenName | TokenString | TokenNumber | TokenOp | TokenLParen
  | TokenRParen | TokenPipe | TokenComma | TokenStar | TokenEOF

record token =
  t_kind :: token_kind
  t_value :: string
  t_raw :: string
  t_quote :: "char option"
  t_pos :: nat

definition mk_token :: "token_kind \<Rightarrow> string \<Rightarrow> string \<Rightarrow> nat \<Rightarrow> token" where
  "mk_token k v r p = \<lparr>t_kind = k, t_value = v, t_raw = r, t_quote = None, t_pos = p\<rparr>"

definition is_keyword :: "token \<Rightarrow> string \<Rightarrow> bool" where
  "is_keyword t word = (t_kind t = TokenName \<and> equal_fold (t_value t) word)"

datatype lex_error = UnexpectedCharacter string nat

section \<open>The scanner state\<close>

record lexer =
  seen :: string
  ahead :: string

abbreviation lex_pos :: "lexer \<Rightarrow> nat" where
  "lex_pos lx \<equiv> length (seen lx)"

definition new_lexer :: "string \<Rightarrow> lexer" where
  "new_lexer input = \<lparr>seen = [], ahead = input\<rparr>"

definition advance :: "nat \<Rightarrow> lexer \<Rightarrow> lexer" where
  "advance n lx = \<lparr>seen = rev (take n (ahead lx)) @ seen lx, ahead = drop n (ahead lx)\<rparr>"

definition skip_space :: "lexer \<Rightarrow> lexer" where
  "skip_space lx = advance (length (takeWhile is_space (ahead lx))) lx"

section \<open>Rune classes of names\<close>

definition is_name_start :: "char \<Rightarrow> bool" where
  "is_name_start c = (is_letter c \<or> c = CHR ''_'' \<or> c = CHR ''@'' \<or> c = CHR '':'')"

definition is_name_part :: "char \<Rightarrow> bool" where
  "is_name_part c =
     (is_letter c \<or> is_digit c \<or> c = CHR ''_'' \<or> c = CHR ''.'' \<or> c = CHR ''@'' \<or> c = CHR '':''
      \<or> c = CHR ''-'')"

section \<open>Scanning one token\<close>

text \<open>
  \<open>string_body q rs\<close> reads a string after its opening quote \<open>q\<close>: the decoded value and the
  number of runes read, the closing quote included where there is one.
\<close>

fun string_body :: "char \<Rightarrow> string \<Rightarrow> string \<times> nat" where
  "string_body q [] = ([], 0)"
| "string_body q [ch] = (if ch = q then ([], 1) else ([ch], 1))"
| "string_body q (ch # nxt # rs) =
     (if ch = backslash then
        if nxt = q \<or> nxt = backslash
        then (let (v, n) = string_body q rs in (nxt # v, n + 2))
        else (let (v, n) = string_body q (nxt # rs) in (backslash # v, n + 1))
      else if ch = q then ([], 1)
      else (let (v, n) = string_body q (nxt # rs) in (ch # v, n + 1)))"

definition scan_string :: "char \<Rightarrow> lexer \<Rightarrow> token \<times> lexer" where
  "scan_string q lx =
     (let (v, n) = string_body q (tl (ahead lx))
      in (\<lparr>t_kind = TokenString, t_value = v, t_raw = take (n + 1) (ahead lx),
           t_quote = Some q, t_pos = lex_pos lx\<rparr>,
          advance (n + 1) lx))"

fun number_len :: "string \<Rightarrow> nat" where
  "number_len [] = 0"
| "number_len (ch # rs) =
     (if is_digit ch \<or> ch = CHR ''.'' then Suc (number_len rs)
      else if ch = CHR ''e'' \<or> ch = CHR ''E'' then
        (case rs of
           [] \<Rightarrow> 0
         | nn # rs' \<Rightarrow>
             if is_digit nn then Suc (number_len rs)
             else if (nn = CHR ''+'' \<or> nn = CHR ''-'') \<and> rs' \<noteq> [] \<and> is_digit (hd rs')
             then Suc (Suc (number_len rs'))
             else 0)
      else 0)"

definition scan_number :: "lexer \<Rightarrow> token \<times> lexer" where
  "scan_number lx =
     (let n = number_len (ahead lx); r = take n (ahead lx)
      in (mk_token TokenNumber r r (lex_pos lx), advance n lx))"

definition scan_name :: "lexer \<Rightarrow> token \<times> lexer" where
  "scan_name lx =
     (let r = takeWhile is_name_part (ahead lx)
      in (mk_token TokenName r r (lex_pos lx), advance (length r) lx))"

text \<open>The operator at the head of the input: the number of runes it takes and its value.\<close>

definition operator_at :: "string \<Rightarrow> nat \<times> string" where
  "operator_at s =
     (let two = (if 2 \<le> length s then take 2 s else []); one = take 1 s
      in if two = ''!='' then (2, ''!='')
         else if two = ''<>'' then (2, ''!='')
         else if two = ''=='' then (2, ''='')
         else if two = ''>='' then (2, ''>='')
         else if two = ''<='' then (2, ''<='')
         else if one \<in> set [''='', ''<'', ''>'', ''+'', ''-'', ''/'', ''%'', ''&''] then (1, one)
         else (1, []))"

definition scan_operator :: "lexer \<Rightarrow> token \<times> lexer" where
  "scan_operator lx =
     (let (n, v) = operator_at (ahead lx)
      in (mk_token TokenOp v (take n (ahead lx)) (lex_pos lx), advance n lx))"

definition prev_allows_negative :: "lexer \<Rightarrow> bool" where
  "prev_allows_negative lx =
     (case dropWhile is_space (seen lx) of
        [] \<Rightarrow> True
      | c # _ \<Rightarrow> c \<in> set ''(,|=!<>+-*/%&'')"

definition neg_literal_start :: "string \<Rightarrow> bool" where
  "neg_literal_start rs =
     (case rs of
        ch # d # _ \<Rightarrow> ch = CHR ''-'' \<and> (is_digit d \<or> d = CHR ''.'')
      | _ \<Rightarrow> False)"

text \<open>The single-rune tokens of \<^verbatim>\<open>Next\<close>'s first switch.\<close>

definition punct_kind :: "char \<Rightarrow> token_kind option" where
  "punct_kind ch =
     (if ch = CHR ''|'' then Some TokenPipe
      else if ch = CHR '','' then Some TokenComma
      else if ch = CHR ''('' then Some TokenLParen
      else if ch = CHR '')'' then Some TokenRParen
      else if ch = CHR ''*'' then Some TokenStar
      else None)"

definition lex_next :: "lexer \<Rightarrow> token \<times> lexer" where
  "lex_next lx0 =
     (let lx = skip_space lx0; p = lex_pos lx
      in case ahead lx of
           [] \<Rightarrow> (mk_token TokenEOF [] [] p, lx)
         | ch # _ \<Rightarrow>
             (case punct_kind ch of
                Some k \<Rightarrow> (mk_token k [ch] [ch] p, advance 1 lx)
              | None \<Rightarrow>
                  if ch = dquote \<or> ch = squote then scan_string ch lx
                  else if is_digit ch then scan_number lx
                  else if neg_literal_start (ahead lx) \<and> prev_allows_negative lx then scan_number lx
                  else if is_name_start ch then scan_name lx
                  else scan_operator lx))"

section \<open>The token loop\<close>

partial_function (option) tokens_from :: "lexer \<Rightarrow> (lex_error + token list) option" where
  "tokens_from lx =
     (let t = fst (lex_next lx)
      in if t_kind t = TokenEOF then Some (Inr [t])
         else if t_kind t = TokenOp \<and> t_value t = []
         then Some (Inl (UnexpectedCharacter (t_raw t) (t_pos t)))
         else Option.bind (tokens_from (snd (lex_next lx)))
                (\<lambda>r. Some (case r of Inl e \<Rightarrow> Inl e | Inr ts \<Rightarrow> Inr (t # ts))))"

declare tokens_from.simps [code]

definition tokenize :: "string \<Rightarrow> (lex_error + token list) option" where
  "tokenize input = tokens_from (new_lexer input)"

section \<open>Quoted literals\<close>

definition escape_rune :: "char \<Rightarrow> string" where
  "escape_rune c =
     (if c = dquote then [backslash, dquote]
      else if c = backslash then [backslash, backslash]
      else if code c = 10 then [backslash, CHR ''n'']
      else if code c = 13 then [backslash, CHR ''r'']
      else if code c = 9 then [backslash, CHR ''t'']
      else [c])"

definition escape :: "string \<Rightarrow> string" where
  "escape s = concat (map escape_rune s)"

definition string_literal :: "string \<Rightarrow> string" where
  "string_literal s = dquote # escape s @ [dquote]"

section \<open>Lemmas\<close>

subsection \<open>One token\<close>

lemma seen_advance [simp]: "seen (advance n lx) = rev (take n (ahead lx)) @ seen lx"
  by (simp add: advance_def)
lemma ahead_advance [simp]: "ahead (advance n lx) = drop n (ahead lx)"
  by (simp add: advance_def)
lemma advance_0 [simp]: "advance 0 lx = lx"
  by (simp add: advance_def)

lemma string_body_len: "snd (string_body q rs) \<le> length rs"
proof (induction q rs rule: string_body.induct)
  case (3 q ch nxt rs)
  then show ?case
    by (cases "ch = backslash") (auto split: prod.splits if_splits)
qed auto

lemma number_len_le: "number_len s \<le> length s"
  by (induction s rule: number_len.induct) (auto split: list.splits)

lemma number_len_pos: "is_digit c \<Longrightarrow> 0 < number_len (c # s)"
  by simp

text \<open>The state in which \<^verbatim>\<open>Next\<close> takes a negative literal, reads no rune and stays where it is.\<close>

definition lex_stuck :: "lexer \<Rightarrow> bool" where
  "lex_stuck lx =
     (neg_literal_start (ahead (skip_space lx)) \<and> prev_allows_negative (skip_space lx))"

definition reads :: "lexer \<Rightarrow> token \<times> lexer \<Rightarrow> bool" where
  "reads lx r = (\<exists>n. n \<le> length (ahead lx) \<and> snd r = advance n lx
      \<and> t_raw (fst r) = take n (ahead lx) \<and> t_pos (fst r) = lex_pos lx)"

lemma readsI:
  "n \<le> length (ahead lx) \<Longrightarrow> r = take n (ahead lx) \<Longrightarrow> p = lex_pos lx
   \<Longrightarrow> reads lx (\<lparr>t_kind = k, t_value = v, t_raw = r, t_quote = qq, t_pos = p\<rparr>, advance n lx)"
  by (auto simp: reads_def)

lemma reads_scan_string:
  assumes "ahead lx = q # rs"
  shows "reads lx (scan_string q' lx)"
proof -
  obtain v n where b: "string_body q' rs = (v, n)" by (cases "string_body q' rs")
  with string_body_len [of q' rs] have "n + 1 \<le> length (ahead lx)" using assms by simp
  then show ?thesis
    using assms b by (auto simp: scan_string_def intro!: readsI simp del: take_Suc_Cons)
qed

lemma reads_scan_number: "reads lx (scan_number lx)"
  by (auto simp: scan_number_def mk_token_def Let_def number_len_le intro!: readsI)

lemma reads_scan_name: "reads lx (scan_name lx)"
  by (auto simp: scan_name_def mk_token_def Let_def length_takeWhile_le takeWhile_eq_take[symmetric] intro!: readsI)

lemma operator_at_len: "s \<noteq> [] \<Longrightarrow> 0 < fst (operator_at s) \<and> fst (operator_at s) \<le> length s"
  unfolding operator_at_def Let_def
  by (cases s; cases "tl s") simp_all

lemma reads_scan_operator:
  assumes "ahead lx = ch # rs"
  shows "reads lx (scan_operator lx)"
  using assms operator_at_len [of "ahead lx"] unfolding scan_operator_def mk_token_def
  by (auto split: prod.splits intro!: readsI)

lemma lex_next_Nil:
  "ahead (skip_space lx) = [] \<Longrightarrow> lex_next lx = (mk_token TokenEOF [] [] (lex_pos (skip_space lx)), skip_space lx)"
  by (simp add: lex_next_def Let_def)

lemma lex_next_Cons:
  assumes "ahead (skip_space lx) = ch # rs"
  obtains
    (punct) k where "punct_kind ch = Some k"
      "lex_next lx = (mk_token k [ch] [ch] (lex_pos (skip_space lx)), advance 1 (skip_space lx))"
  | (quoted) "ch = dquote \<or> ch = squote" "lex_next lx = scan_string ch (skip_space lx)"
  | (number) "is_digit ch" "lex_next lx = scan_number (skip_space lx)"
  | (stuck) "lex_stuck lx" "lex_next lx = scan_number (skip_space lx)"
  | (name) "is_name_start ch" "lex_next lx = scan_name (skip_space lx)"
  | (op) "lex_next lx = scan_operator (skip_space lx)"
proof (cases "punct_kind ch")
  case None
  then show ?thesis
    using assms that(2-)
    by (cases "ch = dquote \<or> ch = squote"; cases "is_digit ch"; cases "lex_stuck lx";
        cases "is_name_start ch"; auto simp: lex_next_def lex_stuck_def Let_def)
next
  case (Some k)
  then show ?thesis
    using assms that(1) by (simp add: lex_next_def Let_def)
qed

lemma lex_next_reads: "reads (skip_space lx) (lex_next lx)"
proof (cases "ahead (skip_space lx)")
  case Nil
  then show ?thesis
    using readsI [of 0 "skip_space lx" "[]"] by (simp add: lex_next_Nil mk_token_def)
next
  case (Cons ch rs)
  have "reads (skip_space lx) (mk_token k [ch] [ch] (lex_pos (skip_space lx)), advance 1 (skip_space lx))" for k
    unfolding mk_token_def by (rule readsI) (simp_all add: Cons)
  with Cons show ?thesis
    by (cases rule: lex_next_Cons)
      (simp_all only: reads_scan_string [OF Cons] reads_scan_number reads_scan_name
        reads_scan_operator [OF Cons])
qed

lemma punct_kind_not_eof: "punct_kind c \<noteq> Some TokenEOF"
  by (simp add: punct_kind_def)

lemma scan_kinds [simp]:
  "t_kind (fst (scan_string q lx)) = TokenString"
  "t_kind (fst (scan_number lx)) = TokenNumber"
  "t_kind (fst (scan_name lx)) = TokenName"
  "t_kind (fst (scan_operator lx)) = TokenOp"
  "t_kind (mk_token k v r p) = k"
  by (simp_all add: scan_string_def scan_number_def scan_name_def scan_operator_def mk_token_def Let_def
      split: prod.split)

lemma lex_next_eof_iff: "t_kind (fst (lex_next lx)) = TokenEOF \<longleftrightarrow> ahead (skip_space lx) = []"
proof (cases "ahead (skip_space lx)")
  case Nil
  then show ?thesis by (simp add: lex_next_Nil)
next
  case (Cons ch rs)
  then show ?thesis
    by (cases rule: lex_next_Cons) (use punct_kind_not_eof [of ch] Cons in auto)
qed

lemma scan_raw_nonempty:
  assumes "ahead lx = ch # rs"
  shows "t_raw (fst (scan_string q lx)) \<noteq> []"
    and "is_digit ch \<Longrightarrow> t_raw (fst (scan_number lx)) \<noteq> []"
    and "is_name_start ch \<Longrightarrow> t_raw (fst (scan_name lx)) \<noteq> []"
    and "t_raw (fst (scan_operator lx)) \<noteq> []"
    and "t_raw (mk_token k [c] [c] p) \<noteq> []"
proof -
  show "t_raw (fst (scan_string q lx)) \<noteq> []"
    using assms by (simp add: scan_string_def split: prod.split)
  show "is_digit ch \<Longrightarrow> t_raw (fst (scan_number lx)) \<noteq> []"
    using assms by (simp add: scan_number_def mk_token_def Let_def)
  show "is_name_start ch \<Longrightarrow> t_raw (fst (scan_name lx)) \<noteq> []"
    using assms by (auto simp: scan_name_def mk_token_def Let_def is_name_start_def is_name_part_def)
  show "t_raw (fst (scan_operator lx)) \<noteq> []"
    using assms operator_at_len [of "ahead lx"]
    by (cases "operator_at (ahead lx)") (simp add: scan_operator_def mk_token_def)
qed (simp add: mk_token_def)

lemma lex_next_progress:
  assumes "ahead (skip_space lx) \<noteq> []" and "\<not> lex_stuck lx"
  shows "t_raw (fst (lex_next lx)) \<noteq> []"
proof -
  from assms(1) obtain ch rs where c: "ahead (skip_space lx) = ch # rs"
    by (cases "ahead (skip_space lx)") auto
  then show ?thesis
    by (cases rule: lex_next_Cons) (use assms(2) scan_raw_nonempty [OF c] in simp_all)
qed

lemma lex_next_stuck:
  assumes "lex_stuck lx"
  shows "lex_next lx = (mk_token TokenNumber [] [] (lex_pos (skip_space lx)), skip_space lx)"
proof -
  from assms obtain ch d rs where a: "ahead (skip_space lx) = ch # d # rs" and ch: "ch = CHR ''-''"
    by (auto simp: lex_stuck_def neg_literal_start_def split: list.splits)
  have "number_len (ch # d # rs) = 0" "\<not> is_digit ch" "punct_kind ch = None"
    using ch by (simp_all add: is_digit_def code_def punct_kind_def)
  with a ch assms show ?thesis
    by (simp add: lex_next_def lex_stuck_def scan_number_def Let_def)
qed

lemma skip_space_id: "ahead lx = [] \<or> \<not> is_space (hd (ahead lx)) \<Longrightarrow> skip_space lx = lx"
  by (cases "ahead lx") (auto simp: skip_space_def)

lemma ahead_skip_space [simp]: "ahead (skip_space lx) = dropWhile is_space (ahead lx)"
  by (simp add: skip_space_def dropWhile_eq_drop)

lemma skip_space_idem [simp]: "skip_space (skip_space lx) = skip_space lx"
  using hd_dropWhile [of is_space "ahead lx"]
  by (intro skip_space_id) (cases "dropWhile is_space (ahead lx) = []", simp_all)

lemma skip_space_length: "length (ahead (skip_space lx)) \<le> length (ahead lx)"
  by (simp add: length_dropWhile_le)

lemma lex_next_length:
  assumes "ahead (skip_space lx) \<noteq> []" and "\<not> lex_stuck lx"
  shows "length (ahead (snd (lex_next lx))) < length (ahead lx)"
proof -
  from lex_next_reads [of lx] obtain n where n: "n \<le> length (ahead (skip_space lx))"
    "snd (lex_next lx) = advance n (skip_space lx)" "t_raw (fst (lex_next lx)) = take n (ahead (skip_space lx))"
    by (auto simp: reads_def)
  with lex_next_progress [OF assms] have "0 < n" by (cases n) auto
  with n assms(1) skip_space_length [of lx] show ?thesis by auto
qed

text \<open>Nontermination\<close>

lemma tokens_from_not_stuck:
  assumes "tokens_from lx = Some r"
  shows "\<not> lex_stuck lx"
proof (rule tokens_from.raw_induct [where P = "\<lambda>lx r. \<not> lex_stuck lx", OF _ assms])
  fix f lx r
  assume IH: "\<And>lx r. f lx = Some r \<Longrightarrow> \<not> lex_stuck lx"
    and eq: "(let t = fst (lex_next lx)
      in if t_kind t = TokenEOF then Some (Inr [t])
         else if t_kind t = TokenOp \<and> t_value t = [] then Some (Inl (UnexpectedCharacter (t_raw t) (t_pos t)))
         else Option.bind (f (snd (lex_next lx)))
                (\<lambda>r. Some (case r of Inl e \<Rightarrow> Inl e | Inr ts \<Rightarrow> Inr (t # ts)))) = Some r"
  show "\<not> lex_stuck lx"
  proof
    assume st: "lex_stuck lx"
    then have "lex_stuck (skip_space lx)" by (simp add: lex_stuck_def)
    moreover from eq obtain r' where "f (skip_space lx) = Some r'"
      by (auto simp: lex_next_stuck [OF st] mk_token_def Let_def bind_eq_Some_conv split: if_splits)
    ultimately show False using IH by blast
  qed
qed

subsection \<open>Termination\<close>

fun has_neg_literal :: "string \<Rightarrow> bool" where
  "has_neg_literal [] = False"
| "has_neg_literal (c # rs) = (neg_literal_start (c # rs) \<or> has_neg_literal rs)"

lemma has_neg_literal_drop: "\<not> has_neg_literal s \<Longrightarrow> \<not> has_neg_literal (drop n s)"
proof (induction n arbitrary: s)
  case (Suc n)
  then show ?case by (cases s) auto
qed simp

lemma neg_start_has: "neg_literal_start s \<Longrightarrow> has_neg_literal s"
  by (cases s) (auto simp: neg_literal_start_def)

lemma not_stuck_if_no_neg: "\<not> has_neg_literal (ahead lx) \<Longrightarrow> \<not> lex_stuck lx"
  using has_neg_literal_drop [of "ahead lx" "length (takeWhile is_space (ahead lx))"]
  by (auto simp: lex_stuck_def dropWhile_eq_drop dest: neg_start_has)

lemma lex_next_ahead_drop: "\<exists>n. ahead (snd (lex_next lx)) = drop n (ahead lx)"
  using lex_next_reads [of lx] by (auto simp: reads_def dropWhile_eq_drop)

lemma tokens_from_returns:
  "\<not> has_neg_literal (ahead lx) \<Longrightarrow> \<exists>r. tokens_from lx = Some r"
proof (induction "length (ahead lx)" arbitrary: lx rule: less_induct)
  case less
  show ?case
  proof (cases "ahead (skip_space lx) = []")
    case True
    then show ?thesis
      by (subst tokens_from.simps) (simp add: Let_def lex_next_eof_iff)
  next
    case False
    have ns: "\<not> lex_stuck lx" using less.prems by (rule not_stuck_if_no_neg)
    obtain n where n: "ahead (snd (lex_next lx)) = drop n (ahead lx)"
      using lex_next_ahead_drop by blast
    have "\<exists>r. tokens_from (snd (lex_next lx)) = Some r"
      using less.hyps [OF lex_next_length [OF False ns]] n has_neg_literal_drop [OF less.prems] by simp
    then show ?thesis
      by (subst tokens_from.simps) (auto simp: Let_def)
  qed
qed

subsection \<open>A token slice tells its input\<close>

fun retells :: "nat \<Rightarrow> string \<Rightarrow> token list \<Rightarrow> bool" where
  "retells p s [] = False"
| "retells p s (t # ts) =
     (let w = length (takeWhile is_space s); r = drop w s; n = length (t_raw t)
      in t_pos t = p + w \<and> t_raw t = take n r
         \<and> (if t_kind t = TokenEOF then r = [] \<and> t_raw t = [] \<and> ts = []
            else 0 < n \<and> retells (p + w + n) (drop n r) ts))"

lemma lex_pos_skip_space: "lex_pos (skip_space lx) = lex_pos lx + length (takeWhile is_space (ahead lx))"
  by (simp add: skip_space_def takeWhile_eq_take [symmetric])

lemma tokens_from_Inr_cases:
  assumes "tokens_from lx = Some (Inr ts)"
  obtains (eof) "ahead (skip_space lx) = []" "ts = [fst (lex_next lx)]"
    | (more) ts' where "ahead (skip_space lx) \<noteq> []" "ts = fst (lex_next lx) # ts'"
        "tokens_from (snd (lex_next lx)) = Some (Inr ts')"
        "length (ahead (snd (lex_next lx))) < length (ahead lx)"
proof (cases "ahead (skip_space lx) = []")
  case True
  with assms show ?thesis
    by (intro eof) (simp_all add: tokens_from.simps [of lx] Let_def lex_next_eof_iff)
next
  case False
  with assms obtain r where "tokens_from (snd (lex_next lx)) = Some r"
    "(case r of Inl e \<Rightarrow> Inl e | Inr ts' \<Rightarrow> Inr (fst (lex_next lx) # ts')) = Inr ts"
    by (auto simp: tokens_from.simps [of lx] Let_def lex_next_eof_iff bind_eq_Some_conv split: if_splits)
  then obtain ts' where "tokens_from (snd (lex_next lx)) = Some (Inr ts')" "ts = fst (lex_next lx) # ts'"
    by (cases r) auto
  with False lex_next_length [OF False tokens_from_not_stuck [OF assms]] show ?thesis
    by (intro more)
qed

lemma tokens_from_retells:
  "tokens_from lx = Some (Inr ts) \<Longrightarrow> retells (lex_pos lx) (ahead lx) ts"
proof (induction "length (ahead lx)" arbitrary: lx ts rule: less_induct)
  case less
  obtain n where n: "n \<le> length (ahead (skip_space lx))" "snd (lex_next lx) = advance n (skip_space lx)"
    "t_raw (fst (lex_next lx)) = take n (ahead (skip_space lx))"
    "t_pos (fst (lex_next lx)) = lex_pos (skip_space lx)"
    using lex_next_reads [of lx] by (auto simp: reads_def)
  have k: "t_kind (fst (lex_next lx)) = TokenEOF \<longleftrightarrow> ahead (skip_space lx) = []"
    by (rule lex_next_eof_iff)
  from less.prems show ?case
  proof (cases rule: tokens_from_Inr_cases)
    case eof
    then have tw: "takeWhile is_space (ahead lx) = ahead lx" by (simp add: takeWhile_eq_all_conv)
    show ?thesis using eof n k by (simp add: tw lex_pos_skip_space Let_def)
  next
    case (more ts')
    have "retells (lex_pos (snd (lex_next lx))) (ahead (snd (lex_next lx))) ts'"
      using more(3) by (rule less.hyps [OF more(4)])
    moreover have "t_raw (fst (lex_next lx)) \<noteq> []"
      using lex_next_progress [OF more(1) tokens_from_not_stuck [OF less.prems]] .
    ultimately show ?thesis
      using more(1,2) n k
      by (auto simp: lex_pos_skip_space dropWhile_eq_drop [symmetric] Let_def min.absorb2 add_ac)
  qed
qed

subsection \<open>Runs of the scanner\<close>

text \<open>
  \<open>lex_steps lx ts lx'\<close>: from \<open>lx\<close> the scanner yields the tokens \<open>ts\<close>, none of which ends the
  loop, and stands at \<open>lx'\<close>.
\<close>

inductive lex_steps :: "lexer \<Rightarrow> token list \<Rightarrow> lexer \<Rightarrow> bool" where
  lex_done: "lex_steps lx [] lx"
| lex_more: "lex_next lx = (t, lx') \<Longrightarrow> t_kind t \<noteq> TokenEOF
     \<Longrightarrow> \<not> (t_kind t = TokenOp \<and> t_value t = []) \<Longrightarrow> lex_steps lx' ts lx''
     \<Longrightarrow> lex_steps lx (t # ts) lx''"

inductive_cases lex_steps_NilE: "lex_steps lx [] lx'"
inductive_cases lex_steps_ConsE: "lex_steps lx (t # ts) lx'"

lemma lex_steps_append:
  "lex_steps lx ts lx' \<Longrightarrow> lex_steps lx' us lx'' \<Longrightarrow> lex_steps lx (ts @ us) lx''"
  by (induction rule: lex_steps.induct) (auto intro: lex_steps.intros)

lemma lex_steps_tokens:
  "lex_steps lx ts lx' \<Longrightarrow> tokens_from lx =
     (case tokens_from lx' of
        None \<Rightarrow> None
      | Some (Inl e) \<Rightarrow> Some (Inl e)
      | Some (Inr us) \<Rightarrow> Some (Inr (ts @ us)))"
proof (induction rule: lex_steps.induct)
  case (lex_done lx)
  show ?case by (auto split: option.split sum.split)
next
  case (lex_more lx t lx' ts lx'')
  then show ?case
    by (subst tokens_from.simps) (auto simp: Let_def split: option.split sum.split)
qed

lemma tokens_from_end:
  "dropWhile is_space (ahead lx) = []
   \<Longrightarrow> tokens_from lx = Some (Inr [mk_token TokenEOF [] [] (lex_pos (skip_space lx))])"
  by (subst tokens_from.simps) (simp add: lex_next_Nil)

lemma tokens_from_stuck: "lex_stuck lx \<Longrightarrow> tokens_from lx = None"
  using tokens_from_not_stuck [of lx] by (cases "tokens_from lx") auto

subsection \<open>Reading names, numbers, operators and quoted literals\<close>

lemma string_body_escape:
  "\<forall>c \<in> set s. code c \<notin> {9, 10, 13}
   \<Longrightarrow> string_body dquote (escape s @ dquote # rest) = (s, length (escape s) + 1)"
proof (induction s)
  case Nil
  then show ?case by (cases rest) (simp_all add: escape_def)
next
  case (Cons c s)
  let ?t = "escape s @ dquote # rest"
  obtain y ys where t: "?t = y # ys" by (cases ?t) auto
  have IH: "string_body dquote (y # ys) = (s, length (escape s) + 1)" using Cons t by simp
  show ?case
    using Cons.prems IH t by (auto simp: escape_def escape_rune_def)
qed

lemma lex_next_literal:
  assumes "\<forall>c \<in> set s. code c \<notin> {9, 10, 13}" and "ahead lx = string_literal s @ rest"
  shows "lex_next lx =
     (\<lparr>t_kind = TokenString, t_value = s, t_raw = string_literal s, t_quote = Some dquote,
       t_pos = lex_pos lx\<rparr>, advance (length (string_literal s)) lx)"
proof -
  have sp: "skip_space lx = lx"
    using assms(2) by (intro skip_space_id) (simp add: string_literal_def is_space_def code_def)
  have "punct_kind dquote = None" by (simp add: punct_kind_def)
  with sp assms string_body_escape [OF assms(1), of rest] show ?thesis
    by (simp add: lex_next_def Let_def scan_string_def string_literal_def)
qed

end
