(* ===== verification/SplReading.thy ===== *)
theory SplReading
  imports SplLexer
begin

text \<open>
  What the scanner reads from written text: one lemma for each kind of token, and \<open>emits\<close>, the
  composition of texts into runs of the scanner. The round-trip proofs of the serializer rest on
  these facts.
\<close>

named_theorems reading \<open>texts and the tokens they are read as\<close>

definition kv :: "token \<Rightarrow> token_kind \<times> string" where
  "kv t = (t_kind t, t_value t)"

definition spaces :: "string \<Rightarrow> bool" where
  "spaces s = list_all is_space s"

lemma kv_mk_token [simp]: "kv (mk_token k v r p) = (k, v)"
  by (simp add: kv_def mk_token_def)

lemma spaces_simps [simp]: "spaces []" "spaces (c # s) = (is_space c \<and> spaces s)"
  by (simp_all add: spaces_def)

lemma is_space_blank [simp]: "is_space (CHR '' '')"
  by (simp add: is_space_def code_def)

lemma skip_spaces:
  assumes "ahead lx = ws @ s" and "spaces ws" and "s = [] \<or> \<not> is_space (hd s)"
  shows "ahead (skip_space lx) = s"
  using assms dropWhile_append_stop [of is_space ws s] by (simp add: spaces_def)

subsection \<open>Single tokens\<close>

lemma code_literals:
  "code CHR ''|'' = 124" "code CHR '','' = 44" "code CHR ''('' = 40" "code CHR '')'' = 41"
  "code CHR ''*'' = 42" "code dquote = 34" "code squote = 39" "code CHR ''-'' = 45"
  "code CHR ''_'' = 95" "code CHR ''@'' = 64" "code CHR '':'' = 58" "code CHR ''='' = 61"
  "code CHR ''!'' = 33" "code CHR ''<'' = 60" "code CHR ''>'' = 62" "code CHR ''.'' = 46"
  by (simp_all add: code_def)

lemma char_eq_code: "c = d \<longleftrightarrow> code c = code d"
  by (auto simp: code_inject)

lemma name_start_code:
  "is_name_start c \<longleftrightarrow> is_letter c \<or> code c = 95 \<or> code c = 64 \<or> code c = 58"
  by (simp add: is_name_start_def char_eq_code code_literals)

lemma letter_code: "is_letter c \<Longrightarrow> 65 \<le> code c \<and> code c \<notin> {95, 124, 133, 160}"
  by (auto simp: is_letter_def is_ascii_letter_def)

lemma name_start_code_range:
  assumes "is_name_start c"
  shows "58 \<le> code c" "code c \<notin> {60, 61, 62, 124, 133, 160}"
  using assms letter_code [of c] by (auto simp: name_start_code)

lemma space_not_name_part:
  assumes "is_space c"
  shows "\<not> is_name_part c"
proof -
  have "code c \<in> {9, 10, 11, 12, 13, 32, 133, 160}" using assms by (auto simp: is_space_def)
  then show ?thesis
    using letter_code [of c]
    by (auto simp: is_name_part_def is_digit_def char_eq_code code_literals)
qed

lemma punct_kind_None:
  "code c \<notin> {124, 44, 40, 41, 42} \<Longrightarrow> punct_kind c = None"
  by (auto simp: punct_kind_def code_literals)

lemma name_start_class:
  assumes "is_name_start c"
  shows "punct_kind c = None" "c \<noteq> dquote" "c \<noteq> squote" "\<not> is_digit c" "c \<noteq> CHR ''-''"
    "\<not> is_space c"
proof -
  note r = name_start_code_range [OF assms]
  show "punct_kind c = None" using r by (intro punct_kind_None) auto
  show "c \<noteq> dquote" "c \<noteq> squote" "c \<noteq> CHR ''-''" using r by (auto simp: code_literals)
  show "\<not> is_digit c" "\<not> is_space c" using r by (auto simp: is_digit_def is_space_def)
qed

lemma digit_class:
  assumes "is_digit c"
  shows "punct_kind c = None" "c \<noteq> dquote" "c \<noteq> squote" "\<not> is_space c"
  using assms punct_kind_None [of c] by (auto simp: is_digit_def is_space_def code_literals)

lemma neg_literal_start_simp: "neg_literal_start (c # rs) \<Longrightarrow> c = CHR ''-''"
  by (auto simp: neg_literal_start_def split: list.splits)

definition name_text :: "string \<Rightarrow> bool" where
  "name_text n = (n \<noteq> [] \<and> is_name_start (hd n) \<and> list_all is_name_part n)"

definition name_ends :: "string \<Rightarrow> bool" where
  "name_ends rest = (rest = [] \<or> \<not> is_name_part (hd rest))"

lemma lex_next_name:
  assumes "ahead lx = ws @ n @ rest" and "spaces ws" and "name_text n" and "name_ends rest"
  shows "\<exists>p lx'. lex_next lx = (mk_token TokenName n n p, lx') \<and> ahead lx' = rest"
proof -
  from assms(3) obtain c cs where n: "n = c # cs" and c: "is_name_start c" "list_all is_name_part n"
    by (cases n) (auto simp: name_text_def)
  have a: "ahead (skip_space lx) = c # cs @ rest"
    using skip_spaces [of lx ws "n @ rest"] assms(1,2) n name_start_class [OF c(1)] by simp
  have t: "takeWhile is_name_part (c # cs @ rest) = n"
    using takeWhile_append_stop [OF c(2), of rest] assms(4) n by (simp add: name_ends_def)
  have "lex_next lx = scan_name (skip_space lx)"
    using a name_start_class [OF c(1)] c(1) neg_literal_start_simp [of c "cs @ rest"]
    by (auto simp: lex_next_def Let_def)
  with a t n show ?thesis by (auto simp: scan_name_def Let_def)
qed

definition number_text :: "string \<Rightarrow> bool" where
  "number_text n = (n \<noteq> [] \<and> is_digit (hd n) \<and> list_all (\<lambda>c. is_digit c \<or> c = CHR ''.'') n)"

definition number_ends :: "string \<Rightarrow> bool" where
  "number_ends rest =
     (rest = [] \<or> \<not> (is_digit (hd rest) \<or> hd rest \<in> set ''.eE''))"

lemma number_len_append:
  "list_all (\<lambda>c. is_digit c \<or> c = CHR ''.'') n \<Longrightarrow> number_ends rest \<Longrightarrow> number_len (n @ rest) = length n"
  by (induction n; cases rest) (auto simp: number_ends_def)

lemma lex_next_number:
  assumes "ahead lx = ws @ n @ rest" and "spaces ws" and "number_text n" and "number_ends rest"
  shows "\<exists>p lx'. lex_next lx = (mk_token TokenNumber n n p, lx') \<and> ahead lx' = rest"
proof -
  from assms(3) obtain c cs where n: "n = c # cs" and c: "is_digit c"
    "list_all (\<lambda>c. is_digit c \<or> c = CHR ''.'') n"
    by (cases n) (auto simp: number_text_def)
  have a: "ahead (skip_space lx) = n @ rest"
    using skip_spaces [of lx ws "n @ rest"] assms(1,2) n digit_class [OF c(1)] by simp
  have "lex_next lx = scan_number (skip_space lx)"
    using a n digit_class [OF c(1)] c(1) by (simp add: lex_next_def Let_def)
  with a number_len_append [OF c(2) assms(4)] show ?thesis by (auto simp: scan_number_def Let_def)
qed

lemma lex_next_punct:
  assumes "ahead lx = ws @ c # rest" and "spaces ws" and "punct_kind c = Some k"
  shows "\<exists>p lx'. lex_next lx = (mk_token k [c] [c] p, lx') \<and> ahead lx' = rest"
proof -
  have "\<not> is_space c"
    using assms(3) by (auto simp: punct_kind_def is_space_def code_def split: if_splits)
  then have a: "ahead (skip_space lx) = c # rest"
    using skip_spaces [of lx ws "c # rest"] assms(1,2) by simp
  then have "lex_next lx = (mk_token k [c] [c] (lex_pos (skip_space lx)), advance 1 (skip_space lx))"
    using assms(3) by (simp add: lex_next_def Let_def)
  with a show ?thesis by auto
qed

definition comparators :: "string list" where
  "comparators = [''='', ''!='', ''<'', ''<='', ''>'', ''>='']"

definition op_ends :: "string \<Rightarrow> bool" where
  "op_ends rest = (rest \<noteq> [] \<and> hd rest \<noteq> CHR ''='' \<and> hd rest \<noteq> CHR ''>'')"

lemma operator_at_comparator:
  assumes "oper \<in> set comparators" and "op_ends rest"
  shows "operator_at (oper @ rest) = (length oper, oper)"
proof -
  from assms(2) obtain d ds where r: "rest = d # ds" and d: "d \<noteq> CHR ''=''" "d \<noteq> CHR ''>''"
    by (cases rest) (auto simp: op_ends_def)
  from assms(1) consider "oper = ''=''" | "oper = ''!=''" | "oper = ''<''" | "oper = ''<=''"
    | "oper = ''>''" | "oper = ''>=''"
    by (auto simp: comparators_def)
  then show ?thesis
    by cases (simp_all add: r d operator_at_def Let_def numeral_2_eq_2)
qed

lemma comparator_head:
  assumes "oper \<in> set comparators"
  obtains c cs where "oper = c # cs" "punct_kind c = None" "c \<noteq> dquote" "c \<noteq> squote" "\<not> is_digit c"
    "\<not> is_name_start c" "c \<noteq> CHR ''-''" "\<not> is_space c"
proof -
  from assms obtain c cs where o: "oper = c # cs" and c: "c = CHR ''='' \<or> c = CHR ''!'' \<or> c = CHR ''<'' \<or> c = CHR ''>''"
    by (auto simp: comparators_def)
  then have k: "code c \<in> {33, 60, 61, 62}" by (auto simp: code_literals)
  have "punct_kind c = None" using k by (intro punct_kind_None) auto
  moreover have "\<not> is_name_start c" using k name_start_code_range [of c] by auto
  moreover have "\<not> is_digit c" "\<not> is_space c" using k by (auto simp: is_digit_def is_space_def)
  ultimately show ?thesis using o c by (intro that) auto
qed

lemma comparator_ends_name:
  assumes "oper \<in> set comparators"
  shows "name_ends (oper @ rest)"
proof -
  obtain c cs where "oper = c # cs" "\<not> is_name_start c" "c \<noteq> CHR ''-''" "\<not> is_digit c"
    using comparator_head [OF assms] .
  moreover have "c \<noteq> CHR ''.''"
    using assms \<open>oper = c # cs\<close> by (auto simp: comparators_def)
  moreover have "\<not> is_letter c" "c \<noteq> CHR ''_''" "c \<noteq> CHR ''@''" "c \<noteq> CHR '':''"
    using \<open>\<not> is_name_start c\<close> by (simp_all add: is_name_start_def)
  ultimately have "\<not> is_name_part c" unfolding is_name_part_def by blast
  then show ?thesis using \<open>oper = c # cs\<close> by (simp add: name_ends_def)
qed

lemma spaces_end_name:
  assumes "spaces ws" and "name_ends rest"
  shows "name_ends (ws @ rest)"
  using assms space_not_name_part by (cases ws) (auto simp: name_ends_def)

lemma spaces_end_op:
  assumes "spaces ws" and "op_ends rest"
  shows "op_ends (ws @ rest)"
  using assms by (cases ws) (auto simp: op_ends_def is_space_def code_def)

lemma lex_next_comparator:
  assumes "ahead lx = ws @ oper @ rest" and "spaces ws" and "oper \<in> set comparators" and "op_ends rest"
  shows "\<exists>p lx'. lex_next lx = (mk_token TokenOp oper oper p, lx') \<and> ahead lx' = rest"
proof -
  obtain c cs where o: "oper = c # cs" and c: "punct_kind c = None" "c \<noteq> dquote" "c \<noteq> squote"
    "\<not> is_digit c" "\<not> is_name_start c" "c \<noteq> CHR ''-''" "\<not> is_space c"
    using comparator_head [OF assms(3)] .
  have a: "ahead (skip_space lx) = oper @ rest"
    using skip_spaces [of lx ws "oper @ rest"] assms(1,2) o c by simp
  have "lex_next lx = scan_operator (skip_space lx)"
    using a o c neg_literal_start_simp [of c "cs @ rest"] by (auto simp: lex_next_def Let_def)
  with a operator_at_comparator [OF assms(3,4)] show ?thesis
    by (auto simp: scan_operator_def)
qed

text \<open>Texts without tab, newline and carriage return: the ones a quoted literal keeps.\<close>

definition plain_text :: "string \<Rightarrow> bool" where
  "plain_text s = list_all (\<lambda>c. code c \<notin> {9, 10, 13}) s"

lemma plain_text_iff: "plain_text s \<longleftrightarrow> (\<forall>c \<in> set s. code c \<notin> {9, 10, 13})"
  by (simp add: plain_text_def list_all_iff)

lemma lex_next_string:
  assumes "ahead lx = ws @ string_literal s @ rest" and "spaces ws" and "plain_text s"
  shows "\<exists>t lx'. lex_next lx = (t, lx') \<and> kv t = (TokenString, s) \<and> ahead lx' = rest"
proof -
  have "\<not> is_space dquote" by (simp add: is_space_def code_def)
  then have a: "ahead (skip_space lx) = string_literal s @ rest"
    using skip_spaces [of lx ws "string_literal s @ rest"] assms(1,2) by (simp add: string_literal_def)
  have "lex_next (skip_space lx) = lex_next lx" by (simp add: lex_next_def)
  with lex_next_literal [OF assms(3) [unfolded plain_text_iff] a] a show ?thesis by (simp add: kv_def)
qed

lemma lex_next_input:
  assumes "lex_next lx = (t, lx')"
  shows "rev (seen lx') @ ahead lx' = rev (seen lx) @ ahead lx"
proof -
  have adv: "rev (seen (advance n l)) @ ahead (advance n l) = rev (seen l) @ ahead l" for n l
    by simp
  from lex_next_reads [of lx] assms obtain n where "lx' = advance n (skip_space lx)"
    by (auto simp: reads_def)
  then show ?thesis by (simp only: adv skip_space_def)
qed

subsection \<open>A negative number after a comparison\<close>

lemma negative_after_operator_stuck:
  assumes "ahead lx = ws @ CHR ''-'' # d # rest" and "spaces ws" and "is_digit d \<or> d = CHR ''.''"
    and "seen lx = rev oper @ s" and "oper \<in> set comparators"
  shows "lex_stuck lx"
proof -
  have sp: "\<not> is_space (CHR ''-'')" by (simp add: is_space_def code_def)
  have "ahead (skip_space lx) = CHR ''-'' # d # rest"
    using skip_spaces [of lx ws "CHR ''-'' # d # rest"] assms(1,2) sp by simp
  moreover have "takeWhile is_space (ahead lx) = ws"
    using assms(1,2) sp by (simp add: spaces_def takeWhile_append_stop)
  then have "seen (skip_space lx) = rev ws @ rev oper @ s"
    using assms(1,4) by (simp add: skip_space_def)
  moreover have "dropWhile is_space (rev ws @ rev oper @ s) = rev oper @ s"
  proof -
    have "rev oper @ s = [] \<or> \<not> is_space (hd (rev oper @ s))"
      using assms(5) by (auto simp: comparators_def is_space_def code_def)
    then show ?thesis
      using dropWhile_append_stop [of is_space "rev ws" "rev oper @ s"] assms(2)
      by (simp add: spaces_def)
  qed
  moreover have "\<exists>c cs. rev oper @ s = c # cs \<and> c \<in> set ''(,|=!<>+-*/%&''"
    using assms(5) by (auto simp: comparators_def)
  ultimately show ?thesis
    using assms(3) by (auto simp: lex_stuck_def neg_literal_start_def prev_allows_negative_def)
qed

section \<open>Properties\<close>

text \<open>
  C27. A token slice tells its input: when \<^verbatim>\<open>Tokenize\<close> returns tokens, every token carries the
  position where it starts and exactly the runes it was read from, what lies between two tokens
  is white space, every token but the last is nonempty, and the last, and only the last, is the
  end token at the end of the input.
\<close>

theorem tokenize_retells:
  assumes "tokenize input = Some (Inr ts)"
  shows "retells 0 input ts"
  using tokens_from_retells [of "new_lexer input" ts] assms
  by (simp add: tokenize_def new_lexer_def)

theorem tokenize_retells_witness:
  "tokenize ''a <> 5'' = Some (Inr [mk_token TokenName ''a'' ''a'' 0, mk_token TokenOp ''!='' ''<>'' 2,
      mk_token TokenNumber ''5'' ''5'' 5, mk_token TokenEOF [] [] 6])
   \<and> retells 0 ''a <> 5'' [mk_token TokenName ''a'' ''a'' 0, mk_token TokenOp ''!='' ''<>'' 2,
      mk_token TokenNumber ''5'' ''5'' 5, mk_token TokenEOF [] [] 6]"
proof -
  have t: "tokenize ''a <> 5'' = Some (Inr [mk_token TokenName ''a'' ''a'' 0,
      mk_token TokenOp ''!='' ''<>'' 2, mk_token TokenNumber ''5'' ''5'' 5, mk_token TokenEOF [] [] 6])"
    by code_simp
  show ?thesis by (rule conjI [OF t tokenize_retells [OF t]])
qed

text \<open>
  C28. \<^verbatim>\<open>Tokenize\<close> returns on every input in which no minus sign stands directly before a digit or
  a dot.
\<close>

theorem tokenize_returns:
  assumes "\<not> has_neg_literal input"
  shows "\<exists>r. tokenize input = Some r"
  using tokens_from_returns [of "new_lexer input"] assms
  by (simp add: tokenize_def new_lexer_def)

theorem tokenize_returns_witness:
  "\<not> has_neg_literal ''sort -count'' \<and> (\<exists>r. tokenize ''sort -count'' = Some r)"
proof -
  have h: "\<not> has_neg_literal ''sort -count''" by code_simp
  show ?thesis by (rule conjI [OF h tokenize_returns [OF h]])
qed

text \<open>
  C29. \<^verbatim>\<open>Tokenize\<close> does not return on a comparison with a negative number: after a field name, a
  comparison operator and optional white space, \<^verbatim>\<open>scanNumber\<close> is entered at the minus sign, reads
  no rune and leaves the position unchanged, so the loop appends empty number tokens for ever.
\<close>

theorem tokenize_diverges_on_negative_number:
  assumes "name_text n" and "spaces ws" and "oper \<in> set comparators" and "spaces ws'"
    and "is_digit d \<or> d = CHR ''.''"
  shows "tokenize (n @ ws @ oper @ ws' @ CHR ''-'' # d # rest) = None"
proof -
  let ?tail = "ws' @ CHR ''-'' # d # rest"
  let ?lx = "new_lexer (n @ ws @ oper @ ?tail)"
  have ends: "name_ends (ws @ oper @ ?tail)"
    using assms(2) comparator_ends_name [OF assms(3)] by (rule spaces_end_name)
  obtain p lx1 where 1: "lex_next ?lx = (mk_token TokenName n n p, lx1)" "ahead lx1 = ws @ oper @ ?tail"
    using lex_next_name [of ?lx "[]" n, OF _ _ assms(1) ends] by (auto simp: new_lexer_def)
  have oe: "op_ends ?tail" using assms(4) by (rule spaces_end_op) (simp add: op_ends_def)
  obtain q lx2 where 2: "lex_next lx1 = (mk_token TokenOp oper oper q, lx2)" "ahead lx2 = ?tail"
    using lex_next_comparator [OF 1(2) assms(2,3) oe] by auto
  have "rev (seen lx2) @ ?tail = n @ ws @ oper @ ?tail"
    using lex_next_input [OF 1(1)] lex_next_input [OF 2(1)] 2(2) by (simp add: new_lexer_def)
  then have "rev (rev (seen lx2)) = rev (n @ ws @ oper)" by simp
  then have "seen lx2 = rev oper @ rev (n @ ws)" by simp
  from negative_after_operator_stuck [OF 2(2) assms(4,5) this assms(3)]
  have "tokens_from lx2 = None" by (rule tokens_from_stuck)
  moreover have "lex_steps ?lx [mk_token TokenName n n p, mk_token TokenOp oper oper q] lx2"
  proof (rule lex_more [OF 1(1)], simp_all, rule lex_more [OF 2(1)], simp_all add: lex_done)
    show "t_value (mk_token TokenOp oper oper q) \<noteq> []"
      using comparator_head [OF assms(3)] by (auto simp: mk_token_def)
  qed
  ultimately show ?thesis by (simp add: tokenize_def lex_steps_tokens)
qed

theorem tokenize_diverges_witness:
  "name_text ''bytes'' \<and> spaces [] \<and> ''>'' \<in> set comparators \<and> is_digit (CHR ''5'')
   \<and> tokenize (''bytes'' @ [] @ ''>'' @ [] @ CHR ''-'' # CHR ''5'' # []) = None"
proof -
  have n: "name_text ''bytes''" by code_simp
  have o: "''>'' \<in> set comparators" by code_simp
  have d: "is_digit (CHR ''5'')" by code_simp
  have s: "spaces []" by simp
  show ?thesis
    by (intro conjI n o d s tokenize_diverges_on_negative_number [OF n s o s disjI1 [OF d]])
qed

text \<open>
  A quoted literal reads back as the text it was written for: \<^verbatim>\<open>StringLiteral\<close> followed by
  \<^verbatim>\<open>Tokenize\<close> gives one string token with that value, for every text without tab, newline and
  carriage return (the escapes of these three have no counterpart in \<^verbatim>\<open>scanString\<close>).
\<close>

theorem string_literal_roundtrip:
  assumes "plain_text s"
  shows "\<exists>t e. tokenize (string_literal s) = Some (Inr [t, e])
     \<and> t_kind t = TokenString \<and> t_value t = s \<and> t_quote t = Some dquote \<and> t_kind e = TokenEOF"
proof -
  let ?lx = "new_lexer (string_literal s)"
  let ?lx' = "advance (length (string_literal s)) ?lx"
  have a: "ahead ?lx = string_literal s @ []" by (simp add: new_lexer_def)
  note n = lex_next_literal [OF assms [unfolded plain_text_iff] a]
  have "tokens_from ?lx' = Some (Inr [mk_token TokenEOF [] [] (lex_pos (skip_space ?lx'))])"
    by (rule tokens_from_end) (simp add: new_lexer_def)
  then show ?thesis
    unfolding tokenize_def by (subst tokens_from.simps) (simp add: n Let_def)
qed

theorem string_literal_roundtrip_witness:
  "plain_text [CHR ''a'', dquote, backslash]
   \<and> (\<exists>t e. tokenize (string_literal [CHR ''a'', dquote, backslash]) = Some (Inr [t, e])
     \<and> t_kind t = TokenString \<and> t_value t = [CHR ''a'', dquote, backslash]
     \<and> t_quote t = Some dquote \<and> t_kind e = TokenEOF)"
proof -
  have h: "plain_text [CHR ''a'', dquote, backslash]" by code_simp
  show ?thesis by (rule conjI [OF h string_literal_roundtrip [OF h]])
qed

text \<open>
  The three escapes that do not read back: for a text holding a newline, the value of the
  token read from its literal is not the text.
\<close>

theorem newline_literal_changes:
  "\<exists>t e. tokenize (string_literal [CHR ''a'', CHR 0x0A]) = Some (Inr [t, e])
     \<and> t_kind t = TokenString \<and> t_value t \<noteq> [CHR ''a'', CHR 0x0A]"
proof -
  have "tokenize (string_literal [CHR ''a'', CHR 0x0A]) =
    Some (Inr [\<lparr>t_kind = TokenString, t_value = [CHR ''a'', backslash, CHR ''n''],
      t_raw = [dquote, CHR ''a'', backslash, CHR ''n'', dquote], t_quote = Some dquote, t_pos = 0\<rparr>,
      mk_token TokenEOF [] [] 5])"
    by code_simp
  then show ?thesis by (intro exI conjI) (assumption, simp_all)
qed

end
