(* ===== verification/SplAst.thy ===== *)
theory SplAst
  imports Prelude
begin

text \<open>
  The SPL syntax tree, \<^verbatim>\<open>internal/spl/ast/ast.go\<close>, and what \<^verbatim>\<open>internal/spl/ast/command.go\<close>
  does with it: the command registry, the wire envelope of the visual builder, validation, and
  the search-first repair.

  \<open>expr\<close> has one constructor for each \<^verbatim>\<open>Kind\<close> of the Go struct, \<open>node\<close> one for each node type.
  Sub-expressions are present (no nil child). A Go map is an association list; its order is the
  iteration order, which Go leaves open, so a lemma over all lists covers every order. The JSON
  text itself is not modelled: \<open>node_to_wire\<close> and \<open>wire_to_node\<close> meet in the envelope record
  that \<^verbatim>\<open>encoding/json\<close> carries unchanged (empty and absent slices being the same list).
\<close>

section \<open>Expressions and nodes\<close>

type_synonym smap = "(string \<times> string) list"

datatype expr =
    EAnd "expr list"
  | EOr "expr list"
  | ENot expr
  | ECmp string string string
  | EIn string bool "string list"
  | EIsNull string bool
  | ELike string bool string
  | EText string string
  | EOther string

record condition =
  c_field :: string
  c_operator :: string
  c_value :: string

record aggregation =
  a_function :: string
  a_field :: string
  a_alias :: string

record sort_field =
  sf_field :: string
  sf_desc :: bool

record rename_pair =
  rp_from :: string
  rp_to :: string

record eval_assignment =
  ea_field :: string
  ea_expr :: string

datatype node =
    SearchNode smap string "expr option"
  | WhereNode "condition list" "expr option"
  | EvalNode string string "eval_assignment list"
  | FieldsNode bool "string list"
  | TableNode "string list"
  | RenameNode smap "rename_pair list"
  | StatsNode "aggregation list" "string list"
  | TimechartNode aggregation string "string list"
  | SortNode "sort_field list"
  | HeadNode int
  | TailNode int
  | DedupNode string
  | RexNode string string string string
  | BinNode string string
  | LookupNode string string "string list" bool
  | EventstatsNode "aggregation list" "string list"
  | StreamstatsNode "aggregation list" "string list" int
  | UnsupportedNode string string

record query =
  q_version :: int
  q_commands :: "node list"

definition search_of :: "query \<Rightarrow> node option" where
  "search_of q =
     (case q_commands q of
        SearchNode f t e # _ \<Rightarrow> Some (SearchNode f t e)
      | _ \<Rightarrow> None)"

definition mk_agg :: "string \<Rightarrow> string \<Rightarrow> string \<Rightarrow> aggregation" where
  "mk_agg f fld al = \<lparr>a_function = f, a_field = fld, a_alias = al\<rparr>"

definition mk_cond :: "string \<Rightarrow> string \<Rightarrow> string \<Rightarrow> condition" where
  "mk_cond f oper v = \<lparr>c_field = f, c_operator = oper, c_value = v\<rparr>"

section \<open>The command registry\<close>

fun command_type :: "node \<Rightarrow> string" where
  "command_type (SearchNode _ _ _) = ''search''"
| "command_type (WhereNode _ _) = ''where''"
| "command_type (EvalNode _ _ _) = ''eval''"
| "command_type (FieldsNode _ _) = ''fields''"
| "command_type (TableNode _) = ''table''"
| "command_type (RenameNode _ _) = ''rename''"
| "command_type (StatsNode _ _) = ''stats''"
| "command_type (TimechartNode _ _ _) = ''timechart''"
| "command_type (SortNode _) = ''sort''"
| "command_type (HeadNode _) = ''head''"
| "command_type (TailNode _) = ''tail''"
| "command_type (DedupNode _) = ''dedup''"
| "command_type (RexNode _ _ _ _) = ''rex''"
| "command_type (BinNode _ _) = ''bin''"
| "command_type (LookupNode _ _ _ _) = ''lookup''"
| "command_type (EventstatsNode _ _) = ''eventstats''"
| "command_type (StreamstatsNode _ _ _) = ''streamstats''"
| "command_type (UnsupportedNode _ _) = ''unsupported''"

definition supported_commands :: "string list" where
  "supported_commands =
     [''search'', ''where'', ''eval'', ''fields'', ''table'', ''rename'', ''stats'', ''timechart'',
      ''sort'', ''head'', ''tail'', ''dedup'', ''rex'', ''bin'', ''lookup'', ''eventstats'',
      ''streamstats'']"

definition is_supported_command :: "string \<Rightarrow> bool" where
  "is_supported_command n = (n \<in> set supported_commands)"

fun unsupported_of :: "node \<Rightarrow> string list" where
  "unsupported_of (UnsupportedNode name raw) =
     (if name \<noteq> [] then [name]
      else if is_supported_command ''unsupported'' then [] else [''unsupported''])"
| "unsupported_of n =
     (if is_supported_command (command_type n) then [] else [command_type n])"

definition unsupported_commands :: "query \<Rightarrow> string list" where
  "unsupported_commands q = concat (map unsupported_of (q_commands q))"

definition supported :: "query \<Rightarrow> bool" where
  "supported q = (unsupported_commands q = [])"

section \<open>Conditions and expressions\<close>

fun conds_to_expr :: "condition list \<Rightarrow> expr option" where
  "conds_to_expr [] = None"
| "conds_to_expr [c] = Some (ECmp (c_field c) (c_operator c) (c_value c))"
| "conds_to_expr cs = Some (EAnd (map (\<lambda>c. ECmp (c_field c) (c_operator c) (c_value c)) cs))"

fun walk_conds :: "expr \<Rightarrow> condition list option"
  and walk_conds_list :: "expr list \<Rightarrow> condition list option" where
  "walk_conds (ECmp f oper v) = Some [mk_cond f oper v]"
| "walk_conds (EAnd args) = walk_conds_list args"
| "walk_conds (EOr _) = None"
| "walk_conds (ENot _) = None"
| "walk_conds (EIn _ _ _) = None"
| "walk_conds (EIsNull _ _) = None"
| "walk_conds (ELike _ _ _) = None"
| "walk_conds (EText _ _) = None"
| "walk_conds (EOther _) = None"
| "walk_conds_list [] = Some []"
| "walk_conds_list (a # as) =
     (case walk_conds a of
        None \<Rightarrow> None
      | Some cs \<Rightarrow> (case walk_conds_list as of None \<Rightarrow> None | Some ds \<Rightarrow> Some (cs @ ds)))"

definition expr_to_conds :: "expr option \<Rightarrow> condition list" where
  "expr_to_conds e =
     (case e of
        None \<Rightarrow> []
      | Some x \<Rightarrow> (case walk_conds x of None \<Rightarrow> [] | Some cs \<Rightarrow> cs))"

section \<open>The wire envelope\<close>

record wire_command =
  w_type :: string
  w_text :: string
  w_fields :: smap
  w_expr :: "expr option"
  w_conditions :: "condition list"
  w_assignments :: "eval_assignment list"
  w_include :: "bool option"
  w_columns :: "string list"
  w_mappings :: "rename_pair list"
  w_aggs :: "aggregation list"
  w_groupby :: "string list"
  w_span :: string
  w_agg :: "aggregation option"
  w_sort :: "sort_field list"
  w_n :: int
  w_field :: string
  w_window :: int
  w_lookup :: string
  w_outputfields :: "string list"
  w_append :: bool
  w_pattern :: string
  w_alias :: string
  w_mode :: string
  w_name :: string
  w_raw :: string

definition empty_wire :: "string \<Rightarrow> wire_command" where
  "empty_wire ty =
     \<lparr>w_type = ty, w_text = [], w_fields = [], w_expr = None, w_conditions = [],
      w_assignments = [], w_include = None, w_columns = [], w_mappings = [], w_aggs = [],
      w_groupby = [], w_span = [], w_agg = None, w_sort = [], w_n = 0, w_field = [],
      w_window = 0, w_lookup = [], w_outputfields = [], w_append = False, w_pattern = [],
      w_alias = [], w_mode = [], w_name = [], w_raw = []\<rparr>"

definition rename_pairs :: "smap \<Rightarrow> rename_pair list \<Rightarrow> rename_pair list" where
  "rename_pairs m ps =
     (if ps \<noteq> [] then ps else map (\<lambda>(f, t). \<lparr>rp_from = f, rp_to = t\<rparr>) m)"

text \<open>The assignments of an eval node: the list, or the classic field and expression.\<close>

definition eval_assignments :: "string \<Rightarrow> string \<Rightarrow> eval_assignment list \<Rightarrow> eval_assignment list" where
  "eval_assignments f e as =
     (if as = [] \<and> f \<noteq> [] then [\<lparr>ea_field = f, ea_expr = e\<rparr>] else as)"

fun node_to_wire :: "node \<Rightarrow> wire_command" where
  "node_to_wire (SearchNode f t e) =
     (empty_wire ''search'')\<lparr>w_text := t, w_fields := f, w_expr := e\<rparr>"
| "node_to_wire (WhereNode cs e) = (empty_wire ''where'')\<lparr>w_expr := e, w_conditions := cs\<rparr>"
| "node_to_wire (EvalNode f e as) =
     (empty_wire ''eval'')\<lparr>w_assignments := eval_assignments f e as\<rparr>"
| "node_to_wire (FieldsNode inc fs) =
     (empty_wire ''fields'')\<lparr>w_include := Some inc, w_columns := fs\<rparr>"
| "node_to_wire (TableNode fs) = (empty_wire ''table'')\<lparr>w_columns := fs\<rparr>"
| "node_to_wire (RenameNode m ps) = (empty_wire ''rename'')\<lparr>w_mappings := rename_pairs m ps\<rparr>"
| "node_to_wire (StatsNode as g) = (empty_wire ''stats'')\<lparr>w_aggs := as, w_groupby := g\<rparr>"
| "node_to_wire (TimechartNode a sp g) =
     (empty_wire ''timechart'')\<lparr>w_span := sp, w_agg := Some a, w_groupby := g\<rparr>"
| "node_to_wire (SortNode fs) = (empty_wire ''sort'')\<lparr>w_sort := fs\<rparr>"
| "node_to_wire (HeadNode n) = (empty_wire ''head'')\<lparr>w_n := n\<rparr>"
| "node_to_wire (TailNode n) = (empty_wire ''tail'')\<lparr>w_n := n\<rparr>"
| "node_to_wire (DedupNode f) = (empty_wire ''dedup'')\<lparr>w_field := f\<rparr>"
| "node_to_wire (RexNode f p r m) =
     (empty_wire ''rex'')\<lparr>w_field := f, w_pattern := p, w_alias := r, w_mode := m\<rparr>"
| "node_to_wire (BinNode f s) = (empty_wire ''bin'')\<lparr>w_field := f, w_span := s\<rparr>"
| "node_to_wire (LookupNode l i os ap) =
     (empty_wire ''lookup'')\<lparr>w_lookup := l, w_field := i, w_outputfields := os, w_append := ap\<rparr>"
| "node_to_wire (EventstatsNode as g) =
     (empty_wire ''eventstats'')\<lparr>w_aggs := as, w_groupby := g\<rparr>"
| "node_to_wire (StreamstatsNode as g w) =
     (empty_wire ''streamstats'')\<lparr>w_aggs := as, w_groupby := g, w_window := w\<rparr>"
| "node_to_wire (UnsupportedNode n r) =
     (empty_wire ''unsupported'')\<lparr>w_name := n, w_raw := r\<rparr>"

text \<open>A map literal filled in a loop: a later pair overwrites an earlier one.\<close>

fun smap_put :: "smap \<Rightarrow> string \<Rightarrow> string \<Rightarrow> smap" where
  "smap_put [] k v = [(k, v)]"
| "smap_put ((k', v') # m) k v = (if k' = k then (k, v) # m else (k', v') # smap_put m k v)"

definition smap_of_pairs :: "rename_pair list \<Rightarrow> smap" where
  "smap_of_pairs ps = foldl (\<lambda>m p. smap_put m (rp_from p) (rp_to p)) [] ps"

datatype wire_error = EvalNeedsAssignment | UnknownCommandType string

definition wire_to_node :: "wire_command \<Rightarrow> wire_error + node" where
  "wire_to_node w =
     (let k = w_type w
      in if k = ''search'' \<or> k = [] then Inr (SearchNode (w_fields w) (w_text w) (w_expr w))
         else if k = ''where'' then
           (let e = (if w_expr w = None \<and> w_conditions w \<noteq> []
                     then conds_to_expr (w_conditions w) else w_expr w);
                cs = (if w_conditions w = [] then expr_to_conds e else w_conditions w)
            in Inr (WhereNode cs e))
         else if k = ''eval'' then
           (case w_assignments w of
              [] \<Rightarrow> Inl EvalNeedsAssignment
            | a # _ \<Rightarrow> Inr (EvalNode (ea_field a) (ea_expr a) (w_assignments w)))
         else if k = ''fields'' then
           Inr (FieldsNode (case w_include w of None \<Rightarrow> True | Some b \<Rightarrow> b) (w_columns w))
         else if k = ''table'' then Inr (TableNode (w_columns w))
         else if k = ''rename'' then
           Inr (RenameNode (smap_of_pairs (w_mappings w)) (w_mappings w))
         else if k = ''stats'' then Inr (StatsNode (w_aggs w) (w_groupby w))
         else if k = ''timechart'' then
           Inr (TimechartNode (case w_agg w of None \<Rightarrow> mk_agg ''count'' ''*'' [] | Some a \<Rightarrow> a)
                  (w_span w) (w_groupby w))
         else if k = ''sort'' then Inr (SortNode (w_sort w))
         else if k = ''head'' then Inr (HeadNode (w_n w))
         else if k = ''tail'' then Inr (TailNode (w_n w))
         else if k = ''dedup'' then Inr (DedupNode (w_field w))
         else if k = ''rex'' then
           Inr (RexNode (w_field w) (w_pattern w) (w_alias w) (w_mode w))
         else if k = ''bin'' then Inr (BinNode (w_field w) (w_span w))
         else if k = ''lookup'' then
           Inr (LookupNode (w_lookup w) (w_field w) (w_outputfields w) (w_append w))
         else if k = ''eventstats'' then Inr (EventstatsNode (w_aggs w) (w_groupby w))
         else if k = ''streamstats'' then
           Inr (StreamstatsNode (w_aggs w) (w_groupby w) (w_window w))
         else if k = ''unsupported'' then Inr (UnsupportedNode (w_name w) (w_raw w))
         else Inl (UnknownCommandType k))"

text \<open>\<^verbatim>\<open>MarshalJSON\<close> and \<^verbatim>\<open>UnmarshalJSON\<close> up to the JSON text: version and envelopes.\<close>

definition default_version :: "int \<Rightarrow> int" where
  "default_version v = (if v = 0 then 1 else v)"

definition marshal_query :: "query \<Rightarrow> int \<times> wire_command list" where
  "marshal_query q = (default_version (q_version q), map node_to_wire (q_commands q))"

fun wires_to_nodes :: "wire_command list \<Rightarrow> wire_error + node list" where
  "wires_to_nodes [] = Inr []"
| "wires_to_nodes (w # ws) =
     (case wire_to_node w of
        Inl e \<Rightarrow> Inl e
      | Inr n \<Rightarrow> (case wires_to_nodes ws of Inl e \<Rightarrow> Inl e | Inr ns \<Rightarrow> Inr (n # ns)))"

definition unmarshal_query :: "int \<times> wire_command list \<Rightarrow> wire_error + query" where
  "unmarshal_query x =
     (case wires_to_nodes (snd x) of
        Inl e \<Rightarrow> Inl e
      | Inr ns \<Rightarrow> Inr \<lparr>q_version = default_version (fst x), q_commands = ns\<rparr>)"

section \<open>Validation\<close>

record validation_error =
  ve_component :: string
  ve_message :: string

definition verr :: "string \<Rightarrow> string \<Rightarrow> validation_error" where
  "verr c m = \<lparr>ve_component = c, ve_message = m\<rparr>"

definition supported_aggs :: "string list" where
  "supported_aggs =
     [''count'', ''sum'', ''avg'', ''min'', ''max'', ''dc'', ''distinct_count'', ''values'', ''list'']"

fun aggs_of :: "node \<Rightarrow> aggregation list" where
  "aggs_of (StatsNode as _) = as"
| "aggs_of (EventstatsNode as _) = as"
| "aggs_of (StreamstatsNode as _ _) = as"
| "aggs_of (TimechartNode a _ _) = (if trim_space (a_function a) = [] then [] else [a])"
| "aggs_of _ = []"

definition validate_agg :: "string \<Rightarrow> aggregation \<Rightarrow> validation_error list" where
  "validate_agg component a =
     (let fn = to_lower (trim_space (a_function a))
      in if fn = [] then [verr component ''an aggregation is missing a function'']
         else if fn \<notin> set supported_aggs
         then [verr component (''unsupported aggregation function: '' @ a_function a)]
         else if trim_space (a_field a) = [] \<and> fn \<noteq> ''count''
         then [verr component (fn @ ''() needs a field'')]
         else [])"

definition validate_assignment :: "eval_assignment \<Rightarrow> validation_error list" where
  "validate_assignment a =
     (if trim_space (ea_field a) = []
      then [verr ''eval'' ''an eval assignment is missing a field name''] else [])
     @ (if trim_space (ea_expr a) = []
        then [verr ''eval'' (''eval assignment for '' @ ea_field a @ '' is missing an expression'')]
        else [])"

definition validate_aggs :: "string \<Rightarrow> aggregation list \<Rightarrow> validation_error list" where
  "validate_aggs component as =
     (if as = [] then [verr component (component @ '' needs at least one aggregation'')] else [])
     @ concat (map (validate_agg component) as)"

fun validate_node :: "node \<Rightarrow> validation_error list" where
  "validate_node (SearchNode _ _ _) = []"
| "validate_node (WhereNode cs e) =
     (if e = None \<and> cs = [] then [verr ''where'' ''a where command needs an expression''] else [])"
| "validate_node (EvalNode f e as) =
     (let asg = eval_assignments f e as
      in (if asg = [] then [verr ''eval'' ''an eval command needs at least one field=expression'']
          else []) @ concat (map validate_assignment asg))"
| "validate_node (StatsNode as g) = validate_aggs ''stats'' as"
| "validate_node (EventstatsNode as g) = validate_aggs ''eventstats'' as"
| "validate_node (StreamstatsNode as g w) = validate_aggs ''streamstats'' as"
| "validate_node (TimechartNode a sp g) =
     (let as = aggs_of (TimechartNode a sp g)
      in (if as = [] then [verr ''timechart'' ''timechart needs an aggregation (e.g. count)''] else [])
         @ concat (map (validate_agg ''timechart'') as))"
| "validate_node (SortNode fs) =
     (if fs = [] then [verr ''sort'' ''sort needs at least one field''] else [])"
| "validate_node (HeadNode n) =
     (if n < 0 then [verr ''head'' ''head count cannot be negative''] else [])"
| "validate_node (TailNode n) =
     (if n < 0 then [verr ''tail'' ''tail count cannot be negative''] else [])"
| "validate_node (DedupNode f) =
     (if trim_space f = [] then [verr ''dedup'' ''dedup needs a field''] else [])"
| "validate_node (TableNode fs) =
     (if fs = [] then [verr ''table'' ''table needs at least one column''] else [])"
| "validate_node (FieldsNode inc fs) =
     (if fs = [] then [verr ''fields'' ''fields needs at least one field''] else [])"
| "validate_node (RenameNode m ps) =
     (if m = [] \<and> ps = [] then [verr ''rename'' ''rename needs at least one from->to pair''] else [])"
| "validate_node (RexNode f p r m) =
     (if trim_space p = [] then [verr ''rex'' ''rex needs a regular expression''] else [])"
| "validate_node (BinNode f s) =
     (if trim_space f = [] then [verr ''bin'' ''bin needs a field''] else [])"
| "validate_node (LookupNode l i os ap) = []"
| "validate_node (UnsupportedNode n r) =
     [verr ''unsupported'' (n @ '' is not supported by the visual builder'')]"

definition validate :: "query \<Rightarrow> validation_error list" where
  "validate q =
     (if q_commands q = [] then [verr ''query'' ''the query is empty'']
      else concat (map validate_node (q_commands q)))"

section \<open>Search first\<close>

definition ensure_search_first :: "query \<Rightarrow> query" where
  "ensure_search_first q =
     (case q_commands q of
        SearchNode f t e # ns \<Rightarrow> q
      | ns \<Rightarrow> q\<lparr>q_commands := SearchNode [] [] None # ns\<rparr>)"

end
