(* ===== verification/SplParser.thy ===== *)
theory SplParser
  imports SplLexer SplAst
begin

text \<open>
  The SPL parser, \<^verbatim>\<open>internal/spl/parser/parser.go\<close>. A parser position is the list of tokens
  still to read; \<open>cur\<close> and \<open>peek\<close> answer the end token past the end, as the Go methods do.

  The expression grammar is mutually recursive, so its functions take fuel and answer \<open>None\<close>
  when it runs out; \<open>expr_fuel\<close> is the amount \<open>parse_expr_tokens\<close> supplies, and
  \<open>parse_or_enough\<close> shows that it is always enough. Every other command parser is structural.
\<close>

section \<open>Errors and token windows\<close>

datatype parse_error =
    LexFailure lex_error
  | UnexpectedToken string nat
  | ExpectedRParen nat
  | ExpectedNull nat
  | ExpectedValue nat
  | ExpectedListOpen nat
  | ExpectedListClose nat
  | EvalNoExpression
  | EvalNoField
  | EvalEmptyExpression string
  | SortNoField
  | CountMissing string
  | CountInvalid string string
  | DedupNoField
  | FieldsNoField
  | TableNoField
  | RenameExpected string
  | RenameNoMapping
  | RexNoPattern
  | BinNoField
  | LookupTooShort

definition eof_token :: token where
  "eof_token = mk_token TokenEOF [] [] 0"

definition cur :: "token list \<Rightarrow> token" where
  "cur ts = (case ts of [] \<Rightarrow> eof_token | t # _ \<Rightarrow> t)"

definition peek :: "nat \<Rightarrow> token list \<Rightarrow> token" where
  "peek n ts = (if n < length ts then ts ! n else eof_token)"

definition kw :: "string \<Rightarrow> token \<Rightarrow> bool" where
  "kw word t = (t_kind t = TokenName \<and> equal_fold (t_value t) word)"

definition is_op :: "string \<Rightarrow> token \<Rightarrow> bool" where
  "is_op v t = (t_kind t = TokenOp \<and> t_value t = v)"

section \<open>Comparisons\<close>

definition starts_operand :: "token \<Rightarrow> bool" where
  "starts_operand t =
     (case t_kind t of
        TokenName \<Rightarrow> \<not> (kw ''or'' t \<or> kw ''and'' t \<or> kw ''in'' t \<or> kw ''like'' t \<or> kw ''is'' t
                        \<or> kw ''as'' t)
      | TokenString \<Rightarrow> True
      | TokenNumber \<Rightarrow> True
      | TokenStar \<Rightarrow> True
      | TokenLParen \<Rightarrow> True
      | _ \<Rightarrow> False)"

definition op_after :: "nat \<Rightarrow> token list \<Rightarrow> string option" where
  "op_after n ts =
     (let t = peek n ts
      in if t_kind t = TokenOp \<and> t_value t \<in> set [''='', ''!='', ''<'', ''<='', ''>'', ''>='']
         then Some (t_value t) else None)"

definition value_of :: "token \<Rightarrow> string option" where
  "value_of t =
     (case t_kind t of
        TokenString \<Rightarrow> Some (t_value t)
      | TokenNumber \<Rightarrow> Some (t_value t)
      | TokenName \<Rightarrow> Some (t_value t)
      | TokenStar \<Rightarrow> Some ''*''
      | _ \<Rightarrow> None)"

definition read_value :: "token list \<Rightarrow> parse_error + string \<times> token list" where
  "read_value ts =
     (case value_of (cur ts) of
        None \<Rightarrow> Inl (ExpectedValue (t_pos (cur ts)))
      | Some v \<Rightarrow> Inr (v, tl ts))"

fun read_values :: "token list \<Rightarrow> parse_error + string list \<times> token list" where
  "read_values [] = Inl (ExpectedValue (t_pos eof_token))"
| "read_values (t # ts) =
     (case value_of t of
        None \<Rightarrow> Inl (ExpectedValue (t_pos t))
      | Some v \<Rightarrow>
          (case ts of
             c # ts' \<Rightarrow>
               if t_kind c = TokenComma
               then (case read_values ts' of
                       Inl e \<Rightarrow> Inl e
                     | Inr (vs, rest) \<Rightarrow> Inr (v # vs, rest))
               else Inr ([v], ts)
           | [] \<Rightarrow> Inr ([v], [])))"

definition read_value_list :: "string \<Rightarrow> bool \<Rightarrow> token list \<Rightarrow> parse_error + expr \<times> token list" where
  "read_value_list field negate ts =
     (if t_kind (cur ts) \<noteq> TokenLParen then Inl (ExpectedListOpen (t_pos (cur ts)))
      else case read_values (tl ts) of
          Inl e \<Rightarrow> Inl e
        | Inr (vs, rest) \<Rightarrow>
            if t_kind (cur rest) \<noteq> TokenRParen then Inl (ExpectedListClose (t_pos (cur rest)))
            else Inr (EIn field negate vs, tl rest))"

text \<open>\<^verbatim>\<open>key=value\<close> inside one name token: the text before the first \<^verbatim>\<open>=\<close>, when there is some, and after.\<close>

definition split_inline_assignment :: "string \<Rightarrow> (string \<times> string) option" where
  "split_inline_assignment s =
     (let f = takeWhile (\<lambda>c. c \<noteq> CHR ''='') s
      in if f = [] \<or> f = s then None else Some (f, drop (length f + 1) s))"

definition parse_is :: "string \<Rightarrow> token list \<Rightarrow> parse_error + expr \<times> token list" where
  "parse_is field ts =
     (let neg = kw ''not'' (cur ts); ts' = (if neg then tl ts else ts)
      in if \<not> kw ''null'' (cur ts') then Inl (ExpectedNull (t_pos (cur ts')))
         else Inr (EIsNull field neg, tl ts'))"

definition parse_bare :: "string \<Rightarrow> token list \<Rightarrow> parse_error + expr \<times> token list" where
  "parse_bare raw rest =
     (case split_inline_assignment raw of
        Some (f, v) \<Rightarrow> Inr (ECmp f ''='' v, rest)
      | None \<Rightarrow> Inr (EText raw [], rest))"

definition parse_comparison :: "token list \<Rightarrow> parse_error + expr \<times> token list" where
  "parse_comparison ts =
     (let t = cur ts; v = t_value t
      in case t_kind t of
           TokenName \<Rightarrow>
             (case op_after 1 ts of
                Some oper \<Rightarrow>
                  (case read_value (drop 2 ts) of
                     Inl e \<Rightarrow> Inl e
                   | Inr (x, rest) \<Rightarrow> Inr (ECmp v oper x, rest))
              | None \<Rightarrow>
                  if kw ''in'' (peek 1 ts) then read_value_list v False (drop 2 ts)
                  else if kw ''not'' (peek 1 ts) \<and> kw ''in'' (peek 2 ts)
                  then read_value_list v True (drop 3 ts)
                  else if kw ''like'' (peek 1 ts) then
                    (case read_value (drop 2 ts) of
                       Inl e \<Rightarrow> Inl e
                     | Inr (x, rest) \<Rightarrow> Inr (ELike v False x, rest))
                  else if kw ''is'' (peek 1 ts) then parse_is v (drop 2 ts)
                  else parse_bare v (tl ts))
         | TokenString \<Rightarrow> Inr (EText v v, tl ts)
         | TokenNumber \<Rightarrow> Inr (EText v [], tl ts)
         | TokenStar \<Rightarrow> Inr (EText ''*'' [], tl ts)
         | _ \<Rightarrow> Inl (UnexpectedToken (t_raw t) (t_pos t)))"

section \<open>Boolean expressions\<close>

type_synonym expr_result = "(parse_error + expr \<times> token list) option"

fun parse_or :: "nat \<Rightarrow> token list \<Rightarrow> expr_result"
  and or_loop :: "nat \<Rightarrow> expr \<Rightarrow> token list \<Rightarrow> expr_result"
  and parse_and :: "nat \<Rightarrow> token list \<Rightarrow> expr_result"
  and and_loop :: "nat \<Rightarrow> expr \<Rightarrow> token list \<Rightarrow> expr_result"
  and parse_unary :: "nat \<Rightarrow> token list \<Rightarrow> expr_result"
  and parse_primary :: "nat \<Rightarrow> token list \<Rightarrow> expr_result" where
  "parse_or 0 ts = None"
| "parse_or (Suc n) ts =
     (case parse_and n ts of
        None \<Rightarrow> None
      | Some (Inl e) \<Rightarrow> Some (Inl e)
      | Some (Inr (left, rest)) \<Rightarrow> or_loop n left rest)"
| "or_loop 0 left ts = None"
| "or_loop (Suc n) left ts =
     (if kw ''or'' (cur ts) then
        (case parse_and n (tl ts) of
           None \<Rightarrow> None
         | Some (Inl e) \<Rightarrow> Some (Inl e)
         | Some (Inr (right, rest)) \<Rightarrow> or_loop n (EOr [left, right]) rest)
      else Some (Inr (left, ts)))"
| "parse_and 0 ts = None"
| "parse_and (Suc n) ts =
     (case parse_unary n ts of
        None \<Rightarrow> None
      | Some (Inl e) \<Rightarrow> Some (Inl e)
      | Some (Inr (left, rest)) \<Rightarrow> and_loop n left rest)"
| "and_loop 0 left ts = None"
| "and_loop (Suc n) left ts =
     (if kw ''and'' (cur ts) then
        (case parse_unary n (tl ts) of
           None \<Rightarrow> None
         | Some (Inl e) \<Rightarrow> Some (Inl e)
         | Some (Inr (right, rest)) \<Rightarrow> and_loop n (EAnd [left, right]) rest)
      else if starts_operand (cur ts) then
        (case parse_unary n ts of
           None \<Rightarrow> None
         | Some (Inl e) \<Rightarrow> Some (Inl e)
         | Some (Inr (right, rest)) \<Rightarrow> and_loop n (EAnd [left, right]) rest)
      else Some (Inr (left, ts)))"
| "parse_unary 0 ts = None"
| "parse_unary (Suc n) ts =
     (if kw ''not'' (cur ts) then
        (case parse_unary n (tl ts) of
           None \<Rightarrow> None
         | Some (Inl e) \<Rightarrow> Some (Inl e)
         | Some (Inr (inner, rest)) \<Rightarrow> Some (Inr (ENot inner, rest)))
      else parse_primary n ts)"
| "parse_primary 0 ts = None"
| "parse_primary (Suc n) ts =
     (if t_kind (cur ts) = TokenLParen then
        (case parse_or n (tl ts) of
           None \<Rightarrow> None
         | Some (Inl e) \<Rightarrow> Some (Inl e)
         | Some (Inr (inner, rest)) \<Rightarrow>
             if t_kind (cur rest) \<noteq> TokenRParen then Some (Inl (ExpectedRParen (t_pos (cur rest))))
             else Some (Inr (inner, tl rest)))
      else if kw ''not'' (cur ts) then
        (case parse_unary n (tl ts) of
           None \<Rightarrow> None
         | Some (Inl e) \<Rightarrow> Some (Inl e)
         | Some (Inr (inner, rest)) \<Rightarrow> Some (Inr (ENot inner, rest)))
      else Some (parse_comparison ts))"

definition expr_fuel :: "token list \<Rightarrow> nat" where
  "expr_fuel ts = 6 * length ts + 6"

definition parse_expr_tokens :: "token list \<Rightarrow> (parse_error + expr) option" where
  "parse_expr_tokens ts =
     (case parse_or (expr_fuel ts) ts of
        None \<Rightarrow> None
      | Some (Inl e) \<Rightarrow> Some (Inl e)
      | Some (Inr (e, rest)) \<Rightarrow>
          if t_kind (cur rest) \<noteq> TokenEOF
          then Some (Inl (UnexpectedToken (t_raw (cur rest)) (t_pos (cur rest))))
          else Some (Inr e))"

section \<open>The fuel is always enough\<close>

lemma cur_Nil [simp]: "cur [] = eof_token" by (simp add: cur_def)
lemma cur_Cons [simp]: "cur (t # ts) = t" by (simp add: cur_def)

lemma t_kind_eof_token [simp]: "t_kind eof_token = TokenEOF"
  by (simp add: eof_token_def mk_token_def)

lemma kw_eof [simp]: "\<not> kw w eof_token" by (simp add: kw_def)
lemma value_of_eof [simp]: "value_of eof_token = None" by (simp add: value_of_def)
lemma starts_operand_eof [simp]: "\<not> starts_operand eof_token" by (simp add: starts_operand_def)

lemma read_value_shorter: "read_value ts = Inr (v, rest) \<Longrightarrow> length rest < length ts"
  by (cases ts) (auto simp: read_value_def split: option.splits)

lemma read_values_shorter: "read_values ts = Inr (vs, rest) \<Longrightarrow> length rest < length ts"
  by (induction ts arbitrary: vs rest rule: read_values.induct)
    (force split: option.splits list.splits if_splits sum.splits)+

lemma read_value_list_shorter: "read_value_list f b ts = Inr (e, rest) \<Longrightarrow> length rest < length ts"
  by (cases ts) (auto simp: read_value_list_def split: if_splits sum.splits dest!: read_values_shorter)

lemma parse_comparison_shorter: "parse_comparison ts = Inr (e, rest) \<Longrightarrow> length rest < length ts"
proof (cases ts)
  case (Cons t us)
  assume "parse_comparison ts = Inr (e, rest)"
  with Cons show ?thesis
    by (fastforce simp: parse_comparison_def parse_is_def parse_bare_def Let_def
        split: token_kind.splits option.splits if_splits sum.splits
        dest!: read_value_shorter read_value_list_shorter)
qed (simp add: parse_comparison_def)

lemma expr_shorter:
  "parse_or n ts = Some (Inr (e, rest)) \<Longrightarrow> length rest < length ts"
  "or_loop n l ts = Some (Inr (e, rest)) \<Longrightarrow> length rest \<le> length ts"
  "parse_and n ts = Some (Inr (e, rest)) \<Longrightarrow> length rest < length ts"
  "and_loop n l ts = Some (Inr (e, rest)) \<Longrightarrow> length rest \<le> length ts"
  "parse_unary n ts = Some (Inr (e, rest)) \<Longrightarrow> length rest < length ts"
  "parse_primary n ts = Some (Inr (e, rest)) \<Longrightarrow> length rest < length ts"
proof (induction n ts and n l ts and n ts and n l ts and n ts and n ts
    arbitrary: e rest and e rest and e rest and e rest and e rest and e rest
    rule: parse_or_or_loop_parse_and_and_loop_parse_unary_parse_primary.induct)
  case (2 n ts)
  then show ?case by (force split: option.splits sum.splits prod.splits)
next
  case (4 n left ts)
  then show ?case by (cases ts) (force split: option.splits sum.splits prod.splits if_splits)+
next
  case (6 n ts)
  then show ?case by (force split: option.splits sum.splits prod.splits)
next
  case (8 n left ts)
  then show ?case by (cases ts) (force split: option.splits sum.splits prod.splits if_splits)+
next
  case (10 n ts)
  then show ?case by (cases ts) (force split: option.splits sum.splits prod.splits if_splits)+
next
  case (12 n ts)
  then show ?case
    by (cases ts) (force split: option.splits sum.splits prod.splits if_splits dest: parse_comparison_shorter)+
qed simp_all

lemma expr_enough:
  "6 * length ts + 4 \<le> n \<Longrightarrow> parse_or n ts \<noteq> None"
  "6 * length ts + 1 \<le> n \<Longrightarrow> or_loop n l ts \<noteq> None"
  "6 * length ts + 3 \<le> n \<Longrightarrow> parse_and n ts \<noteq> None"
  "6 * length ts + 3 \<le> n \<Longrightarrow> and_loop n l ts \<noteq> None"
  "6 * length ts + 2 \<le> n \<Longrightarrow> parse_unary n ts \<noteq> None"
  "6 * length ts + 1 \<le> n \<Longrightarrow> parse_primary n ts \<noteq> None"
proof (induction n ts and n l ts and n ts and n l ts and n ts and n ts
    rule: parse_or_or_loop_parse_and_and_loop_parse_unary_parse_primary.induct)
  case (2 n ts)
  then show ?case by (force split: option.splits sum.splits prod.splits dest: expr_shorter)
next
  case (4 n left ts)
  then show ?case by (cases ts) (force split: option.splits sum.splits prod.splits if_splits dest: expr_shorter)+
next
  case (6 n ts)
  then show ?case by (force split: option.splits sum.splits prod.splits dest: expr_shorter)
next
  case (8 n left ts)
  then show ?case by (cases ts) (force split: option.splits sum.splits prod.splits if_splits dest: expr_shorter)+
next
  case (10 n ts)
  then show ?case by (cases ts) (force split: option.splits sum.splits prod.splits if_splits dest: expr_shorter)+
next
  case (12 n ts)
  then show ?case
    by (cases ts) (force split: option.splits sum.splits prod.splits if_splits dest: expr_shorter)+
qed simp_all

lemma parse_or_enough: "parse_or (expr_fuel ts) ts \<noteq> None"
  using expr_enough(1) [of ts "expr_fuel ts"] by (simp add: expr_fuel_def)

lemma parse_expr_tokens_returns: "parse_expr_tokens ts \<noteq> None"
  using parse_or_enough [of ts] by (auto simp: parse_expr_tokens_def split: option.splits sum.splits)

end
