(* ===== verification/SplCommands.thy ===== *)
theory SplCommands
  imports SplParser
begin

text \<open>
  The command parsers of \<^verbatim>\<open>internal/spl/parser/parser.go\<close>, the split of a query at its pipes,
  the dispatch on the leading keyword, and \<^verbatim>\<open>Parse\<close> itself. A result of \<open>parse_spl\<close> is \<open>None\<close>
  when \<^verbatim>\<open>Tokenize\<close> does not return.
\<close>

section \<open>search and where\<close>

fun flat_walk :: "expr \<Rightarrow> smap \<Rightarrow> smap option"
  and flat_walk_list :: "expr list \<Rightarrow> smap \<Rightarrow> smap option" where
  "flat_walk (ECmp f oper v) m = (if oper = ''='' \<and> f \<noteq> [] then Some (smap_put m f v) else None)"
| "flat_walk (EAnd args) m = flat_walk_list args m"
| "flat_walk (EOr _) m = None"
| "flat_walk (ENot _) m = None"
| "flat_walk (EIn _ _ _) m = None"
| "flat_walk (EIsNull _ _) m = None"
| "flat_walk (ELike _ _ _) m = None"
| "flat_walk (EText _ _) m = None"
| "flat_walk (EOther _) m = None"
| "flat_walk_list [] m = Some m"
| "flat_walk_list (a # as) m =
     (case flat_walk a m of None \<Rightarrow> None | Some m' \<Rightarrow> flat_walk_list as m')"

definition flat_field_equality :: "expr \<Rightarrow> smap option" where
  "flat_field_equality e = flat_walk e []"

definition sole_free_text :: "expr \<Rightarrow> string option" where
  "sole_free_text e = (case e of EText v _ \<Rightarrow> Some v | _ \<Rightarrow> None)"

definition parse_search :: "token list \<Rightarrow> (parse_error + node) option" where
  "parse_search ts0 =
     (let ts = (if ts0 \<noteq> [] \<and> kw ''search'' (hd ts0) then tl ts0 else ts0)
      in if ts = [] then Some (Inr (SearchNode [] [] None))
         else case parse_expr_tokens ts of
             None \<Rightarrow> None
           | Some (Inl e) \<Rightarrow> Some (Inl e)
           | Some (Inr e) \<Rightarrow>
               Some (Inr (SearchNode (case flat_field_equality e of None \<Rightarrow> [] | Some m \<Rightarrow> m)
                            (case sole_free_text e of None \<Rightarrow> [] | Some t \<Rightarrow> t) (Some e))))"

fun classic_walk :: "expr \<Rightarrow> condition list option"
  and classic_walk_list :: "expr list \<Rightarrow> condition list option" where
  "classic_walk (ECmp f oper v) = (if f = [] then None else Some [mk_cond f oper v])"
| "classic_walk (EAnd args) = classic_walk_list args"
| "classic_walk (EOr _) = None"
| "classic_walk (ENot _) = None"
| "classic_walk (EIn _ _ _) = None"
| "classic_walk (EIsNull _ _) = None"
| "classic_walk (ELike _ _ _) = None"
| "classic_walk (EText _ _) = None"
| "classic_walk (EOther _) = None"
| "classic_walk_list [] = Some []"
| "classic_walk_list (a # as) =
     (case classic_walk a of
        None \<Rightarrow> None
      | Some cs \<Rightarrow> (case classic_walk_list as of None \<Rightarrow> None | Some ds \<Rightarrow> Some (cs @ ds)))"

definition parse_where :: "token list \<Rightarrow> (parse_error + node) option" where
  "parse_where ts =
     (case parse_expr_tokens ts of
        None \<Rightarrow> None
      | Some (Inl e) \<Rightarrow> Some (Inl e)
      | Some (Inr e) \<Rightarrow>
          Some (Inr (WhereNode (case classic_walk e of None \<Rightarrow> [] | Some cs \<Rightarrow> cs) (Some e))))"

section \<open>eval\<close>

text \<open>The first \<^verbatim>\<open>=\<close> at depth 0: the value of the token before it and the tokens after it.\<close>

fun split_eq :: "int \<Rightarrow> token option \<Rightarrow> token list \<Rightarrow> (string \<times> token list) option" where
  "split_eq depth prev [] = None"
| "split_eq depth prev (t # ts) =
     (if t_kind t = TokenLParen then split_eq (depth + 1) (Some t) ts
      else if t_kind t = TokenRParen then split_eq (depth - 1) (Some t) ts
      else if is_op ''='' t \<and> depth = 0
      then (case prev of None \<Rightarrow> None | Some p \<Rightarrow> Some (t_value p, ts))
      else split_eq depth (Some t) ts)"

definition split_at_first_eq :: "token list \<Rightarrow> string \<times> token list" where
  "split_at_first_eq ts = (case split_eq 0 None ts of None \<Rightarrow> ([], ts) | Some r \<Rightarrow> r)"

definition token_part :: "token \<Rightarrow> string" where
  "token_part t =
     (case t_kind t of
        TokenName \<Rightarrow> t_value t
      | TokenNumber \<Rightarrow> t_value t
      | TokenString \<Rightarrow> string_literal (t_value t)
      | TokenOp \<Rightarrow> t_value t
      | TokenLParen \<Rightarrow> ''(''
      | TokenRParen \<Rightarrow> '')''
      | TokenComma \<Rightarrow> '',''
      | TokenStar \<Rightarrow> ''*''
      | _ \<Rightarrow> [])"

definition has_suffix :: "string \<Rightarrow> string \<Rightarrow> bool" where
  "has_suffix s x = suffix x s"

definition is_blank :: "char \<Rightarrow> bool" where
  "is_blank c = (c = CHR '' '')"

fun render_loop :: "string \<Rightarrow> token list \<Rightarrow> string" where
  "render_loop out [] = out"
| "render_loop out (t # ts) =
     (let s = token_part t
      in case t_kind t of
           TokenLParen \<Rightarrow> render_loop (out @ s) ts
         | TokenRParen \<Rightarrow> render_loop (trim_right is_blank out @ s) ts
         | TokenComma \<Rightarrow> render_loop (trim_right is_blank out @ '', '') ts
         | TokenOp \<Rightarrow>
             render_loop ((if out \<noteq> [] \<and> \<not> has_suffix out '' '' then out @ '' '' else out) @ s @ '' '') ts
         | _ \<Rightarrow>
             render_loop ((if out \<noteq> [] \<and> \<not> has_suffix out '' '' \<and> \<not> has_suffix out ''(''
                           then out @ '' '' else out) @ s) ts)"

definition render_tokens :: "token list \<Rightarrow> string" where
  "render_tokens ts = trim_space (render_loop [] ts)"

definition parse_eval :: "token list \<Rightarrow> parse_error + node" where
  "parse_eval ts =
     (if ts = [] then Inl EvalNoExpression
      else let (field, rest) = split_at_first_eq ts
           in if field = [] then Inl EvalNoField
              else let e = (case rest of
                              [t] \<Rightarrow> if t_kind t = TokenString then t_value t else render_tokens rest
                            | _ \<Rightarrow> render_tokens rest)
                   in if e = [] then Inl (EvalEmptyExpression field)
                      else Inr (EvalNode field e [\<lparr>ea_field = field, ea_expr = e\<rparr>]))"

section \<open>Aggregations\<close>

text \<open>The index of the last \<^verbatim>\<open>by\<close> at depth 0.\<close>

fun by_index :: "int \<Rightarrow> nat \<Rightarrow> nat option \<Rightarrow> token list \<Rightarrow> nat option" where
  "by_index depth i found [] = found"
| "by_index depth i found (t # ts) =
     (case t_kind t of
        TokenLParen \<Rightarrow> by_index (depth + 1) (Suc i) found ts
      | TokenRParen \<Rightarrow> by_index (depth - 1) (Suc i) found ts
      | TokenName \<Rightarrow>
          by_index depth (Suc i) (if depth = 0 \<and> equal_fold (t_value t) ''by'' then Some i else found) ts
      | _ \<Rightarrow> by_index depth (Suc i) found ts)"

definition is_rparen :: "token \<Rightarrow> bool" where
  "is_rparen t = (t_kind t = TokenRParen)"

definition field_part :: "token \<Rightarrow> string" where
  "field_part t =
     (case t_kind t of
        TokenStar \<Rightarrow> ''*''
      | TokenName \<Rightarrow> t_value t
      | TokenNumber \<Rightarrow> t_value t
      | _ \<Rightarrow> [])"

text \<open>\<^verbatim>\<open>(field)\<close> after a function name: the field text and the tokens after the closing parenthesis.\<close>

definition agg_field :: "token list \<Rightarrow> string \<times> token list" where
  "agg_field ts =
     (if ts \<noteq> [] \<and> t_kind (hd ts) = TokenLParen
      then (concat (map field_part (takeWhile (\<lambda>t. \<not> is_rparen t) (tl ts))),
            drop 1 (dropWhile (\<lambda>t. \<not> is_rparen t) (tl ts)))
      else ([], ts))"

definition agg_alias :: "token list \<Rightarrow> string \<times> token list" where
  "agg_alias ts =
     (if ts \<noteq> [] \<and> kw ''as'' (hd ts)
      then (case tl ts of
              t # ts' \<Rightarrow> if t_kind t \<in> {TokenName, TokenString} then (t_value t, ts') else ([], tl ts)
            | [] \<Rightarrow> ([], []))
      else ([], ts))"

lemma agg_field_length: "length (snd (agg_field ts)) \<le> length ts"
proof -
  have "length (dropWhile (\<lambda>t. \<not> is_rparen t) (tl ts)) \<le> length (tl ts)"
    by (rule length_dropWhile_le)
  then show ?thesis by (auto simp: agg_field_def)
qed

lemma agg_alias_length: "length (snd (agg_alias ts)) \<le> length ts"
  by (cases ts; cases "tl ts") (auto simp: agg_alias_def)

function parse_aggs :: "token list \<Rightarrow> aggregation list" where
  "parse_aggs [] = []"
| "parse_aggs (t # ts) =
     (if t_kind t \<noteq> TokenName then parse_aggs ts
      else let fn = to_lower (t_value t); f = agg_field ts; a = agg_alias (snd f);
               field = (if fn = ''count'' \<and> fst f = [] then ''*'' else fst f)
           in mk_agg fn field (fst a) # parse_aggs (snd a))"
  by pat_completeness auto
termination
proof (relation "measure length")
  fix t :: token and ts :: "token list" and fn f a field
  assume "f = agg_field ts" "a = agg_alias (snd f)"
  then have "length (snd a) \<le> length ts"
    using agg_field_length [of ts] agg_alias_length [of "snd f"] by simp
  then show "(snd a, t # ts) \<in> measure length" by simp
qed simp_all

record agg_result =
  ag_aggs :: "aggregation list"
  ag_groupby :: "string list"

definition group_fields :: "token list \<Rightarrow> string list" where
  "group_fields ts = map t_value (filter (\<lambda>t. t_kind t \<in> {TokenName, TokenString}) ts)"

definition parse_aggregation_node :: "token list \<Rightarrow> agg_result" where
  "parse_aggregation_node ts =
     (case by_index 0 0 None ts of
        Some i \<Rightarrow> \<lparr>ag_aggs = parse_aggs (take i ts), ag_groupby = group_fields (drop (i + 1) ts)\<rparr>
      | None \<Rightarrow> \<lparr>ag_aggs = parse_aggs ts, ag_groupby = []\<rparr>)"

definition parse_stats :: "token list \<Rightarrow> parse_error + node" where
  "parse_stats ts =
     (let r = parse_aggregation_node ts in Inr (StatsNode (ag_aggs r) (ag_groupby r)))"

text \<open>\<open>name=v\<close> options taken out of a token list: the last value given and the other tokens.\<close>

fun take_option :: "string \<Rightarrow> token option \<Rightarrow> token list \<Rightarrow> token option \<times> token list" where
  "take_option name v [] = (v, [])"
| "take_option name v (t # ts) =
     (case ts of
        e # x # ts' \<Rightarrow>
          if kw name t \<and> is_op ''='' e then take_option name (Some x) ts'
          else (let (w, rest) = take_option name v ts in (w, t # rest))
      | _ \<Rightarrow> (let (w, rest) = take_option name v ts in (w, t # rest)))"

definition parse_timechart :: "token list \<Rightarrow> parse_error + node" where
  "parse_timechart ts =
     (let (v, rest) = take_option ''span'' None ts;
          r = parse_aggregation_node rest;
          span = (case v of None \<Rightarrow> [] | Some x \<Rightarrow> t_value x);
          fn = (case ag_aggs r of
                  [] \<Rightarrow> mk_agg ''count'' ''*'' []
                | a # _ \<Rightarrow> if a_field a = [] then a\<lparr>a_field := ''*''\<rparr> else a)
      in Inr (TimechartNode fn span (ag_groupby r)))"

definition parse_eventstats :: "token list \<Rightarrow> parse_error + node" where
  "parse_eventstats ts =
     (let r = parse_aggregation_node ts in Inr (EventstatsNode (ag_aggs r) (ag_groupby r)))"

definition parse_streamstats :: "token list \<Rightarrow> parse_error + node" where
  "parse_streamstats ts =
     (let (v, rest) = take_option ''window'' None ts; r = parse_aggregation_node rest;
          window = (case v of None \<Rightarrow> 0 | Some x \<Rightarrow> atoi_value (t_value x))
      in Inr (StreamstatsNode (ag_aggs r) (ag_groupby r) window))"

section \<open>Row commands\<close>

fun sort_fields :: "token list \<Rightarrow> sort_field list" where
  "sort_fields [] = []"
| "sort_fields (t # ts) =
     (if kw ''by'' t then sort_fields ts
      else if is_op ''-'' t \<and> ts \<noteq> [] \<and> t_kind (hd ts) = TokenName
      then (case ts of
              f # ts' \<Rightarrow> \<lparr>sf_field = t_value f, sf_desc = True\<rparr> # sort_fields ts'
            | [] \<Rightarrow> [])
      else if t_kind t = TokenName \<and> atoi (t_value t) = None
      then \<lparr>sf_field = t_value t, sf_desc = False\<rparr> # sort_fields ts
      else sort_fields ts)"

definition parse_sort :: "token list \<Rightarrow> parse_error + node" where
  "parse_sort ts =
     (let fs = sort_fields ts in if fs = [] then Inl SortNoField else Inr (SortNode fs))"

fun parse_count :: "string \<Rightarrow> token list \<Rightarrow> parse_error + int" where
  "parse_count cmd [] = Inl (CountMissing cmd)"
| "parse_count cmd (t # ts) =
     (if t_kind t = TokenNumber
      then (case atoi (t_value t) of None \<Rightarrow> Inl (CountInvalid cmd (t_value t)) | Some n \<Rightarrow> Inr n)
      else parse_count cmd ts)"

definition parse_head :: "token list \<Rightarrow> parse_error + node" where
  "parse_head ts = (case parse_count ''head'' ts of Inl e \<Rightarrow> Inl e | Inr n \<Rightarrow> Inr (HeadNode n))"

definition parse_tail :: "token list \<Rightarrow> parse_error + node" where
  "parse_tail ts = (case parse_count ''tail'' ts of Inl e \<Rightarrow> Inl e | Inr n \<Rightarrow> Inr (TailNode n))"

fun parse_dedup :: "token list \<Rightarrow> parse_error + node" where
  "parse_dedup [] = Inl DedupNoField"
| "parse_dedup (t # ts) =
     (if t_kind t = TokenName \<and> atoi (t_value t) = None then Inr (DedupNode (t_value t))
      else parse_dedup ts)"

definition is_field_token :: "token \<Rightarrow> bool" where
  "is_field_token t = (t_kind t \<in> {TokenName, TokenString})"

definition strip_signs :: "string \<Rightarrow> string" where
  "strip_signs f = trim_prefix ''+'' (trim_prefix ''-'' f)"

definition parse_fields :: "token list \<Rightarrow> parse_error + node" where
  "parse_fields ts =
     (let include = \<not> (ts \<noteq> [] \<and> is_op ''-'' (hd ts));
          fs = filter (\<lambda>f. f \<noteq> []) (map (\<lambda>t. strip_signs (t_value t)) (filter is_field_token ts))
      in if fs = [] then Inl FieldsNoField else Inr (FieldsNode include fs))"

definition table_column :: "token \<Rightarrow> string list" where
  "table_column t =
     (if is_field_token t then [t_value t] else if t_kind t = TokenStar then [''*''] else [])"

definition parse_table :: "token list \<Rightarrow> parse_error + node" where
  "parse_table ts =
     (let fs = concat (map table_column ts)
      in if fs = [] then Inl TableNoField else Inr (TableNode fs))"

fun rename_list :: "token list \<Rightarrow> parse_error + rename_pair list" where
  "rename_list [] = Inr []"
| "rename_list (t # ts) =
     (if t_kind t \<noteq> TokenName then rename_list ts
      else case ts of
          a # x # ts' \<Rightarrow>
            if kw ''as'' a
            then (case rename_list ts' of
                    Inl e \<Rightarrow> Inl e
                  | Inr ps \<Rightarrow> Inr (\<lparr>rp_from = t_value t, rp_to = t_value x\<rparr> # ps))
            else Inl (RenameExpected (t_value t))
        | _ \<Rightarrow> Inl (RenameExpected (t_value t)))"

definition parse_rename :: "token list \<Rightarrow> parse_error + node" where
  "parse_rename ts =
     (case rename_list ts of
        Inl e \<Rightarrow> Inl e
      | Inr ps \<Rightarrow> if ps = [] then Inl RenameNoMapping else Inr (RenameNode (smap_of_pairs ps) ps))"

record rex_state =
  rx_field :: string
  rx_pattern :: string
  rx_rename :: string
  rx_mode :: string

definition rex_option :: "string \<Rightarrow> string \<Rightarrow> rex_state \<Rightarrow> rex_state" where
  "rex_option name v r =
     (let key = to_lower name
      in if key = ''field'' then r\<lparr>rx_field := v\<rparr>
         else if key = ''rename'' \<or> key = ''alias'' then r\<lparr>rx_rename := v\<rparr>
         else if key = ''mode'' then r\<lparr>rx_mode := v\<rparr>
         else r)"

definition rex_pattern_token :: "token \<Rightarrow> rex_state \<Rightarrow> rex_state" where
  "rex_pattern_token t r =
     (if t_kind t = TokenString then r\<lparr>rx_pattern := t_value t\<rparr>
      else if t_kind t = TokenName \<and> rx_pattern r = [] then r\<lparr>rx_pattern := t_value t\<rparr>
      else r)"

fun rex_loop :: "rex_state \<Rightarrow> token list \<Rightarrow> rex_state" where
  "rex_loop r [] = r"
| "rex_loop r (t # ts) =
     (case ts of
        e # x # ts' \<Rightarrow>
          if t_kind t = TokenName \<and> is_op ''='' e
          then rex_loop (rex_option (t_value t) (t_value x) r) ts'
          else rex_loop (rex_pattern_token t r) ts
      | _ \<Rightarrow> rex_loop (rex_pattern_token t r) ts)"

definition parse_rex :: "token list \<Rightarrow> parse_error + node" where
  "parse_rex ts =
     (let r = rex_loop \<lparr>rx_field = [], rx_pattern = [], rx_rename = [], rx_mode = []\<rparr> ts
      in if rx_pattern r = [] then Inl RexNoPattern
         else Inr (RexNode (rx_field r) (rx_pattern r) (rx_rename r) (rx_mode r)))"

fun first_name :: "token list \<Rightarrow> string" where
  "first_name [] = []"
| "first_name (t # ts) = (if t_kind t = TokenName \<and> t_value t \<noteq> [] then t_value t else first_name ts)"

definition parse_bin :: "token list \<Rightarrow> parse_error + node" where
  "parse_bin ts =
     (let (v, rest) = take_option ''span'' None ts; f = first_name rest
      in if f = [] then Inl BinNoField
         else Inr (BinNode f (case v of None \<Rightarrow> [] | Some x \<Rightarrow> t_value x)))"

record lookup_state =
  lk_lookup :: string
  lk_input :: string
  lk_outputs :: "string list"
  lk_append :: bool

definition lookup_word :: "lookup_state \<Rightarrow> string \<Rightarrow> lookup_state" where
  "lookup_word s w =
     (let u = to_lower w
      in if u \<in> set [''output'', ''outputnew'', ''outputappend''] then s
         else if u = ''append'' then s\<lparr>lk_append := True\<rparr>
         else if lk_lookup s = [] then s\<lparr>lk_lookup := w\<rparr>
         else if lk_input s = [] \<and> \<not> lk_append s then s\<lparr>lk_input := w\<rparr>
         else s\<lparr>lk_outputs := lk_outputs s @ [w]\<rparr>)"

definition parse_lookup :: "token list \<Rightarrow> parse_error + node" where
  "parse_lookup ts =
     (let words = group_fields ts
      in if length words < 2 then Inl LookupTooShort
         else let s = foldl lookup_word
                        \<lparr>lk_lookup = [], lk_input = [], lk_outputs = [], lk_append = False\<rparr> words
              in Inr (LookupNode (lk_lookup s) (lk_input s) (lk_outputs s) (lk_append s)))"

section \<open>Pipes and dispatch\<close>

fun split_groups :: "token list \<Rightarrow> token list \<Rightarrow> token list list" where
  "split_groups acc [] = (if acc = [] then [] else [acc])"
| "split_groups acc (t # ts) =
     (if t_kind t = TokenEOF then split_groups acc ts
      else if t_kind t = TokenPipe
      then (if acc = [] then split_groups [] ts else acc # split_groups [] ts)
      else split_groups (acc @ [t]) ts)"

definition split_pipes :: "token list \<Rightarrow> token list list" where
  "split_pipes ts = split_groups [] ts"

text \<open>
  The source text of an unsupported stage. Token positions count runes and the slice counts
  bytes, as in the code.
\<close>

definition raw_slice :: "string \<Rightarrow> token list \<Rightarrow> char list" where
  "raw_slice input g =
     (if g = [] \<or> input = [] then []
      else let bytes = utf8 input; start = t_pos (hd g);
               stop = min (t_pos (last g) + length (utf8 (t_raw (last g)))) (length bytes)
           in if length bytes \<le> start then []
              else trim_space_bytes (drop start (take stop bytes)))"

definition lift_command :: "(parse_error + node) \<Rightarrow> (parse_error + node) option" where
  "lift_command r = Some r"

definition command_keywords ::
  "(string \<times> (token list \<Rightarrow> (parse_error + node) option)) list" where
  "command_keywords =
     [(''search'', parse_search), (''where'', parse_where),
      (''eval'', \<lambda>ts. lift_command (parse_eval ts)),
      (''fields'', \<lambda>ts. lift_command (parse_fields ts)),
      (''table'', \<lambda>ts. lift_command (parse_table ts)),
      (''rename'', \<lambda>ts. lift_command (parse_rename ts)),
      (''stats'', \<lambda>ts. lift_command (parse_stats ts)),
      (''timechart'', \<lambda>ts. lift_command (parse_timechart ts)),
      (''sort'', \<lambda>ts. lift_command (parse_sort ts)),
      (''head'', \<lambda>ts. lift_command (parse_head ts)),
      (''tail'', \<lambda>ts. lift_command (parse_tail ts)),
      (''dedup'', \<lambda>ts. lift_command (parse_dedup ts)),
      (''rex'', \<lambda>ts. lift_command (parse_rex ts)),
      (''bin'', \<lambda>ts. lift_command (parse_bin ts)),
      (''lookup'', \<lambda>ts. lift_command (parse_lookup ts)),
      (''eventstats'', \<lambda>ts. lift_command (parse_eventstats ts)),
      (''streamstats'', \<lambda>ts. lift_command (parse_streamstats ts))]"

definition dispatch :: "string \<Rightarrow> token list \<Rightarrow> bool \<Rightarrow> (parse_error + node) option" where
  "dispatch input g is_first =
     (let command = (if t_kind (cur g) = TokenName
                     then map_of command_keywords (to_lower (t_value (cur g))) else None)
      in case command of
           Some f \<Rightarrow> f (tl g)
         | None \<Rightarrow>
             if \<not> is_first
             then Some (Inr (UnsupportedNode (to_lower (t_value (cur g))) (raw_slice input g)))
             else parse_search g)"

fun dispatch_all :: "string \<Rightarrow> bool \<Rightarrow> token list list \<Rightarrow> (parse_error + node list) option" where
  "dispatch_all input is_first [] = Some (Inr [])"
| "dispatch_all input is_first (g # gs) =
     (case dispatch input g is_first of
        None \<Rightarrow> None
      | Some (Inl e) \<Rightarrow> Some (Inl e)
      | Some (Inr n) \<Rightarrow>
          (case dispatch_all input False gs of
             None \<Rightarrow> None
           | Some (Inl e) \<Rightarrow> Some (Inl e)
           | Some (Inr ns) \<Rightarrow> Some (Inr (n # ns))))"

definition parse_tokens :: "string \<Rightarrow> token list \<Rightarrow> (parse_error + query) option" where
  "parse_tokens input ts =
     (case dispatch_all input True (split_pipes ts) of
        None \<Rightarrow> None
      | Some (Inl e) \<Rightarrow> Some (Inl e)
      | Some (Inr ns) \<Rightarrow> Some (Inr \<lparr>q_version = 1, q_commands = ns\<rparr>))"

definition parse_spl :: "string \<Rightarrow> (parse_error + query) option" where
  "parse_spl input =
     (case tokenize input of
        None \<Rightarrow> None
      | Some (Inl e) \<Rightarrow> Some (Inl (LexFailure e))
      | Some (Inr ts) \<Rightarrow> parse_tokens input ts)"

end
