(* ===== verification/SplSerializer.thy ===== *)
theory SplSerializer
  imports SplLexer SplAst "HOL-Library.List_Lexorder" "HOL-Library.Char_ord"
begin

text \<open>
  The serializer, \<^verbatim>\<open>internal/spl/serializer/serializer.go\<close>: it renders a syntax tree as SPL text.
  Map keys are sorted before they are written (\<^verbatim>\<open>sort.Strings\<close>, the lexicographic order of the
  code points), so the text does not depend on the iteration order of a map.
\<close>

section \<open>Values\<close>

definition is_ident_safe :: "char \<Rightarrow> bool" where
  "is_ident_safe c = (is_ascii_letter c \<or> is_digit c \<or> c \<in> set ''_.-/:@*?'')"

fun numeric_loop :: "bool \<Rightarrow> nat \<Rightarrow> string \<Rightarrow> bool" where
  "numeric_loop dot digits [] = (0 < digits)"
| "numeric_loop dot digits (c # cs) =
     (if is_digit c then numeric_loop dot (Suc digits) cs
      else if c = CHR ''.'' then (if dot then False else numeric_loop True digits cs)
      else False)"

definition is_numeric :: "string \<Rightarrow> bool" where
  "is_numeric v =
     (case v of
        [] \<Rightarrow> False
      | c # cs \<Rightarrow> numeric_loop False 0 (if c = CHR ''+'' \<or> c = CHR ''-'' then cs else v))"

definition needs_quote :: "string \<Rightarrow> bool" where
  "needs_quote v =
     (if v = [] then True
      else if is_numeric v then False
      else if v = ''*'' then False
      else \<not> list_all is_ident_safe v)"

definition value_literal :: "string \<Rightarrow> string" where
  "value_literal v = (if needs_quote v then string_literal v else v)"

definition quote_free_text :: "string \<Rightarrow> string" where
  "quote_free_text v =
     (if v = [] then [dquote, dquote]
      else if needs_quote v then string_literal v else v)"

definition itoa :: "int \<Rightarrow> string" where
  "itoa n =
     (if n = 0 then ''0''
      else if n = - (2 ^ 63) then ''-''
      else if n < 0 then ''-'' @ digits_of (nat (- n))
      else digits_of (nat n))"

section \<open>Expressions\<close>

definition prec_leaf :: nat where "prec_leaf = 0"
definition prec_and :: nat where "prec_and = 1"
definition prec_or :: nat where "prec_or = 2"

definition maybe_paren :: "string \<Rightarrow> nat \<Rightarrow> nat \<Rightarrow> string" where
  "maybe_paren s my parent = (if parent < my then ''('' @ s @ '')'' else s)"

definition serialize_in :: "string \<Rightarrow> bool \<Rightarrow> string list \<Rightarrow> string" where
  "serialize_in f neg vs =
     f @ (if neg then '' NOT IN ('' else '' IN ('') @ join '', '' (map value_literal vs) @ '')''"

fun serialize_expr :: "expr \<Rightarrow> nat \<Rightarrow> string" where
  "serialize_expr (EAnd args) parent =
     maybe_paren (join '' AND '' (map (\<lambda>a. serialize_expr a prec_and) args)) prec_and parent"
| "serialize_expr (EOr args) parent =
     maybe_paren (join '' OR '' (map (\<lambda>a. serialize_expr a prec_or) args)) prec_or parent"
| "serialize_expr (ENot a) parent =
     ''NOT '' @ maybe_paren (serialize_expr a prec_and) prec_leaf (prec_and + 1)"
| "serialize_expr (ECmp f oper v) parent = f @ oper @ value_literal v"
| "serialize_expr (EIn f neg vs) parent = serialize_in f neg vs"
| "serialize_expr (EIsNull f neg) parent = f @ (if neg then '' IS NOT NULL'' else '' IS NULL'')"
| "serialize_expr (ELike f neg p) parent =
     f @ (if neg then '' NOT LIKE '' else '' LIKE '') @ string_literal p"
| "serialize_expr (EText v p) parent = quote_free_text v"
| "serialize_expr (EOther k) parent = []"

fun flatten_and :: "expr \<Rightarrow> expr list" where
  "flatten_and (EAnd args) = concat (map flatten_and args)"
| "flatten_and e = [e]"

definition combine_and :: "expr list \<Rightarrow> expr option" where
  "combine_and ns = (case ns of [] \<Rightarrow> None | [e] \<Rightarrow> Some e | _ \<Rightarrow> Some (EAnd ns))"

definition expr_has_field :: "expr list \<Rightarrow> string \<Rightarrow> bool" where
  "expr_has_field ns f = list_ex (\<lambda>e. case e of ECmp g oper v \<Rightarrow> g = f | _ \<Rightarrow> False) ns"

definition expr_has_text :: "expr list \<Rightarrow> bool" where
  "expr_has_text ns = list_ex (\<lambda>e. case e of EText v p \<Rightarrow> True | _ \<Rightarrow> False) ns"

definition smap_get :: "smap \<Rightarrow> string \<Rightarrow> string" where
  "smap_get m k = (case map_of m k of None \<Rightarrow> [] | Some v \<Rightarrow> v)"

definition sorted_keys :: "smap \<Rightarrow> string list" where
  "sorted_keys m = sort (map fst m)"

definition add_field :: "smap \<Rightarrow> expr list \<Rightarrow> string \<Rightarrow> expr list" where
  "add_field m ns k = (if expr_has_field ns k then ns else ns @ [ECmp k ''='' (smap_get m k)])"

definition merge_search_expr :: "smap \<Rightarrow> string \<Rightarrow> expr option \<Rightarrow> expr option" where
  "merge_search_expr m text e =
     (let base = (case e of None \<Rightarrow> [] | Some x \<Rightarrow> flatten_and x);
          ns = foldl (add_field m) base (sorted_keys m);
          all = (if trim_space text \<noteq> [] \<and> \<not> expr_has_text ns then ns @ [EText text []] else ns)
      in combine_and all)"

definition serialize_search :: "smap \<Rightarrow> string \<Rightarrow> expr option \<Rightarrow> string" where
  "serialize_search m text e =
     (case merge_search_expr m text e of
        None \<Rightarrow> []
      | Some x \<Rightarrow> serialize_expr x prec_leaf)"

section \<open>Commands\<close>

definition serialize_one_agg :: "aggregation \<Rightarrow> string" where
  "serialize_one_agg a =
     (if a_function a = ''count'' \<and> (a_field a = [] \<or> a_field a = ''*'') then ''count''
      else if a_field a \<noteq> [] \<and> a_field a \<noteq> ''*''
      then a_function a @ ''('' @ a_field a @ '')''
      else a_function a)
     @ (if a_alias a \<noteq> [] then '' as '' @ a_alias a else [])"

definition serialize_by :: "string list \<Rightarrow> string" where
  "serialize_by g = (if g \<noteq> [] then '' by '' @ join '', '' g else [])"

definition serialize_aggs_by :: "aggregation list \<Rightarrow> string list \<Rightarrow> string" where
  "serialize_aggs_by as g = join '', '' (map serialize_one_agg as) @ serialize_by g"

definition opt_setting :: "string \<Rightarrow> string \<Rightarrow> string" where
  "opt_setting name v = (if v \<noteq> [] then '' '' @ name @ ''='' @ v else [])"

definition sorted_pairs :: "smap \<Rightarrow> rename_pair list" where
  "sorted_pairs m = map (\<lambda>k. \<lparr>rp_from = k, rp_to = smap_get m k\<rparr>) (sorted_keys m)"

definition conditions_to_expr :: "condition list \<Rightarrow> expr option" where
  "conditions_to_expr cs =
     combine_and (map (\<lambda>c. ECmp (c_field c) (c_operator c) (c_value c)) cs)"

fun serialize_node :: "node \<Rightarrow> bool \<Rightarrow> string" where
  "serialize_node (SearchNode m t e) is_first =
     (let s = serialize_search m t e in if s = [] \<and> is_first then ''search'' else s)"
| "serialize_node (UnsupportedNode name raw) is_first = trim_space_bytes raw"
| "serialize_node (WhereNode cs e) is_first =
     (case (if e = None then conditions_to_expr cs else e) of
        None \<Rightarrow> ''where 1=1''
      | Some x \<Rightarrow> ''where '' @ serialize_expr x prec_leaf)"
| "serialize_node (EvalNode f e as) is_first =
     ''eval '' @ join '', '' (map (\<lambda>a. ea_field a @ ''='' @ ea_expr a) (eval_assignments f e as))"
| "serialize_node (FieldsNode inc fs) is_first =
     ''fields '' @ join '', '' (map (\<lambda>f. if inc then f else ''-'' @ f) fs)"
| "serialize_node (TableNode fs) is_first = ''table '' @ join '', '' fs"
| "serialize_node (RenameNode m ps) is_first =
     ''rename '' @ join '', '' (map (\<lambda>p. rp_from p @ '' as '' @ rp_to p)
                                 (if ps = [] then sorted_pairs m else ps))"
| "serialize_node (StatsNode as g) is_first = ''stats '' @ serialize_aggs_by as g"
| "serialize_node (TimechartNode a sp g) is_first =
     ''timechart'' @ opt_setting ''span'' sp @ '' '' @ serialize_one_agg a @ serialize_by g"
| "serialize_node (SortNode fs) is_first =
     ''sort '' @ join '', '' (map (\<lambda>f. (if sf_desc f then ''-'' else []) @ sf_field f) fs)"
| "serialize_node (HeadNode n) is_first = ''head '' @ itoa n"
| "serialize_node (TailNode n) is_first = ''tail '' @ itoa n"
| "serialize_node (DedupNode f) is_first = ''dedup '' @ f"
| "serialize_node (RexNode f p r m) is_first =
     ''rex'' @ opt_setting ''field'' f @ '' '' @ string_literal p @ opt_setting ''rename'' r
       @ opt_setting ''mode'' m"
| "serialize_node (BinNode f sp) is_first = ''bin '' @ f @ opt_setting ''span'' sp"
| "serialize_node (LookupNode l i os ap) is_first =
     ''lookup '' @ l @ '' '' @ i @ (if os \<noteq> [] then '' OUTPUT '' @ join '', '' os else [])
       @ (if ap then '' APPEND'' else [])"
| "serialize_node (EventstatsNode as g) is_first = ''eventstats '' @ serialize_aggs_by as g"
| "serialize_node (StreamstatsNode as g w) is_first =
     ''streamstats'' @ (if 0 < w then '' window='' @ itoa w else []) @ '' '' @ serialize_aggs_by as g"

fun serialize_parts :: "bool \<Rightarrow> node list \<Rightarrow> string list" where
  "serialize_parts is_first [] = []"
| "serialize_parts is_first (n # ns) =
     (let s = serialize_node n is_first
      in if trim_space s = [] then serialize_parts False ns else s # serialize_parts False ns)"

definition serialize :: "query \<Rightarrow> string" where
  "serialize q = join [CHR 0x0A, CHR ''|'', CHR '' ''] (serialize_parts True (q_commands q))"

end
