(* ===== verification/SplRoundTrip.thy ===== *)
theory SplRoundTrip
  imports SplReading SplParser SplSerializer
begin

text \<open>
  Expressions survive printing and parsing: for the expressions \<open>rt_expr\<close>, the text of
  \<^verbatim>\<open>serializeExpr\<close> is tokenized and parsed to \<open>norm e\<close>, the same expression with its conjunctions
  and disjunctions nested to the left, which has the same meaning. The first part tells which
  tokens a printed text is read as (\<open>emits\<close>), the second how the parser reads those tokens.
\<close>

section \<open>The expressions that survive\<close>

definition reserved :: "string \<Rightarrow> bool" where
  "reserved f = list_ex (equal_fold f) [''not'', ''and'', ''or'', ''in'', ''like'', ''is'', ''as'']"

definition field_ok :: "string \<Rightarrow> bool" where
  "field_ok f = (name_text f \<and> \<not> reserved f)"

definition value_ok :: "string \<Rightarrow> bool" where
  "value_ok v = (if needs_quote v then plain_text v else name_text v \<or> number_text v \<or> v = ''*'')"

definition text_ok :: "string \<Rightarrow> bool" where
  "text_ok v =
     (if needs_quote v then plain_text v
      else (name_text v \<and> \<not> reserved v) \<or> number_text v \<or> v = ''*'')"

fun is_and :: "expr \<Rightarrow> bool" where
  "is_and (EAnd _) = True"
| "is_and _ = False"

fun rt_expr :: "expr \<Rightarrow> bool" where
  "rt_expr (EAnd es) = (es \<noteq> [] \<and> list_all rt_expr es)"
| "rt_expr (EOr es) = (es \<noteq> [] \<and> list_all rt_expr es)"
| "rt_expr (ENot e) = (rt_expr e \<and> \<not> is_and e)"
| "rt_expr (ECmp f oper v) = (field_ok f \<and> oper \<in> set comparators \<and> value_ok v)"
| "rt_expr (EIn f neg vs) = (field_ok f \<and> vs \<noteq> [] \<and> list_all value_ok vs)"
| "rt_expr (EIsNull f neg) = field_ok f"
| "rt_expr (ELike f neg p) = (field_ok f \<and> \<not> neg \<and> plain_text p)"
| "rt_expr (EText v p) = text_ok v"
| "rt_expr (EOther k) = False"

text \<open>What the parser makes of it.\<close>

definition chain :: "(expr list \<Rightarrow> expr) \<Rightarrow> expr option \<Rightarrow> expr \<Rightarrow> expr option" where
  "chain f acc x = Some (case acc of None \<Rightarrow> x | Some a \<Rightarrow> f [a, x])"

definition nest :: "(expr list \<Rightarrow> expr) \<Rightarrow> expr option \<Rightarrow> expr list \<Rightarrow> expr option" where
  "nest f acc xs = foldl (chain f) acc xs"

fun norm :: "expr \<Rightarrow> expr"
  and and_items :: "expr \<Rightarrow> expr list"
  and or_items :: "expr \<Rightarrow> expr list" where
  "norm (EAnd es) = the (nest EAnd None (concat (map and_items es)))"
| "norm (EOr es) = the (nest EOr None (concat (map or_items es)))"
| "norm (ENot e) = ENot (norm e)"
| "norm (EText v p) = EText v (if needs_quote v then v else [])"
| "norm (ECmp f oper v) = ECmp f oper v"
| "norm (EIn f neg vs) = EIn f neg vs"
| "norm (EIsNull f neg) = EIsNull f neg"
| "norm (ELike f neg p) = ELike f neg p"
| "norm (EOther k) = EOther k"
| "and_items (EAnd es) = concat (map and_items es)"
| "and_items (EOr es) = [the (nest EOr None (concat (map or_items es)))]"
| "and_items (ENot e) = [ENot (norm e)]"
| "and_items (EText v p) = [EText v (if needs_quote v then v else [])]"
| "and_items (ECmp f oper v) = [ECmp f oper v]"
| "and_items (EIn f neg vs) = [EIn f neg vs]"
| "and_items (EIsNull f neg) = [EIsNull f neg]"
| "and_items (ELike f neg p) = [ELike f neg p]"
| "and_items (EOther k) = [EOther k]"
| "or_items (EOr es) = concat (map or_items es)"
| "or_items (EAnd es) = [the (nest EAnd None (concat (map and_items es)))]"
| "or_items (ENot e) = [ENot (norm e)]"
| "or_items (EText v p) = [EText v (if needs_quote v then v else [])]"
| "or_items (ECmp f oper v) = [ECmp f oper v]"
| "or_items (EIn f neg vs) = [EIn f neg vs]"
| "or_items (EIsNull f neg) = [EIsNull f neg]"
| "or_items (ELike f neg p) = [ELike f neg p]"
| "or_items (EOther k) = [EOther k]"

text \<open>The meaning of an expression, from the truth of its leaves.\<close>

fun holds :: "(expr \<Rightarrow> bool) \<Rightarrow> expr \<Rightarrow> bool" where
  "holds I (EAnd es) = list_all (holds I) es"
| "holds I (EOr es) = list_ex (holds I) es"
| "holds I (ENot e) = (\<not> holds I e)"
| "holds I (EText v p) = I (EText v [])"
| "holds I e = I e"

section \<open>Tokens of printed texts\<close>

definition sep_start :: "string \<Rightarrow> bool" where
  "sep_start rest = (rest = [] \<or> hd rest \<in> set '' ),'')"

definition emits :: "string \<Rightarrow> (token_kind \<times> string) list \<Rightarrow> bool" where
  "emits s ks = (\<forall>(lx :: lexer) ws rest. ahead lx = ws @ s @ rest \<longrightarrow> spaces ws \<longrightarrow> sep_start rest \<longrightarrow>
     (\<exists>ts lx'. lex_steps lx ts lx' \<and> map kv ts = ks \<and> ahead lx' = rest))"

lemma emitsI:
  "(\<And>(lx :: lexer) ws rest. ahead lx = ws @ s @ rest \<Longrightarrow> spaces ws \<Longrightarrow> sep_start rest \<Longrightarrow>
     \<exists>ts lx'. lex_steps lx ts lx' \<and> map kv ts = ks \<and> ahead lx' = rest) \<Longrightarrow> emits s ks"
  by (simp add: emits_def)

lemma emitsE:
  assumes "emits s ks" and "ahead lx = ws @ s @ rest" and "spaces ws" and "sep_start rest"
  obtains ts lx' where "lex_steps lx ts lx'" "map kv ts = ks" "ahead lx' = rest"
  using assms unfolding emits_def by blast

lemma sep_start_ends:
  assumes "sep_start rest"
  shows "name_ends rest" "number_ends rest"
proof -
  have "\<not> is_name_part (CHR '' '')" "\<not> is_name_part (CHR '')'')" "\<not> is_name_part (CHR '','')"
    "\<not> is_digit (CHR '' '')" "\<not> is_digit (CHR '')'')" "\<not> is_digit (CHR '','')"
    by code_simp+
  then show "name_ends rest" "number_ends rest"
    using assms by (auto simp: sep_start_def name_ends_def number_ends_def)
qed

text \<open>One token.\<close>

lemma one_token:
  assumes "lex_next lx = (t, lx')" and "kv t = (k, v)" and "k \<noteq> TokenEOF" and "k \<noteq> TokenOp \<or> v \<noteq> []"
  shows "lex_steps lx [t] lx'"
  using assms by (intro lex_more [OF assms(1) _ _ lex_done]) (auto simp: kv_def)

lemma emits_name: "name_text n \<Longrightarrow> emits n [(TokenName, n)]"
  using lex_next_name [of _ _ n] sep_start_ends one_token
  by (intro emitsI) (metis kv_mk_token list.simps(8,9) token_kind.distinct)


lemma emits_number: "number_text n \<Longrightarrow> emits n [(TokenNumber, n)]"
  using lex_next_number [of _ _ n] sep_start_ends one_token
  by (intro emitsI) (metis kv_mk_token list.simps(8,9) token_kind.distinct)

lemma emits_string: "plain_text v \<Longrightarrow> emits (string_literal v) [(TokenString, v)]"
  using lex_next_string [of _ _ v] one_token
  by (intro emitsI) (metis list.simps(8,9) token_kind.distinct)

lemma emits_punct: "punct_kind c = Some k \<Longrightarrow> emits [c] [(k, [c])]"
  using lex_next_punct [of _ _ c _ k] one_token punct_kind_not_eof [of c]
  by (intro emitsI) (metis append_Cons append_Nil kv_mk_token list.simps(3,8,9))

text \<open>Texts side by side.\<close>

lemma emits_append:
  assumes "emits s ks" and "emits s' ks'" and "s' \<noteq> []" and "sep_start s'"
  shows "emits (s @ s') (ks @ ks')"
proof (rule emitsI)
  fix lx :: lexer and ws rest
  assume a: "ahead lx = ws @ (s @ s') @ rest" "spaces ws" "sep_start rest"
  have "sep_start (s' @ rest)" using assms(3,4) by (cases s') (simp_all add: sep_start_def)
  with emitsE [OF assms(1), of lx ws "s' @ rest"] a obtain ts lx1 where
    1: "lex_steps lx ts lx1" "map kv ts = ks" "ahead lx1 = s' @ rest" by auto
  from emitsE [OF assms(2), of lx1 "[]" rest] 1(3) a(3) obtain us lx2 where
    2: "lex_steps lx1 us lx2" "map kv us = ks'" "ahead lx2 = rest" by auto
  show "\<exists>ts lx'. lex_steps lx ts lx' \<and> map kv ts = ks @ ks' \<and> ahead lx' = rest"
    by (rule exI [of _ "ts @ us"], rule exI [of _ lx2]) (use 1 2 lex_steps_append in auto)
qed

lemma emits_blank: "emits s ks \<Longrightarrow> emits (CHR '' '' # s) ks"
proof (rule emitsI)
  fix lx :: lexer and ws rest
  assume e: "emits s ks" and a: "ahead lx = ws @ (CHR '' '' # s) @ rest" "spaces ws" and r: "sep_start rest"
  from a have "ahead lx = (ws @ '' '') @ s @ rest" "spaces (ws @ '' '')" by (simp_all add: spaces_def)
  from emitsE [OF e this r] show "\<exists>ts lx'. lex_steps lx ts lx' \<and> map kv ts = ks \<and> ahead lx' = rest"
    by metis
qed

lemma emits_space_append:
  "emits s ks \<Longrightarrow> emits s' ks' \<Longrightarrow> emits (s @ CHR '' '' # s') (ks @ ks')"
  using emits_append [of s ks "CHR '' '' # s'" ks'] emits_blank [of s' ks'] by (simp add: sep_start_def)

text \<open>A token that needs nothing after it, and an operator between two operands.\<close>

lemma emits_punct_Cons:
  assumes "punct_kind c = Some k" and "emits s ks"
  shows "emits (c # s) ((k, [c]) # ks)"
proof (rule emitsI)
  fix lx :: lexer and ws rest
  assume a: "ahead lx = ws @ (c # s) @ rest" "spaces ws" "sep_start rest"
  then obtain p lx1 where 1: "lex_next lx = (mk_token k [c] [c] p, lx1)" "ahead lx1 = s @ rest"
    using lex_next_punct [of lx ws c "s @ rest" k] assms(1) by auto
  from emitsE [OF assms(2), of lx1 "[]" rest] 1(2) a(3) obtain ts lx2 where
    2: "lex_steps lx1 ts lx2" "map kv ts = ks" "ahead lx2 = rest" by auto
  have "lex_steps lx [mk_token k [c] [c] p] lx1"
    using 1(1) assms(1) punct_kind_not_eof [of c] by (intro one_token) auto
  then show "\<exists>ts lx'. lex_steps lx ts lx' \<and> map kv ts = (k, [c]) # ks \<and> ahead lx' = rest"
    by (intro exI [of _ "mk_token k [c] [c] p # ts"] exI [of _ lx2])
      (use 2 lex_steps_append [of lx "[mk_token k [c] [c] p]" lx1 ts lx2] in auto)
qed

lemma emits_comparison:
  assumes "name_text f" and "oper \<in> set comparators" and "emits v [k]" and "op_ends v"
  shows "emits (f @ oper @ v) [(TokenName, f), (TokenOp, oper), k]"
proof (rule emitsI)
  fix lx :: lexer and ws rest
  assume a: "ahead lx = ws @ (f @ oper @ v) @ rest" "spaces ws" "sep_start rest"
  obtain p lx1 where 1: "lex_next lx = (mk_token TokenName f f p, lx1)" "ahead lx1 = oper @ v @ rest"
    using lex_next_name [of lx ws f "oper @ v @ rest"] a(1,2) assms(1) comparator_ends_name [OF assms(2)] by auto
  have "op_ends (v @ rest)" using assms(4) by (cases v) (simp_all add: op_ends_def)
  then obtain q lx2 where 2: "lex_next lx1 = (mk_token TokenOp oper oper q, lx2)" "ahead lx2 = v @ rest"
    using lex_next_comparator [of lx1 "[]" oper "v @ rest"] 1(2) assms(2) by auto
  from emitsE [OF assms(3), of lx2 "[]" rest] 2(2) a(3) obtain ts lx3 where
    3: "lex_steps lx2 ts lx3" "map kv ts = [k]" "ahead lx3 = rest" by auto
  have o: "oper \<noteq> []" using assms(2) by (auto simp: comparators_def)
  have s1: "lex_steps lx [mk_token TokenName f f p] lx1" by (rule one_token [OF 1(1) kv_mk_token]) simp_all
  have s2: "lex_steps lx1 [mk_token TokenOp oper oper q] lx2"
    by (rule one_token [OF 2(1) kv_mk_token]) (simp_all add: o)
  show "\<exists>ts lx'. lex_steps lx ts lx' \<and> map kv ts = [(TokenName, f), (TokenOp, oper), k] \<and> ahead lx' = rest"
    by (intro exI [of _ "mk_token TokenName f f p # mk_token TokenOp oper oper q # ts"] exI [of _ lx3])
      (use 3 lex_steps_append [OF s1 lex_steps_append [OF s2 3(1)]] in auto)
qed

subsection \<open>Values\<close>

definition kv_value :: "string \<Rightarrow> token_kind \<times> string" where
  "kv_value v =
     (if needs_quote v then (TokenString, v)
      else if name_text v then (TokenName, v)
      else if v = ''*'' then (TokenStar, v)
      else (TokenNumber, v))"

lemma emits_unquoted:
  "name_text v \<or> number_text v \<or> v = ''*'' \<Longrightarrow> \<not> needs_quote v \<Longrightarrow> emits v [kv_value v]"
proof -
  have star: "punct_kind (CHR ''*'') = Some TokenStar" "\<not> name_text ''*''" by code_simp+
  assume "name_text v \<or> number_text v \<or> v = ''*''" "\<not> needs_quote v"
  then show ?thesis
    using emits_name [of v] emits_number [of v] emits_punct [OF star(1)] star(2)
    by (cases "name_text v"; cases "v = ''*''") (simp_all add: kv_value_def)
qed

lemma emits_value: "value_ok v \<Longrightarrow> emits (value_literal v) [kv_value v]"
  using emits_string [of v] emits_unquoted [of v]
  by (auto simp: value_ok_def value_literal_def kv_value_def split: if_splits)

lemma emits_text: "text_ok v \<Longrightarrow> emits (quote_free_text v) [kv_value v]"
proof -
  have "quote_free_text v = value_literal v"
  proof (cases v)
    case Nil
    have "needs_quote []" "string_literal [] = [dquote, dquote]" by code_simp+
    then show ?thesis using Nil by (simp add: quote_free_text_def value_literal_def)
  qed (simp add: quote_free_text_def value_literal_def)
  moreover assume "text_ok v"
  then have "value_ok v" by (auto simp: text_ok_def value_ok_def split: if_splits)
  ultimately show ?thesis using emits_value by simp
qed

lemma value_op_ends:
  assumes "value_ok v"
  shows "op_ends (value_literal v)"
proof (cases "needs_quote v")
  case True
  then show ?thesis by (simp add: value_literal_def string_literal_def op_ends_def)
next
  case False
  have "\<not> is_digit (CHR ''='')" "\<not> is_digit (CHR ''>'')" "\<not> is_name_start (CHR ''='')"
    "\<not> is_name_start (CHR ''>'')" by code_simp+
  then show ?thesis
    using False assms
    by (cases v) (auto simp: value_ok_def value_literal_def op_ends_def name_text_def number_text_def)
qed


subsection \<open>Expressions\<close>

text \<open>The tokens of \<open>serialize_expr e parent\<close>.\<close>

definition kw_tok :: "string \<Rightarrow> token_kind \<times> string" where
  "kw_tok w = (TokenName, w)"

definition tok_paren :: "(token_kind \<times> string) list \<Rightarrow> (token_kind \<times> string) list" where
  "tok_paren ks = (TokenLParen, ''('') # ks @ [(TokenRParen, '')'')]"

fun tok_join :: "'a list \<Rightarrow> 'a list list \<Rightarrow> 'a list" where
  "tok_join sep [] = []"
| "tok_join sep [x] = x"
| "tok_join sep (x # y # xs) = x @ sep @ tok_join sep (y # xs)"

fun toks :: "expr \<Rightarrow> nat \<Rightarrow> (token_kind \<times> string) list" where
  "toks (EAnd es) p =
     (let ks = tok_join [kw_tok ''AND''] (map (\<lambda>e. toks e prec_and) es)
      in if p < prec_and then tok_paren ks else ks)"
| "toks (EOr es) p =
     (let ks = tok_join [kw_tok ''OR''] (map (\<lambda>e. toks e prec_or) es)
      in if p < prec_or then tok_paren ks else ks)"
| "toks (ENot e) p = kw_tok ''NOT'' # toks e prec_and"
| "toks (ECmp f oper v) p = [(TokenName, f), (TokenOp, oper), kv_value v]"
| "toks (EIn f neg vs) p =
     (TokenName, f) # (if neg then [kw_tok ''NOT'', kw_tok ''IN''] else [kw_tok ''IN''])
     @ tok_paren (tok_join [(TokenComma, '','')] (map (\<lambda>v. [kv_value v]) vs))"
| "toks (EIsNull f neg) p =
     (TokenName, f) # (if neg then [kw_tok ''IS'', kw_tok ''NOT'', kw_tok ''NULL'']
                       else [kw_tok ''IS'', kw_tok ''NULL''])"
| "toks (ELike f neg q) p = [(TokenName, f), kw_tok ''LIKE'', (TokenString, q)]"
| "toks (EText v q) p = [kv_value v]"
| "toks (EOther k) p = []"

lemma keyword_texts:
  "name_text ''NOT''" "name_text ''AND''" "name_text ''OR''" "name_text ''IN''" "name_text ''LIKE''"
  "name_text ''IS''" "name_text ''NULL''"
  by code_simp+

lemma emits_keyword: "name_text w \<Longrightarrow> emits w [kw_tok w]"
  by (simp add: kw_tok_def emits_name)

lemma punct_kinds:
  "punct_kind (CHR ''('') = Some TokenLParen" "punct_kind (CHR '')'') = Some TokenRParen"
  "punct_kind (CHR '','') = Some TokenComma"
  by (simp_all add: punct_kind_def)

lemma emits_paren:
  assumes "emits s ks"
  shows "emits (''('' @ s @ '')'') (tok_paren ks)"
proof -
  have "emits (s @ '')'') (ks @ [(TokenRParen, '')'')])"
    using assms emits_punct [OF punct_kinds(2)] by (intro emits_append) (simp_all add: sep_start_def)
  from emits_punct_Cons [OF punct_kinds(1) this] show ?thesis by (simp add: tok_paren_def)
qed

lemma emits_join_word:
  assumes "name_text w" and "xs \<noteq> []" and "list_all2 emits xs kss"
  shows "emits (join (CHR '' '' # w @ '' '') xs) (tok_join [kw_tok w] kss)"
  using assms(2,3)
proof (induction "CHR '' '' # w @ '' ''" xs arbitrary: kss rule: join.induct)
  case (2 x)
  then show ?case by (auto simp: list_all2_Cons1)
next
  case (3 x y xs)
  then obtain k ks where k: "kss = k # ks" "emits x k" "list_all2 emits (y # xs) ks"
    by (auto simp: list_all2_Cons1)
  then have r: "emits (join (CHR '' '' # w @ '' '') (y # xs)) (tok_join [kw_tok w] ks)"
    by (intro "3.hyps") simp_all
  have "emits (x @ CHR '' '' # w @ CHR '' '' # join (CHR '' '' # w @ '' '') (y # xs))
      (k @ [kw_tok w] @ tok_join [kw_tok w] ks)"
    by (rule emits_space_append [OF k(2) emits_space_append [OF emits_keyword [OF assms(1)] r]])
  moreover obtain k' ks' where "ks = k' # ks'" using k(3) by (auto simp: list_all2_Cons1)
  ultimately show ?case using k(1) by simp
qed simp

lemma emits_join_comma:
  assumes "xs \<noteq> []" and "list_all2 emits xs kss"
  shows "emits (join '', '' xs) (tok_join [(TokenComma, '','')] kss)"
  using assms
proof (induction "'', ''" xs arbitrary: kss rule: join.induct)
  case (2 x)
  then show ?case by (auto simp: list_all2_Cons1)
next
  case (3 x y xs)
  then obtain k ks where k: "kss = k # ks" "emits x k" "list_all2 emits (y # xs) ks"
    by (auto simp: list_all2_Cons1)
  then have "emits (join '', '' (y # xs)) (tok_join [(TokenComma, '','')] ks)"
    by (intro "3.hyps") simp_all
  from emits_punct_Cons [OF punct_kinds(3) emits_blank [OF this]]
  have "emits (x @ '', '' @ join '', '' (y # xs)) (k @ (TokenComma, '','') # tok_join [(TokenComma, '','')] ks)"
    using emits_append [OF k(2), of "'', '' @ join '', '' (y # xs)"] by (simp add: sep_start_def)
  moreover obtain k' ks' where "ks = k' # ks'" using k(3) by (auto simp: list_all2_Cons1)
  ultimately show ?case using k(1) by simp
qed simp

lemma emits_expr: "rt_expr e \<Longrightarrow> emits (serialize_expr e p) (toks e p)"
proof (induction e p rule: toks.induct)
  case (1 es p)
  have l: "list_all2 emits (map (\<lambda>a. serialize_expr a prec_and) es) (map (\<lambda>e. toks e prec_and) es)"
    using 1 by (auto simp: list_all2_map1 list_all2_map2 list_all2_same list_all_iff)
  have "emits (join '' AND '' (map (\<lambda>a. serialize_expr a prec_and) es))
      (tok_join [kw_tok ''AND''] (map (\<lambda>e. toks e prec_and) es))"
    using emits_join_word [OF keyword_texts(2) _ l] "1.prems" by simp
  then show ?case using emits_paren by (auto simp: maybe_paren_def Let_def)
next
  case (2 es p)
  have l: "list_all2 emits (map (\<lambda>a. serialize_expr a prec_or) es) (map (\<lambda>e. toks e prec_or) es)"
    using 2 by (auto simp: list_all2_map1 list_all2_map2 list_all2_same list_all_iff)
  have "emits (join '' OR '' (map (\<lambda>a. serialize_expr a prec_or) es))
      (tok_join [kw_tok ''OR''] (map (\<lambda>e. toks e prec_or) es))"
    using emits_join_word [OF keyword_texts(3) _ l] "2.prems" by simp
  then show ?case using emits_paren by (auto simp: maybe_paren_def Let_def)
next
  case (3 e p)
  then have "emits (serialize_expr e prec_and) (toks e prec_and)" by simp
  from emits_space_append [OF emits_keyword [OF keyword_texts(1)] this] show ?case
    by (simp add: maybe_paren_def prec_leaf_def prec_and_def)
next
  case (4 f oper v p)
  then show ?case
    using emits_comparison [OF _ _ emits_value value_op_ends, of f oper v] by (simp add: field_ok_def)
next
  case (5 f neg vs p)
  have l: "list_all2 emits (map value_literal vs) (map (\<lambda>v. [kv_value v]) vs)"
    using 5 emits_value by (auto simp: list_all2_map1 list_all2_map2 list_all2_same list_all_iff)
  have v: "emits (''('' @ join '', '' (map value_literal vs) @ '')'')
      (tok_paren (tok_join [(TokenComma, '','')] (map (\<lambda>v. [kv_value v]) vs)))"
    using emits_paren [OF emits_join_comma [OF _ l]] 5 by simp
  have f: "emits f [(TokenName, f)]" using 5 by (simp add: field_ok_def emits_name)
  note i = emits_space_append [OF emits_keyword [OF keyword_texts(4)] v]
  note n = emits_space_append [OF emits_keyword [OF keyword_texts(1)] i]
  show ?case
    using emits_space_append [OF f i] emits_space_append [OF f n] by (simp add: serialize_in_def)
next
  case (6 f neg p)
  have f: "emits f [(TokenName, f)]" using 6 by (simp add: field_ok_def emits_name)
  note k = emits_keyword [OF keyword_texts(7)]
  note n = emits_space_append [OF emits_keyword [OF keyword_texts(1)] k]
  show ?case
    using emits_space_append [OF f emits_space_append [OF emits_keyword [OF keyword_texts(6)] k]]
      emits_space_append [OF f emits_space_append [OF emits_keyword [OF keyword_texts(6)] n]] by simp
next
  case (7 f neg q p)
  have f: "emits f [(TokenName, f)]" using 7 by (simp add: field_ok_def emits_name)
  show ?case
    using emits_space_append [OF f emits_space_append [OF emits_keyword [OF keyword_texts(5)] emits_string [of q]]] 7
    by simp
next
  case (8 v q p)
  then show ?case using emits_text by simp
qed simp

lemma tokenize_emitted:
  assumes "emits s ks"
  obtains ts p where "tokenize s = Some (Inr (ts @ [mk_token TokenEOF [] [] p]))" "map kv ts = ks"
proof -
  obtain ts lx where 1: "lex_steps (new_lexer s) ts lx" "map kv ts = ks" "ahead lx = []"
    using emitsE [OF assms, of "new_lexer s" "[]" "[]"] by (auto simp: new_lexer_def sep_start_def)
  have "tokens_from lx = Some (Inr [mk_token TokenEOF [] [] (lex_pos (skip_space lx))])"
    by (rule tokens_from_end) (simp add: 1(3))
  then have "tokenize s = Some (Inr (ts @ [mk_token TokenEOF [] [] (lex_pos (skip_space lx))]))"
    using lex_steps_tokens [OF 1(1)] by (simp add: tokenize_def)
  then show ?thesis using 1(2) that by blast
qed


section \<open>More fuel does not change an answer\<close>

lemma more_fuel:
  "parse_or n ts = Some r \<Longrightarrow> n \<le> m \<Longrightarrow> parse_or m ts = Some r"
  "or_loop n l ts = Some r \<Longrightarrow> n \<le> m \<Longrightarrow> or_loop m l ts = Some r"
  "parse_and n ts = Some r \<Longrightarrow> n \<le> m \<Longrightarrow> parse_and m ts = Some r"
  "and_loop n l ts = Some r \<Longrightarrow> n \<le> m \<Longrightarrow> and_loop m l ts = Some r"
  "parse_unary n ts = Some r \<Longrightarrow> n \<le> m \<Longrightarrow> parse_unary m ts = Some r"
  "parse_primary n ts = Some r \<Longrightarrow> n \<le> m \<Longrightarrow> parse_primary m ts = Some r"
proof (induction n ts and n l ts and n ts and n l ts and n ts and n ts
    arbitrary: r m and r m and r m and r m and r m and r m
    rule: parse_or_or_loop_parse_and_and_loop_parse_unary_parse_primary.induct)
  case (2 n ts)
  obtain k where m: "m = Suc k" "n \<le> k" using "2.prems"(2) by (cases m) auto
  from "2.prems"(1) show ?case
    using "2.IH"(1) [OF _ m(2)] "2.IH"(2) [OF _ _ _ _ m(2)]
    by (auto simp: m(1) split: option.splits sum.splits prod.splits)
next
  case (4 n left ts)
  obtain k where m: "m = Suc k" "n \<le> k" using "4.prems"(2) by (cases m) auto
  from "4.prems"(1) show ?case
    using "4.IH"(1) [OF _ _ m(2)] "4.IH"(2) [OF _ _ _ _ _ m(2)]
    by (auto simp: m(1) split: option.splits sum.splits prod.splits if_splits)
next
  case (6 n ts)
  obtain k where m: "m = Suc k" "n \<le> k" using "6.prems"(2) by (cases m) auto
  from "6.prems"(1) show ?case
    using "6.IH"(1) [OF _ m(2)] "6.IH"(2) [OF _ _ _ _ m(2)]
    by (auto simp: m(1) split: option.splits sum.splits prod.splits)
next
  case (8 n left ts)
  obtain k where m: "m = Suc k" "n \<le> k" using "8.prems"(2) by (cases m) auto
  from "8.prems"(1) show ?case
    using "8.IH"(1) [OF _ _ m(2)] "8.IH"(2) [OF _ _ _ _ _ m(2)] "8.IH"(3) [OF _ _ _ m(2)]
      "8.IH"(4) [OF _ _ _ _ _ _ m(2)]
    by (auto simp: m(1) split: option.splits sum.splits prod.splits if_splits)
next
  case (10 n ts)
  obtain k where m: "m = Suc k" "n \<le> k" using "10.prems"(2) by (cases m) auto
  from "10.prems"(1) show ?case
    using "10.IH"(1) [OF _ _ m(2)] "10.IH"(2) [OF _ _ m(2)]
    by (auto simp: m(1) split: option.splits sum.splits prod.splits if_splits)
next
  case (12 n ts)
  obtain k where m: "m = Suc k" "n \<le> k" using "12.prems"(2) by (cases m) auto
  from "12.prems"(1) show ?case
    using "12.IH"(1) [OF _ _ m(2)] "12.IH"(2) [OF _ _ _ m(2)]
    by (auto simp: m(1) split: option.splits sum.splits prod.splits if_splits)
qed simp_all


section \<open>How the parser reads tokens\<close>

definition reads_or :: "token list \<Rightarrow> expr \<Rightarrow> token list \<Rightarrow> bool" where
  "reads_or ts e us = (\<exists>n. parse_or n ts = Some (Inr (e, us)))"

definition more_or :: "expr \<Rightarrow> token list \<Rightarrow> expr \<Rightarrow> token list \<Rightarrow> bool" where
  "more_or l ts e us = (\<exists>n. or_loop n l ts = Some (Inr (e, us)))"

definition reads_and :: "token list \<Rightarrow> expr \<Rightarrow> token list \<Rightarrow> bool" where
  "reads_and ts e us = (\<exists>n. parse_and n ts = Some (Inr (e, us)))"

definition more_and :: "expr \<Rightarrow> token list \<Rightarrow> expr \<Rightarrow> token list \<Rightarrow> bool" where
  "more_and l ts e us = (\<exists>n. and_loop n l ts = Some (Inr (e, us)))"

definition reads_unary :: "token list \<Rightarrow> expr \<Rightarrow> token list \<Rightarrow> bool" where
  "reads_unary ts e us = (\<exists>n. parse_unary n ts = Some (Inr (e, us)))"

text \<open>Two answers found with some fuel each are found with their maximum.\<close>

lemma reads_orI:
  assumes "reads_and ts a us" and "more_or a us e vs"
  shows "reads_or ts e vs"
proof -
  obtain n m where "parse_and n ts = Some (Inr (a, us))" "or_loop m a us = Some (Inr (e, vs))"
    using assms by (auto simp: reads_and_def more_or_def)
  then have "parse_or (Suc (max n m)) ts = Some (Inr (e, vs))"
    using more_fuel(3) [of n ts _ "max n m"] more_fuel(2) [of m a us _ "max n m"] by simp
  then show ?thesis unfolding reads_or_def by blast
qed

lemma more_or_stop: "\<not> kw ''or'' (cur ts) \<Longrightarrow> more_or l ts l ts"
  unfolding more_or_def by (rule exI [of _ "Suc 0"]) simp

lemma more_or_step:
  assumes "kw ''or'' t" and "reads_and ts a us" and "more_or (EOr [l, a]) us e vs"
  shows "more_or l (t # ts) e vs"
proof -
  obtain n m where "parse_and n ts = Some (Inr (a, us))" "or_loop m (EOr [l, a]) us = Some (Inr (e, vs))"
    using assms by (auto simp: reads_and_def more_or_def)
  then have "or_loop (Suc (max n m)) l (t # ts) = Some (Inr (e, vs))"
    using more_fuel(3) [of n ts _ "max n m"] more_fuel(2) [of m _ us _ "max n m"] assms(1) by simp
  then show ?thesis unfolding more_or_def by blast
qed

lemma reads_andI:
  assumes "reads_unary ts a us" and "more_and a us e vs"
  shows "reads_and ts e vs"
proof -
  obtain n m where "parse_unary n ts = Some (Inr (a, us))" "and_loop m a us = Some (Inr (e, vs))"
    using assms by (auto simp: reads_unary_def more_and_def)
  then have "parse_and (Suc (max n m)) ts = Some (Inr (e, vs))"
    using more_fuel(5) [of n ts _ "max n m"] more_fuel(4) [of m a us _ "max n m"] by simp
  then show ?thesis unfolding reads_and_def by blast
qed

lemma more_and_stop: "\<not> kw ''and'' (cur ts) \<Longrightarrow> \<not> starts_operand (cur ts) \<Longrightarrow> more_and l ts l ts"
  unfolding more_and_def by (rule exI [of _ "Suc 0"]) simp

lemma more_and_step:
  assumes "kw ''and'' t" and "reads_unary ts a us" and "more_and (EAnd [l, a]) us e vs"
  shows "more_and l (t # ts) e vs"
proof -
  obtain n m where "parse_unary n ts = Some (Inr (a, us))" "and_loop m (EAnd [l, a]) us = Some (Inr (e, vs))"
    using assms by (auto simp: reads_unary_def more_and_def)
  then have "and_loop (Suc (max n m)) l (t # ts) = Some (Inr (e, vs))"
    using more_fuel(5) [of n ts _ "max n m"] more_fuel(4) [of m _ us _ "max n m"] assms(1) by simp
  then show ?thesis unfolding more_and_def by blast
qed

lemma reads_unary_not:
  assumes "kw ''not'' t" and "reads_unary ts e us"
  shows "reads_unary (t # ts) (ENot e) us"
proof -
  obtain n where "parse_unary n ts = Some (Inr (e, us))" using assms(2) by (auto simp: reads_unary_def)
  then have "parse_unary (Suc n) (t # ts) = Some (Inr (ENot e, us))" using assms(1) by simp
  then show ?thesis unfolding reads_unary_def by blast
qed

lemma reads_unary_paren:
  assumes "t_kind t = TokenLParen" and "reads_or ts e (r # us)" and "t_kind r = TokenRParen"
  shows "reads_unary (t # ts) e us"
proof -
  obtain n where "parse_or n ts = Some (Inr (e, r # us))" using assms(2) by (auto simp: reads_or_def)
  then have "parse_unary (Suc (Suc n)) (t # ts) = Some (Inr (e, us))" using assms(1,3) by (simp add: kw_def)
  then show ?thesis unfolding reads_unary_def by blast
qed

lemma reads_unary_leaf:
  assumes "parse_comparison (t # ts) = Inr (e, us)" and "t_kind t \<noteq> TokenLParen" and "\<not> kw ''not'' t"
  shows "reads_unary (t # ts) e us"
proof -
  have "parse_unary (Suc (Suc 0)) (t # ts) = Some (Inr (e, us))" using assms by simp
  then show ?thesis unfolding reads_unary_def by blast
qed

subsection \<open>Leaves\<close>

text \<open>What can follow an operand: the end, a closing parenthesis, \<^verbatim>\<open>AND\<close> or \<^verbatim>\<open>OR\<close>.\<close>

definition closes :: "token list \<Rightarrow> bool" where
  "closes us =
     (t_kind (cur us) = TokenRParen \<or> t_kind (cur us) = TokenEOF \<or> kv (cur us) = kw_tok ''AND''
      \<or> kv (cur us) = kw_tok ''OR'')"

lemma kw_kv: "kv t = kw_tok w \<Longrightarrow> kw x t \<longleftrightarrow> equal_fold w x"
  by (auto simp: kw_def kv_def kw_tok_def)

lemma fold_facts:
  "equal_fold ''AND'' ''and''" "equal_fold ''OR'' ''or''" "equal_fold ''NOT'' ''not''" "equal_fold ''IN'' ''in''"
  "equal_fold ''LIKE'' ''like''" "equal_fold ''IS'' ''is''" "equal_fold ''NULL'' ''null''"
  "\<not> equal_fold ''AND'' ''or''" "\<not> equal_fold ''AND'' ''in''" "\<not> equal_fold ''AND'' ''like''"
  "\<not> equal_fold ''AND'' ''is''" "\<not> equal_fold ''AND'' ''not''" "\<not> equal_fold ''OR'' ''and''"
  "\<not> equal_fold ''OR'' ''in''" "\<not> equal_fold ''OR'' ''like''" "\<not> equal_fold ''OR'' ''is''"
  "\<not> equal_fold ''OR'' ''not''" "\<not> equal_fold ''NULL'' ''not''" "\<not> equal_fold ''IN'' ''not''"
  "\<not> equal_fold ''NOT'' ''in''" "\<not> equal_fold ''NOT'' ''like''" "\<not> equal_fold ''NOT'' ''is''"
  "\<not> equal_fold ''LIKE'' ''in''" "\<not> equal_fold ''LIKE'' ''not''" "\<not> equal_fold ''IS'' ''in''"
  "\<not> equal_fold ''IS'' ''not''" "\<not> equal_fold ''IS'' ''like''"
  by code_simp+

lemma peek_Suc [simp]: "peek (Suc n) (t # ts) = peek n ts"
  by (simp add: peek_def)

lemma peek_0 [simp]: "peek 0 ts = cur ts"
  by (cases ts) (simp_all add: peek_def)

lemma closes_facts:
  assumes "closes us"
  shows "op_after (Suc 0) (t # us) = None" "\<not> kw ''in'' (cur us)" "\<not> kw ''not'' (cur us)" "\<not> kw ''like'' (cur us)"
    "\<not> kw ''is'' (cur us)"
  using assms kw_kv [of "cur us"] fold_facts
  by (auto simp: closes_def op_after_def Let_def kw_def kv_def kw_tok_def)

lemma reserved_kw:
  assumes "\<not> reserved f" and "kv t = (k, f)"
  shows "\<not> kw ''not'' t" "\<not> kw ''and'' t" "\<not> kw ''or'' t" "\<not> kw ''in'' t" "\<not> kw ''like'' t" "\<not> kw ''is'' t"
    "\<not> kw ''as'' t"
  using assms by (auto simp: reserved_def kw_def kv_def)

lemma kvD: "kv t = (k, v) \<Longrightarrow> t_kind t = k \<and> t_value t = v"
  by (simp add: kv_def)

lemma kv_value_of: "kv t = kv_value v \<Longrightarrow> value_ok v \<Longrightarrow> value_of t = Some v"
  by (auto simp: kv_def kv_value_def value_of_def value_ok_def split: if_splits)

lemma map_kv_Cons: "map kv ts = k # ks \<longleftrightarrow> (\<exists>t us. ts = t # us \<and> kv t = k \<and> map kv us = ks)"
  by (cases ts) auto

lemma map_kv_append: "map kv ts = ks @ ls \<longleftrightarrow> (\<exists>us vs. ts = us @ vs \<and> map kv us = ks \<and> map kv vs = ls)"
  by (auto simp: map_eq_append_conv)

lemma read_values_list:
  assumes "vs \<noteq> []" and "list_all value_ok vs" and "map kv ts = tok_join [(TokenComma, '','')] (map (\<lambda>v. [kv_value v]) vs)"
    and "t_kind r \<noteq> TokenComma"
  shows "read_values (ts @ r # us) = Inr (vs, r # us)"
  using assms
proof (induction vs arbitrary: ts rule: induct_list012)
  case (2 v)
  then obtain t where "ts = [t]" "kv t = kv_value v" by (auto simp: map_kv_Cons)
  then show ?case using kv_value_of [of t v] 2 by simp
next
  case (3 v w vs)
  then obtain t c ts' where t: "ts = t # c # ts'" "kv t = kv_value v" "kv c = (TokenComma, '','')"
    "map kv ts' = tok_join [(TokenComma, '','')] (map (\<lambda>v. [kv_value v]) (w # vs))"
    by (auto simp: map_kv_Cons)
  then have "read_values (ts' @ r # us) = Inr (w # vs, r # us)" using 3 by (intro "3.IH"(2)) simp_all
  then show ?case using kv_value_of [of t v] 3 t kvD [OF t(3)] by simp
qed simp

lemma reads_cmp:
  assumes "field_ok f" and "oper \<in> set comparators" and "value_ok v"
    and "map kv ts = [(TokenName, f), (TokenOp, oper), kv_value v]"
  shows "reads_unary (ts @ us) (ECmp f oper v) us"
proof -
  obtain t c w where t: "ts = [t, c, w]" "kv t = (TokenName, f)" "kv c = (TokenOp, oper)" "kv w = kv_value v"
    using assms(4) by (auto simp: map_kv_Cons)
  have "op_after (Suc 0) (t # c # w # us) = Some oper"
    using kvD [OF t(3)] assms(2) by (auto simp: op_after_def Let_def comparators_def)
  then have "parse_comparison (t # c # w # us) = Inr (ECmp f oper v, us)"
    using kvD [OF t(2)] kv_value_of [OF t(4) assms(3)]
    by (simp add: parse_comparison_def read_value_def Let_def)
  then show ?thesis
    using t(1) kvD [OF t(2)] reserved_kw [OF _ t(2)] assms(1)
    by (auto simp: field_ok_def intro!: reads_unary_leaf)
qed


lemma op_after_keyword: "kv c = kw_tok w \<Longrightarrow> op_after (Suc 0) (t # c # us) = None"
  by (auto simp: op_after_def Let_def kv_def kw_tok_def)

lemma reads_in:
  assumes "field_ok f" and "vs \<noteq> []" and "list_all value_ok vs" and "map kv ts = toks (EIn f neg vs) p"
  shows "reads_unary (ts @ us) (EIn f neg vs) us"
proof -
  let ?vs = "tok_join [(TokenComma, '','')] (map (\<lambda>v. [kv_value v]) vs)"
  obtain t ns lp ws r where ts: "ts = t # ns @ lp # ws @ [r]" and t: "kv t = (TokenName, f)"
    and ns: "map kv ns = (if neg then [kw_tok ''NOT'', kw_tok ''IN''] else [kw_tok ''IN''])"
    and lp: "kv lp = (TokenLParen, ''('')" and ws: "map kv ws = ?vs" and r: "kv r = (TokenRParen, '')'')"
  proof -
    from assms(4) obtain t rest where "ts = t # rest" "kv t = (TokenName, f)"
      "map kv rest = (if neg then [kw_tok ''NOT'', kw_tok ''IN''] else [kw_tok ''IN'']) @ tok_paren ?vs"
      by (auto simp: map_kv_Cons)
    moreover from this(3) obtain ns ps where "rest = ns @ ps"
      "map kv ns = (if neg then [kw_tok ''NOT'', kw_tok ''IN''] else [kw_tok ''IN''])" "map kv ps = tok_paren ?vs"
      unfolding map_kv_append by blast
    moreover from this(3) obtain lp ws r where "ps = lp # ws @ [r]" "kv lp = (TokenLParen, ''('')" "map kv ws = ?vs"
      "kv r = (TokenRParen, '')'')"
      by (auto simp: tok_paren_def map_kv_Cons map_kv_append)
    ultimately show ?thesis by (intro that) auto
  qed
  have rv: "read_values (ws @ r # us) = Inr (vs, r # us)"
    by (rule read_values_list [OF assms(2,3) ws]) (simp add: kvD [OF r])
  have list: "read_value_list f neg (lp # ws @ r # us) = Inr (EIn f neg vs, us)"
    using rv kvD [OF lp] kvD [OF r] by (simp add: read_value_list_def)
  have "parse_comparison (t # ns @ lp # ws @ r # us) = Inr (EIn f neg vs, us)"
  proof (cases neg)
    case True
    then obtain a b where ab: "ns = [a, b]" "kv a = kw_tok ''NOT''" "kv b = kw_tok ''IN''"
      using ns by (auto simp: map_kv_Cons)
    show ?thesis
      using kvD [OF t] list True op_after_keyword [OF ab(2)] kw_kv [OF ab(2)] kw_kv [OF ab(3)] fold_facts ab(1)
      by (simp add: parse_comparison_def Let_def numeral_2_eq_2 numeral_3_eq_3)
  next
    case False
    then obtain a where a: "ns = [a]" "kv a = kw_tok ''IN''"
      using ns by (auto simp: map_kv_Cons)
    show ?thesis
      using kvD [OF t] list False op_after_keyword [OF a(2)] kw_kv [OF a(2)] fold_facts a(1)
      by (simp add: parse_comparison_def Let_def numeral_2_eq_2)
  qed
  then show ?thesis
    using ts kvD [OF t] reserved_kw [OF _ t] assms(1) by (auto simp: field_ok_def intro!: reads_unary_leaf)
qed

lemma reads_is_null:
  assumes "field_ok f" and "map kv ts = toks (EIsNull f neg) p"
  shows "reads_unary (ts @ us) (EIsNull f neg) us"
proof -
  obtain t a ns where ts: "ts = t # a # ns" and t: "kv t = (TokenName, f)" and a: "kv a = kw_tok ''IS''"
    and ns: "map kv ns = (if neg then [kw_tok ''NOT'', kw_tok ''NULL''] else [kw_tok ''NULL''])"
    using assms(2) by (cases neg) (auto simp: map_kv_Cons)
  have "parse_is f (ns @ us) = Inr (EIsNull f neg, us)"
  proof (cases neg)
    case True
    then obtain b c where "ns = [b, c]" "kv b = kw_tok ''NOT''" "kv c = kw_tok ''NULL''"
      using ns by (auto simp: map_kv_Cons)
    then show ?thesis using True kw_kv [of b] kw_kv [of c] fold_facts by (simp add: parse_is_def Let_def)
  next
    case False
    then obtain c where "ns = [c]" "kv c = kw_tok ''NULL''" using ns by (auto simp: map_kv_Cons)
    then show ?thesis using False kw_kv [of c] fold_facts by (simp add: parse_is_def Let_def)
  qed
  then have "parse_comparison (t # a # ns @ us) = Inr (EIsNull f neg, us)"
    using kvD [OF t] op_after_keyword [OF a] kw_kv [OF a] fold_facts
    by (simp add: parse_comparison_def Let_def numeral_2_eq_2)
  then show ?thesis
    using ts kvD [OF t] reserved_kw [OF _ t] assms(1) by (auto simp: field_ok_def intro!: reads_unary_leaf)
qed

lemma reads_like:
  assumes "field_ok f" and "map kv ts = [(TokenName, f), kw_tok ''LIKE'', (TokenString, q)]"
  shows "reads_unary (ts @ us) (ELike f False q) us"
proof -
  obtain t a s where ts: "ts = [t, a, s]" and t: "kv t = (TokenName, f)" and a: "kv a = kw_tok ''LIKE''"
    and s: "kv s = (TokenString, q)"
    using assms(2) by (auto simp: map_kv_Cons)
  have "parse_comparison (t # a # s # us) = Inr (ELike f False q, us)"
    using kvD [OF t] op_after_keyword [OF a] kw_kv [OF a] fold_facts kvD [OF s]
    by (simp add: parse_comparison_def Let_def numeral_2_eq_2 read_value_def value_of_def)
  then show ?thesis
    using ts kvD [OF t] reserved_kw [OF _ t] assms(1) by (auto simp: field_ok_def intro!: reads_unary_leaf)
qed

lemma split_inline_none: "CHR ''='' \<notin> set v \<Longrightarrow> split_inline_assignment v = None"
proof -
  assume "CHR ''='' \<notin> set v"
  then have "takeWhile (\<lambda>c. c \<noteq> CHR ''='') v = v" by (auto simp: takeWhile_eq_all_conv)
  then show ?thesis by (simp add: split_inline_assignment_def Let_def)
qed

lemma name_text_no_eq: "name_text v \<Longrightarrow> CHR ''='' \<notin> set v"
proof -
  have "\<not> is_name_part (CHR ''='')" by code_simp
  then show "name_text v \<Longrightarrow> CHR ''='' \<notin> set v" by (auto simp: name_text_def list_all_iff)
qed

lemma reads_text:
  assumes "text_ok v" and "map kv ts = [kv_value v]" and "closes us"
  shows "reads_unary (ts @ us) (EText v (if needs_quote v then v else [])) us"
proof -
  obtain t where ts: "ts = [t]" and t: "kv t = kv_value v" using assms(2) by (auto simp: map_kv_Cons)
  note c = closes_facts [OF assms(3)]
  consider (quoted) "needs_quote v" "kv t = (TokenString, v)"
    | (name) "\<not> needs_quote v" "name_text v" "kv t = (TokenName, v)" "\<not> reserved v"
    | (star) "\<not> needs_quote v" "v = ''*''" "kv t = (TokenStar, v)"
    | (number) "\<not> needs_quote v" "kv t = (TokenNumber, v)"
  proof (cases "needs_quote v")
    case True
    then show ?thesis using t quoted by (simp add: kv_value_def)
  next
    case False
    have "\<not> number_text v" if "name_text v"
      using that name_start_class [of "hd v"] by (auto simp: name_text_def number_text_def)
    moreover have "\<not> name_text ''*''" by code_simp
    ultimately show ?thesis
      using False t assms(1) name star number
      by (cases "name_text v"; cases "v = ''*''") (auto simp: kv_value_def text_ok_def)
  qed
  then have "parse_comparison (t # us) = Inr (EText v (if needs_quote v then v else []), us) \<and> \<not> kw ''not'' t"
  proof cases
    case name
    then show ?thesis
      using kvD [OF name(3)] c reserved_kw [OF name(4,3)] split_inline_none [OF name_text_no_eq [OF name(2)]]
      by (simp add: parse_comparison_def Let_def parse_bare_def)
  qed (auto simp: parse_comparison_def Let_def kw_def dest!: kvD)
  moreover have "t_kind t \<noteq> TokenLParen" using t by (auto simp: kv_value_def kv_def split: if_splits)
  ultimately show ?thesis using ts by (auto intro!: reads_unary_leaf)
qed


subsection \<open>Conjunctions and disjunctions\<close>

definition and_at :: "expr option \<Rightarrow> token list \<Rightarrow> expr \<Rightarrow> token list \<Rightarrow> bool" where
  "and_at acc ts r vs =
     (case acc of
        None \<Rightarrow> reads_and ts r vs
      | Some a \<Rightarrow> \<forall>t. kv t = kw_tok ''AND'' \<longrightarrow> more_and a (t # ts) r vs)"

definition or_at :: "expr option \<Rightarrow> token list \<Rightarrow> expr \<Rightarrow> token list \<Rightarrow> bool" where
  "or_at acc ts r vs =
     (case acc of
        None \<Rightarrow> reads_or ts r vs
      | Some a \<Rightarrow> \<forall>t. kv t = kw_tok ''OR'' \<longrightarrow> more_or a (t # ts) r vs)"

definition ends_and :: "token list \<Rightarrow> bool" where
  "ends_and us = (closes us \<and> kv (cur us) \<noteq> kw_tok ''AND'')"

lemma nest_append: "nest f acc (xs @ ys) = nest f (nest f acc xs) ys"
  by (simp add: nest_def)

lemma nest_one [simp]: "nest f acc [x] = chain f acc x"
  by (simp add: nest_def)

lemma nest_Some: "xs \<noteq> [] \<Longrightarrow> \<exists>a. nest f acc xs = Some a"
  by (induction xs rule: rev_induct) (simp_all add: nest_append chain_def)

lemma concat_map_nonempty: "es \<noteq> [] \<Longrightarrow> (\<And>e. e \<in> set es \<Longrightarrow> f e \<noteq> []) \<Longrightarrow> concat (map f es) \<noteq> []"
  by (cases es) auto

lemma items_nonempty: "rt_expr e \<Longrightarrow> and_items e \<noteq> [] \<and> or_items e \<noteq> []"
  by (induction e) (auto simp: list_all_iff intro: concat_map_nonempty)

lemma and_at_unary:
  assumes "reads_unary ts x us" and "more_and (the (chain EAnd acc x)) us r vs"
  shows "and_at acc ts r vs"
  using assms reads_andI more_and_step kw_kv fold_facts
  by (auto simp: and_at_def chain_def split: option.splits)

lemma or_at_and:
  assumes "reads_and ts x us" and "more_or (the (chain EOr acc x)) us r vs"
  shows "or_at acc ts r vs"
  using assms reads_orI more_or_step kw_kv fold_facts
  by (auto simp: or_at_def chain_def split: option.splits)

lemma ends_and_stop:
  assumes "ends_and us"
  shows "\<not> kw ''and'' (cur us)" "\<not> starts_operand (cur us)"
  using assms kw_kv [of "cur us"] fold_facts
  by (auto simp: ends_and_def closes_def kw_def kv_def kw_tok_def starts_operand_def)

lemma ends_or_stop: "t_kind t = TokenRParen \<or> t_kind t = TokenEOF \<Longrightarrow> \<not> kw ''or'' t"
  by (auto simp: kw_def)

definition and_reads :: "expr \<Rightarrow> bool" where
  "and_reads e = (\<forall>acc ts us r vs. map kv ts = toks e prec_and \<longrightarrow> closes us
     \<longrightarrow> more_and (the (nest EAnd acc (and_items e))) us r vs \<longrightarrow> and_at acc (ts @ us) r vs)"

definition or_reads :: "expr \<Rightarrow> bool" where
  "or_reads e = (\<forall>acc ts us r vs. map kv ts = toks e prec_or \<longrightarrow> ends_and us
     \<longrightarrow> more_or (the (nest EOr acc (or_items e))) us r vs \<longrightarrow> or_at acc (ts @ us) r vs)"

definition unary_reads :: "expr \<Rightarrow> nat \<Rightarrow> bool" where
  "unary_reads e p = (\<forall>ts us. map kv ts = toks e p \<longrightarrow> closes us \<longrightarrow> reads_unary (ts @ us) (norm e) us)"

lemma and_list:
  assumes "es \<noteq> []" and "list_all and_reads es" and "list_all rt_expr es"
    and "map kv ts = tok_join [kw_tok ''AND''] (map (\<lambda>e. toks e prec_and) es)" and "closes us"
    and "more_and (the (nest EAnd acc (concat (map and_items es)))) us r vs"
  shows "and_at acc (ts @ us) r vs"
  using assms
proof (induction es arbitrary: ts acc rule: induct_list012)
  case (2 e)
  then show ?case by (simp add: and_reads_def)
next
  case (3 e e' es)
  from "3.prems"(4) obtain us1 t us2 where ts: "ts = us1 @ t # us2" "map kv us1 = toks e prec_and"
    "kv t = kw_tok ''AND''" "map kv us2 = tok_join [kw_tok ''AND''] (map (\<lambda>e. toks e prec_and) (e' # es))"
    by (auto simp: map_kv_append map_kv_Cons)
  obtain a where a: "nest EAnd acc (and_items e) = Some a"
    using nest_Some items_nonempty "3.prems"(3) by fastforce
  have "and_at (nest EAnd acc (and_items e)) (us2 @ us) r vs"
    using "3.prems" ts(4) by (intro "3.IH"(2)) (simp_all add: nest_append)
  then have "more_and (the (nest EAnd acc (and_items e))) (t # us2 @ us) r vs"
    using a ts(3) by (simp add: and_at_def)
  moreover have "closes (t # us2 @ us)" using ts(3) by (simp add: closes_def)
  ultimately show ?case using ts(1,2) "3.prems"(2) by (simp add: and_reads_def)
qed simp

lemma or_list:
  assumes "es \<noteq> []" and "list_all or_reads es" and "list_all rt_expr es"
    and "map kv ts = tok_join [kw_tok ''OR''] (map (\<lambda>e. toks e prec_or) es)" and "ends_and us"
    and "more_or (the (nest EOr acc (concat (map or_items es)))) us r vs"
  shows "or_at acc (ts @ us) r vs"
  using assms
proof (induction es arbitrary: ts acc rule: induct_list012)
  case (2 e)
  then show ?case by (simp add: or_reads_def)
next
  case (3 e e' es)
  from "3.prems"(4) obtain us1 t us2 where ts: "ts = us1 @ t # us2" "map kv us1 = toks e prec_or"
    "kv t = kw_tok ''OR''" "map kv us2 = tok_join [kw_tok ''OR''] (map (\<lambda>e. toks e prec_or) (e' # es))"
    by (auto simp: map_kv_append map_kv_Cons)
  obtain a where a: "nest EOr acc (or_items e) = Some a"
    using nest_Some items_nonempty "3.prems"(3) by fastforce
  have "or_at (nest EOr acc (or_items e)) (us2 @ us) r vs"
    using "3.prems" ts(4) by (intro "3.IH"(2)) (simp_all add: nest_append)
  then have "more_or (the (nest EOr acc (or_items e))) (t # us2 @ us) r vs"
    using a ts(3) by (simp add: or_at_def)
  moreover have "ends_and (t # us2 @ us)" using ts(3) by (simp add: ends_and_def closes_def kw_tok_def)
  ultimately show ?case using ts(1,2) "3.prems"(2) by (simp add: or_reads_def)
qed simp

lemma and_whole:
  assumes "es \<noteq> []" and "list_all and_reads es" and "list_all rt_expr es"
    and "map kv ts = tok_join [kw_tok ''AND''] (map (\<lambda>e. toks e prec_and) es)" and "ends_and us"
  shows "reads_and (ts @ us) (norm (EAnd es)) us"
proof -
  have "and_at None (ts @ us) (norm (EAnd es)) us"
    using assms(5) ends_and_stop [OF assms(5)]
    by (intro and_list [OF assms(1-4)]) (simp_all add: ends_and_def more_and_stop)
  then show ?thesis by (simp add: and_at_def)
qed

lemma or_whole:
  assumes "es \<noteq> []" and "list_all or_reads es" and "list_all rt_expr es"
    and "map kv ts = tok_join [kw_tok ''OR''] (map (\<lambda>e. toks e prec_or) es)" and "ends_and us"
    and "\<not> kw ''or'' (cur us)"
  shows "reads_or (ts @ us) (norm (EOr es)) us"
proof -
  have "or_at None (ts @ us) (norm (EOr es)) us"
    using assms(6) by (intro or_list [OF assms(1-5)]) (simp add: more_or_stop)
  then show ?thesis by (simp add: or_at_def)
qed

lemma paren_reads:
  assumes "map kv ts = tok_paren ks"
    and "\<And>ws us. map kv ws = ks \<Longrightarrow> ends_and us \<Longrightarrow> \<not> kw ''or'' (cur us) \<Longrightarrow> reads_or (ws @ us) e us"
  shows "reads_unary (ts @ us) e us"
proof -
  obtain lp ws rp where ts: "ts = lp # ws @ [rp]" and lp: "kv lp = (TokenLParen, ''('')" and ws: "map kv ws = ks"
    and rp: "kv rp = (TokenRParen, '')'')"
    using assms(1) by (auto simp: tok_paren_def map_kv_Cons map_kv_append)
  have "ends_and (rp # us)" using rp by (simp add: ends_and_def closes_def kw_tok_def kvD)
  then have "reads_or (ws @ rp # us) e (rp # us)"
    using assms(2) [OF ws] ends_or_stop kvD [OF rp] by simp
  then show ?thesis using ts kvD [OF lp] kvD [OF rp] by (auto intro: reads_unary_paren)
qed

text \<open>An expression that is no conjunction is one item of one.\<close>

lemma and_reads_unary: "unary_reads e prec_and \<Longrightarrow> \<not> is_and e \<Longrightarrow> and_reads e"
proof -
  assume u: "unary_reads e prec_and" and n: "\<not> is_and e"
  have i: "and_items e = [norm e]" using n by (cases e) simp_all
  show ?thesis
    unfolding and_reads_def
  proof (intro allI impI)
    fix acc ts us r vs
    assume "map kv ts = toks e prec_and" "closes us" "more_and (the (nest EAnd acc (and_items e))) us r vs"
    with u i show "and_at acc (ts @ us) r vs"
      by (intro and_at_unary [of _ "norm e" us]) (simp_all add: unary_reads_def)
  qed
qed

fun is_or :: "expr \<Rightarrow> bool" where
  "is_or (EOr _) = True"
| "is_or _ = False"

lemma or_reads_unary: "unary_reads e prec_or \<Longrightarrow> \<not> is_or e \<Longrightarrow> \<not> is_and e \<Longrightarrow> or_reads e"
proof -
  assume u: "unary_reads e prec_or" and n: "\<not> is_or e" "\<not> is_and e"
  have i: "or_items e = [norm e]" using n by (cases e) simp_all
  have "reads_and (ts @ us) (norm e) us" if "map kv ts = toks e prec_or" "ends_and us" for ts us
    using that u ends_and_stop [OF that(2)]
    by (intro reads_andI [of _ "norm e" us] more_and_stop) (simp_all add: unary_reads_def ends_and_def)
  with i show ?thesis
    unfolding or_reads_def by (intro allI impI or_at_and [of _ "norm e"]) simp_all
qed


lemma leaf_reads:
  assumes "\<And>p. unary_reads e p" and "\<not> is_and e" and "\<not> is_or e"
  shows "unary_reads e prec_leaf \<and> and_reads e \<and> or_reads e \<and> (\<not> is_and e \<longrightarrow> unary_reads e prec_and)"
  using assms and_reads_unary or_reads_unary by blast

lemma unary_or_reads:
  assumes "unary_reads e prec_leaf" and "unary_reads e prec_and" and "\<not> is_and e" and "or_reads e"
  shows "unary_reads e prec_leaf \<and> and_reads e \<and> or_reads e \<and> (\<not> is_and e \<longrightarrow> unary_reads e prec_and)"
  using assms and_reads_unary by blast

lemma prec_order: "prec_leaf < prec_and" "prec_and < prec_or" "prec_leaf < prec_or"
  by (simp_all add: prec_leaf_def prec_and_def prec_or_def)

lemma expr_reads:
  "rt_expr e \<Longrightarrow> unary_reads e prec_leaf \<and> and_reads e \<and> or_reads e \<and> (\<not> is_and e \<longrightarrow> unary_reads e prec_and)"
proof (induction e)
  case (EAnd es)
  have l: "es \<noteq> []" "list_all and_reads es" "list_all rt_expr es"
    using EAnd by (auto simp: list_all_iff)
  let ?ks = "tok_join [kw_tok ''AND''] (map (\<lambda>e. toks e prec_and) es)"
  have whole: "reads_and (ts @ us) (norm (EAnd es)) us" if "map kv ts = ?ks" "ends_and us" for ts us
    by (rule and_whole [OF l that])
  have "unary_reads (EAnd es) prec_leaf"
    unfolding unary_reads_def
  proof (intro allI impI)
    fix ts us
    assume "map kv ts = toks (EAnd es) prec_leaf"
    then have "map kv ts = tok_paren ?ks" using prec_order by simp
    then show "reads_unary (ts @ us) (norm (EAnd es)) us"
      by (rule paren_reads) (rule reads_orI [OF whole more_or_stop])
  qed
  moreover have "and_reads (EAnd es)"
    using and_list [OF l] by (simp add: and_reads_def)
  moreover have "or_reads (EAnd es)"
    unfolding or_reads_def
  proof (intro allI impI)
    fix acc ts us r vs
    assume "map kv ts = toks (EAnd es) prec_or" "ends_and us"
      "more_or (the (nest EOr acc (or_items (EAnd es)))) us r vs"
    with whole [of ts us] prec_order show "or_at acc (ts @ us) r vs"
      by (intro or_at_and [of _ "norm (EAnd es)" us]) simp_all
  qed
  ultimately show ?case by simp
next
  case (EOr es)
  have l: "es \<noteq> []" "list_all or_reads es" "list_all rt_expr es"
    using EOr by (auto simp: list_all_iff)
  let ?ks = "tok_join [kw_tok ''OR''] (map (\<lambda>e. toks e prec_or) es)"
  have u: "unary_reads (EOr es) p" if "p < prec_or" for p
    unfolding unary_reads_def
  proof (intro allI impI)
    fix ts us
    assume "map kv ts = toks (EOr es) p"
    then have "map kv ts = tok_paren ?ks" using that by simp
    then show "reads_unary (ts @ us) (norm (EOr es)) us"
      by (rule paren_reads) (rule or_whole [OF l])
  qed
  moreover have "or_reads (EOr es)"
    using or_list [OF l] by (simp add: or_reads_def)
  ultimately show ?case using prec_order by (intro unary_or_reads) simp_all
next
  case (ENot e)
  then have r: "unary_reads e prec_and" by auto
  have "unary_reads (ENot e) p" for p
    unfolding unary_reads_def
  proof (intro allI impI)
    fix ts us
    assume a: "map kv ts = toks (ENot e) p" "closes us"
    then obtain t ws where t: "ts = t # ws" "kv t = kw_tok ''NOT''" "map kv ws = toks e prec_and"
      by (auto simp: map_kv_Cons)
    have "reads_unary (ws @ us) (norm e) us" using r t(3) a(2) by (simp add: unary_reads_def)
    then show "reads_unary (ts @ us) (norm (ENot e)) us"
      using t kw_kv [OF t(2)] fold_facts by (simp add: reads_unary_not)
  qed
  then show ?case by (intro leaf_reads) simp_all
next
  case (ECmp f oper v)
  then show ?case by (intro leaf_reads) (simp_all add: unary_reads_def reads_cmp)
next
  case (EIn f neg vs)
  then show ?case by (intro leaf_reads) (simp_all add: unary_reads_def reads_in [simplified])
next
  case (EIsNull f neg)
  then show ?case by (intro leaf_reads) (simp_all add: unary_reads_def reads_is_null [simplified])
next
  case (ELike f neg q)
  then show ?case by (intro leaf_reads) (simp_all add: unary_reads_def reads_like)
next
  case (EText v q)
  then have "unary_reads (EText v q) p" for p
    using reads_text [of v] by (simp add: unary_reads_def)
  then show ?case by (intro leaf_reads) simp_all
qed simp

section \<open>The meaning is kept\<close>

lemma holds_nest_and:
  "holds I (the (nest EAnd (Some a) xs)) \<longleftrightarrow> holds I a \<and> list_all (holds I) xs"
  by (induction xs arbitrary: a) (auto simp: nest_def chain_def)

lemma holds_nest_or:
  "holds I (the (nest EOr (Some a) xs)) \<longleftrightarrow> holds I a \<or> list_ex (holds I) xs"
  by (induction xs arbitrary: a) (auto simp: nest_def chain_def)

lemma nest_None: "xs \<noteq> [] \<Longrightarrow> nest f None xs = nest f (Some (hd xs)) (tl xs)"
  by (cases xs) (simp_all add: nest_def chain_def)

lemma holds_nest:
  assumes "xs \<noteq> []"
  shows "holds I (the (nest EAnd None xs)) \<longleftrightarrow> list_all (holds I) xs"
    "holds I (the (nest EOr None xs)) \<longleftrightarrow> list_ex (holds I) xs"
  using assms nest_None [OF assms] holds_nest_and [of I "hd xs" "tl xs"] holds_nest_or [of I "hd xs" "tl xs"]
  by (cases xs; simp)+

lemma holds_items:
  "rt_expr e \<Longrightarrow> (holds I (norm e) \<longleftrightarrow> holds I e) \<and> (list_all (holds I) (and_items e) \<longleftrightarrow> holds I e)
     \<and> (list_ex (holds I) (or_items e) \<longleftrightarrow> holds I e)"
proof (induction e)
  case (EAnd es)
  have "concat (map and_items es) \<noteq> []"
    using EAnd.prems items_nonempty by (intro concat_map_nonempty) (auto simp: list_all_iff)
  from holds_nest(1) [OF this, of I] show ?case
    using EAnd by (auto simp: list_all_iff)
next
  case (EOr es)
  have "concat (map or_items es) \<noteq> []"
    using EOr.prems items_nonempty by (intro concat_map_nonempty) (auto simp: list_all_iff)
  from holds_nest(2) [OF this, of I] show ?case
    using EOr by (auto simp: list_all_iff list_ex_iff)
qed simp_all


section \<open>Properties\<close>

text \<open>
  C1. Printing and parsing keep the meaning of the expressions \<open>rt_expr\<close>: the text of \<^verbatim>\<open>serializeExpr\<close> is
  tokenized, the tokens before the end token are parsed to \<open>norm e\<close>, and \<open>norm e\<close> holds in the same
  interpretations of the leaves as \<open>e\<close>. In \<open>rt_expr\<close> field names are name tokens other than the keywords,
  values either need quotes and have no control characters or are one name, number or star token, conjunctions and
  disjunctions are not empty, and there is no \<^verbatim>\<open>NOT LIKE\<close> and no negated conjunction. Outside of it the round
  trip of the program does fail: \<open>excluded_expressions_fail\<close>, \<open>negated_conjunction_changes\<close>.
\<close>

theorem expression_roundtrip:
  assumes "rt_expr e"
  shows "(holds I (norm e) \<longleftrightarrow> holds I e)
    \<and> (\<exists>ts eof. tokenize (serialize_expr e prec_leaf) = Some (Inr (ts @ [eof])) \<and> t_kind eof = TokenEOF
        \<and> parse_expr_tokens ts = Some (Inr (norm e)))"
proof -
  obtain ts p where t: "tokenize (serialize_expr e prec_leaf) = Some (Inr (ts @ [mk_token TokenEOF [] [] p]))"
    "map kv ts = toks e prec_leaf"
    using tokenize_emitted [OF emits_expr [OF assms]] .
  have "unary_reads e prec_leaf" using expr_reads [OF assms] by simp
  moreover have "closes []" by (simp add: closes_def)
  ultimately have "reads_unary (ts @ []) (norm e) []"
    using t(2) unfolding unary_reads_def by blast
  then have "reads_or (ts @ []) (norm e) []"
    by (rule reads_orI [OF reads_andI [OF _ more_and_stop] more_or_stop]) simp_all
  then have "reads_or ts (norm e) []" by simp
  then obtain n where n: "parse_or n ts = Some (Inr (norm e, []))" by (auto simp: reads_or_def)
  obtain r where r: "parse_or (expr_fuel ts) ts = Some r" using parse_or_enough [of ts] by auto
  have "r = Inr (norm e, [])"
    using more_fuel(1) [OF n, of "max n (expr_fuel ts)"] more_fuel(1) [OF r, of "max n (expr_fuel ts)"] by simp
  then have "parse_expr_tokens ts = Some (Inr (norm e))" using r by (simp add: parse_expr_tokens_def)
  then show ?thesis using t(1) holds_items [OF assms, of I] by auto
qed

definition sample_expr :: expr where
  "sample_expr = EOr [EAnd [ECmp ''user'' ''='' ''root'', EOr [ECmp ''port'' ''>='' ''22'', EIsNull ''host'' True],
     EIn ''action'' True [''deny'', ''drop it'']], ENot (ELike ''message'' False ''%fail%''), EText ''timeout'' []]"

theorem expression_roundtrip_witness:
  "rt_expr sample_expr
   \<and> (holds (\<lambda>x. True) (norm sample_expr) \<longleftrightarrow> holds (\<lambda>x. True) sample_expr)
   \<and> (\<exists>ts eof. tokenize (serialize_expr sample_expr prec_leaf) = Some (Inr (ts @ [eof])) \<and> t_kind eof = TokenEOF
        \<and> parse_expr_tokens ts = Some (Inr (norm sample_expr)))"
proof -
  have r: "rt_expr sample_expr" by code_simp
  show ?thesis by (rule conjI [OF r expression_roundtrip [OF r]])
qed

definition negated_and :: expr where
  "negated_and = ENot (EAnd [ECmp ''a'' ''='' ''1'', ECmp ''b'' ''='' ''2''])"

text \<open>
  A negated conjunction does not survive: it is printed without parentheses, and the text parses
  to a conjunction whose first member alone is negated.
\<close>

theorem negated_conjunction_changes:
  "serialize_expr negated_and prec_leaf = ''NOT a=1 AND b=2''
   \<and> (\<exists>ts eof. tokenize (serialize_expr negated_and prec_leaf) = Some (Inr (ts @ [eof]))
        \<and> parse_expr_tokens ts = Some (Inr (EAnd [ENot (ECmp ''a'' ''='' ''1''), ECmp ''b'' ''='' ''2''])))
   \<and> holds (\<lambda>l. l = ECmp ''a'' ''='' ''1'') negated_and
   \<and> \<not> holds (\<lambda>l. l = ECmp ''a'' ''='' ''1'') (EAnd [ENot (ECmp ''a'' ''='' ''1''), ECmp ''b'' ''='' ''2''])"
proof (intro conjI)
  show "serialize_expr negated_and prec_leaf = ''NOT a=1 AND b=2''" by code_simp
  have t: "tokenize (serialize_expr negated_and prec_leaf) = Some (Inr
      ([mk_token TokenName ''NOT'' ''NOT'' 0, mk_token TokenName ''a'' ''a'' 4, mk_token TokenOp ''='' ''='' 5,
        mk_token TokenNumber ''1'' ''1'' 6, mk_token TokenName ''AND'' ''AND'' 8, mk_token TokenName ''b'' ''b'' 12,
        mk_token TokenOp ''='' ''='' 13, mk_token TokenNumber ''2'' ''2'' 14] @ [mk_token TokenEOF [] [] 15]))"
    by code_simp
  show "\<exists>ts eof. tokenize (serialize_expr negated_and prec_leaf) = Some (Inr (ts @ [eof]))
        \<and> parse_expr_tokens ts = Some (Inr (EAnd [ENot (ECmp ''a'' ''='' ''1''), ECmp ''b'' ''='' ''2'']))"
    by (rule exI, rule exI, rule conjI [OF t]) code_simp
qed (simp_all add: negated_and_def)

text \<open>
  What the text of an expression is read as. The other expressions outside \<open>rt_expr\<close> fail as well: a negated LIKE
  is read as three words, the middle one negated, a keyword as a field name is refused, a field with a blank is split, and
  a path, a date or a pattern with a star, which \<^verbatim>\<open>needsQuote\<close> leaves bare, is no single token.
\<close>

definition read_again :: "expr \<Rightarrow> (parse_error + expr) option" where
  "read_again e =
     (case tokenize (serialize_expr e prec_leaf) of
        Some (Inr ts) \<Rightarrow> parse_expr_tokens (butlast ts)
      | _ \<Rightarrow> None)"

theorem excluded_expressions_fail:
  "read_again (ELike ''user'' True ''adm%'') 
     = Some (Inr (EAnd [EAnd [EText ''user'' [], ENot (EText ''LIKE'' [])], EText ''adm%'' ''adm%'']))"
  "read_again (ECmp ''not'' ''='' ''1'') = Some (Inl (UnexpectedToken ''='' 3))"
  "read_again (ECmp ''my field'' ''='' ''1'') = Some (Inr (EAnd [EText ''my'' [], ECmp ''field'' ''='' ''1'']))"
  "read_again (ECmp ''path'' ''='' ''/var/log'') = Some (Inl (ExpectedValue 5))"
  "read_again (ECmp ''day'' ''='' ''2024-01-01'') = Some (Inl (UnexpectedToken ''-'' 8))"
  by code_simp+

end
