(* ===== verification/SplPlanner.thy ===== *)
theory SplPlanner
  imports Prelude SplAst
begin

text \<open>
  The planner, \<^verbatim>\<open>internal/spl/planner/planner.go\<close>: it lowers a query to SQL text with bound
  arguments. An argument is a text, a float or a time. \<^verbatim>\<open>strconv.ParseFloat\<close> is the parameter
  \<open>pf\<close> (\<open>None\<close> for an error) and \<open>int64(f * mult)\<close> the parameter \<open>scale\<close>; both belong to
  the floating point library. A time is an \<open>int\<close>, 0 for the zero time.

  \<open>expr_to_sql\<close> threads the argument list as \<^verbatim>\<open>ExprToSQL\<close> threads \<^verbatim>\<open>args\<close>. The theorems state
  that each fragment holds one placeholder for each bound argument, that no user value is part of
  the SQL text, and which characters a field name can bring into it.
\<close>

section \<open>Field resolution\<close>

definition column_table :: "(string \<times> string) list" where
  "column_table =
     [(''id'', ''id''), (''timestamp'', ''timestamp''), (''time'', ''timestamp''),
      (''_time'', ''timestamp''), (''received_at'', ''received_at''), (''source'', ''source''),
      (''sourcename'', ''source''), (''source_type'', ''source_type''),
      (''sourcetype'', ''source_type''), (''host'', ''host''), (''ip'', ''ip''),
      (''service'', ''service''), (''application'', ''application''), (''severity'', ''severity''),
      (''sev'', ''severity''), (''message'', ''message''), (''event_type'', ''event_type''),
      (''eventtype'', ''event_type''), (''category'', ''category''), (''action'', ''action''),
      (''outcome'', ''outcome''), (''user'', ''user''), (''username'', ''user''),
      (''user_id'', ''user_id''), (''process'', ''process''), (''process_id'', ''process_id''),
      (''parent_pid'', ''parent_pid''), (''file_path'', ''file_path''),
      (''destination_ip'', ''destination_ip''), (''dest_ip'', ''destination_ip''),
      (''dst_ip'', ''destination_ip''), (''destination_port'', ''destination_port''),
      (''dest_port'', ''destination_port''), (''source_ip'', ''source_ip''),
      (''src_ip'', ''source_ip''), (''sourceip'', ''source_ip''), (''source_port'', ''source_port''),
      (''src_port'', ''source_port''), (''raw'', ''raw''), (''raw_format'', ''raw_format''),
      (''trace_id'', ''trace_id''), (''span_id'', ''span_id'')]"

definition is_word :: "char \<Rightarrow> bool" where
  "is_word c = (is_ascii_letter c \<or> is_digit c \<or> c = CHR ''_'')"

definition attr_key :: "string \<Rightarrow> bool" where
  "attr_key f = (f \<noteq> [] \<and> list_all (\<lambda>c. is_word c \<or> c = CHR ''-'') f)"

datatype field_kind = FldColumn | FldAttr | FldIndex | FldUnknown

definition resolve_field :: "string \<Rightarrow> string \<times> field_kind" where
  "resolve_field field =
     (let l = to_lower (trim_space field)
      in if l = [] then ([], FldUnknown)
         else if l = ''index'' then (''index'', FldIndex)
         else case map_of column_table l of
             Some c \<Rightarrow> (c, FldColumn)
           | None \<Rightarrow> if attr_key field then (field, FldAttr) else (field, FldUnknown))"

section \<open>Comparisons\<close>

datatype 'f arg = AText string | AFloat 'f | ATime int

definition is_equality :: "string \<Rightarrow> bool" where
  "is_equality oper = (oper = ''='' \<or> oper = ''!='' \<or> oper = ''=='')"

definition sql_op :: "string \<Rightarrow> string" where
  "sql_op oper = (if oper \<in> {''!='', ''<'', ''<='', ''>'', ''>=''} then oper else ''='')"

definition coerce :: "(string \<Rightarrow> 'f option) \<Rightarrow> string \<Rightarrow> string \<Rightarrow> 'f arg" where
  "coerce pf oper v =
     (if is_equality oper then AText v
      else case pf (trim_space v) of Some f \<Rightarrow> AFloat f | None \<Rightarrow> AText v)"

definition json_extract :: "string \<Rightarrow> string" where
  "json_extract k =
     ''json_extract(attributes, '' @ [squote, CHR ''$'', CHR ''.'', dquote] @ k @ [dquote, squote] @ '')''"

definition attr_as :: "string \<Rightarrow> string \<Rightarrow> string" where
  "attr_as ty k = ''CAST('' @ json_extract k @ '' AS '' @ ty @ '')''"

definition index_predicate :: "(string \<Rightarrow> 'f option) \<Rightarrow> string \<Rightarrow> string \<Rightarrow> string \<times> 'f arg list" where
  "index_predicate pf oper v =
     (if \<not> is_equality oper
      then (attr_as ''REAL'' ''index'' @ '' '' @ sql_op oper @ '' ?'', [coerce pf oper v])
      else ((if oper = ''!='' then ''NOT '' else [])
              @ ''(source_type = ? OR source = ? OR '' @ attr_as ''TEXT'' ''index'' @ '' = ?)'',
            [AText v, AText v, AText v]))"

definition column_sql :: "(string \<Rightarrow> 'f option) \<Rightarrow> string \<Rightarrow> string \<Rightarrow> string \<Rightarrow> string \<times> 'f arg list" where
  "column_sql pf field oper v =
     (let (c, k) = resolve_field field
      in case k of
           FldIndex \<Rightarrow> index_predicate pf oper v
         | FldColumn \<Rightarrow> (c @ '' '' @ sql_op oper @ '' ?'', [coerce pf oper v])
         | FldAttr \<Rightarrow>
             if is_equality oper
             then (attr_as ''TEXT'' c @ '' '' @ sql_op oper @ '' ?'', [AText v])
             else (attr_as ''REAL'' c @ '' '' @ sql_op oper @ '' ?'', [coerce pf oper v])
         | FldUnknown \<Rightarrow> (''1=0'', []))"

definition distinct_expr :: "string \<Rightarrow> (string \<times> bool) option" where
  "distinct_expr field =
     (let (c, k) = resolve_field field
      in case k of
           FldColumn \<Rightarrow> Some (c, False)
         | FldAttr \<Rightarrow> Some (attr_as ''TEXT'' c, True)
         | FldIndex \<Rightarrow> Some (attr_as ''TEXT'' ''index'', True)
         | FldUnknown \<Rightarrow> None)"

definition is_attribute_field :: "string \<Rightarrow> bool" where
  "is_attribute_field field = (snd (resolve_field field) = FldAttr)"

definition column_order_expr :: "string \<Rightarrow> string option" where
  "column_order_expr field =
     (let (c, k) = resolve_field field
      in case k of
           FldColumn \<Rightarrow> Some c
         | FldAttr \<Rightarrow> Some (attr_as ''TEXT'' c)
         | FldIndex \<Rightarrow> Some (attr_as ''TEXT'' ''index'')
         | FldUnknown \<Rightarrow> None)"

text \<open>The set of the table's columns; the Go function lists it in the order of a map iteration.\<close>

definition canonical_columns :: "string list" where
  "canonical_columns = remdups (map snd column_table)"

section \<open>Free text\<close>

fun fts_tokens :: "string \<Rightarrow> string \<Rightarrow> string list" where
  "fts_tokens run [] = (if run = [] then [] else [rev run])"
| "fts_tokens run (c # cs) =
     (if is_word c then fts_tokens (c # run) cs
      else if run = [] then fts_tokens [] cs
      else rev run # fts_tokens [] cs)"

definition sanitize_fts :: "string \<Rightarrow> string" where
  "sanitize_fts s =
     (case fts_tokens [] s of
        [] \<Rightarrow> [dquote, dquote]
      | ts \<Rightarrow> join '' AND '' (map (\<lambda>t. dquote # t @ [dquote]) ts))"

definition matches_all :: "string \<Rightarrow> bool" where
  "matches_all term = (trim_space term = ''*'' \<or> sanitize_fts term = [dquote, dquote])"

definition text_predicate :: "string \<Rightarrow> 'f arg list \<Rightarrow> string \<times> 'f arg list" where
  "text_predicate term args =
     (if matches_all term then (''1=1'', args)
      else (''rowid IN (SELECT rowid FROM events_fts WHERE events_fts MATCH ?)'',
            args @ [AText (sanitize_fts term)]))"

section \<open>Expressions\<close>

datatype plan_error = UnsupportedKind string

definition text_side :: "string \<Rightarrow> field_kind \<Rightarrow> string option" where
  "text_side c k =
     (case k of FldColumn \<Rightarrow> Some c | FldAttr \<Rightarrow> Some (attr_as ''TEXT'' c) | _ \<Rightarrow> None)"

definition in_predicate :: "string \<Rightarrow> bool \<Rightarrow> string list \<Rightarrow> 'f arg list \<Rightarrow> string \<times> 'f arg list" where
  "in_predicate field neg vs args =
     (if vs = [] then (if neg then ''1=1'' else ''1=0'', args)
      else case case_prod text_side (resolve_field field) of
          None \<Rightarrow> (''1=0'', args)
        | Some side \<Rightarrow>
            (side @ '' '' @ (if neg then ''NOT '' else []) @ ''IN ('' @ join '', '' (map (\<lambda>v. ''?'') vs) @ '')'',
             args @ map AText vs))"

definition like_predicate :: "string \<Rightarrow> bool \<Rightarrow> string \<Rightarrow> 'f arg list \<Rightarrow> string \<times> 'f arg list" where
  "like_predicate field neg p args =
     (case case_prod text_side (resolve_field field) of
        None \<Rightarrow> (''1=0'', args)
      | Some side \<Rightarrow> (side @ (if neg then '' NOT LIKE ?'' else '' LIKE ?''), args @ [AText p]))"

definition null_test :: "string \<Rightarrow> bool \<Rightarrow> string" where
  "null_test e neg = e @ (if neg then '' IS NOT NULL'' else '' IS NULL'')"

definition null_predicate :: "string \<Rightarrow> bool \<Rightarrow> string" where
  "null_predicate field neg =
     (let (c, k) = resolve_field field
      in case k of
           FldColumn \<Rightarrow> null_test c neg
         | FldAttr \<Rightarrow> null_test (json_extract c) neg
         | _ \<Rightarrow> ''1=0'')"

definition join_logical :: "string \<Rightarrow> string list \<Rightarrow> string" where
  "join_logical sep parts =
     (if parts = [] then ''1=1''
      else if 1 < length parts then ''('' @ join sep parts @ '')'' else join sep parts)"

fun expr_to_sql :: "(string \<Rightarrow> 'f option) \<Rightarrow> expr \<Rightarrow> 'f arg list \<Rightarrow> plan_error + string \<times> 'f arg list"
  and exprs_to_sql :: "(string \<Rightarrow> 'f option) \<Rightarrow> expr list \<Rightarrow> 'f arg list
      \<Rightarrow> plan_error + string list \<times> 'f arg list" where
  "expr_to_sql pf (EAnd es) args =
     (case exprs_to_sql pf es args of
        Inl e \<Rightarrow> Inl e
      | Inr (ps, args') \<Rightarrow> Inr (join_logical '' AND '' ps, args'))"
| "expr_to_sql pf (EOr es) args =
     (case exprs_to_sql pf es args of
        Inl e \<Rightarrow> Inl e
      | Inr (ps, args') \<Rightarrow> Inr (join_logical '' OR '' ps, args'))"
| "expr_to_sql pf (ENot e) args =
     (case expr_to_sql pf e args of
        Inl err \<Rightarrow> Inl err
      | Inr (s, args') \<Rightarrow> Inr (''NOT ('' @ s @ '')'', args'))"
| "expr_to_sql pf (ECmp f oper v) args =
     (let (s, bound) = column_sql pf f oper v in Inr (s, args @ bound))"
| "expr_to_sql pf (EIn f neg vs) args = Inr (in_predicate f neg vs args)"
| "expr_to_sql pf (EIsNull f neg) args = Inr (null_predicate f neg, args)"
| "expr_to_sql pf (ELike f neg p) args = Inr (like_predicate f neg p args)"
| "expr_to_sql pf (EText v p) args = Inr (text_predicate v args)"
| "expr_to_sql pf (EOther k) args = Inl (UnsupportedKind k)"
| "exprs_to_sql pf [] args = Inr ([], args)"
| "exprs_to_sql pf (e # es) args =
     (case expr_to_sql pf e args of
        Inl err \<Rightarrow> Inl err
      | Inr (s, args') \<Rightarrow>
          (case exprs_to_sql pf es args' of
             Inl err \<Rightarrow> Inl err
           | Inr (ps, args'') \<Rightarrow> Inr (s # ps, args'')))"

text \<open>\<^verbatim>\<open>ExprToSQL\<close> on a pointer that may be nil.\<close>

definition opt_expr_to_sql :: "(string \<Rightarrow> 'f option) \<Rightarrow> expr option \<Rightarrow> 'f arg list
    \<Rightarrow> plan_error + string \<times> 'f arg list" where
  "opt_expr_to_sql pf oe args =
     (case oe of None \<Rightarrow> Inr (''1=1'', args) | Some e \<Rightarrow> expr_to_sql pf e args)"

section \<open>The WHERE clause\<close>

record plan_options =
  earliest :: int
  latest :: int

definition has_aggregation :: "query \<Rightarrow> bool" where
  "has_aggregation q =
     list_ex (\<lambda>n. case n of StatsNode _ _ \<Rightarrow> True | TimechartNode _ _ _ \<Rightarrow> True | _ \<Rightarrow> False) (q_commands q)"

text \<open>The fields of a search node without expression, in the order the map is iterated.\<close>

fun fields_to_sql :: "(string \<Rightarrow> 'f option) \<Rightarrow> smap \<Rightarrow> 'f arg list \<Rightarrow> string list \<times> 'f arg list" where
  "fields_to_sql pf [] args = ([], args)"
| "fields_to_sql pf ((k, v) # m) args =
     (let (s, bound) = column_sql pf k ''='' v; (ps, args') = fields_to_sql pf m (args @ bound)
      in (s # ps, args'))"

definition expr_from_search_fields :: "(string \<Rightarrow> 'f option) \<Rightarrow> smap \<Rightarrow> string \<Rightarrow> 'f arg list
    \<Rightarrow> string \<times> 'f arg list" where
  "expr_from_search_fields pf m txt args =
     (let (ps, args1) = fields_to_sql pf m args;
          (ps', args2) = (if trim_space txt \<noteq> []
             then let (s, a) = text_predicate txt args1 in (ps @ [s], a) else (ps, args1))
      in (if ps' = [] then [] else ''('' @ join '' AND '' ps' @ '')'', args2))"

definition add_clause :: "string list \<Rightarrow> string \<Rightarrow> string list" where
  "add_clause cs s = (if s \<noteq> [] \<and> s \<noteq> ''1=1'' then cs @ [s] else cs)"

definition search_clause :: "(string \<Rightarrow> 'f option) \<Rightarrow> query \<Rightarrow> 'f arg list
    \<Rightarrow> plan_error + string list \<times> 'f arg list" where
  "search_clause pf q args =
     (case search_of q of
        Some (SearchNode m txt e) \<Rightarrow>
          (case (case e of
                   Some x \<Rightarrow> expr_to_sql pf x args
                 | None \<Rightarrow> Inr (expr_from_search_fields pf m txt args)) of
             Inl err \<Rightarrow> Inl err
           | Inr (s, args') \<Rightarrow> Inr (add_clause [] s, args'))
      | _ \<Rightarrow> Inr ([], args))"

fun where_clauses :: "(string \<Rightarrow> 'f option) \<Rightarrow> bool \<Rightarrow> node list \<Rightarrow> string list \<times> 'f arg list
    \<Rightarrow> plan_error + string list \<times> 'f arg list" where
  "where_clauses pf agg [] st = Inr st"
| "where_clauses pf agg (n # ns) st =
     (case n of
        WhereNode cs e \<Rightarrow>
          if agg then where_clauses pf agg ns st
          else (case opt_expr_to_sql pf (case e of Some x \<Rightarrow> Some x | None \<Rightarrow> conds_to_expr cs) (snd st) of
                  Inl err \<Rightarrow> Inl err
                | Inr (s, args') \<Rightarrow> where_clauses pf agg ns (add_clause (fst st) s, args'))
      | _ \<Rightarrow> where_clauses pf agg ns st)"

definition add_time :: "string \<Rightarrow> int \<Rightarrow> string list \<times> 'f arg list \<Rightarrow> string list \<times> 'f arg list" where
  "add_time s t st = (if t \<noteq> 0 then (add_clause (fst st) s, snd st @ [ATime t]) else st)"

definition build_where :: "(string \<Rightarrow> 'f option) \<Rightarrow> query \<Rightarrow> plan_options \<Rightarrow> 'f arg list
    \<Rightarrow> plan_error + string \<times> 'f arg list" where
  "build_where pf q opts args =
     (case search_clause pf q args of
        Inl err \<Rightarrow> Inl err
      | Inr st0 \<Rightarrow>
          (case where_clauses pf (has_aggregation q) (q_commands q) st0 of
             Inl err \<Rightarrow> Inl err
           | Inr st1 \<Rightarrow>
               let st2 = add_time ''timestamp <= ?'' (latest opts)
                           (add_time ''timestamp >= ?'' (earliest opts) st1)
               in Inr (if fst st2 = [] then [] else ''WHERE '' @ join '' AND '' (fst st2), snd st2)))"

section \<open>Aggregations\<close>

definition strip_minus :: "string \<Rightarrow> string" where
  "strip_minus s = trim_left (\<lambda>c. c = CHR ''-'' \<or> c = CHR ''+'') s"

definition quote_ident :: "string \<Rightarrow> string" where
  "quote_ident s = dquote # filter (\<lambda>c. c \<noteq> dquote) (strip_minus s) @ [dquote]"

definition sanitize_ident :: "string \<Rightarrow> string" where
  "sanitize_ident s = (let r = filter is_word s in if r = [] then ''field'' else r)"

definition agg_column_sql :: "string \<Rightarrow> string" where
  "agg_column_sql field =
     (let (c, k) = resolve_field field
      in case k of
           FldColumn \<Rightarrow> c
         | FldUnknown \<Rightarrow> ''NULL''
         | _ \<Rightarrow> attr_as ''REAL'' c)"

definition group_expr :: "string \<Rightarrow> string" where
  "group_expr field =
     (let (c, k) = resolve_field field
      in case k of
           FldColumn \<Rightarrow> c
         | FldUnknown \<Rightarrow> ''NULL''
         | _ \<Rightarrow> attr_as ''TEXT'' c)"

definition agg_call :: "string \<Rightarrow> string \<Rightarrow> string" where
  "agg_call fn col =
     (if fn = ''dc'' then ''COUNT(DISTINCT '' @ col @ '')''
      else if fn = ''values'' then ''json_group_array(DISTINCT '' @ col @ '')''
      else if fn = ''list'' then ''json_group_array('' @ col @ '')''
      else if fn = ''count'' then ''COUNT(*)''
      else fn @ ''('' @ col @ '')'')"

definition agg_name :: "aggregation \<Rightarrow> string" where
  "agg_name a =
     (let fn = to_lower (a_function a); whole = (a_field a = [] \<or> a_field a = ''*'')
      in if a_alias a \<noteq> [] then a_alias a
         else if fn = ''count'' \<and> whole then ''count''
         else if whole then fn
         else fn @ ''_'' @ sanitize_ident (a_field a))"

definition agg_expr :: "aggregation \<Rightarrow> string \<times> string" where
  "agg_expr a =
     (agg_call (to_lower (a_function a))
        (if a_field a \<noteq> [] \<and> a_field a \<noteq> ''*'' then agg_column_sql (a_field a) else ''*''),
      agg_name a)"

text \<open>\<open>scale f m\<close> is \<^verbatim>\<open>int64(f * m)\<close> for a float \<open>f\<close>.\<close>

definition span_unit :: "string \<Rightarrow> int" where
  "span_unit rest =
     (case rest of
        [] \<Rightarrow> 60
      | u # _ \<Rightarrow> if u = CHR ''s'' then 1 else if u = CHR ''m'' then 60 else if u = CHR ''h'' then 3600
                else if u = CHR ''d'' then 86400 else if u = CHR ''w'' then 604800 else 60)"

definition span_seconds :: "(string \<Rightarrow> 'f option) \<Rightarrow> ('f \<Rightarrow> int \<Rightarrow> int) \<Rightarrow> string \<Rightarrow> string" where
  "span_seconds pf scale sp =
     (let s = to_lower (trim_space sp); is_num = (\<lambda>c. is_digit c \<or> c = CHR ''.'')
      in if s = [] then ''60''
         else case pf (takeWhile is_num s) of
             None \<Rightarrow> ''60''
           | Some f \<Rightarrow> decimal (scale f (span_unit (dropWhile is_num s))))"

record agg_sql =
  ag_select :: string
  ag_group_by :: string
  ag_order_by :: string
  ag_columns :: "string list"
  ag_is_time :: bool

record agg_state =
  st_sel :: "string list"
  st_gb :: "string list"
  st_cols :: "string list"
  st_time :: bool
  st_order :: string

definition empty_agg_sql :: agg_sql where
  "empty_agg_sql = \<lparr>ag_select = [], ag_group_by = [], ag_order_by = [], ag_columns = [], ag_is_time = False\<rparr>"

definition put_agg :: "aggregation \<Rightarrow> agg_state \<Rightarrow> agg_state" where
  "put_agg a st =
     (let (e, alias) = agg_expr a
      in st\<lparr>st_sel := st_sel st @ [e @ '' AS '' @ quote_ident alias], st_cols := st_cols st @ [alias]\<rparr>)"

definition put_group :: "string \<Rightarrow> agg_state \<Rightarrow> agg_state" where
  "put_group g st =
     st\<lparr>st_sel := st_sel st @ [group_expr g @ '' AS '' @ quote_ident g],
        st_gb := st_gb st @ [group_expr g], st_cols := st_cols st @ [g]\<rparr>"

definition bucket :: "string \<Rightarrow> string" where
  "bucket secs =
     ''CAST(strftime('' @ [squote] @ ''%s'' @ [squote] @ '', timestamp) AS INTEGER) / '' @ secs"

definition time_column :: "string \<Rightarrow> string" where
  "time_column secs =
     ''datetime('' @ bucket secs @ '' * '' @ secs @ '', '' @ [squote] @ ''unixepoch'' @ [squote] @ '') AS _time''"

definition sort_part :: "sort_field \<Rightarrow> string" where
  "sort_part f = quote_ident (strip_minus (sf_field f)) @ (if sf_desc f then '' DESC'' else '' ASC'')"

fun put_command :: "(string \<Rightarrow> 'f option) \<Rightarrow> ('f \<Rightarrow> int \<Rightarrow> int) \<Rightarrow> node \<Rightarrow> agg_state \<Rightarrow> agg_state" where
  "put_command pf scale (StatsNode as gs) st = fold put_group gs (fold put_agg as st)"
| "put_command pf scale (TimechartNode a sp gs) st =
     (let secs = span_seconds pf scale sp;
          st1 = st\<lparr>st_time := True, st_sel := st_sel st @ [time_column secs],
                   st_cols := st_cols st @ [''_time'']\<rparr>;
          st2 = put_agg a st1
      in fold put_group gs (st2\<lparr>st_gb := st_gb st2 @ [bucket secs]\<rparr>))"
| "put_command pf scale (SortNode fs) st =
     (if fs = [] then st else st\<lparr>st_order := ''ORDER BY '' @ join '', '' (map sort_part fs)\<rparr>)"
| "put_command pf scale n st = st"

definition build_aggregate :: "(string \<Rightarrow> 'f option) \<Rightarrow> ('f \<Rightarrow> int \<Rightarrow> int) \<Rightarrow> query \<Rightarrow> agg_sql" where
  "build_aggregate pf scale q =
     (let st = fold (put_command pf scale) (q_commands q)
                 \<lparr>st_sel = [], st_gb = [], st_cols = [], st_time = False, st_order = []\<rparr>
      in if st_sel st = [] then empty_agg_sql
         else \<lparr>ag_select = ''SELECT '' @ join '', '' (st_sel st),
               ag_group_by = (if st_gb st = [] then [] else ''GROUP BY '' @ join '', '' (st_gb st)),
               ag_order_by = st_order st, ag_columns = st_cols st, ag_is_time = st_time st\<rparr>)"

definition row_select_columns :: "string list" where
  "row_select_columns =
     [''id'', ''timestamp'', ''received_at'', ''source'', ''source_type'', ''host'', ''ip'', ''service'',
      ''application'', ''severity'', ''message'', ''event_type'', ''category'', ''action'', ''outcome'',
      ''user'', ''user_id'', ''process'', ''process_id'', ''parent_pid'', ''file_path'',
      ''destination_ip'', ''destination_port'', ''source_ip'', ''source_port'', ''raw'', ''raw_format'',
      ''trace_id'', ''span_id'', ''attributes'']"

definition build_row_count :: "string \<Rightarrow> string" where
  "build_row_count w =
     (if w = [] then ''SELECT COUNT(*) FROM events'' else ''SELECT COUNT(*) FROM events '' @ w)"


section \<open>Lemmas\<close>

subsection \<open>Characters of the SQL text\<close>

definition sql_char :: "char \<Rightarrow> bool" where
  "sql_char c = (is_word c \<or> c \<in> set '' -.,()=!<>?$*'' \<or> c = squote \<or> c = dquote)"

definition placeholders :: "string \<Rightarrow> nat" where
  "placeholders s = length (filter (\<lambda>c. c = CHR ''?'') s)"

lemma placeholders_simps [simp]:
  "placeholders [] = 0"
  "placeholders (c # s) = (if c = CHR ''?'' then 1 else 0) + placeholders s"
  "placeholders (s @ t) = placeholders s + placeholders t"
  by (simp_all add: placeholders_def)

lemma placeholders_join:
  "placeholders sep = 0 \<Longrightarrow> placeholders (join sep xs) = sum_list (map placeholders xs)"
  by (induction sep xs rule: join.induct) simp_all

lemma set_join_subset: "set (join sep xs) \<subseteq> set sep \<union> (\<Union>x \<in> set xs. set x)"
  by (induction sep xs rule: join.induct) auto

lemma list_all_join:
  "list_all P sep \<Longrightarrow> list_all (list_all P) xs \<Longrightarrow> list_all P (join sep xs)"
  by (induction sep xs rule: join.induct) simp_all

definition name_char :: "char \<Rightarrow> bool" where
  "name_char c = (is_word c \<or> c = CHR ''-'')"

lemma name_char_sql: "name_char c \<Longrightarrow> sql_char c"
  by (auto simp: name_char_def sql_char_def)

lemma question_not_name: "\<not> name_char (CHR ''?'')"
  by code_simp

lemma name_text_no_placeholder: "list_all name_char s \<Longrightarrow> placeholders s = 0"
  using question_not_name by (induction s) auto

lemma list_all_name_sql: "list_all name_char s \<Longrightarrow> list_all sql_char s"
  using name_char_sql by (auto simp: list_all_iff)

lemma column_names: "list_all (\<lambda>p. list_all name_char (snd p)) column_table"
  by code_simp

lemma column_table_name: "map_of column_table l = Some c \<Longrightarrow> list_all name_char c"
  using column_names map_of_SomeD [of column_table l c] by (auto simp: list_all_iff)

lemma index_name: "list_all name_char ''index''" by code_simp

lemma attr_key_name: "attr_key f \<Longrightarrow> list_all name_char f"
  by (simp add: attr_key_def name_char_def [abs_def])

lemma resolve_field_name:
  assumes "resolve_field f = (c, k)" and "k \<noteq> FldUnknown"
  shows "list_all name_char c"
proof (cases "to_lower (trim_space f) = ''index''")
  case True
  then show ?thesis using assms index_name by (simp add: resolve_field_def)
next
  case False
  then show ?thesis
    using assms column_table_name [of "to_lower (trim_space f)" c] attr_key_name [of f]
    by (auto simp: resolve_field_def Let_def split: if_splits option.splits)
qed

lemma text_side_name:
  assumes "case_prod text_side (resolve_field f) = Some side"
  obtains c where "list_all name_char c" "side = c \<or> side = attr_as ''TEXT'' c"
  using assms resolve_field_name [of f]
  by (cases "resolve_field f") (auto simp: text_side_def split: field_kind.splits)

text \<open>Closed SQL text is checked character by character.\<close>

lemma sql_alphabet:
  "list_all sql_char ''ABCDEFGHIJKLMNOPQRSTUVWXYZabcdefghijklmnopqrstuvwxyz0123456789_ -.,()=!<>?$*''"
  by code_simp

lemmas sql_char_literals [simp] = sql_alphabet [unfolded list.pred_inject, simplified]

lemma sql_char_quotes [simp]: "sql_char squote" "sql_char dquote"
  by (simp_all add: sql_char_def)

lemma sql_chars_json [simp]: "list_all sql_char (json_extract c) = list_all sql_char c"
  by (simp add: json_extract_def)

lemma placeholders_json [simp]: "placeholders (json_extract c) = placeholders c"
  by (simp add: json_extract_def)

lemma sql_chars_attr_as [simp]:
  "list_all sql_char (attr_as ty c) = (list_all sql_char ty \<and> list_all sql_char c)"
  by (auto simp: attr_as_def)

lemma placeholders_attr_as [simp]: "placeholders (attr_as ty c) = placeholders c + placeholders ty"
  by (simp add: attr_as_def)

lemma sql_op_cases: "sql_op oper \<in> {''='', ''!='', ''<'', ''<='', ''>'', ''>=''}"
  by (simp add: sql_op_def)

lemma sql_op_text [simp]: "placeholders (sql_op oper) = 0" "list_all sql_char (sql_op oper)"
  using sql_op_cases [of oper] by auto

text \<open>
  \<open>bound_by s args args'\<close>: a step that answers the text \<open>s\<close> extended the arguments by exactly
  as many as \<open>s\<close> has placeholders, and \<open>s\<close> consists of the characters of the planner's SQL.
\<close>

definition bound_by :: "string \<Rightarrow> 'f arg list \<Rightarrow> 'f arg list \<Rightarrow> bool" where
  "bound_by s args args' =
     (\<exists>b. args' = args @ b \<and> length b = placeholders s \<and> list_all sql_char s)"

lemma bound_byI: "length b = placeholders s \<Longrightarrow> list_all sql_char s \<Longrightarrow> bound_by s args (args @ b)"
  by (auto simp: bound_by_def)

lemma bound_by_none: "placeholders s = 0 \<Longrightarrow> list_all sql_char s \<Longrightarrow> bound_by s args args"
  by (simp add: bound_by_def)

definition all_bound :: "string list \<Rightarrow> 'f arg list \<Rightarrow> 'f arg list \<Rightarrow> bool" where
  "all_bound ps args args' =
     (\<exists>b. args' = args @ b \<and> length b = sum_list (map placeholders ps) \<and> list_all (list_all sql_char) ps)"

lemma all_bound_Nil [simp]: "all_bound [] args args"
  by (simp add: all_bound_def)

lemma all_bound_snoc:
  "all_bound ps args args' \<Longrightarrow> bound_by s args' args'' \<Longrightarrow> all_bound (ps @ [s]) args args''"
  by (auto simp: all_bound_def bound_by_def)

lemma all_bound_Cons:
  "bound_by s args args' \<Longrightarrow> all_bound ps args' args'' \<Longrightarrow> all_bound (s # ps) args args''"
  by (auto simp: all_bound_def bound_by_def)

lemma all_bound_append:
  "all_bound ps args args' \<Longrightarrow> all_bound qs args' args'' \<Longrightarrow> all_bound (ps @ qs) args args''"
  by (auto simp: all_bound_def)

lemma all_bound_drop_plain:
  "bound_by s args args' \<Longrightarrow> placeholders s = 0 \<Longrightarrow> args' = args"
  by (simp add: bound_by_def)

lemma all_bound_join:
  assumes "all_bound ps args args'" and "placeholders sep = 0" "list_all sql_char sep"
    and "placeholders pre = 0" "list_all sql_char pre" "placeholders post = 0" "list_all sql_char post"
  shows "bound_by (pre @ join sep ps @ post) args args'"
  using assms by (auto simp: all_bound_def bound_by_def placeholders_join list_all_join)

lemma name_sql_facts:
  assumes "list_all name_char c"
  shows "placeholders c = 0" "list_all sql_char c"
  using assms name_text_no_placeholder list_all_name_sql by auto

lemma index_predicate_bound:
  "index_predicate pf oper v = (s, b) \<Longrightarrow> bound_by s args (args @ b)"
  by (auto simp: index_predicate_def intro!: bound_byI split: if_splits)

lemma column_sql_bound:
  assumes "column_sql pf f oper v = (s, b)"
  shows "bound_by s args (args @ b)"
proof -
  obtain c k where r: "resolve_field f = (c, k)" by (cases "resolve_field f")
  show ?thesis
  proof (cases k)
    case FldUnknown
    then show ?thesis using assms r by (auto simp: column_sql_def intro!: bound_by_none)
  next
    case FldIndex
    then show ?thesis using assms r by (simp add: column_sql_def index_predicate_bound)
  qed (use assms r name_sql_facts [OF resolve_field_name [OF r]] in
       \<open>auto simp: column_sql_def intro!: bound_byI split: if_splits\<close>)
qed

lemma text_predicate_bound:
  "text_predicate t args = (s, args') \<Longrightarrow> bound_by s args args'"
  by (auto simp: text_predicate_def intro!: bound_byI bound_by_none split: if_splits)

lemma text_side_facts:
  assumes "case_prod text_side (resolve_field f) = Some side"
  shows "placeholders side = 0" "list_all sql_char side"
proof -
  obtain c where "list_all name_char c" "side = c \<or> side = attr_as ''TEXT'' c"
    using text_side_name [OF assms] .
  then show "placeholders side = 0" "list_all sql_char side"
    using name_sql_facts [of c] by auto
qed

lemma marks: "placeholders (join '', '' (map (\<lambda>v. ''?'') vs)) = length vs"
  "list_all sql_char (join '', '' (map (\<lambda>v. ''?'') vs))"
proof -
  show "placeholders (join '', '' (map (\<lambda>v. ''?'') vs)) = length vs"
    by (simp add: placeholders_join sum_list_triv o_def)
  have "list_all (list_all sql_char) (map (\<lambda>v. ''?'') vs)" by (simp add: list.pred_map o_def list_all_iff)
  then show "list_all sql_char (join '', '' (map (\<lambda>v. ''?'') vs))"
    by (intro list_all_join) simp_all
qed

lemma in_predicate_bound:
  "in_predicate f neg vs args = (s, args') \<Longrightarrow> bound_by s args args'"
  by (auto simp: in_predicate_def marks text_side_facts intro!: bound_byI bound_by_none
      split: if_splits option.splits)

lemma like_predicate_bound:
  "like_predicate f neg p args = (s, args') \<Longrightarrow> bound_by s args args'"
  by (auto simp: like_predicate_def text_side_facts intro!: bound_byI bound_by_none
      split: if_splits option.splits)

lemma null_predicate_bound: "bound_by (null_predicate f neg) args args"
proof -
  obtain c k where r: "resolve_field f = (c, k)" by (cases "resolve_field f")
  show ?thesis
    using r name_sql_facts [OF resolve_field_name [OF r]]
    by (cases k) (auto simp: null_predicate_def null_test_def intro!: bound_by_none)
qed

lemma join_logical_bound:
  assumes "all_bound ps args args'" and "sep = '' AND '' \<or> sep = '' OR ''"
  shows "bound_by (join_logical sep ps) args args'"
proof -
  have sep: "placeholders sep = 0" "list_all sql_char sep" using assms(2) by auto
  show ?thesis
    using all_bound_join [OF assms(1) sep, of "''(''" "'')''"]
      all_bound_join [OF assms(1) sep, of "[]" "[]"] assms(1)
      bound_by_none [of "''1=1''" args]
    by (auto simp: join_logical_def all_bound_def)
qed

lemma bound_by_not [simp]: "bound_by (''NOT ('' @ s @ '')'') args args' = bound_by s args args'"
  by (simp add: bound_by_def)

lemma expr_to_sql_bound:
  "expr_to_sql pf e args = Inr (s, args') \<Longrightarrow> bound_by s args args'"
  "exprs_to_sql pf es args = Inr (ps, args') \<Longrightarrow> all_bound ps args args'"
  by (induction pf e args and pf es args arbitrary: s args' and ps args' rule: expr_to_sql_exprs_to_sql.induct)
    (auto simp: null_predicate_bound bound_by_not [simplified] split: sum.splits prod.splits
      intro: join_logical_bound column_sql_bound in_predicate_bound like_predicate_bound
        text_predicate_bound all_bound_Cons)


subsection \<open>The WHERE clause is bound\<close>

lemma add_clause_bound:
  "all_bound cs args args' \<Longrightarrow> bound_by s args' args'' \<Longrightarrow> all_bound (add_clause cs s) args args''"
  using all_bound_snoc [of cs args args' s args''] all_bound_drop_plain [of s args' args'']
  by (auto simp: add_clause_def)

lemma fields_to_sql_bound:
  "fields_to_sql pf m args = (ps, args') \<Longrightarrow> all_bound ps args args'"
  by (induction pf m args arbitrary: ps args' rule: fields_to_sql.induct)
    (auto split: prod.splits intro: all_bound_Cons column_sql_bound)

lemma expr_from_search_fields_bound:
  assumes "expr_from_search_fields pf m txt args = (s, args')"
  shows "bound_by s args args'"
proof -
  obtain ps args1 where f: "fields_to_sql pf m args = (ps, args1)"
    by (cases "fields_to_sql pf m args")
  obtain t args2 where t: "text_predicate txt args1 = (t, args2)"
    by (cases "text_predicate txt args1")
  have b1: "all_bound ps args args1" using f by (rule fields_to_sql_bound)
  have b2: "all_bound (ps @ [t]) args args2"
    by (rule all_bound_snoc [OF b1 text_predicate_bound [OF t]])
  have j: "all_bound qs args a \<Longrightarrow> bound_by (''('' @ join '' AND '' qs @ '')'') args a" for qs a
    by (rule all_bound_join) simp_all
  show ?thesis
    using assms f t b1 j [OF b1] j [OF b2]
    by (auto simp: expr_from_search_fields_def all_bound_def intro: bound_by_none split: if_splits)
qed

lemma search_clause_bound:
  assumes "search_clause pf q args = Inr (cs, args')"
  shows "all_bound cs args args'"
proof -
  have *: "cs = add_clause [] s \<Longrightarrow> bound_by s args args' \<Longrightarrow> ?thesis" for s
    using add_clause_bound [OF all_bound_Nil, of s args args'] by simp
  show ?thesis
  proof (cases "search_of q")
    case None
    then show ?thesis using assms by (simp add: search_clause_def)
  next
    case (Some n)
    then show ?thesis
    proof (cases n)
      case (SearchNode m t e)
      then show ?thesis
        using assms Some *
        by (auto simp: search_clause_def split: option.splits sum.splits prod.splits
            dest: expr_to_sql_bound(1) expr_from_search_fields_bound)
    qed (use assms Some in \<open>simp_all add: search_clause_def\<close>)
  qed
qed

lemma opt_expr_to_sql_bound:
  "opt_expr_to_sql pf oe args = Inr (s, args') \<Longrightarrow> bound_by s args args'"
  by (auto simp: opt_expr_to_sql_def split: option.splits intro: bound_by_none expr_to_sql_bound(1))

lemma where_clauses_bound:
  "where_clauses pf agg ns st = Inr (cs, args') \<Longrightarrow> all_bound (fst st) args (snd st)
   \<Longrightarrow> all_bound cs args args'"
proof (induction pf agg ns st rule: where_clauses.induct)
  case (2 pf agg n ns st)
  show ?case
  proof (cases n)
    case (WhereNode ws e)
    let ?oe = "case e of Some x \<Rightarrow> Some x | None \<Rightarrow> conds_to_expr ws"
    show ?thesis
    proof (cases agg)
      case True
      then show ?thesis using 2 WhereNode by simp
    next
      case False
      with "2.prems" WhereNode obtain s a where r: "opt_expr_to_sql pf ?oe (snd st) = Inr (s, a)"
        and w: "where_clauses pf agg ns (add_clause (fst st) s, a) = Inr (cs, args')"
        by (auto split: sum.splits)
      have "all_bound (add_clause (fst st) s) args a"
        using "2.prems"(2) opt_expr_to_sql_bound [OF r] by (rule add_clause_bound)
      then show ?thesis
        using "2.IH"(3) [OF WhereNode False r refl] w by simp
    qed
  qed (use 2 in simp_all)
qed simp

lemma add_time_bound:
  assumes "all_bound (fst st) args (snd st)" and "s = ''timestamp <= ?'' \<or> s = ''timestamp >= ?''"
  shows "all_bound (fst (add_time s t st)) args (snd (add_time s t st))"
proof -
  have "bound_by s (snd st) (snd st @ [ATime t])"
    by (rule bound_byI) (use assms(2) in auto)
  then show ?thesis using assms(1) by (simp add: add_time_def add_clause_bound)
qed

lemma where_text_bound:
  assumes "all_bound cs args args'"
  shows "bound_by (if cs = [] then [] else ''WHERE '' @ join '' AND '' cs) args args'"
proof (cases cs)
  case Nil
  then show ?thesis using assms by (simp add: all_bound_def bound_by_def)
next
  case (Cons c ds)
  then show ?thesis using all_bound_join [OF assms, of "'' AND ''" "''WHERE ''" "[]"] by simp
qed

lemma build_where_bound:
  assumes "build_where pf q opts args = Inr (s, args')"
  shows "bound_by s args args'"
proof -
  obtain st0 st1 where 0: "search_clause pf q args = Inr st0"
    and 1: "where_clauses pf (has_aggregation q) (q_commands q) st0 = Inr st1"
    using assms by (auto simp: build_where_def split: sum.splits)
  have b0: "all_bound (fst st0) args (snd st0)"
    using search_clause_bound [of pf q args "fst st0" "snd st0"] 0 by simp
  have b1: "all_bound (fst st1) args (snd st1)"
    using where_clauses_bound [of pf _ _ st0 "fst st1" "snd st1", OF _ b0] 1 by simp
  note b2 = where_text_bound [OF add_time_bound [OF add_time_bound [OF b1 disjI2 [OF refl], of "earliest opts"]
      disjI1 [OF refl], of "latest opts"]]
  show ?thesis using assms 0 1 b2 by (simp add: build_where_def Let_def)
qed

subsection \<open>The SQL text does not depend on the values\<close>

definition blank_text :: "string \<Rightarrow> string" where
  "blank_text t = (if matches_all t then ''*'' else ''x'')"

fun blank :: "expr \<Rightarrow> expr" where
  "blank (EAnd es) = EAnd (map blank es)"
| "blank (EOr es) = EOr (map blank es)"
| "blank (ENot e) = ENot (blank e)"
| "blank (ECmp f oper v) = ECmp f oper []"
| "blank (EIn f neg vs) = EIn f neg (map (\<lambda>v. []) vs)"
| "blank (EIsNull f neg) = EIsNull f neg"
| "blank (ELike f neg p) = ELike f neg []"
| "blank (EText v p) = EText (blank_text v) []"
| "blank (EOther k) = EOther k"

definition sql_of :: "'e + 'a \<times> 'b \<Rightarrow> 'e + 'a" where
  "sql_of r = (case r of Inl e \<Rightarrow> Inl e | Inr (s, a) \<Rightarrow> Inr s)"

lemma sql_of_simps [simp]: "sql_of (Inl e) = Inl e" "sql_of (Inr p) = Inr (fst p)"
  by (simp_all add: sql_of_def split: prod.split)

lemma column_sql_text: "fst (column_sql pf f oper v) = fst (column_sql pf' f oper v')"
  by (simp add: column_sql_def index_predicate_def split: field_kind.split prod.split)

lemma blank_text_matches [simp]: "matches_all (blank_text t) = matches_all t"
proof -
  have "matches_all ''*''" "\<not> matches_all ''x''" by code_simp+
  then show ?thesis by (simp add: blank_text_def)
qed

lemma text_predicate_text: "matches_all t = matches_all t' \<Longrightarrow>
    fst (text_predicate t args) = fst (text_predicate t' args')"
  by (simp add: text_predicate_def)

lemma in_predicate_text: "length vs = length vs' \<Longrightarrow>
    fst (in_predicate f neg vs args) = fst (in_predicate f neg vs' args')"
  by (auto simp: in_predicate_def map_replicate_const split: option.split)

lemma like_predicate_text: "fst (like_predicate f neg p args) = fst (like_predicate f neg p' args')"
  by (simp add: like_predicate_def split: option.split)

lemma sql_of_inl: "sql_of r = Inl e \<Longrightarrow> r = Inl e"
  by (cases r) auto

lemma sql_of_inr: "sql_of r = Inr s \<Longrightarrow> \<exists>a. r = Inr (s, a)"
  by (cases r) auto

text \<open>Two runs on the same shape answer the same text, whatever the values and the earlier arguments.\<close>

lemma expr_to_sql_text:
  "sql_of (expr_to_sql pf' (blank e) (args' :: 'g arg list)) = sql_of (expr_to_sql pf e args)"
  "sql_of (exprs_to_sql pf' (map blank es) (args' :: 'g arg list)) = sql_of (exprs_to_sql pf es args)"
proof (induction pf e args and pf es args arbitrary: args' and args' rule: expr_to_sql_exprs_to_sql.induct)
  case (4 pf f oper v args)
  then show ?case using column_sql_text [of pf' f oper "[]" pf v] by (simp add: case_prod_beta)
next
  case (1 pf es args)
  from "1.IH" [of args'] show ?case by (auto simp: sql_of_def split: sum.splits prod.splits)
next
  case (2 pf es args)
  from "2.IH" [of args'] show ?case by (auto simp: sql_of_def split: sum.splits prod.splits)
next
  case (3 pf e args)
  from "3.IH" [of args'] show ?case by (auto simp: sql_of_def split: sum.splits prod.splits)
next
  case (11 pf e es args)
  show ?case
  proof (cases "expr_to_sql pf e args")
    case (Inl err)
    with "11.IH"(1) [of args'] show ?thesis by (auto dest!: sql_of_inl)
  next
    case (Inr p)
    obtain s a1 where p: "p = (s, a1)" by (cases p)
    with "11.IH"(1) [of args'] Inr obtain b where b: "expr_to_sql pf' (blank e) args' = Inr (s, b)"
      by (auto dest!: sql_of_inr)
    have "sql_of (exprs_to_sql pf' (map blank es) b) = sql_of (exprs_to_sql pf es a1)"
      using "11.IH"(2) [OF Inr p [symmetric]] .
    then show ?thesis using Inr p b by (auto simp: sql_of_def split: sum.splits prod.splits)
  qed
qed (simp_all add: text_predicate_text like_predicate_text in_predicate_text)


definition blank_cond :: "condition \<Rightarrow> condition" where
  "blank_cond c = mk_cond (c_field c) (c_operator c) []"

fun blank_node :: "node \<Rightarrow> node" where
  "blank_node (SearchNode m t e) =
     SearchNode (map (\<lambda>p. (fst p, [])) m) (if trim_space t = [] then [] else blank_text t) (map_option blank e)"
| "blank_node (WhereNode cs e) = WhereNode (map blank_cond cs) (map_option blank e)"
| "blank_node n = n"

definition blank_query :: "query \<Rightarrow> query" where
  "blank_query q = q\<lparr>q_commands := map blank_node (q_commands q)\<rparr>"

lemma blank_text_trim: "trim_space (blank_text t) \<noteq> []"
proof -
  have "trim_space ''*'' \<noteq> []" "trim_space ''x'' \<noteq> []" by code_simp+
  then show ?thesis by (simp add: blank_text_def)
qed

lemma fields_to_sql_text:
  "fst (fields_to_sql pf' (map (\<lambda>p. (fst p, [])) m) args') = fst (fields_to_sql pf m args)"
proof (induction m arbitrary: args args')
  case (Cons p m)
  then show ?case
    using column_sql_text [of pf' "fst p" "''=''" "[]" pf "snd p"]
    by (cases p) (simp add: case_prod_beta)
qed simp

lemma expr_from_search_fields_text:
  "fst (expr_from_search_fields pf' (map (\<lambda>p. (fst p, [])) m) (if trim_space t = [] then [] else blank_text t) args')
   = fst (expr_from_search_fields pf m t args)"
  using fields_to_sql_text [of pf' m args' pf args]
    text_predicate_text [of "blank_text t" t "snd (fields_to_sql pf' (map (\<lambda>p. (fst p, [])) m) args')"
      "snd (fields_to_sql pf m args)"]
  by (auto simp: expr_from_search_fields_def Let_def case_prod_beta blank_text_trim)

lemma search_of_blank: "search_of (blank_query q) = map_option blank_node (search_of q)"
  by (cases "q_commands q"; cases "hd (q_commands q)") (simp_all add: search_of_def blank_query_def)

lemma search_of_is_search: "search_of q = Some n \<Longrightarrow> \<exists>m t e. n = SearchNode m t e"
  by (auto simp: search_of_def split: list.splits node.splits)

lemma search_clause_text:
  "sql_of (search_clause pf' (blank_query q) args') = sql_of (search_clause pf q args)"
proof (cases "search_of q")
  case (Some n)
  then obtain m t e where n: "n = SearchNode m t e" using search_of_is_search by blast
  show ?thesis
  proof (cases e)
    case None
    then show ?thesis
      using Some n expr_from_search_fields_text [of pf' m t args' pf args]
      by (simp add: search_clause_def search_of_blank case_prod_beta)
  next
    case (Some x)
    then show ?thesis
      using \<open>search_of q = Some n\<close> n expr_to_sql_text(1) [of pf' x args' pf args]
      by (auto simp: search_clause_def search_of_blank sql_of_def split: sum.splits prod.splits)
  qed
qed (simp add: search_clause_def search_of_blank)

lemma conds_to_expr_blank: "conds_to_expr (map blank_cond cs) = map_option blank (conds_to_expr cs)"
  by (cases cs rule: conds_to_expr.cases) (simp_all add: blank_cond_def mk_cond_def)

lemma opt_expr_to_sql_text:
  "sql_of (opt_expr_to_sql pf' (map_option blank oe) args') = sql_of (opt_expr_to_sql pf oe args)"
  using expr_to_sql_text(1) [of pf' "the oe" args' pf args] by (cases oe) (simp_all add: opt_expr_to_sql_def)

lemma where_clauses_text:
  "fst st' = fst st \<Longrightarrow>
   sql_of (where_clauses pf' agg (map blank_node ns) st') = sql_of (where_clauses pf agg ns st)"
proof (induction ns arbitrary: st st')
  case Nil
  then show ?case by simp
next
  case (Cons n ns)
  show ?case
  proof (cases n)
    case (WhereNode cs e)
    let ?oe = "case e of Some x \<Rightarrow> Some x | None \<Rightarrow> conds_to_expr cs"
    let ?oe' = "case map_option blank e of Some x \<Rightarrow> Some x | None \<Rightarrow> conds_to_expr (map blank_cond cs)"
    have oe: "?oe' = map_option blank ?oe" by (cases e) (simp_all add: conds_to_expr_blank)
    have t: "sql_of (opt_expr_to_sql pf' ?oe' (snd st')) = sql_of (opt_expr_to_sql pf ?oe (snd st))"
      unfolding oe by (rule opt_expr_to_sql_text)
    show ?thesis
    proof (cases "opt_expr_to_sql pf ?oe (snd st)")
      case (Inl err)
      with t have "opt_expr_to_sql pf' ?oe' (snd st') = Inl err" by (simp add: sql_of_inl)
      with Inl WhereNode Cons show ?thesis by (cases agg) simp_all
    next
      case (Inr p)
      then obtain s a where p: "opt_expr_to_sql pf ?oe (snd st) = Inr (s, a)" by (cases p) simp
      with t obtain b where b: "opt_expr_to_sql pf' ?oe' (snd st') = Inr (s, b)"
        by (auto dest!: sql_of_inr)
      from Cons p b WhereNode show ?thesis by (cases agg) simp_all
    qed
  qed (use Cons in simp_all)
qed

lemma has_aggregation_blank: "has_aggregation (blank_query q) = has_aggregation q"
proof -
  have "(case blank_node n of StatsNode _ _ \<Rightarrow> True | TimechartNode _ _ _ \<Rightarrow> True | _ \<Rightarrow> False)
      = (case n of StatsNode _ _ \<Rightarrow> True | TimechartNode _ _ _ \<Rightarrow> True | _ \<Rightarrow> False)" for n
    by (cases n) simp_all
  then show ?thesis by (simp add: has_aggregation_def blank_query_def list_ex_iff)
qed

lemma add_time_fst: "fst st' = fst st \<Longrightarrow> (t' = 0) = (t = 0) \<Longrightarrow> fst (add_time s t' st') = fst (add_time s t st)"
  by (simp add: add_time_def)

definition same_range :: "plan_options \<Rightarrow> plan_options \<Rightarrow> bool" where
  "same_range o1 o2 =
     ((earliest o1 = 0) = (earliest o2 = 0) \<and> (latest o1 = 0) = (latest o2 = 0))"

lemma build_where_text:
  assumes "same_range opts' opts"
  shows "sql_of (build_where pf' (blank_query q) opts' args') = sql_of (build_where pf q opts args)"
proof (cases "search_clause pf q args")
  case (Inl err)
  then have "search_clause pf' (blank_query q) args' = Inl err"
    using search_clause_text [of pf' q args' pf args] by (simp add: sql_of_inl)
  with Inl show ?thesis by (simp add: build_where_def)
next
  case (Inr st)
  then obtain st' where st': "search_clause pf' (blank_query q) args' = Inr st'" "fst st' = fst st"
    using search_clause_text [of pf' q args' pf args] by (auto dest!: sql_of_inr)
  have w: "sql_of (where_clauses pf' (has_aggregation q) (map blank_node (q_commands q)) st')
      = sql_of (where_clauses pf (has_aggregation q) (q_commands q) st)"
    using st'(2) by (rule where_clauses_text)
  have c: "q_commands (blank_query q) = map blank_node (q_commands q)" by (simp add: blank_query_def)
  show ?thesis
  proof (cases "where_clauses pf (has_aggregation q) (q_commands q) st")
    case (Inl err)
    with w have "where_clauses pf' (has_aggregation q) (map blank_node (q_commands q)) st' = Inl err"
      by (simp add: sql_of_inl)
    with Inl Inr st' c show ?thesis by (simp add: build_where_def has_aggregation_blank)
  next
    case (Inr s1)
    with w obtain s1' where s1': "where_clauses pf' (has_aggregation q) (map blank_node (q_commands q)) st' = Inr s1'"
      "fst s1' = fst s1" by (auto dest!: sql_of_inr)
    have "fst (add_time x (latest opts') (add_time y (earliest opts') s1'))
        = fst (add_time x (latest opts) (add_time y (earliest opts) s1))" for x y
      using assms s1'(2) by (intro add_time_fst) (simp_all add: same_range_def)
    then show ?thesis using Inr \<open>search_clause pf q args = Inr st\<close> st'(1) s1'(1) c
      by (simp add: build_where_def has_aggregation_blank Let_def)
  qed
qed


subsection \<open>Full-text tokens\<close>

lemma fts_tokens_concat: "concat (fts_tokens r s) = rev r @ filter is_word s"
  by (induction r s rule: fts_tokens.induct) auto

lemma fts_tokens_words:
  "list_all is_word r \<Longrightarrow> list_all (\<lambda>t. t \<noteq> [] \<and> list_all is_word t) (fts_tokens r s)"
  by (induction r s rule: fts_tokens.induct) simp_all

lemma fts_tokens_Nil: "fts_tokens r s = [] \<longleftrightarrow> r = [] \<and> \<not> list_ex is_word s"
  by (induction r s rule: fts_tokens.induct) auto

lemma sanitize_fts_empty: "sanitize_fts s = [dquote, dquote] \<longleftrightarrow> \<not> list_ex is_word s"
proof -
  have "sanitize_fts s = [dquote, dquote] \<longleftrightarrow> fts_tokens [] s = []"
  proof (cases "fts_tokens [] s")
    case Nil
    then show ?thesis by (simp add: sanitize_fts_def)
  next
    case (Cons t ts)
    then obtain c cs where t: "t = c # cs" and c: "is_word c"
      using fts_tokens_words [of "[]" s] by (cases t) auto
    have "\<not> is_word dquote" by code_simp
    with c have ne: "c \<noteq> dquote" by metis
    obtain r where "sanitize_fts s = dquote # c # r"
      using Cons t by (cases ts) (simp_all add: sanitize_fts_def)
    with ne Cons show ?thesis by simp
  qed
  then show ?thesis by (simp add: fts_tokens_Nil)
qed

subsection \<open>Aggregations\<close>

lemma quote_ident_closed:
  "\<exists>body. quote_ident s = dquote # body @ [dquote] \<and> dquote \<notin> set body"
  by (simp add: quote_ident_def)

text \<open>The items of a SELECT list carry the names of the result's columns, in order.\<close>

definition names_column :: "string \<Rightarrow> string \<Rightarrow> bool" where
  "names_column item c =
     (suffix ('' AS '' @ quote_ident c) item \<or> c = ''_time'' \<and> suffix '' AS _time'' item)"

definition named_items :: "agg_state \<Rightarrow> bool" where
  "named_items st = list_all2 names_column (st_sel st) (st_cols st)"

lemma put_agg_named: "named_items st \<Longrightarrow> named_items (put_agg a st)"
  by (simp add: named_items_def put_agg_def names_column_def list_all2_append case_prod_beta suffix_def
      list_all2_lengthD)

lemma put_group_named: "named_items st \<Longrightarrow> named_items (put_group g st)"
  by (simp add: named_items_def put_group_def names_column_def list_all2_append suffix_def list_all2_lengthD)

lemma fold_named:
  "(\<And>x st. named_items st \<Longrightarrow> named_items (f x st)) \<Longrightarrow> named_items st \<Longrightarrow> named_items (fold f xs st)"
  by (induction xs arbitrary: st) simp_all

lemma put_command_named:
  assumes "named_items st"
  shows "named_items (put_command pf scale n st)"
proof (cases n)
  case (TimechartNode a sp gs)
  have "suffix '' AS _time'' (time_column secs)" for secs
    by (simp add: time_column_def suffix_def)
  then have "named_items (st\<lparr>st_time := True, st_sel := st_sel st @ [time_column secs],
      st_cols := st_cols st @ [''_time'']\<rparr>)" for secs
    using assms by (simp add: named_items_def list_all2_append list_all2_lengthD names_column_def)
  then have "named_items ((put_agg a (st\<lparr>st_time := True, st_sel := st_sel st @ [time_column secs],
      st_cols := st_cols st @ [''_time'']\<rparr>))\<lparr>st_gb := b\<rparr>)" for secs b
    using put_agg_named by (simp add: named_items_def)
  then show ?thesis using TimechartNode by (simp add: Let_def fold_named put_group_named)
next
  case (StatsNode as gs)
  then show ?thesis using assms by (simp add: fold_named put_agg_named put_group_named)
next
  case (SortNode fs)
  then show ?thesis using assms by (simp add: named_items_def)
qed (use assms in simp_all)

section \<open>Properties\<close>

text \<open>
  The WHERE clause is bound exactly: when \<^verbatim>\<open>BuildWhere\<close> answers a clause, the arguments it
  appends are as many as the placeholders of the clause, in every combination of search
  expression, field map, free text, where commands and time range.
\<close>

theorem build_where_placeholders:
  assumes "build_where pf q opts args = Inr (s, args')"
  shows "\<exists>b. args' = args @ b \<and> length b = placeholders s"
  using build_where_bound [OF assms] by (auto simp: bound_by_def)

definition planner_sample :: query where
  "planner_sample = \<lparr>q_version = 1, q_commands =
     [SearchNode [] [] (Some (EAnd [ECmp ''index'' ''='' ''auth'', EText ''failed login'' []])),
      WhereNode [] (Some (EIn ''user'' True [''root'', ''admin'']))]\<rparr>"

definition sample_args :: "int arg list" where
  "sample_args =
     [AText ''auth'', AText ''auth'', AText ''auth'',
      AText ([dquote] @ ''failed'' @ [dquote] @ '' AND '' @ [dquote] @ ''login'' @ [dquote]),
      AText ''root'', AText ''admin'', ATime 5]"

definition sample_clause :: string where
  "sample_clause =
     ''WHERE ((source_type = ? OR source = ? OR '' @ attr_as ''TEXT'' ''index''
     @ '' = ?) AND rowid IN (SELECT rowid FROM events_fts WHERE events_fts MATCH ?)) AND user NOT IN (?, ?) AND timestamp >= ?''"

theorem build_where_placeholders_witness:
  "build_where (\<lambda>v. None) planner_sample \<lparr>earliest = 5, latest = 0\<rparr> [] = Inr (sample_clause, sample_args)
   \<and> (\<exists>b. sample_args = [] @ b \<and> length b = placeholders sample_clause)"
proof -
  have h: "build_where (\<lambda>v. None) planner_sample \<lparr>earliest = 5, latest = 0\<rparr> [] = Inr (sample_clause, sample_args)"
    by code_simp
  show ?thesis by (rule conjI [OF h build_where_placeholders [OF h]])
qed

text \<open>
  C5. No user value is part of the SQL text: two queries that differ only in compared values, value
  lists of the same length, patterns, search terms and time bounds get the same WHERE clause (a
  term that matches every event counts as a different shape from one that does not).
\<close>

theorem build_where_value_independent:
  assumes "blank_query q = blank_query q'" and "same_range opts opts'"
  shows "sql_of (build_where pf q opts args) = sql_of (build_where pf' q' opts' args')"
proof -
  have "sql_of (build_where pf (blank_query q) opts args) = sql_of (build_where pf q opts args)"
    by (rule build_where_text) (simp add: same_range_def)
  moreover have "sql_of (build_where pf (blank_query q') opts args) = sql_of (build_where pf' q' opts' args')"
    by (rule build_where_text) (rule assms(2))
  ultimately show ?thesis using assms(1) by simp
qed

definition one_where :: "string \<Rightarrow> query" where
  "one_where v = \<lparr>q_version = 1, q_commands = [WhereNode [] (Some (ECmp ''user'' ''='' v))]\<rparr>"

theorem build_where_value_independent_witness:
  "blank_query (one_where ''bob'') = blank_query (one_where ''x; DROP TABLE events --'')
   \<and> same_range \<lparr>earliest = 1, latest = 0\<rparr> \<lparr>earliest = 7, latest = 0\<rparr>
   \<and> sql_of (build_where (\<lambda>v. None :: int option) (one_where ''bob'') \<lparr>earliest = 1, latest = 0\<rparr> [])
     = sql_of (build_where (\<lambda>v. None :: int option) (one_where ''x; DROP TABLE events --'')
         \<lparr>earliest = 7, latest = 0\<rparr> [])"
proof -
  have b: "blank_query (one_where ''bob'') = blank_query (one_where ''x; DROP TABLE events --'')"
    by (simp add: blank_query_def one_where_def)
  have r: "same_range \<lparr>earliest = 1, latest = 0\<rparr> \<lparr>earliest = 7, latest = 0\<rparr>"
    by (simp add: same_range_def)
  show ?thesis by (intro conjI b r build_where_value_independent [OF b r])
qed

text \<open>
  The WHERE clause is written in a fixed alphabet: letters, digits, blanks and the punctuation of
  the planner's own fragments. No field name, operator or value can bring in a semicolon, a
  control character or any other one.
\<close>

theorem build_where_alphabet:
  assumes "build_where pf q opts args = Inr (s, args')"
  shows "list_all sql_char s"
  using build_where_bound [OF assms] by (auto simp: bound_by_def)

theorem build_where_alphabet_witness:
  "build_where (\<lambda>v. None :: int option) (one_where ''bob'') \<lparr>earliest = 0, latest = 0\<rparr> []
     = Inr (''WHERE user = ?'', [AText ''bob''])
   \<and> list_all sql_char ''WHERE user = ?''"
proof -
  have h: "build_where (\<lambda>v. None :: int option) (one_where ''bob'') \<lparr>earliest = 0, latest = 0\<rparr> []
     = Inr (''WHERE user = ?'', [AText ''bob''])"
    by code_simp
  show ?thesis by (rule conjI [OF h build_where_alphabet [OF h]])
qed

text \<open>
  A term is matched against the full-text index exactly when it has a word character, and then
  the match string quotes its maximal words: they join to the word characters of the term, and
  each is a nonempty run of word characters, so no full-text operator reaches the index.
\<close>

theorem sanitize_fts_words:
  "(sanitize_fts s = [dquote, dquote] \<longleftrightarrow> \<not> list_ex is_word s)
   \<and> concat (fts_tokens [] s) = filter is_word s
   \<and> list_all (\<lambda>t. t \<noteq> [] \<and> list_all is_word t) (fts_tokens [] s)"
  using sanitize_fts_empty [of s] fts_tokens_concat [of "[]" s] fts_tokens_words [of "[]" s] by simp

text \<open>
  The canonical columns resolve to themselves, and the projection of a row query consists of
  canonical columns and the attribute document.
\<close>

theorem canonical_columns_resolve:
  "list_all (\<lambda>c. resolve_field c = (c, FldColumn)) canonical_columns
   \<and> set row_select_columns = insert ''attributes'' (set canonical_columns)"
  by code_simp

text \<open>
  The result columns of an aggregation are the items of its SELECT list, in order: item \<open>k\<close> is
  written under the quoted name of column \<open>k\<close>, or is the time bucket under the name \<^verbatim>\<open>_time\<close>.
\<close>

theorem build_aggregate_columns:
  "\<exists>items. list_all2 names_column items (ag_columns (build_aggregate pf scale q))
     \<and> ag_select (build_aggregate pf scale q) =
         (if items = [] then [] else ''SELECT '' @ join '', '' items)"
proof -
  let ?st = "fold (put_command pf scale) (q_commands q)
    \<lparr>st_sel = [], st_gb = [], st_cols = [], st_time = False, st_order = []\<rparr>"
  have "named_items ?st"
    by (rule fold_named) (rule put_command_named, assumption, simp add: named_items_def)
  then show ?thesis
    by (intro exI [of _ "st_sel ?st"]) (simp add: build_aggregate_def Let_def named_items_def empty_agg_sql_def)
qed

definition sample_stats :: "string \<Rightarrow> query" where
  "sample_stats fn = \<lparr>q_version = 1, q_commands = [StatsNode [mk_agg fn ''host'' []] []]\<rparr>"

text \<open>
  An aggregation function the validator rejects is still written into the SQL text as it is:
  the planner's whitelist covers field names, not function names.
\<close>

theorem unsupported_function_in_sql:
  "validate (sample_stats ''f(1);--'') \<noteq> []
   \<and> ag_select (build_aggregate pf scale (sample_stats ''f(1);--''))
     = ''SELECT f(1);--(host) AS '' @ [dquote] @ ''f(1);--_host'' @ [dquote]"
  by (intro conjI; code_simp)

text \<open>
  The validator accepts \<^verbatim>\<open>distinct_count\<close>, and the planner has no case for it: the name is
  passed on to SQLite as a function of its own, where \<^verbatim>\<open>dc\<close> becomes \<^verbatim>\<open>COUNT(DISTINCT ...)\<close>.
\<close>

theorem distinct_count_not_lowered:
  "validate (sample_stats ''distinct_count'') = []
   \<and> fst (agg_expr (mk_agg ''distinct_count'' ''host'' [])) = ''distinct_count(host)''
   \<and> fst (agg_expr (mk_agg ''dc'' ''host'' [])) = ''COUNT(DISTINCT host)''"
  by (intro conjI; code_simp)

text \<open>
  \<^verbatim>\<open>index\<close> has no list form: \<^verbatim>\<open>index IN (...)\<close> and \<^verbatim>\<open>index NOT IN (...)\<close> both select nothing,
  where \<^verbatim>\<open>index = v\<close> compares the value with three columns.
\<close>

theorem index_in_selects_nothing:
  "expr_to_sql pf (EIn ''index'' neg (v # vs)) args = Inr (''1=0'', args)
   \<and> (case expr_to_sql pf (ECmp ''index'' ''='' v) args of
        Inl e \<Rightarrow> False
      | Inr (s, args') \<Rightarrow> args' = args @ [AText v, AText v, AText v])"
proof -
  have "resolve_field ''index'' = (''index'', FldIndex)" by code_simp
  then show ?thesis
    by (simp add: in_predicate_def text_side_def column_sql_def index_predicate_def is_equality_def)
qed

end
