(* ===== verification/SplEval.thy ===== *)
theory SplEval
  imports SplReading SplParser
begin

text \<open>
  The eval expressions of the row pipeline, \<^verbatim>\<open>internal/spl/executor/eval.go\<close>: values, the
  evaluator that reads tokens and computes at once, its functions, and \<^verbatim>\<open>eval\<close> and \<^verbatim>\<open>rex\<close>
  on a batch of rows.

  The type \<^verbatim>\<open>any\<close> is the datatype \<open>val\<close>, with the dynamic types the pipeline stores; \<open>VOther\<close>
  is any other dynamic type by its printed text. A row, \<^verbatim>\<open>map[string]any\<close>, is an association list
  whose order is the iteration order. Floating-point numbers are a type parameter with the operations of
  \<open>eval_env\<close>, which also holds the clock, the upper case, the reading of bytes as text and the
  regular expressions.

  An evaluation is \<open>Done\<close>, a \<open>Panic\<close> of the Go run time, or \<open>Stuck\<close> when it does not return;
  the recursive evaluator takes fuel and is \<open>Stuck\<close> without, and \<open>eval_enough\<close> shows that the fuel
  of \<open>eval_tokens\<close> is always enough.
\<close>

section \<open>Runs\<close>

datatype 'a run = Stuck | Panic | Done 'a

definition and_then :: "'a run \<Rightarrow> ('a \<Rightarrow> 'b run) \<Rightarrow> 'b run" where
  "and_then r f = (case r of Stuck \<Rightarrow> Stuck | Panic \<Rightarrow> Panic | Done x \<Rightarrow> f x)"

lemma and_then_simps [simp]:
  "and_then Stuck f = Stuck" "and_then Panic f = Panic" "and_then (Done x) f = f x"
  by (simp_all add: and_then_def)

lemma and_then_Done: "and_then r f = Done y \<longleftrightarrow> (\<exists>x. r = Done x \<and> f x = Done y)"
  by (cases r) auto

lemma and_then_Stuck: "and_then r f = Stuck \<longleftrightarrow> r = Stuck \<or> (\<exists>x. r = Done x \<and> f x = Stuck)"
  by (cases r) auto

lemma and_then_cong [fundef_cong]:
  "r = r' \<Longrightarrow> (\<And>x. r' = Done x \<Longrightarrow> f x = g x) \<Longrightarrow> and_then r f = and_then r' g"
  by (cases r') auto

section \<open>Values\<close>

datatype 'f val = VNil | VStr string | VInt int | VFloat 'f | VBool bool | VBytes string | VList "string list" | VOther string

type_synonym 'f row = "(string \<times> 'f val) list"

record 'f eval_env =
  fl_parse :: "string \<Rightarrow> 'f option"
  fl_junk :: "string \<Rightarrow> 'f"
  fl_print :: "'f \<Rightarrow> string"
  fl_of_int :: "int \<Rightarrow> 'f"
  fl_to_int :: "'f \<Rightarrow> int"
  fl_add :: "'f \<Rightarrow> 'f \<Rightarrow> 'f"
  fl_sub :: "'f \<Rightarrow> 'f \<Rightarrow> 'f"
  fl_mul :: "'f \<Rightarrow> 'f \<Rightarrow> 'f"
  fl_div :: "'f \<Rightarrow> 'f \<Rightarrow> 'f"
  fl_neg :: "'f \<Rightarrow> 'f"
  fl_less :: "'f \<Rightarrow> 'f \<Rightarrow> bool"
  fl_eq :: "'f \<Rightarrow> 'f \<Rightarrow> bool"
  fl_math :: "string \<Rightarrow> 'f \<Rightarrow> 'f"
  unix_now :: int
  upper :: "string \<Rightarrow> string"
  text_of :: "char list \<Rightarrow> string"
  regexp :: "string \<Rightarrow> (string list \<times> (string \<Rightarrow> string list option)) option"

text \<open>Maps: \<^verbatim>\<open>m[k] = v\<close> and \<^verbatim>\<open>delete(m, k)\<close>.\<close>

fun put :: "string \<Rightarrow> 'v \<Rightarrow> (string \<times> 'v) list \<Rightarrow> (string \<times> 'v) list" where
  "put k v [] = [(k, v)]"
| "put k v ((k', v') # r) = (if k' = k then (k, v) # r else (k', v') # put k v r)"

definition del :: "string \<Rightarrow> (string \<times> 'v) list \<Rightarrow> (string \<times> 'v) list" where
  "del k r = filter (\<lambda>p. fst p \<noteq> k) r"

text \<open>\<^verbatim>\<open>m[k]\<close> on a missing key is nil.\<close>

definition get :: "'f row \<Rightarrow> string \<Rightarrow> 'f val" where
  "get r k = (case map_of r k of Some v \<Rightarrow> v | None \<Rightarrow> VNil)"

lemma map_of_put [simp]: "map_of (put k v r) = (map_of r)(k \<mapsto> v)"
  by (induction k v r rule: put.induct) (auto simp: fun_upd_twist)

lemma map_of_del: "map_of (del k r) x = (if x = k then None else map_of r x)"
  by (induction r) (auto simp: del_def)

lemma get_put [simp]: "get (put k v r) x = (if x = k then v else get r x)"
  by (simp add: get_def)

text \<open>\<^verbatim>\<open>fmt.Sprintf("%v", x)\<close>.\<close>

fun show_val :: "('f, 'z) eval_env_scheme \<Rightarrow> 'f val \<Rightarrow> string" where
  "show_val env VNil = ''<nil>''"
| "show_val env (VStr s) = s"
| "show_val env (VInt n) = decimal n"
| "show_val env (VFloat x) = fl_print env x"
| "show_val env (VBool b) = (if b then ''true'' else ''false'')"
| "show_val env (VBytes s) = ''['' @ join '' '' (map (\<lambda>b. decimal (int (code b))) (utf8 s)) @ '']''"
| "show_val env (VList ss) = ''['' @ join '' '' ss @ '']''"
| "show_val env (VOther s) = s"

text \<open>The number \<^verbatim>\<open>ParseFloat\<close> returns, with an error or not.\<close>

definition parsed :: "('f, 'z) eval_env_scheme \<Rightarrow> string \<Rightarrow> 'f" where
  "parsed env s = (case fl_parse env s of Some f \<Rightarrow> f | None \<Rightarrow> fl_junk env s)"

fun to_float :: "('f, 'z) eval_env_scheme \<Rightarrow> 'f val \<Rightarrow> 'f" where
  "to_float env (VFloat x) = x"
| "to_float env (VInt n) = fl_of_int env n"
| "to_float env (VBool b) = fl_of_int env (if b then 1 else 0)"
| "to_float env (VStr s) = parsed env (trim_space s)"
| "to_float env (VBytes s) = parsed env (trim_space s)"
| "to_float env v = fl_of_int env 0"

fun to_bool :: "('f, 'z) eval_env_scheme \<Rightarrow> 'f val \<Rightarrow> bool" where
  "to_bool env VNil = False"
| "to_bool env (VBool b) = b"
| "to_bool env (VStr s) = (let l = to_lower s in l \<noteq> [] \<and> l \<noteq> ''false'' \<and> l \<noteq> ''0'' \<and> l \<noteq> ''no'')"
| "to_bool env v = (\<not> fl_eq env (to_float env v) (fl_of_int env 0))"

section \<open>Comparison and arithmetic\<close>

fun byte_less :: "char list \<Rightarrow> char list \<Rightarrow> bool" where
  "byte_less xs [] = False"
| "byte_less [] (y # ys) = True"
| "byte_less (x # xs) (y # ys) = (code x < code y \<or> (x = y \<and> byte_less xs ys))"

definition str_less :: "string \<Rightarrow> string \<Rightarrow> bool" where
  "str_less a b = byte_less (utf8 a) (utf8 b)"

definition cmp_str :: "string \<Rightarrow> string \<Rightarrow> string \<Rightarrow> bool" where
  "cmp_str oper a b =
     (if oper = ''='' \<or> oper = ''=='' then a = b
      else if oper = ''!='' then a \<noteq> b
      else if oper = ''<'' then str_less a b
      else if oper = ''<='' then \<not> str_less b a
      else if oper = ''>'' then str_less b a
      else if oper = ''>='' then \<not> str_less a b
      else False)"

definition cmp_bool :: "string \<Rightarrow> bool \<Rightarrow> bool \<Rightarrow> bool" where
  "cmp_bool oper a b = (if oper = ''='' \<or> oper = ''=='' then a = b else if oper = ''!='' then a \<noteq> b else False)"

definition cmp_float :: "('f, 'z) eval_env_scheme \<Rightarrow> string \<Rightarrow> 'f \<Rightarrow> 'f \<Rightarrow> bool" where
  "cmp_float env oper a b =
     (if oper = ''='' \<or> oper = ''=='' then fl_eq env a b
      else if oper = ''!='' then \<not> fl_eq env a b
      else if oper = ''<'' then fl_less env a b
      else if oper = ''<='' then fl_less env a b \<or> fl_eq env a b
      else if oper = ''>'' then fl_less env b a
      else if oper = ''>='' then fl_less env b a \<or> fl_eq env a b
      else False)"

definition compare_vals :: "('f, 'z) eval_env_scheme \<Rightarrow> string \<Rightarrow> 'f val \<Rightarrow> 'f val \<Rightarrow> bool" where
  "compare_vals env oper a b =
     (case (a, b) of
        (VStr s, VStr t) \<Rightarrow> cmp_str oper s t
      | (VBool p, _) \<Rightarrow> cmp_bool oper p (to_bool env b)
      | (_, VBool q) \<Rightarrow> cmp_bool oper (to_bool env a) q
      | _ \<Rightarrow> cmp_float env oper (to_float env a) (to_float env b))"

definition looks_text :: "('f, 'z) eval_env_scheme \<Rightarrow> 'f val \<Rightarrow> bool" where
  "looks_text env v = (case v of VStr s \<Rightarrow> fl_parse env s = None | _ \<Rightarrow> False)"

definition is_numeric_str :: "('f, 'z) eval_env_scheme \<Rightarrow> 'f val \<Rightarrow> bool" where
  "is_numeric_str env v = (case v of VStr s \<Rightarrow> fl_parse env s \<noteq> None | _ \<Rightarrow> True)"

definition is_str :: "'f val \<Rightarrow> bool" where
  "is_str v = (case v of VStr s \<Rightarrow> True | _ \<Rightarrow> False)"

text \<open>The remainder of Go's integer division has the sign of the dividend; a zero divisor panics.\<close>

definition go_rem :: "int \<Rightarrow> int \<Rightarrow> int" where
  "go_rem a b = (if a < 0 then - (- a mod \<bar>b\<bar>) else a mod \<bar>b\<bar>)"

definition arith :: "('f, 'z) eval_env_scheme \<Rightarrow> string \<Rightarrow> 'f val \<Rightarrow> 'f val \<Rightarrow> 'f val run" where
  "arith env oper a b =
     (let af = to_float env a; bf = to_float env b; zero = fl_eq env bf (fl_of_int env 0)
      in if oper = ''+'' then
           Done (if (looks_text env a \<or> looks_text env b) \<and> (is_str a \<or> \<not> is_numeric_str env a)
                    \<and> \<not> is_numeric_str env a \<and> \<not> is_numeric_str env b
                 then VStr (show_val env a @ show_val env b) else VFloat (fl_add env af bf))
         else if oper = ''-'' then Done (VFloat (fl_sub env af bf))
         else if oper = ''*'' then Done (VFloat (fl_mul env af bf))
         else if oper = ''/'' then Done (if zero then VInt 0 else VFloat (fl_div env af bf))
         else if oper = ''%'' then
           (if zero then Done (VInt 0)
            else if fl_to_int env bf = 0 then Panic
            else Done (VFloat (fl_of_int env (go_rem (fl_to_int env af) (fl_to_int env bf)))))
         else Done (VFloat af))"

section \<open>Functions\<close>

definition argument :: "'f val list \<Rightarrow> nat \<Rightarrow> 'f val" where
  "argument args i = (if i < length args then args ! i else VNil)"

definition is_empty_val :: "'f val \<Rightarrow> bool" where
  "is_empty_val v = (case v of VNil \<Rightarrow> True | VStr s \<Rightarrow> s = [] | _ \<Rightarrow> False)"

fun case_of :: "('f, 'z) eval_env_scheme \<Rightarrow> 'f val list \<Rightarrow> 'f val" where
  "case_of env (c # v # args) = (if to_bool env c then v else case_of env args)"
| "case_of env args = VNil"

fun replace_in :: "string \<Rightarrow> string \<Rightarrow> nat \<Rightarrow> string \<Rightarrow> string" where
  "replace_in old new skip [] = []"
| "replace_in old new (Suc n) (c # s) = replace_in old new n s"
| "replace_in old new 0 (c # s) =
     (if prefix old (c # s) then new @ replace_in old new (length old - 1) s else c # replace_in old new 0 s)"

definition replace_all :: "string \<Rightarrow> string \<Rightarrow> string \<Rightarrow> string" where
  "replace_all s old new =
     (if old = [] then new @ concat (map (\<lambda>c. c # new) s) else replace_in old new 0 s)"

fun hex_of :: "nat \<Rightarrow> string" where
  "hex_of n = (let d = ''0123456789abcdef'' ! (n mod 16) in if n < 16 then [d] else hex_of (n div 16) @ [d])"

declare hex_of.simps [simp del]

definition show_hex :: "int \<Rightarrow> string" where
  "show_hex n = (if n < 0 then CHR ''-'' # hex_of (nat (- n)) else hex_of (nat n))"

text \<open>\<^verbatim>\<open>substr\<close> counts bytes and slices without checking the length; integer sums wrap around.\<close>

definition substr :: "('f, 'z) eval_env_scheme \<Rightarrow> 'f val list \<Rightarrow> 'f val run" where
  "substr env args =
     (let s = utf8 (show_val env (argument args 0));
          start = max 0 (fl_to_int env (to_float env (argument args 1)))
      in if int (length s) \<le> start then Done (VStr [])
         else if 3 \<le> length args
         then (let l0 = fl_to_int env (to_float env (args ! 2));
                   l = (if int (length s) < wrap64 (start + l0) then int (length s) - start else l0)
               in if wrap64 (start + l) < start then Panic
                  else Done (VStr (text_of env (take (nat l) (drop (nat start) s)))))
         else Done (VStr (text_of env (drop (nat start) s))))"

definition best_of :: "('f, 'z) eval_env_scheme \<Rightarrow> ('f \<Rightarrow> 'f \<Rightarrow> bool) \<Rightarrow> 'f val list \<Rightarrow> 'f val" where
  "best_of env better args =
     (case args of [] \<Rightarrow> VNil
      | a # as \<Rightarrow> VFloat (fold (\<lambda>x best. if better (to_float env x) best then to_float env x else best) as (to_float env a)))"

definition round_to :: "('f, 'z) eval_env_scheme \<Rightarrow> 'f val list \<Rightarrow> 'f val" where
  "round_to env args =
     (let v = to_float env (argument args 0);
          scale = (fl_mul env (fl_of_int env 10) ^^ nat (fl_to_int env (to_float env (argument args 1)))) (fl_of_int env 1);
          sgn = (if fl_less env v (fl_of_int env 0) then fl_of_int env (- 1) else fl_of_int env 1);
          half = fl_div env (fl_of_int env 1) (fl_of_int env 2)
      in VFloat (fl_div env (fl_of_int env (fl_to_int env (fl_add env (fl_mul env v scale) (fl_mul env sgn half)))) scale))"

definition call_function :: "('f, 'z) eval_env_scheme \<Rightarrow> string \<Rightarrow> 'f val list \<Rightarrow> 'f val run" where
  "call_function env name args =
     (let x = argument args 0; text = show_val env x
      in if name = ''substr'' then substr env args
         else Done
          (if name = ''if'' then (if args \<noteq> [] \<and> to_bool env x then argument args 1 else argument args 2)
           else if name = ''case'' then case_of env args
           else if name = ''coalesce'' then (case find (\<lambda>v. \<not> is_empty_val v) args of Some v \<Rightarrow> v | None \<Rightarrow> VStr [])
           else if name = ''len'' then VFloat (fl_of_int env (int (length (utf8 text))))
           else if name = ''lower'' then VStr (to_lower text)
           else if name = ''upper'' then VStr (upper env text)
           else if name = ''replace'' then
             (if length args < 3 then x else VStr (replace_all text (show_val env (args ! 1)) (show_val env (args ! 2))))
           else if name = ''round'' then round_to env args
           else if name = ''tonumber'' then (case fl_parse env (trim_space text) of Some f \<Rightarrow> VFloat f | None \<Rightarrow> VNil)
           else if name = ''tostring'' then
             (if 2 \<le> length args \<and> show_val env (args ! 1) = ''hex'' then VStr (show_hex (fl_to_int env (to_float env x)))
              else VStr text)
           else if name = ''isnull'' then VBool (is_empty_val x)
           else if name = ''isnotnull'' then VBool (\<not> is_empty_val x)
           else if name = ''now'' then VFloat (fl_of_int env (unix_now env))
           else if name \<in> {''abs'', ''ceil'', ''floor'', ''sqrt'', ''log'', ''exp''} then VFloat (fl_math env name (to_float env x))
           else if name = ''max'' then best_of env (\<lambda>f best. fl_less env best f) args
           else if name = ''min'' then best_of env (\<lambda>f best. fl_less env f best) args
           else if name \<in> {''md5'', ''sha1'', ''sha256'', ''sha512'', ''urldecode''} then VStr text
           else if name = ''trim'' then VStr (trim_space text)
           else if name = ''ltrim'' then VStr (trim_left (\<lambda>c. c = CHR '' '') text)
           else if name = ''rtrim'' then VStr (trim_right (\<lambda>c. c = CHR '' '') text)
           else VNil))"

section \<open>The evaluator\<close>

definition lookup_field :: "'f row \<Rightarrow> string \<Rightarrow> 'f val option" where
  "lookup_field r key = (case map_of r key of Some v \<Rightarrow> Some v | None \<Rightarrow> map_of r (to_lower key))"

definition name_value :: "('f, 'z) eval_env_scheme \<Rightarrow> 'f row \<Rightarrow> string \<Rightarrow> 'f val" where
  "name_value env r name =
     (case lookup_field r name of
        Some v \<Rightarrow> v
      | None \<Rightarrow> (case fl_parse env name of Some f \<Rightarrow> VFloat f | None \<Rightarrow> VStr name))"

definition cmp_ops :: "string list" where
  "cmp_ops = [''='', ''=='', ''!='', ''<'', ''<='', ''>'', ''>='']"

definition is_add_op :: "token \<Rightarrow> bool" where
  "is_add_op t = (t_kind t = TokenOp \<and> t_value t \<in> {''+'', ''-'', ''%''})"

definition is_mul_op :: "token \<Rightarrow> bool" where
  "is_mul_op t = (t_value t \<in> {''*'', ''/''} \<and> (t_kind t = TokenOp \<or> t_kind t = TokenStar))"

type_synonym 'f step = "('f val \<times> token list) run"
type_synonym 'f reader = "token list \<Rightarrow> 'f step"

text \<open>
  The four loops over operators of one precedence: while the next token is one of them, read an operand
  and combine. The fuel is the number of tokens.
\<close>

fun more :: "nat \<Rightarrow> (token \<Rightarrow> bool) \<Rightarrow> (token \<Rightarrow> 'f val \<Rightarrow> 'f val \<Rightarrow> 'f val run) \<Rightarrow> 'f reader \<Rightarrow> 'f val \<Rightarrow> 'f reader" where
  "more 0 is_oper combine sub l ts = Stuck"
| "more (Suc n) is_oper combine sub l ts =
     (if is_oper (cur ts)
      then and_then (sub (tl ts)) (\<lambda>(x, ts'). and_then (combine (cur ts) l x) (\<lambda>v. more n is_oper combine sub v ts'))
      else Done (l, ts))"

definition chain :: "(token \<Rightarrow> bool) \<Rightarrow> (token \<Rightarrow> 'f val \<Rightarrow> 'f val \<Rightarrow> 'f val run) \<Rightarrow> 'f reader \<Rightarrow> 'f reader" where
  "chain is_oper combine sub ts =
     and_then (sub ts) (\<lambda>(l, ts'). more (Suc (length ts')) is_oper combine sub l ts')"

text \<open>The arguments of a call, up to a closing parenthesis, the end, or a missing comma.\<close>

fun read_args :: "nat \<Rightarrow> 'f reader \<Rightarrow> token list \<Rightarrow> ('f val list \<times> token list) run" where
  "read_args 0 sub ts = Stuck"
| "read_args (Suc n) sub ts =
     (if t_kind (cur ts) = TokenRParen \<or> t_kind (cur ts) = TokenEOF then Done ([], ts)
      else and_then (sub ts) (\<lambda>(v, ts').
             if t_kind (cur ts') = TokenComma
             then and_then (read_args n sub (tl ts')) (\<lambda>(vs, ts''). Done (v # vs, ts''))
             else Done ([v], ts')))"

definition close_paren :: "token list \<Rightarrow> token list" where
  "close_paren ts = (if t_kind (cur ts) = TokenRParen then tl ts else ts)"

definition ev_primary :: "('f, 'z) eval_env_scheme \<Rightarrow> 'f row \<Rightarrow> 'f reader \<Rightarrow> 'f reader" where
  "ev_primary env r whole ts =
     (let t = cur ts
      in case t_kind t of
           TokenLParen \<Rightarrow> and_then (whole (tl ts)) (\<lambda>(v, ts'). Done (v, close_paren ts'))
         | TokenNumber \<Rightarrow> Done (VFloat (parsed env (t_value t)), tl ts)
         | TokenString \<Rightarrow> Done (VStr (t_value t), tl ts)
         | TokenName \<Rightarrow>
             if t_kind (cur (tl ts)) = TokenLParen
             then and_then (read_args (Suc (length ts)) whole (tl (tl ts))) (\<lambda>(args, ts').
                    and_then (call_function env (to_lower (t_value t)) args) (\<lambda>v. Done (v, close_paren ts')))
             else Done (name_value env r (t_value t), tl ts)
         | TokenStar \<Rightarrow> Done (VStr ''*'', tl ts)
         | _ \<Rightarrow> Done (VNil, tl ts))"

fun ev_unary :: "('f, 'z) eval_env_scheme \<Rightarrow> 'f reader \<Rightarrow> 'f reader" where
  "ev_unary env sub [] = sub []"
| "ev_unary env sub (t # ts) =
     (if is_op ''-'' t
      then and_then (ev_unary env sub ts) (\<lambda>(x, ts'). Done (VFloat (fl_neg env (to_float env x)), ts'))
      else if is_op ''+'' t then ev_unary env sub ts
      else sub (t # ts))"

definition ev_mul :: "('f, 'z) eval_env_scheme \<Rightarrow> 'f row \<Rightarrow> 'f reader \<Rightarrow> 'f reader" where
  "ev_mul env r whole = chain is_mul_op (\<lambda>t. arith env (t_value t)) (ev_unary env (ev_primary env r whole))"

definition ev_add :: "('f, 'z) eval_env_scheme \<Rightarrow> 'f row \<Rightarrow> 'f reader \<Rightarrow> 'f reader" where
  "ev_add env r whole = chain is_add_op (\<lambda>t. arith env (t_value t)) (ev_mul env r whole)"

definition ev_cmp :: "('f, 'z) eval_env_scheme \<Rightarrow> 'f row \<Rightarrow> 'f reader \<Rightarrow> 'f reader" where
  "ev_cmp env r whole ts =
     and_then (ev_add env r whole ts) (\<lambda>(l, ts').
       if t_kind (cur ts') = TokenOp \<and> t_value (cur ts') \<in> set cmp_ops
       then and_then (ev_add env r whole (tl ts')) (\<lambda>(x, ts'').
              Done (VBool (compare_vals env (if t_value (cur ts') = ''=='' then ''='' else t_value (cur ts')) l x), ts''))
       else Done (l, ts'))"

fun ev_not :: "('f, 'z) eval_env_scheme \<Rightarrow> 'f reader \<Rightarrow> 'f reader" where
  "ev_not env sub [] = sub []"
| "ev_not env sub (t # ts) =
     (if kw ''not'' t then and_then (ev_not env sub ts) (\<lambda>(x, ts'). Done (VBool (\<not> to_bool env x), ts'))
      else sub (t # ts))"

definition ev_and :: "('f, 'z) eval_env_scheme \<Rightarrow> 'f row \<Rightarrow> 'f reader \<Rightarrow> 'f reader" where
  "ev_and env r whole =
     chain (kw ''and'') (\<lambda>t a b. Done (VBool (to_bool env a \<and> to_bool env b))) (ev_not env (ev_cmp env r whole))"

text \<open>\<^verbatim>\<open>parseExpr\<close>: the fuel bounds the nesting of parentheses and calls.\<close>

fun ev_or :: "nat \<Rightarrow> ('f, 'z) eval_env_scheme \<Rightarrow> 'f row \<Rightarrow> 'f reader" where
  "ev_or 0 env r ts = Stuck"
| "ev_or (Suc n) env r ts =
     chain (kw ''or'') (\<lambda>t a b. Done (VBool (to_bool env a \<or> to_bool env b))) (ev_and env r (ev_or n env r)) ts"

definition eval_tokens :: "('f, 'z) eval_env_scheme \<Rightarrow> 'f row \<Rightarrow> token list \<Rightarrow> 'f val run" where
  "eval_tokens env r ts = and_then (ev_or (Suc (length ts)) env r ts) (\<lambda>(v, ts'). Done v)"

definition bare_char :: "char \<Rightarrow> bool" where
  "bare_char c = (is_ascii_letter c \<or> is_digit c \<or> c = CHR ''_'' \<or> c = CHR ''.'')"

definition is_bare_ident :: "string \<Rightarrow> bool" where
  "is_bare_ident s = (s \<noteq> [] \<and> list_all bare_char s)"

definition quoted_value :: "string \<Rightarrow> string option run" where
  "quoted_value e =
     (if 2 \<le> length (utf8 e) \<and> (hd e = dquote \<or> hd e = squote)
      then case tokenize e of
          None \<Rightarrow> Stuck
        | Some (Inr (t # t' # ts)) \<Rightarrow> Done (if t_kind t = TokenString then Some (t_value t) else None)
        | Some r \<Rightarrow> Done None
      else Done None)"

definition eval_expr :: "('f, 'z) eval_env_scheme \<Rightarrow> 'f row \<Rightarrow> string \<Rightarrow> 'f val run" where
  "eval_expr env r expr =
     (let e = trim_space expr
      in if e = [] then Done (VStr [])
         else and_then (quoted_value e) (\<lambda>q.
           case q of
             Some s \<Rightarrow> Done (VStr s)
           | None \<Rightarrow>
               if is_bare_ident e then Done (name_value env r e)
               else case tokenize e of
                   None \<Rightarrow> Stuck
                 | Some (Inl err) \<Rightarrow> Done (VStr e)
                 | Some (Inr ts) \<Rightarrow> if ts = [] then Done (VStr e) else eval_tokens env r ts))"

section \<open>The fuel is always enough\<close>

lemma is_op_eof [simp]: "\<not> is_op v eof_token" by (simp add: is_op_def)
lemma is_add_op_eof [simp]: "\<not> is_add_op eof_token" by (simp add: is_add_op_def)
lemma is_mul_op_eof [simp]: "\<not> is_mul_op eof_token" by (simp add: is_mul_op_def eof_token_def mk_token_def)

text \<open>
  A run fits when it is not stuck and hands back at most \<open>k\<close> tokens; a reader settles up to a length
  when it hands back no more than it got.
\<close>

fun fits :: "nat \<Rightarrow> ('a \<times> token list) run \<Rightarrow> bool" where
  "fits k Stuck = False"
| "fits k Panic = True"
| "fits k (Done (x, ts)) = (length ts \<le> k)"

definition settles :: "nat \<Rightarrow> 'f reader \<Rightarrow> bool" where
  "settles k f = (\<forall>ts. length ts \<le> k \<longrightarrow> fits (length ts) (f ts))"

lemma fits_then:
  "fits k r \<Longrightarrow> (\<And>x ts. r = Done (x, ts) \<Longrightarrow> length ts \<le> k \<Longrightarrow> fits j (f (x, ts))) \<Longrightarrow> fits j (and_then r f)"
  by (cases "(k, r)" rule: fits.cases) auto

lemma fits_le: "fits j r \<Longrightarrow> j \<le> k \<Longrightarrow> fits k r"
  by (cases "(k, r)" rule: fits.cases) auto

lemma settlesD: "settles k f \<Longrightarrow> length ts \<le> k \<Longrightarrow> fits (length ts) (f ts)"
  by (simp add: settles_def)

lemma settles_mono: "settles k f \<Longrightarrow> j \<le> k \<Longrightarrow> settles j f"
  by (simp add: settles_def)

lemma more_fits:
  assumes "settles k sub" and "\<not> is_oper eof_token" and "\<And>t a b. combine t a b \<noteq> Stuck"
  shows "length ts \<le> k \<Longrightarrow> length ts < n \<Longrightarrow> fits (length ts) (more n is_oper combine sub l ts)"
proof (induction n arbitrary: l ts)
  case (Suc n)
  show ?case
  proof (cases "is_oper (cur ts)")
    case True
    then obtain t us where ts: "ts = t # us" using assms(2) by (cases ts) auto
    have "fits (length ts) (and_then (combine t l x) (\<lambda>v. more n is_oper combine sub v ts1))"
      if "length ts1 \<le> length us" for x ts1
      using assms(3) [of t l x] fits_le [OF Suc.IH [of ts1]] that Suc.prems ts
      by (cases "combine t l x") simp_all
    then have "fits (length ts) (and_then (sub us) (\<lambda>(x, ts'). and_then (combine t l x) (\<lambda>v. more n is_oper combine sub v ts')))"
      using settlesD [OF assms(1), of us] Suc.prems ts by (intro fits_then [of "length us"]) simp_all
    then show ?thesis using True ts by simp
  qed simp
qed simp

lemma chain_settles:
  fixes sub :: "'f reader"
  assumes "settles k sub" and "\<not> is_oper eof_token" and "\<And>t a b. combine t a b \<noteq> Stuck"
  shows "settles k (chain is_oper combine sub)"
  unfolding settles_def chain_def
proof (intro allI impI fits_then [OF settlesD [OF assms(1)]])
  fix ts ts1 :: "token list" and x :: "'f val"
  assume "length ts \<le> k" "length ts1 \<le> length ts"
  then show "fits (length ts) (case (x, ts1) of (l, ts') \<Rightarrow> more (Suc (length ts')) is_oper combine sub l ts')"
    using more_fits [where is_oper = is_oper and combine = combine and sub = sub and k = k and l = x, OF assms, of ts1 "Suc (length ts1)"] fits_le by fastforce
qed

lemma read_args_fits:
  assumes "settles k sub"
  shows "length ts \<le> k \<Longrightarrow> length ts < n \<Longrightarrow> fits (length ts) (read_args n sub ts)"
proof (induction n arbitrary: ts)
  case (Suc n)
  have "fits (length ts) (if t_kind (cur ts1) = TokenComma
      then and_then (read_args n sub (tl ts1)) (\<lambda>(vs, ts''). Done (v # vs, ts'')) else Done ([v], ts1))"
    if "length ts1 \<le> length ts" for v ts1
  proof (cases ts1)
    case (Cons c us)
    then have "fits (length us) (read_args n sub us)" using Suc.IH [of us] Suc.prems that by simp
    then show ?thesis using Cons that by (auto intro!: fits_then)
  qed (use that in simp)
  then have "fits (length ts) (and_then (sub ts) (\<lambda>(v, ts').
        if t_kind (cur ts') = TokenComma
        then and_then (read_args n sub (tl ts')) (\<lambda>(vs, ts''). Done (v # vs, ts'')) else Done ([v], ts')))"
    using settlesD [OF assms Suc.prems(1)] by (intro fits_then) simp_all
  then show ?case by simp
qed simp

lemma call_function_returns: "call_function env name args \<noteq> Stuck"
  by (simp add: call_function_def substr_def Let_def)

lemma arith_returns: "arith env oper a b \<noteq> Stuck"
  by (simp add: arith_def Let_def)

lemma close_paren_le: "length (close_paren ts) \<le> length ts"
  by (simp add: close_paren_def)

lemma primary_settles:
  assumes "\<And>j. j < k \<Longrightarrow> settles j whole"
  shows "settles k (ev_primary env r whole)"
  unfolding settles_def
proof (intro allI impI)
  fix ts :: "token list"
  assume le: "length ts \<le> k"
  show "fits (length ts) (ev_primary env r whole ts)"
  proof (cases ts)
    case (Cons t us)
    have s: "settles (length us) whole" using assms le Cons by simp
    have "fits (length ts) (and_then (whole us) (\<lambda>(v, ts'). Done (v, close_paren ts')))"
      using settlesD [OF s order_refl] close_paren_le le_trans Cons by (intro fits_then) fastforce+
    moreover have "fits (length ts) (and_then (read_args (Suc (length ts)) whole (tl us)) (\<lambda>(args, ts').
          and_then (call_function env (to_lower (t_value t)) args) (\<lambda>v. Done (v, close_paren ts'))))"
    proof (rule fits_then [OF read_args_fits [OF s]])
      fix args and ts1 :: "token list"
      assume l: "length ts1 \<le> length (tl us)"
      have "length (close_paren ts1) \<le> length ts" using l close_paren_le [of ts1] Cons by simp
      then show "fits (length ts) (case (args, ts1) of (args, ts') \<Rightarrow>
          and_then (call_function env (to_lower (t_value t)) args) (\<lambda>v. Done (v, close_paren ts')))"
        using call_function_returns [of env "to_lower (t_value t)" args]
        by (cases "call_function env (to_lower (t_value t)) args") simp_all
    qed (use Cons in simp_all)
    ultimately show ?thesis using Cons by (simp add: ev_primary_def Let_def split: token_kind.split)
  qed (simp add: ev_primary_def)
qed

lemma unary_settles: "settles k sub \<Longrightarrow> settles k (ev_unary env sub)"
  unfolding settles_def
proof (intro allI impI)
  fix ts :: "token list"
  assume s: "\<forall>ts. length ts \<le> k \<longrightarrow> fits (length ts) (sub ts)" and "length ts \<le> k"
  then show "fits (length ts) (ev_unary env sub ts)"
  proof (induction env sub ts rule: ev_unary.induct)
    case (2 env sub t ts)
    then show ?case using fits_le [where j = "length ts" and k = "Suc (length ts)"] "2.prems"(1) [THEN spec, of "t # ts"]
      by (auto intro!: fits_then [of "length ts"])
  qed (use settlesD [of k _ "[]"] in \<open>simp add: settles_def\<close>)
qed

lemma not_settles: "settles k sub \<Longrightarrow> settles k (ev_not env sub)"
  unfolding settles_def
proof (intro allI impI)
  fix ts :: "token list"
  assume s: "\<forall>ts. length ts \<le> k \<longrightarrow> fits (length ts) (sub ts)" and "length ts \<le> k"
  then show "fits (length ts) (ev_not env sub ts)"
  proof (induction env sub ts rule: ev_not.induct)
    case (2 env sub t ts)
    then show ?case using "2.prems"(1) [THEN spec, of "t # ts"] by (auto intro!: fits_then [of "length ts"])
  qed (use settlesD [of k _ "[]"] in \<open>simp add: settles_def\<close>)
qed

lemma add_settles: "(\<And>j. j < k \<Longrightarrow> settles j whole) \<Longrightarrow> settles k (ev_add env r whole)"
  unfolding ev_add_def ev_mul_def
  by (intro chain_settles unary_settles primary_settles) (simp_all add: arith_returns)

lemma cmp_settles:
  fixes env :: "('f, 'z) eval_env_scheme"
  assumes "\<And>j. j < k \<Longrightarrow> settles j whole"
  shows "settles k (ev_cmp env r whole)"
proof -
  have s: "settles k (ev_add env r whole)" using assms by (rule add_settles)
  show ?thesis
    unfolding settles_def ev_cmp_def
  proof (intro allI impI fits_then [OF settlesD [OF s]])
    fix ts ts1 :: "token list" and x :: "'f val"
    assume a: "length ts \<le> k" "length ts1 \<le> length ts"
    have "fits (length ts) (and_then (ev_add env r whole (tl ts1)) (\<lambda>(y, ts''). Done (g x y, ts'')))"
      if "ts1 \<noteq> []" for g
    proof (rule fits_then [OF settlesD [OF s]])
      show "length (tl ts1) \<le> k" using a by simp
    qed (use a in auto)
    then show "fits (length ts) (case (x, ts1) of (l, ts') \<Rightarrow>
       if t_kind (cur ts') = TokenOp \<and> t_value (cur ts') \<in> set cmp_ops
       then and_then (ev_add env r whole (tl ts')) (\<lambda>(x, ts'').
              Done (VBool (compare_vals env (if t_value (cur ts') = ''=='' then ''='' else t_value (cur ts')) l x), ts''))
       else Done (l, ts'))"
      using a by (cases ts1) auto
  qed
qed

lemma or_settles: "k < n \<Longrightarrow> settles k (ev_or n env r)"
proof (induction n arbitrary: k)
  case (Suc n)
  have "settles j (ev_or n env r)" if "j < k" for j using Suc that by simp
  then have "settles k (ev_and env r (ev_or n env r))"
    unfolding ev_and_def by (intro chain_settles not_settles cmp_settles) simp_all
  then have "settles k (chain (kw ''or'') (\<lambda>t a b. Done (VBool (to_bool env a \<or> to_bool env b))) (ev_and env r (ev_or n env r)))"
    by (rule chain_settles) simp_all
  moreover have "ev_or (Suc n) env r = chain (kw ''or'') (\<lambda>t a b. Done (VBool (to_bool env a \<or> to_bool env b)))
      (ev_and env r (ev_or n env r))"
    by (rule ext) simp
  ultimately show ?case by simp
qed simp

lemma eval_enough: "eval_tokens env r ts \<noteq> Stuck"
  using settlesD [OF or_settles [of "length ts" "Suc (length ts)" env r], of ts]
  by (auto simp: eval_tokens_def and_then_Stuck)

end
