(* ===== verification/SplEvalMeaning.thy ===== *)
theory SplEvalMeaning
  imports SplEval Complex_Main
begin

text \<open>
  What an eval expression means: parse trees with the usual precedences, their meaning computed from the
  meanings of their parts, and the theorem that the evaluator of \<^verbatim>\<open>eval.go\<close>, which computes while it
  reads, answers that meaning. The four loops over operators share one contract, the locale
  \<open>operator_chain\<close>.
\<close>

section \<open>Loops over operators\<close>

locale operator_chain =
  fixes k :: nat and is_oper :: "token \<Rightarrow> bool"
    and combine :: "token \<Rightarrow> 'f val \<Rightarrow> 'f val \<Rightarrow> 'f val run" and sub :: "'f reader"
  assumes ends: "\<not> is_oper eof_token"
    and combines: "combine t a b \<noteq> Stuck"
    and operand: "settles k sub"
begin

lemma loop_fits: "length ts \<le> k \<Longrightarrow> length ts < n \<Longrightarrow> fits (length ts) (more n is_oper combine sub l ts)"
  by (rule more_fits [where is_oper = is_oper and combine = combine and sub = sub, OF operand ends combines])

lemma chain_fits: "settles k (chain is_oper combine sub)"
  by (rule chain_settles [where is_oper = is_oper and combine = combine and sub = sub, OF operand ends combines])

lemma loop_fuel:
  "length ts \<le> k \<Longrightarrow> length ts < n \<Longrightarrow> length ts < n' \<Longrightarrow> more n is_oper combine sub l ts = more n' is_oper combine sub l ts"
proof (induction n arbitrary: n' l ts)
  case (Suc n)
  then obtain n1 where n1: "n' = Suc n1" by (cases n') auto
  show ?case
  proof (cases "is_oper (cur ts)")
    case True
    then obtain t us where ts: "ts = t # us" using ends by (cases ts) auto
    have us: "length us \<le> k" using Suc.prems ts by simp
    show ?thesis
    proof (cases "sub us")
      case (Done p)
      obtain x ts1 where p: "p = (x, ts1)" by (cases p)
      have "length ts1 \<le> length us" using settlesD [OF operand us] Done p by simp
      then have "more n is_oper combine sub v ts1 = more n1 is_oper combine sub v ts1" for v
        using Suc.IH [of ts1 n1 v] Suc.prems ts n1 by simp
      then show ?thesis using ts n1 Done p by simp
    qed (use ts n1 in simp_all)
  qed (use n1 in simp)
qed simp

text \<open>One operator: the operand is read, the result combined, and the loop goes on.\<close>

lemma loop_step:
  assumes "is_oper t" and "length (us @ ts) \<le> k" and "sub (us @ ts) = and_then m (\<lambda>y. Done (y, ts))"
  shows "more (Suc (length (t # us @ ts))) is_oper combine sub x (t # us @ ts)
     = and_then m (\<lambda>y. and_then (combine t x y) (\<lambda>v. more (Suc (length ts)) is_oper combine sub v ts))"
proof (cases m)
  case (Done y)
  have "more (length (t # us @ ts)) is_oper combine sub v ts = more (Suc (length ts)) is_oper combine sub v ts" for v
    using assms(2) by (intro loop_fuel) simp_all
  then show ?thesis using assms Done by simp
qed (use assms in simp_all)

lemma loop_stop: "\<not> is_oper (cur ts) \<Longrightarrow> more (Suc n) is_oper combine sub x ts = Done (x, ts)"
  by simp

end

definition combine_or :: "('f, 'z) eval_env_scheme \<Rightarrow> token \<Rightarrow> 'f val \<Rightarrow> 'f val \<Rightarrow> 'f val run" where
  "combine_or env t a b = Done (VBool (to_bool env a \<or> to_bool env b))"

definition combine_and :: "('f, 'z) eval_env_scheme \<Rightarrow> token \<Rightarrow> 'f val \<Rightarrow> 'f val \<Rightarrow> 'f val run" where
  "combine_and env t a b = Done (VBool (to_bool env a \<and> to_bool env b))"

definition combine_arith :: "('f, 'z) eval_env_scheme \<Rightarrow> token \<Rightarrow> 'f val \<Rightarrow> 'f val \<Rightarrow> 'f val run" where
  "combine_arith env t a b = arith env (t_value t) a b"

lemma whole_settles: "j < m \<Longrightarrow> settles j (ev_or m env r)"
  by (rule or_settles)

interpretation or_level: operator_chain m "kw ''or''" "combine_or env" "ev_and env r (ev_or m env r)" for m env r
proof
  show "settles m (ev_and env r (ev_or m env r))"
    unfolding ev_and_def by (intro chain_settles not_settles cmp_settles whole_settles) simp_all
qed (simp_all add: combine_or_def)

interpretation and_level: operator_chain m "kw ''and''" "combine_and env" "ev_not env (ev_cmp env r (ev_or m env r))" for m env r
proof
  show "settles m (ev_not env (ev_cmp env r (ev_or m env r)))"
    by (intro not_settles cmp_settles whole_settles)
qed (simp_all add: combine_and_def)

interpretation add_level: operator_chain m is_add_op "combine_arith env" "ev_mul env r (ev_or m env r)" for m env r
proof
  show "settles m (ev_mul env r (ev_or m env r))"
    unfolding ev_mul_def by (intro chain_settles unary_settles primary_settles whole_settles) (simp_all add: arith_returns)
qed (simp_all add: combine_arith_def arith_returns)

interpretation mul_level: operator_chain m is_mul_op "combine_arith env" "ev_unary env (ev_primary env r (ev_or m env r))" for m env r
proof
  show "settles m (ev_unary env (ev_primary env r (ev_or m env r)))"
    by (intro unary_settles primary_settles whole_settles)
qed (simp_all add: combine_arith_def arith_returns)

section \<open>Parse trees\<close>

datatype ex =
    Atom token
  | Paren token ex token
  | Call token token token "ex list" token
  | Sign token ex
  | Mul token ex ex
  | Add token ex ex
  | Cmp token ex ex
  | Not token ex
  | And token ex ex
  | Or token ex ex

fun separated :: "token \<Rightarrow> token list list \<Rightarrow> token list" where
  "separated c [] = []"
| "separated c [x] = x"
| "separated c (x # y # xs) = x @ c # separated c (y # xs)"

fun toks :: "ex \<Rightarrow> token list" where
  "toks (Atom t) = [t]"
| "toks (Paren lp e rp) = lp # toks e @ [rp]"
| "toks (Call f lp c es rp) = f # lp # separated c (map toks es) @ [rp]"
| "toks (Sign t e) = t # toks e"
| "toks (Mul t a b) = toks a @ t # toks b"
| "toks (Add t a b) = toks a @ t # toks b"
| "toks (Cmp t a b) = toks a @ t # toks b"
| "toks (Not t e) = t # toks e"
| "toks (And t a b) = toks a @ t # toks b"
| "toks (Or t a b) = toks a @ t # toks b"

text \<open>Precedences: 0 for or, 1 and, 2 not, 3 comparison, 4 sum, 5 product, 6 sign, 7 the rest.\<close>

fun prec :: "ex \<Rightarrow> nat" where
  "prec (Or _ _ _) = 0"
| "prec (And _ _ _) = 1"
| "prec (Not _ _) = 2"
| "prec (Cmp _ _ _) = 3"
| "prec (Add _ _ _) = 4"
| "prec (Mul _ _ _) = 5"
| "prec (Sign _ _) = 6"
| "prec _ = 7"

definition is_cmp_op :: "token \<Rightarrow> bool" where
  "is_cmp_op t = (t_kind t = TokenOp \<and> t_value t \<in> set cmp_ops)"

definition is_sign :: "token \<Rightarrow> bool" where
  "is_sign t = (is_op ''-'' t \<or> is_op ''+'' t)"

definition is_atom :: "token \<Rightarrow> bool" where
  "is_atom t = (t_kind t \<in> {TokenNumber, TokenString, TokenStar} \<or> (t_kind t = TokenName \<and> \<not> kw ''not'' t))"

fun wf :: "ex \<Rightarrow> bool" where
  "wf (Atom t) = is_atom t"
| "wf (Paren lp e rp) = (t_kind lp = TokenLParen \<and> wf e \<and> t_kind rp = TokenRParen)"
| "wf (Call f lp c es rp) = (t_kind f = TokenName \<and> \<not> kw ''not'' f \<and> t_kind lp = TokenLParen
     \<and> t_kind c = TokenComma \<and> list_all wf es \<and> t_kind rp = TokenRParen)"
| "wf (Sign t e) = (is_sign t \<and> wf e \<and> 6 \<le> prec e)"
| "wf (Mul t a b) = (is_mul_op t \<and> wf a \<and> wf b \<and> 5 \<le> prec a \<and> 6 \<le> prec b)"
| "wf (Add t a b) = (is_add_op t \<and> wf a \<and> wf b \<and> 4 \<le> prec a \<and> 5 \<le> prec b)"
| "wf (Cmp t a b) = (is_cmp_op t \<and> wf a \<and> wf b \<and> 4 \<le> prec a \<and> 4 \<le> prec b)"
| "wf (Not t e) = (kw ''not'' t \<and> wf e \<and> 2 \<le> prec e)"
| "wf (And t a b) = (kw ''and'' t \<and> wf a \<and> wf b \<and> 1 \<le> prec a \<and> 2 \<le> prec b)"
| "wf (Or t a b) = (kw ''or'' t \<and> wf a \<and> wf b \<and> 1 \<le> prec b)"

section \<open>Meanings\<close>

fun all_runs :: "'a run list \<Rightarrow> 'a list run" where
  "all_runs [] = Done []"
| "all_runs (r # rs) = and_then r (\<lambda>x. and_then (all_runs rs) (\<lambda>xs. Done (x # xs)))"

definition atom_value :: "('f, 'z) eval_env_scheme \<Rightarrow> 'f row \<Rightarrow> token \<Rightarrow> 'f val" where
  "atom_value env r t =
     (case t_kind t of
        TokenNumber \<Rightarrow> VFloat (parsed env (t_value t))
      | TokenString \<Rightarrow> VStr (t_value t)
      | TokenName \<Rightarrow> name_value env r (t_value t)
      | _ \<Rightarrow> VStr ''*'')"

fun meaning :: "('f, 'z) eval_env_scheme \<Rightarrow> 'f row \<Rightarrow> ex \<Rightarrow> 'f val run" where
  "meaning env r (Atom t) = Done (atom_value env r t)"
| "meaning env r (Paren lp e rp) = meaning env r e"
| "meaning env r (Call f lp c es rp) =
     and_then (all_runs (map (meaning env r) es)) (call_function env (to_lower (t_value f)))"
| "meaning env r (Sign t e) =
     (if is_op ''-'' t then and_then (meaning env r e) (\<lambda>x. Done (VFloat (fl_neg env (to_float env x)))) else meaning env r e)"
| "meaning env r (Mul t a b) = and_then (meaning env r a) (\<lambda>x. and_then (meaning env r b) (combine_arith env t x))"
| "meaning env r (Add t a b) = and_then (meaning env r a) (\<lambda>x. and_then (meaning env r b) (combine_arith env t x))"
| "meaning env r (Cmp t a b) = and_then (meaning env r a) (\<lambda>x. and_then (meaning env r b) (\<lambda>y.
     Done (VBool (compare_vals env (if t_value t = ''=='' then ''='' else t_value t) x y))))"
| "meaning env r (Not t e) = and_then (meaning env r e) (\<lambda>x. Done (VBool (\<not> to_bool env x)))"
| "meaning env r (And t a b) = and_then (meaning env r a) (\<lambda>x. and_then (meaning env r b) (combine_and env t x))"
| "meaning env r (Or t a b) = and_then (meaning env r a) (\<lambda>x. and_then (meaning env r b) (combine_or env t x))"

section \<open>Reading a tree\<close>

declare more.simps [simp del]

text \<open>The reader of each precedence, with \<open>m\<close> for the nesting that is left.\<close>

definition rd :: "('f, 'z) eval_env_scheme \<Rightarrow> 'f row \<Rightarrow> nat \<Rightarrow> nat \<Rightarrow> 'f reader" where
  "rd env r m n =
     (let whole = ev_or m env r
      in if n = 0 then ev_or (Suc m) env r else if n = 1 then ev_and env r whole
         else if n = 2 then ev_not env (ev_cmp env r whole) else if n = 3 then ev_cmp env r whole
         else if n = 4 then ev_add env r whole else if n = 5 then ev_mul env r whole
         else if n = 6 then ev_unary env (ev_primary env r whole) else ev_primary env r whole)"

definition stops :: "nat \<Rightarrow> token list \<Rightarrow> bool" where
  "stops n ts =
     (let t = cur ts
      in t_kind t \<noteq> TokenLParen \<and> (n \<le> 5 \<longrightarrow> \<not> is_mul_op t) \<and> (n \<le> 4 \<longrightarrow> \<not> is_add_op t)
         \<and> (n \<le> 3 \<longrightarrow> \<not> is_cmp_op t) \<and> (n \<le> 1 \<longrightarrow> \<not> kw ''and'' t) \<and> (n = 0 \<longrightarrow> \<not> kw ''or'' t))"

definition reads :: "('f, 'z) eval_env_scheme \<Rightarrow> 'f row \<Rightarrow> nat \<Rightarrow> ex \<Rightarrow> bool" where
  "reads env r n e =
     (\<forall>m rest. length (toks e @ rest) \<le> m \<longrightarrow> stops n rest
        \<longrightarrow> rd env r m n (toks e @ rest) = and_then (meaning env r e) (\<lambda>v. Done (v, rest)))"

text \<open>The operators and the combination of a loop, by precedence.\<close>

definition oper_at :: "nat \<Rightarrow> token \<Rightarrow> bool" where
  "oper_at n = (if n = 0 then kw ''or'' else if n = 1 then kw ''and'' else if n = 4 then is_add_op else is_mul_op)"

definition comb_at :: "('f, 'z) eval_env_scheme \<Rightarrow> nat \<Rightarrow> token \<Rightarrow> 'f val \<Rightarrow> 'f val \<Rightarrow> 'f val run" where
  "comb_at env n = (if n = 0 then combine_or env else if n = 1 then combine_and env else combine_arith env)"

abbreviation chains :: "nat \<Rightarrow> bool" where "chains n \<equiv> n = 0 \<or> n = 1 \<or> n = 4 \<or> n = 5"

definition leads :: "('f, 'z) eval_env_scheme \<Rightarrow> 'f row \<Rightarrow> nat \<Rightarrow> ex \<Rightarrow> bool" where
  "leads env r n e =
     (\<forall>m rest. length (toks e @ rest) \<le> m \<longrightarrow> stops (Suc n) rest
        \<longrightarrow> rd env r m n (toks e @ rest)
          = and_then (meaning env r e) (\<lambda>v. more (Suc (length rest)) (oper_at n) (comb_at env n) (rd env r m (Suc n)) v rest))"

lemma combine_eta:
  "combine_or env = (\<lambda>t a b. Done (VBool (to_bool env a \<or> to_bool env b)))"
  "combine_and env = (\<lambda>t a b. Done (VBool (to_bool env a \<and> to_bool env b)))"
  "combine_arith env = (\<lambda>t. arith env (t_value t))"
  by (intro ext; simp add: combine_or_def combine_and_def combine_arith_def)+

lemma rd_chain:
  "chains n \<Longrightarrow> rd env r m n = chain (oper_at n) (comb_at env n) (rd env r m (Suc n))"
  by (rule ext) (auto simp: rd_def oper_at_def comb_at_def ev_and_def ev_add_def ev_mul_def combine_eta Let_def)

lemma level_chain:
  "chains n \<Longrightarrow> operator_chain m (oper_at n) (comb_at env n) (rd env r m (Suc n))"
  using or_level.operator_chain_axioms [of m env r] and_level.operator_chain_axioms [of m env r]
    add_level.operator_chain_axioms [of m env r] mul_level.operator_chain_axioms [of m env r]
  by (auto simp: rd_def oper_at_def comb_at_def Let_def)

lemma stops_le: "stops n ts \<Longrightarrow> n \<le> k \<Longrightarrow> stops k ts"
  by (auto simp: stops_def Let_def)

lemma stops_oper: "stops n ts \<Longrightarrow> chains n \<Longrightarrow> \<not> oper_at n (cur ts)"
  by (auto simp: stops_def oper_at_def Let_def)

lemma readsD:
  "reads env r n e \<Longrightarrow> length (toks e @ rest) \<le> m \<Longrightarrow> stops n rest
   \<Longrightarrow> rd env r m n (toks e @ rest) = and_then (meaning env r e) (\<lambda>v. Done (v, rest))"
  unfolding reads_def by (elim allE impE)

lemma leadsD:
  "leads env r n e \<Longrightarrow> length (toks e @ rest) \<le> m \<Longrightarrow> stops (Suc n) rest
   \<Longrightarrow> rd env r m n (toks e @ rest)
     = and_then (meaning env r e) (\<lambda>v. more (Suc (length rest)) (oper_at n) (comb_at env n) (rd env r m (Suc n)) v rest)"
  unfolding leads_def by (elim allE impE)

lemma leads_of_reads:
  assumes "reads env r (Suc n) e" and "chains n"
  shows "leads env r n e"
  unfolding leads_def
proof (intro allI impI)
  fix m rest
  assume "length (toks e @ rest) \<le> m" "stops (Suc n) rest"
  then have "rd env r m (Suc n) (toks e @ rest) = and_then (meaning env r e) (\<lambda>v. Done (v, rest))"
    by (rule readsD [OF assms(1)])
  then show "rd env r m n (toks e @ rest)
      = and_then (meaning env r e) (\<lambda>v. more (Suc (length rest)) (oper_at n) (comb_at env n) (rd env r m (Suc n)) v rest)"
    by (cases "meaning env r e") (simp_all add: rd_chain [OF assms(2)] chain_def)
qed

lemma reads_of_leads:
  assumes "leads env r n e" and "chains n"
  shows "reads env r n e"
  unfolding reads_def
proof (intro allI impI)
  fix m rest
  assume a: "length (toks e @ rest) \<le> m" "stops n rest"
  have "rd env r m n (toks e @ rest)
      = and_then (meaning env r e) (\<lambda>v. more (Suc (length rest)) (oper_at n) (comb_at env n) (rd env r m (Suc n)) v rest)"
    by (rule leadsD [OF assms(1) a(1) stops_le [OF a(2)]]) simp
  then show "rd env r m n (toks e @ rest) = and_then (meaning env r e) (\<lambda>v. Done (v, rest))"
    using stops_oper [OF a(2) assms(2)] by (simp add: operator_chain.loop_stop [OF level_chain [OF assms(2)]])
qed

text \<open>A binary operator of a loop: the left operand leads, the right one is read.\<close>

lemma leads_binary:
  assumes "chains n" and "leads env r n a" and "reads env r (Suc n) b" and "oper_at n t" and "stops (Suc n) [t]"
    and "toks e = toks a @ t # toks b"
    and "meaning env r e = and_then (meaning env r a) (\<lambda>x. and_then (meaning env r b) (comb_at env n t x))"
  shows "leads env r n e"
  unfolding leads_def
proof (intro allI impI)
  fix m rest
  assume a: "length (toks e @ rest) \<le> m" "stops (Suc n) rest"
  have la: "rd env r m n (toks a @ (t # toks b @ rest)) = and_then (meaning env r a)
      (\<lambda>v. more (Suc (length (t # toks b @ rest))) (oper_at n) (comb_at env n) (rd env r m (Suc n)) v (t # toks b @ rest))"
    using a(1) assms(5) by (intro leadsD [OF assms(2)]) (simp_all add: assms(6) stops_def)
  have "rd env r m (Suc n) (toks b @ rest) = and_then (meaning env r b) (\<lambda>y. Done (y, rest))"
    using a by (intro readsD [OF assms(3)]) (simp_all add: assms(6))
  then have "more (Suc (length (t # toks b @ rest))) (oper_at n) (comb_at env n) (rd env r m (Suc n)) x (t # toks b @ rest)
     = and_then (meaning env r b) (\<lambda>y. and_then (comb_at env n t x y)
         (\<lambda>v. more (Suc (length rest)) (oper_at n) (comb_at env n) (rd env r m (Suc n)) v rest))" for x
    using a(1) assms(6) by (intro operator_chain.loop_step [OF level_chain [OF assms(1)] assms(4)]) simp_all
  then show "rd env r m n (toks e @ rest)
      = and_then (meaning env r e) (\<lambda>v. more (Suc (length rest)) (oper_at n) (comb_at env n) (rd env r m (Suc n)) v rest)"
    using la by (cases "meaning env r a"; cases "meaning env r b") (simp_all add: assms(6,7))
qed

section \<open>The first token\<close>

definition starts :: "nat \<Rightarrow> token list \<Rightarrow> bool" where
  "starts n ts =
     (case ts of
        [] \<Rightarrow> False
      | t # _ \<Rightarrow> t_kind t \<notin> {TokenRParen, TokenEOF, TokenComma} \<and> (3 \<le> n \<longrightarrow> \<not> kw ''not'' t) \<and> (7 \<le> n \<longrightarrow> \<not> is_sign t))"

lemma starts_le: "starts n ts \<Longrightarrow> k \<le> n \<Longrightarrow> starts k (ts @ us)"
  by (cases ts) (auto simp: starts_def)

lemma first_token: "wf e \<Longrightarrow> starts (prec e) (toks e)"
proof (induction e)
  case (Atom t)
  then show ?case by (auto simp: starts_def is_atom_def is_sign_def is_op_def kw_def)
next
  case (Paren lp e rp)
  then show ?case by (simp add: starts_def is_sign_def is_op_def kw_def)
next
  case (Call f lp c es rp)
  then show ?case by (simp add: starts_def is_sign_def is_op_def)
next
  case (Sign t e)
  then have "t_kind t = TokenOp" by (auto simp: is_sign_def is_op_def)
  then show ?case by (simp add: starts_def kw_def)
next
  case (Not t e)
  then have "t_kind t = TokenName" by (simp add: kw_def)
  then show ?case by (simp add: starts_def)
qed (use starts_le in force)+

text \<open>From its own precedence down, an expression is read at every level.\<close>

lemma reads_not:
  assumes "wf e" and "3 \<le> prec e" and "reads env r 3 e"
  shows "reads env r 2 e"
  unfolding reads_def
proof (intro allI impI)
  fix m rest
  assume a: "length (toks e @ rest) \<le> m" "stops 2 rest"
  obtain t ts where t: "toks e = t # ts" "\<not> kw ''not'' t"
    using first_token [OF assms(1)] assms(2) by (auto simp: starts_def split: list.splits)
  have "rd env r m 3 (toks e @ rest) = and_then (meaning env r e) (\<lambda>v. Done (v, rest))"
    by (rule readsD [OF assms(3) a(1) stops_le [OF a(2)]]) simp
  then show "rd env r m 2 (toks e @ rest) = and_then (meaning env r e) (\<lambda>v. Done (v, rest))"
    using t by (simp add: rd_def)
qed

lemma reads_sign:
  assumes "wf e" and "7 \<le> prec e" and "reads env r 7 e"
  shows "reads env r 6 e"
  unfolding reads_def
proof (intro allI impI)
  fix m rest
  assume a: "length (toks e @ rest) \<le> m" "stops 6 rest"
  obtain t ts where t: "toks e = t # ts" "\<not> is_sign t"
    using first_token [OF assms(1)] assms(2) by (auto simp: starts_def split: list.splits)
  have "rd env r m 7 (toks e @ rest) = and_then (meaning env r e) (\<lambda>v. Done (v, rest))"
    by (rule readsD [OF assms(3) a(1) stops_le [OF a(2)]]) simp
  then show "rd env r m 6 (toks e @ rest) = and_then (meaning env r e) (\<lambda>v. Done (v, rest))"
    using t by (simp add: rd_def is_sign_def)
qed

lemma reads_ev_cmp:
  assumes "reads env r 4 e"
  shows "reads env r 3 e"
  unfolding reads_def
proof (intro allI impI)
  fix m rest
  assume a: "length (toks e @ rest) \<le> m" "stops 3 rest"
  have "rd env r m 4 (toks e @ rest) = and_then (meaning env r e) (\<lambda>v. Done (v, rest))"
    by (rule readsD [OF assms a(1) stops_le [OF a(2)]]) simp
  moreover have "\<not> is_cmp_op (cur rest)" using a(2) by (simp add: stops_def Let_def)
  ultimately show "rd env r m 3 (toks e @ rest) = and_then (meaning env r e) (\<lambda>v. Done (v, rest))"
    by (cases "meaning env r e") (auto simp: rd_def ev_cmp_def is_cmp_op_def)
qed

definition well_read :: "('f, 'z) eval_env_scheme \<Rightarrow> 'f row \<Rightarrow> ex \<Rightarrow> bool" where
  "well_read env r e = (\<forall>n \<le> prec e. reads env r n e \<and> (chains n \<longrightarrow> leads env r n e))"

lemma well_readI:
  assumes "wf e" and "reads env r (prec e) e" and "chains (prec e) \<Longrightarrow> leads env r (prec e) e"
  shows "well_read env r e"
  unfolding well_read_def
proof (intro allI impI)
  fix n
  assume "n \<le> prec e"
  then show "reads env r n e \<and> (chains n \<longrightarrow> leads env r n e)"
  proof (induction n rule: inc_induct)
    case base
    then show ?case using assms by blast
  next
    case (step n)
    have p: "prec e \<le> 7" by (cases e) simp_all
    have r: "reads env r (Suc n) e" using step by blast
    show ?case
    proof (cases "chains n")
      case True
      then show ?thesis using leads_of_reads [OF r True] reads_of_leads by blast
    next
      case False
      then consider "n = 2" | "n = 3" | "n = 6" using step(2) p by linarith
      then show ?thesis
        using r step(2) reads_not [OF assms(1)] reads_ev_cmp reads_sign [OF assms(1)] by cases (auto simp: numeral_eq_Suc)
    qed
  qed
qed

lemma well_readD: "well_read env r e \<Longrightarrow> n \<le> prec e \<Longrightarrow> reads env r n e"
  by (simp add: well_read_def)

lemma well_read_leads: "well_read env r e \<Longrightarrow> n \<le> prec e \<Longrightarrow> chains n \<Longrightarrow> leads env r n e"
  unfolding well_read_def by blast

section \<open>Every tree is read\<close>

lemma stops_tokens:
  "is_mul_op t \<Longrightarrow> stops 6 (t # ts)" "is_add_op t \<Longrightarrow> stops 5 (t # ts)" "is_cmp_op t \<Longrightarrow> stops 4 (t # ts)"
  "kw ''and'' t \<Longrightarrow> stops 2 (t # ts)" "kw ''or'' t \<Longrightarrow> stops 1 (t # ts)"
  "t_kind t = TokenRParen \<or> t_kind t = TokenComma \<or> t_kind t = TokenEOF \<Longrightarrow> stops 0 (t # ts)"
proof -
  have ao: "\<not> (kw ''and'' t \<and> kw ''or'' t)" by (auto simp: kw_def equal_fold_def to_lower_def)
  show "kw ''or'' t \<Longrightarrow> stops 1 (t # ts)"
    using ao by (auto simp: stops_def is_mul_op_def is_add_op_def is_cmp_op_def kw_def)
qed (auto simp: stops_def is_mul_op_def is_add_op_def is_cmp_op_def kw_def cmp_ops_def)

lemma whole_reads:
  assumes "well_read env r e" and "length (toks e @ rest) < m" and "stops 0 rest"
  shows "ev_or m env r (toks e @ rest) = and_then (meaning env r e) (\<lambda>v. Done (v, rest))"
proof (cases m)
  case (Suc k)
  have "rd env r k 0 (toks e @ rest) = and_then (meaning env r e) (\<lambda>v. Done (v, rest))"
    using assms Suc by (intro readsD [OF well_readD]) simp_all
  then show ?thesis by (simp add: rd_def Suc)
qed (use assms in simp)

lemma read_args_separated:
  assumes "list_all (well_read env r) es" and "list_all wf es" and "t_kind c = TokenComma" and "t_kind rp = TokenRParen"
  shows "length (separated c (map toks es) @ rp # rest) < m \<Longrightarrow> length (separated c (map toks es) @ rp # rest) < n \<Longrightarrow>
    read_args n (ev_or m env r) (separated c (map toks es) @ rp # rest)
     = and_then (all_runs (map (meaning env r) es)) (\<lambda>vs. Done (vs, rp # rest))"
  using assms(1,2)
proof (induction es arbitrary: n)
  case Nil
  then show ?case using assms(4) by (cases n) simp_all
next
  case (Cons e es)
  then obtain k where n: "n = Suc k" by (cases n) auto
  have head: "t_kind (cur (toks e @ ts)) \<notin> {TokenRParen, TokenEOF}" for ts
    using first_token [of e] Cons.prems by (auto simp: starts_def split: list.splits)
  show ?case
  proof (cases es)
    case Nil
    have "ev_or m env r (toks e @ rp # rest) = and_then (meaning env r e) (\<lambda>v. Done (v, rp # rest))"
      using Cons.prems Nil assms(4) by (intro whole_reads) (simp_all add: stops_tokens)
    then show ?thesis
      using Nil n head [of "rp # rest"] assms(4) by (cases "meaning env r e") simp_all
  next
    case (Cons e' es')
    let ?more = "separated c (map toks es) @ rp # rest"
    have split: "separated c (map toks (e # es)) @ rp # rest = toks e @ c # ?more" using Cons by simp
    have first: "ev_or m env r (toks e @ c # ?more) = and_then (meaning env r e) (\<lambda>v. Done (v, c # ?more))"
      using Cons.prems split assms(3) by (intro whole_reads) (simp_all add: stops_tokens)
    have others: "read_args k (ev_or m env r) ?more = and_then (all_runs (map (meaning env r) es)) (\<lambda>vs. Done (vs, rp # rest))"
      using Cons.IH [of k] Cons.prems split n by simp
    show ?thesis
      unfolding split n
      using first others head [of "c # ?more"] assms(3)
      by (cases "meaning env r e"; cases "all_runs (map (meaning env r) es)") simp_all
  qed
qed

lemma binary_read:
  assumes "chains n" and "prec e = n" and "wf e" and "toks e = toks a @ t # toks b" and "oper_at n t"
    and "meaning env r e = and_then (meaning env r a) (\<lambda>x. and_then (meaning env r b) (comb_at env n t x))"
    and "well_read env r a" and "n \<le> prec a" and "well_read env r b" and "Suc n \<le> prec b"
  shows "well_read env r e"
proof -
  have "stops (Suc n) [t]"
    using assms(1,5) stops_tokens [of t "[]"] by (auto simp: oper_at_def numeral_eq_Suc)
  then have l: "leads env r n e"
    by (intro leads_binary [OF assms(1) well_read_leads [OF assms(7,8,1)] well_readD [OF assms(9,10)] assms(5) _ assms(4,6)])
  show ?thesis
    using reads_of_leads [OF l assms(1)] l assms(2,3) by (intro well_readI) simp_all
qed

lemma atom_read: "wf (Atom t) \<Longrightarrow> well_read env r (Atom t)"
proof (rule well_readI)
  assume a: "wf (Atom t)"
  show "reads env r (prec (Atom t)) (Atom t)"
    unfolding reads_def
  proof (intro allI impI)
    fix m rest
    assume "stops (prec (Atom t)) rest"
    then have "t_kind (cur rest) \<noteq> TokenLParen" by (simp add: stops_def Let_def)
    then show "rd env r m (prec (Atom t)) (toks (Atom t) @ rest) = and_then (meaning env r (Atom t)) (\<lambda>v. Done (v, rest))"
      using a by (auto simp: rd_def ev_primary_def is_atom_def atom_value_def)
  qed
qed simp_all

lemma paren_read:
  assumes "well_read env r e" and "wf (Paren lp e rp)"
  shows "well_read env r (Paren lp e rp)"
proof (rule well_readI [OF assms(2)])
  show "reads env r (prec (Paren lp e rp)) (Paren lp e rp)"
    unfolding reads_def
  proof (intro allI impI)
    fix m rest
    assume "length (toks (Paren lp e rp) @ rest) \<le> m"
    then have "ev_or m env r (toks e @ rp # rest) = and_then (meaning env r e) (\<lambda>v. Done (v, rp # rest))"
      using assms(2) by (intro whole_reads [OF assms(1)]) (simp_all add: stops_tokens)
    then show "rd env r m (prec (Paren lp e rp)) (toks (Paren lp e rp) @ rest)
        = and_then (meaning env r (Paren lp e rp)) (\<lambda>v. Done (v, rest))"
      using assms(2) by (cases "meaning env r e") (simp_all add: rd_def ev_primary_def close_paren_def)
  qed
qed simp

lemma call_read:
  assumes "list_all (well_read env r) es" and "wf (Call f lp c es rp)"
  shows "well_read env r (Call f lp c es rp)"
proof (rule well_readI [OF assms(2)])
  let ?e = "Call f lp c es rp" and ?ts = "separated c (map toks es)"
  have w: "list_all wf es" "t_kind c = TokenComma" "t_kind rp = TokenRParen" "t_kind f = TokenName" "t_kind lp = TokenLParen"
    using assms(2) by simp_all
  show "reads env r (prec ?e) ?e"
    unfolding reads_def
  proof (intro allI impI)
    fix m rest
    assume "length (toks ?e @ rest) \<le> m"
    then have "read_args (Suc (length (toks ?e @ rest))) (ev_or m env r) (?ts @ rp # rest)
        = and_then (all_runs (map (meaning env r) es)) (\<lambda>vs. Done (vs, rp # rest))"
      by (intro read_args_separated [OF assms(1) w(1-3)]) simp_all
    then show "rd env r m (prec ?e) (toks ?e @ rest) = and_then (meaning env r ?e) (\<lambda>v. Done (v, rest))"
      using w by (cases "all_runs (map (meaning env r) es)") (simp_all add: rd_def ev_primary_def close_paren_def)
  qed
qed simp

lemma sign_read:
  assumes "well_read env r e" and "wf (Sign t e)"
  shows "well_read env r (Sign t e)"
proof (rule well_readI [OF assms(2)])
  show "reads env r (prec (Sign t e)) (Sign t e)"
    unfolding reads_def
  proof (intro allI impI)
    fix m rest
    assume "length (toks (Sign t e) @ rest) \<le> m" "stops (prec (Sign t e)) rest"
    then have "rd env r m 6 (toks e @ rest) = and_then (meaning env r e) (\<lambda>v. Done (v, rest))"
      using assms by (intro readsD [OF well_readD]) simp_all
    then show "rd env r m (prec (Sign t e)) (toks (Sign t e) @ rest) = and_then (meaning env r (Sign t e)) (\<lambda>v. Done (v, rest))"
      using assms(2) by (cases "meaning env r e") (auto simp: rd_def is_sign_def)
  qed
qed simp

lemma not_read:
  assumes "well_read env r e" and "wf (Not t e)"
  shows "well_read env r (Not t e)"
proof (rule well_readI [OF assms(2)])
  show "reads env r (prec (Not t e)) (Not t e)"
    unfolding reads_def
  proof (intro allI impI)
    fix m rest
    assume "length (toks (Not t e) @ rest) \<le> m" "stops (prec (Not t e)) rest"
    then have "rd env r m 2 (toks e @ rest) = and_then (meaning env r e) (\<lambda>v. Done (v, rest))"
      using assms by (intro readsD [OF well_readD]) simp_all
    then show "rd env r m (prec (Not t e)) (toks (Not t e) @ rest) = and_then (meaning env r (Not t e)) (\<lambda>v. Done (v, rest))"
      using assms(2) by (cases "meaning env r e") (simp_all add: rd_def)
  qed
qed simp

lemma cmp_read:
  assumes "well_read env r a" and "well_read env r b" and "wf (Cmp t a b)"
  shows "well_read env r (Cmp t a b)"
proof (rule well_readI [OF assms(3)])
  show "reads env r (prec (Cmp t a b)) (Cmp t a b)"
    unfolding reads_def
  proof (intro allI impI)
    fix m rest
    assume l: "length (toks (Cmp t a b) @ rest) \<le> m" "stops (prec (Cmp t a b)) rest"
    have "rd env r m 4 (toks a @ t # toks b @ rest) = and_then (meaning env r a) (\<lambda>v. Done (v, t # toks b @ rest))"
      using assms l(1) by (intro readsD [OF well_readD]) (simp_all add: stops_tokens)
    moreover have "rd env r m 4 (toks b @ rest) = and_then (meaning env r b) (\<lambda>v. Done (v, rest))"
      using assms l(1) stops_le [OF l(2), of 4] by (intro readsD [OF well_readD]) simp_all
    ultimately show "rd env r m (prec (Cmp t a b)) (toks (Cmp t a b) @ rest)
        = and_then (meaning env r (Cmp t a b)) (\<lambda>v. Done (v, rest))"
      using assms(3)
      by (cases "meaning env r a"; cases "meaning env r b") (simp_all add: rd_def ev_cmp_def is_cmp_op_def)
  qed
qed simp

lemma tree_read: "wf e \<Longrightarrow> well_read env r e"
proof (induction e)
  case (Call f lp c es rp)
  then show ?case by (intro call_read) (auto simp: list_all_iff)
next
  case (Mul t a b)
  show ?case by (rule binary_read [of 5 _ a t b]) (use Mul in \<open>simp_all add: oper_at_def comb_at_def\<close>)
next
  case (Add t a b)
  show ?case by (rule binary_read [of 4 _ a t b]) (use Add in \<open>simp_all add: oper_at_def comb_at_def\<close>)
next
  case (And t a b)
  show ?case by (rule binary_read [of 1 _ a t b]) (use And in \<open>simp_all add: oper_at_def comb_at_def numeral_eq_Suc\<close>)
next
  case (Or t a b)
  show ?case by (rule binary_read [of 0 _ a t b]) (use Or in \<open>simp_all add: oper_at_def comb_at_def\<close>)
qed (simp_all add: atom_read paren_read sign_read not_read cmp_read)

section \<open>Properties\<close>

text \<open>
  C16. The evaluator of eval expressions answers the meaning of the expression: for the tokens of every parse
  tree over the levels or, and, not, comparison, sum, product and sign, weakest first, with the operators of one
  level grouped to the left, reading and computing at once gives the value computed bottom up
  from the tree, or its panic. The levels are those of the code: the remainder stands with the sum and the
  difference, not with the product and the quotient where the usual precedence has it, so that
  \<^verbatim>\<open>1 + n % 3\<close> means \<^verbatim>\<open>(1 + n) % 3\<close>, as the witness shows.
\<close>

theorem eval_meaning:
  assumes "wf e" and "t_kind z = TokenEOF"
  shows "eval_tokens env r (toks e @ [z]) = meaning env r e"
proof -
  have "ev_or (Suc (length (toks e @ [z]))) env r (toks e @ [z]) = and_then (meaning env r e) (\<lambda>v. Done (v, [z]))"
    using assms(2) by (intro whole_reads [OF tree_read [OF assms(1)]]) (simp_all add: stops_tokens)
  then show ?thesis by (cases "meaning env r e") (simp_all add: eval_tokens_def)
qed

text \<open>Sample numbers: the rationals, with integers and one half as texts.\<close>

definition trunc :: "rat \<Rightarrow> int" where
  "trunc x = (if x < 0 then - \<lfloor>- x\<rfloor> else \<lfloor>x\<rfloor>)"

definition sample_eval :: "rat eval_env" where
  "sample_eval =
     \<lparr>fl_parse = (\<lambda>s. if s = ''0.5'' then Some (1 / 2) else map_option of_int (atoi s)), fl_junk = (\<lambda>s. 0),
      fl_print = (\<lambda>x. decimal (trunc x)), fl_of_int = of_int, fl_to_int = trunc, fl_add = (+), fl_sub = (-), fl_mul = (*),
      fl_div = (/), fl_neg = uminus, fl_less = (<), fl_eq = (=), fl_math = (\<lambda>f x. x), unix_now = 0, upper = id, text_of = id,
      regexp = (\<lambda>s. None)\<rparr>"

definition op_token :: "string \<Rightarrow> nat \<Rightarrow> token" where "op_token s p = mk_token TokenOp s s p"

text \<open>\<^verbatim>\<open>1 + n % 3 = 0\<close>, which holds of five: six is divisible by three.\<close>

definition sample_tree :: ex where
  "sample_tree =
     Cmp (op_token ''='' 10)
       (Add (op_token ''%'' 6) (Add (op_token ''+'' 2) (Atom (mk_token TokenNumber ''1'' ''1'' 0)) (Atom (mk_token TokenName ''n'' ''n'' 4)))
            (Atom (mk_token TokenNumber ''3'' ''3'' 8)))
       (Atom (mk_token TokenNumber ''0'' ''0'' 12))"

theorem eval_meaning_witness:
  "tokenize ''1 + n % 3 = 0'' = Some (Inr (toks sample_tree @ [mk_token TokenEOF [] [] 13]))
   \<and> eval_tokens sample_eval [(''n'', VInt 5)] (toks sample_tree @ [mk_token TokenEOF [] [] 13])
     = meaning sample_eval [(''n'', VInt 5)] sample_tree
   \<and> meaning sample_eval [(''n'', VInt 5)] sample_tree = Done (VBool True)"
proof (intro conjI)
  show "tokenize ''1 + n % 3 = 0'' = Some (Inr (toks sample_tree @ [mk_token TokenEOF [] [] 13]))" by code_simp
  have w: "wf sample_tree" by code_simp
  show "eval_tokens sample_eval [(''n'', VInt 5)] (toks sample_tree @ [mk_token TokenEOF [] [] 13])
     = meaning sample_eval [(''n'', VInt 5)] sample_tree"
    by (rule eval_meaning [OF w]) (simp add: mk_token_def)
  show "meaning sample_eval [(''n'', VInt 5)] sample_tree = Done (VBool True)" by code_simp
qed

text \<open>
  C35. \<^verbatim>\<open>EvalExpr\<close> returns, with a value or a panic, on every expression without a minus sign directly
  before a digit or a dot, whatever the row and the numbers.
\<close>

theorem eval_returns:
  assumes "\<not> has_neg_literal (trim_space expr)"
  shows "eval_expr env r expr \<noteq> Stuck"
proof -
  have t: "tokenize (trim_space expr) \<noteq> None"
    using tokens_from_returns [of "new_lexer (trim_space expr)"] assms by (auto simp: tokenize_def new_lexer_def)
  then have "quoted_value (trim_space expr) \<noteq> Stuck"
    by (auto simp: quoted_value_def split: option.split sum.split list.split)
  then show ?thesis
    using t by (auto simp: eval_expr_def Let_def and_then_Stuck eval_enough split: option.splits sum.splits if_splits)
qed

theorem eval_returns_witness:
  "\<not> has_neg_literal (trim_space ''substr(host, 1, 0 - 5) + 1'')
   \<and> eval_expr sample_eval [(''host'', VStr ''web1'')] ''substr(host, 1, 0 - 5) + 1'' \<noteq> Stuck"
proof -
  have h: "\<not> has_neg_literal (trim_space ''substr(host, 1, 0 - 5) + 1'')" by code_simp
  show ?thesis by (rule conjI [OF h eval_returns [OF h]])
qed

text \<open>
  An eval expression can panic the Go run time: the remainder by a number that is not zero but has
  the integer part zero divides by the integer zero, whatever stands before the percent sign, and
  \<^verbatim>\<open>substr\<close> with a negative length slices backwards.
\<close>

theorem eval_panics:
  "(arith env ''%'' a b = Panic
     \<longleftrightarrow> \<not> fl_eq env (to_float env b) (fl_of_int env 0) \<and> fl_to_int env (to_float env b) = 0)
   \<and> eval_expr sample_eval [] ''7 % 0.5'' = Panic
   \<and> eval_expr sample_eval [(''host'', VStr ''web1'')] ''substr(host, 1, 0 - 5) + 1'' = Panic"
proof (intro conjI)
  show "arith env ''%'' a b = Panic \<longleftrightarrow> \<not> fl_eq env (to_float env b) (fl_of_int env 0) \<and> fl_to_int env (to_float env b) = 0"
    by (simp add: arith_def Let_def)
  show "eval_expr sample_eval [] ''7 % 0.5'' = Panic" by code_simp
  show "eval_expr sample_eval [(''host'', VStr ''web1'')] ''substr(host, 1, 0 - 5) + 1'' = Panic" by code_simp
qed

lemma literal_tokens:
  assumes "plain_text s" and "tokenize (string_literal s @ rest) = Some (Inr ts)"
  shows "\<exists>t t' ts'. ts = t # t' # ts' \<and> t_kind t = TokenString \<and> t_value t = s"
proof -
  let ?lx = "new_lexer (string_literal s @ rest)"
  have a: "ahead ?lx = string_literal s @ rest" by (simp add: new_lexer_def)
  note n = lex_next_literal [OF assms(1) [unfolded plain_text_iff] a]
  from assms(2) have "tokens_from ?lx = Some (Inr ts)" by (simp add: tokenize_def)
  then show ?thesis
  proof (cases rule: tokens_from_Inr_cases)
    case eof
    then show ?thesis using n lex_next_eof_iff [of ?lx] by simp
  next
    case (more ts')
    then have "ts' \<noteq> []" by (auto elim: tokens_from_Inr_cases)
    then show ?thesis using more n by (cases ts') auto
  qed
qed

text \<open>
  An expression that starts with a string literal is that literal: \<^verbatim>\<open>EvalExpr\<close> drops everything
  after it, whatever it is, as long as it can be tokenized. The concatenation of two literals is the first
  one, although the token evaluator answers the concatenation.
\<close>

theorem literal_prefix_wins:
  assumes "plain_text s" and "tokenize (string_literal s @ rest) = Some (Inr ts)"
    and "trim_space (string_literal s @ rest) = string_literal s @ rest"
  shows "eval_expr env r (string_literal s @ rest) = Done (VStr s)"
proof -
  have "2 \<le> length (utf8 (string_literal s @ rest))"
    by (simp add: string_literal_def utf8_def utf8_rune_def)
  then have "quoted_value (string_literal s @ rest) = Done (Some s)"
    using literal_tokens [OF assms(1,2)] assms(2) by (auto simp: quoted_value_def string_literal_def)
  then show ?thesis using assms(3) by (simp add: eval_expr_def string_literal_def)
qed

theorem literal_prefix_wins_witness:
  "eval_expr sample_eval [] (string_literal ''a'' @ '' + '' @ string_literal ''b'') = Done (VStr ''a'')
   \<and> (case tokenize (string_literal ''a'' @ '' + '' @ string_literal ''b'') of
        Some (Inr ts) \<Rightarrow> eval_tokens sample_eval [] ts | _ \<Rightarrow> Stuck) = Done (VStr ''ab'')"
proof
  have p: "plain_text ''a''" "trim_space (string_literal ''a'' @ '' + '' @ string_literal ''b'') = string_literal ''a'' @ '' + '' @ string_literal ''b''"
    by code_simp+
  have "(case tokenize (string_literal ''a'' @ '' + '' @ string_literal ''b'') of Some (Inr ts) \<Rightarrow> True | _ \<Rightarrow> False)" by code_simp
  then obtain ts where t: "tokenize (string_literal ''a'' @ '' + '' @ string_literal ''b'') = Some (Inr ts)"
    by (auto split: option.splits sum.splits)
  show "eval_expr sample_eval [] (string_literal ''a'' @ '' + '' @ string_literal ''b'') = Done (VStr ''a'')"
    by (rule literal_prefix_wins [OF p(1) t p(2)])
  show "(case tokenize (string_literal ''a'' @ '' + '' @ string_literal ''b'') of
        Some (Inr ts) \<Rightarrow> eval_tokens sample_eval [] ts | _ \<Rightarrow> Stuck) = Done (VStr ''ab'')"
    by code_simp
qed

end
