(* ===== verification/SplExecutor.thy ===== *)
theory SplExecutor
  imports SplEvalMeaning SplPlanner SplCommands
begin

text \<open>
  The execution of a query, \<^verbatim>\<open>internal/spl/executor/executor.go\<close> with the batch operations of
  \<^verbatim>\<open>eval.go\<close>: the row pipeline, the aggregated pipeline and the choice between them.

  The database is a parameter: what it answers to a SQL text with its arguments, column names and rows, or
  an error. So are the JSON text of a list, the reading of a JSON object, \<^verbatim>\<open>sort.SliceStable\<close> and
  the float product of \<^verbatim>\<open>spanSeconds\<close>. The maps of one result set are distinct, so a batch is a list
  of rows; where the code mutates a row it also reads (\<^verbatim>\<open>streamstats\<close>) the model updates the list
  by index.
\<close>

record 'f exec_env = "'f eval_env" +
  json_strings :: "string list \<Rightarrow> string"
  json_object :: "string \<Rightarrow> (string \<times> 'f val) list option"
  stable_sort :: "('f row \<Rightarrow> 'f row \<Rightarrow> bool) \<Rightarrow> 'f row list \<Rightarrow> 'f row list"
  span_scale :: "'f \<Rightarrow> int \<Rightarrow> int"
  query_rows :: "string \<Rightarrow> 'f arg list \<Rightarrow> (string list \<times> 'f val list list) option"
  query_count :: "string \<Rightarrow> 'f arg list \<Rightarrow> int option"

section \<open>eval and rex on a batch\<close>

fun eval_rows :: "('f, 'z) eval_env_scheme \<Rightarrow> string \<Rightarrow> string \<Rightarrow> 'f row list \<Rightarrow> 'f row list run" where
  "eval_rows env f e [] = Done []"
| "eval_rows env f e (r # rs) =
     and_then (eval_expr env r e) (\<lambda>v. and_then (eval_rows env f e rs) (\<lambda>rs'. Done (put f v r # rs')))"

fun transform_eval :: "('f, 'z) eval_env_scheme \<Rightarrow> eval_assignment list \<Rightarrow> 'f row list \<Rightarrow> 'f row list run" where
  "transform_eval env [] rows = Done rows"
| "transform_eval env (a # as) rows = and_then (eval_rows env (ea_field a) (ea_expr a) rows) (transform_eval env as)"

type_synonym regex = "string list \<times> (string \<Rightarrow> string list option)"

record rex_cache =
  rx_ok :: "(string \<times> regex) list"
  rx_bad :: "string list"

definition empty_cache :: rex_cache where
  "empty_cache = \<lparr>rx_ok = [], rx_bad = []\<rparr>"

definition compiled_rex :: "('f, 'z) eval_env_scheme \<Rightarrow> string \<Rightarrow> rex_cache \<Rightarrow> regex option \<times> rex_cache" where
  "compiled_rex env p c =
     (case map_of (rx_ok c) p of
        Some re \<Rightarrow> (Some re, c)
      | None \<Rightarrow>
          if p \<in> set (rx_bad c) then (None, c)
          else case regexp env p of
              None \<Rightarrow> (None, c\<lparr>rx_bad := p # rx_bad c\<rparr>)
            | Some re \<Rightarrow> (Some re, c\<lparr>rx_ok := put p re (rx_ok c)\<rparr>))"

definition rex_source :: "string \<Rightarrow> 'f row \<Rightarrow> string" where
  "rex_source f r =
     (if f = [] \<or> f = ''_raw'' then (if map_of r ''raw'' \<noteq> None then ''raw'' else ''message'') else f)"

definition put_group_match :: "string \<Rightarrow> string \<times> string \<Rightarrow> 'f row \<Rightarrow> 'f row" where
  "put_group_match mode = (\<lambda>(name, v) r.
     put name (if mode = ''multimatch'' then (case get r name of VList ss \<Rightarrow> VList (ss @ [v]) | _ \<Rightarrow> VList [v])
               else VStr v) r)"

definition transform_rex :: "('f, 'z) eval_env_scheme \<Rightarrow> string \<Rightarrow> string \<Rightarrow> string \<Rightarrow> string
    \<Rightarrow> rex_cache \<Rightarrow> 'f row \<Rightarrow> 'f row \<times> rex_cache" where
  "transform_rex env field pattern alias mode c r =
     (if pattern = [] then (r, c)
      else case compiled_rex env pattern c of
          (None, c') \<Rightarrow> (r, c')
        | (Some (names, submatches), c') \<Rightarrow>
            (case submatches (show_val env (get r (rex_source field r))) of
               None \<Rightarrow> (r, c')
             | Some ms \<Rightarrow>
                 let gs = filter (\<lambda>g. fst g \<noteq> []) (zip (tl names) (tl ms));
                     r1 = fold (put_group_match mode) gs r;
                     g1 = (case gs of [] \<Rightarrow> [] | g # _ \<Rightarrow> fst g)
                 in (if alias \<noteq> [] \<and> g1 \<noteq> []
                     then (let r2 = put alias (get r1 g1) r1 in if g1 \<noteq> alias then del g1 r2 else r2)
                     else r1, c')))"

fun rex_rows :: "('f, 'z) eval_env_scheme \<Rightarrow> string \<Rightarrow> string \<Rightarrow> string \<Rightarrow> string
    \<Rightarrow> rex_cache \<Rightarrow> 'f row list \<Rightarrow> 'f row list \<times> rex_cache" where
  "rex_rows env f p a m c [] = ([], c)"
| "rex_rows env f p a m c (r # rs) =
     (let (r', c1) = transform_rex env f p a m c r; (rs', c2) = rex_rows env f p a m c1 rs in (r' # rs', c2))"

section \<open>Aggregates over rows\<close>

definition all_of :: "string \<Rightarrow> bool" where
  "all_of field = (field = [] \<or> field = ''*'')"

definition exec_agg_name :: "aggregation \<Rightarrow> string" where
  "exec_agg_name a =
     (if a_alias a \<noteq> [] then a_alias a
      else if a_function a = ''count'' \<and> all_of (a_field a) then ''count''
      else if all_of (a_field a) then a_function a
      else a_function a @ ''_'' @ a_field a)"

definition field_texts :: "('f, 'z) eval_env_scheme \<Rightarrow> string \<Rightarrow> 'f row list \<Rightarrow> string list" where
  "field_texts env field rows = map (show_val env) (filter (\<lambda>v. v \<noteq> VNil) (map (\<lambda>r. get r field) rows))"

definition sum_of :: "('f, 'z) eval_env_scheme \<Rightarrow> 'f list \<Rightarrow> 'f" where
  "sum_of env xs = foldl (fl_add env) (fl_of_int env 0) xs"

definition aggregate_all :: "('f, 'z) exec_env_scheme \<Rightarrow> aggregation \<Rightarrow> 'f row list \<Rightarrow> 'f val" where
  "aggregate_all env a rows =
     (let fn = to_lower (a_function a); field = a_field a;
          texts = field_texts env field rows; nums = List.map_filter (fl_parse env) texts
      in if fn = ''count'' then VInt (if all_of field then int (length rows) else int (length nums))
         else if fn = ''sum'' then VFloat (sum_of env nums)
         else if fn = ''avg'' then
           (if nums = [] then VInt 0 else VFloat (fl_div env (sum_of env nums) (fl_of_int env (int (length nums)))))
         else if fn = ''min'' then
           (if nums = [] then VInt 0 else VFloat (foldl (\<lambda>m f. if fl_less env f m then f else m) (hd nums) (tl nums)))
         else if fn = ''max'' then
           (if nums = [] then VInt 0 else VFloat (foldl (\<lambda>m f. if fl_less env m f then f else m) (hd nums) (tl nums)))
         else if fn = ''dc'' then VInt (int (length (firsts_by id [] texts)))
         else if fn = ''values'' then VStr (json_strings env (firsts_by id [] texts))
         else if fn = ''list'' then VStr (json_strings env texts)
         else VNil)"

definition group_key :: "('f, 'z) eval_env_scheme \<Rightarrow> string list \<Rightarrow> 'f row \<Rightarrow> string" where
  "group_key env by_fields r = join [CHR 0x1F] (map (\<lambda>b. show_val env (get r b)) by_fields)"

definition eventstats_agg :: "('f, 'z) exec_env_scheme \<Rightarrow> string list \<Rightarrow> aggregation \<Rightarrow> 'f row list \<Rightarrow> 'f row list" where
  "eventstats_agg env gs a rows =
     (if gs = [] then map (put (exec_agg_name a) (aggregate_all env a rows)) rows
      else map (\<lambda>r. put (exec_agg_name a)
                     (aggregate_all env a (filter (\<lambda>x. group_key env gs x = group_key env gs r) rows)) r) rows)"

definition apply_eventstats :: "('f, 'z) exec_env_scheme \<Rightarrow> aggregation list \<Rightarrow> string list \<Rightarrow> 'f row list \<Rightarrow> 'f row list" where
  "apply_eventstats env aggs gs rows = fold (eventstats_agg env gs) aggs rows"

text \<open>
  One index of a group: it joins the running window, the aggregate over the window is stored in its row.
  The window holds indices, since the rows behind them change while it runs.
\<close>

definition stream_step :: "('f, 'z) exec_env_scheme \<Rightarrow> aggregation \<Rightarrow> int \<Rightarrow> nat \<Rightarrow> nat list \<times> 'f row list
    \<Rightarrow> nat list \<times> 'f row list" where
  "stream_step env a window i st =
     (let run = fst st @ [i];
          run' = (if 0 < window \<and> window < int (length run) then drop (length run - nat window) run else run);
          v = aggregate_all env a (map (\<lambda>j. snd st ! j) run')
      in (run', (snd st)[i := put (exec_agg_name a) v (snd st ! i)]))"

definition apply_streamstats :: "('f, 'z) exec_env_scheme \<Rightarrow> aggregation list \<Rightarrow> string list \<Rightarrow> int \<Rightarrow> 'f row list \<Rightarrow> 'f row list" where
  "apply_streamstats env aggs gs window rows =
     (let keys = map (group_key env gs) rows;
          groups = map (\<lambda>k. filter (\<lambda>i. keys ! i = k) [0..<length rows]) (firsts_by id [] keys)
      in fold (\<lambda>a rs. fold (\<lambda>idxs rs. snd (fold (stream_step env a window) idxs ([], rs))) groups rs) aggs rows)"

section \<open>Columns\<close>

definition first_some :: "'v option list \<Rightarrow> 'v option" where
  "first_some xs = (case filter (\<lambda>x. x \<noteq> None) xs of [] \<Rightarrow> None | x # _ \<Rightarrow> x)"

definition column_alias :: "string \<Rightarrow> string option" where
  "column_alias l =
     (if l \<in> {''src_ip'', ''sourceip''} then Some ''source_ip''
      else if l \<in> {''dst_ip'', ''dest_ip'', ''destinationip''} then Some ''destination_ip''
      else if l = ''src_port'' then Some ''source_port''
      else if l = ''dest_port'' then Some ''destination_port''
      else if l \<in> {''sourcetype'', ''source_type''} then Some ''source_type''
      else if l \<in> {''eventtype'', ''event_type''} then Some ''event_type''
      else None)"

definition value_for :: "'f row \<Rightarrow> string \<Rightarrow> 'f val" where
  "value_for r name =
     (let l = to_lower name
      in case first_some [if l \<in> {''_time'', ''time''} then map_of r ''timestamp'' else None, map_of r name, map_of r l] of
           Some v \<Rightarrow> v
         | None \<Rightarrow> (case column_alias l of Some c \<Rightarrow> get r c | None \<Rightarrow> VNil))"

definition project :: "string list \<Rightarrow> 'f row list \<Rightarrow> 'f row list" where
  "project cols rows =
     (if cols = [] then rows else map (\<lambda>r. fold (\<lambda>c m. put c (value_for r c) m) cols []) rows)"

definition default_columns :: "string list" where
  "default_columns = [''id'', ''timestamp'', ''source'', ''severity'', ''event_type'', ''host'', ''message'']"

definition canonicalize_cols :: "string list \<Rightarrow> string list" where
  "canonicalize_cols fs = filter (\<lambda>f. f \<noteq> ''*'') fs"

definition remove_cols :: "string list \<Rightarrow> string list \<Rightarrow> string list" where
  "remove_cols cols dropped = filter (\<lambda>c. to_lower c \<notin> set (map to_lower dropped)) cols"

definition project_step :: "node \<Rightarrow> string list option \<Rightarrow> string list option" where
  "project_step c st =
     (case c of
        TableNode fs \<Rightarrow> Some (canonicalize_cols fs)
      | FieldsNode keep fs \<Rightarrow>
          if keep then Some (canonicalize_cols fs)
          else Some (remove_cols (case st of Some cols \<Rightarrow> cols | None \<Rightarrow> default_columns) fs)
      | _ \<Rightarrow> st)"

definition projection_columns :: "query \<Rightarrow> string list option" where
  "projection_columns q = fold project_step (q_commands q) None"

section \<open>Limits and order\<close>

definition max_result_rows :: int where "max_result_rows = 50000"

definition row_limit :: "int \<Rightarrow> int" where
  "row_limit n = (if n < 0 then 0 else if max_result_rows < n then max_result_rows else n)"

definition head_n :: "query \<Rightarrow> int \<Rightarrow> int" where
  "head_n q fallback =
     fold (\<lambda>c n. case c of HeadNode k \<Rightarrow> if 0 \<le> k \<and> k < n then k else n | _ \<Rightarrow> n) (q_commands q) fallback"

definition head_tail_step :: "node \<Rightarrow> 'r list \<Rightarrow> 'r list" where
  "head_tail_step c rows =
     (case c of
        HeadNode n \<Rightarrow> take (nat n) rows
      | TailNode n \<Rightarrow> drop (length rows - nat n) rows
      | _ \<Rightarrow> rows)"

definition apply_head_tail :: "query \<Rightarrow> 'r list \<Rightarrow> 'r list" where
  "apply_head_tail q rows = fold head_tail_step (q_commands q) rows"

fun sort_node_fields :: "node list \<Rightarrow> sort_field list" where
  "sort_node_fields [] = []"
| "sort_node_fields (c # cs) = (case c of SortNode fs \<Rightarrow> fs | _ \<Rightarrow> sort_node_fields cs)"

fun order_parts :: "sort_field list \<Rightarrow> string list option" where
  "order_parts [] = Some []"
| "order_parts (f # fs) =
     (case column_order_expr (sf_field f) of
        None \<Rightarrow> None
      | Some e \<Rightarrow> (case order_parts fs of
            None \<Rightarrow> None
          | Some ps \<Rightarrow> Some ((e @ (if sf_desc f then '' DESC'' else '' ASC'')) # ps)))"

definition build_row_order :: "query \<Rightarrow> string \<times> bool" where
  "build_row_order q =
     (let fs = sort_node_fields (q_commands q)
      in if fs = [] then (''ORDER BY timestamp DESC'', True)
         else case order_parts fs of
             None \<Rightarrow> (''ORDER BY timestamp DESC'', False)
           | Some ps \<Rightarrow> (''ORDER BY '' @ join '', '' ps, True))"

section \<open>sort, dedup and rename\<close>

definition cmp_values :: "('f, 'z) eval_env_scheme \<Rightarrow> 'f val \<Rightarrow> 'f val \<Rightarrow> int" where
  "cmp_values env a b =
     (let s = show_val env a; t = show_val env b
      in case (fl_parse env s, fl_parse env t) of
           (Some x, Some y) \<Rightarrow> if fl_less env x y then - 1 else if fl_less env y x then 1 else 0
         | _ \<Rightarrow> if str_less s t then - 1 else if str_less t s then 1 else 0)"

definition row_less :: "('f, 'z) eval_env_scheme \<Rightarrow> sort_field \<Rightarrow> 'f row \<Rightarrow> 'f row \<Rightarrow> bool" where
  "row_less env f a b =
     (let c = cmp_values env (value_for a (sf_field f)) (value_for b (sf_field f))
      in if sf_desc f then 0 < c else c < 0)"

definition sort_by_field :: "('f, 'z) exec_env_scheme \<Rightarrow> sort_field \<Rightarrow> 'f row list \<Rightarrow> 'f row list" where
  "sort_by_field env f rows = stable_sort env (row_less env f) rows"

definition sort_step :: "('f, 'z) exec_env_scheme \<Rightarrow> node \<Rightarrow> 'f row list \<Rightarrow> 'f row list" where
  "sort_step env c rows = (case c of SortNode fs \<Rightarrow> foldr (sort_by_field env) fs rows | _ \<Rightarrow> rows)"

definition apply_sort :: "('f, 'z) exec_env_scheme \<Rightarrow> query \<Rightarrow> 'f row list \<Rightarrow> 'f row list" where
  "apply_sort env q rows = fold (sort_step env) (q_commands q) rows"

definition dedup_rows :: "('f, 'z) eval_env_scheme \<Rightarrow> string \<Rightarrow> 'f row list \<Rightarrow> 'f row list" where
  "dedup_rows env field rows = firsts_by (\<lambda>r. show_val env (value_for r field)) [] rows"

definition dedup_step :: "('f, 'z) eval_env_scheme \<Rightarrow> node \<Rightarrow> 'f row list \<Rightarrow> 'f row list" where
  "dedup_step env c rows = (case c of DedupNode f \<Rightarrow> dedup_rows env f rows | _ \<Rightarrow> rows)"

definition apply_dedup :: "('f, 'z) eval_env_scheme \<Rightarrow> query \<Rightarrow> 'f row list \<Rightarrow> 'f row list" where
  "apply_dedup env q rows = fold (dedup_step env) (q_commands q) rows"

text \<open>The mappings of all rename commands; the order of the list is the iteration order of the map.\<close>

definition rename_step :: "node \<Rightarrow> smap \<Rightarrow> smap" where
  "rename_step c m = (case c of RenameNode ps _ \<Rightarrow> fold (\<lambda>(from, to) m. put (to_lower from) to m) ps m | _ \<Rightarrow> m)"

definition rename_mapping :: "query \<Rightarrow> smap" where
  "rename_mapping q = fold rename_step (q_commands q) []"

definition rename_key :: "string \<times> string \<Rightarrow> 'f row \<Rightarrow> 'f row" where
  "rename_key = (\<lambda>(from, to) r.
     case find (\<lambda>p. to_lower (fst p) = from) r of
       None \<Rightarrow> r
     | Some (k, v) \<Rightarrow> (let r' = put to v r in if k \<noteq> to then del k r' else r'))"

definition apply_rename :: "query \<Rightarrow> 'f row list \<Rightarrow> string list \<Rightarrow> 'f row list \<times> string list" where
  "apply_rename q rows cols =
     (let m = rename_mapping q
      in if m = [] then (rows, cols)
         else (map (fold rename_key m) rows,
               map (\<lambda>c. case map_of m (to_lower c) of Some to \<Rightarrow> to | None \<Rightarrow> c) cols))"

section \<open>The pipelines\<close>

definition normalize :: "'f val \<Rightarrow> 'f val" where
  "normalize v = (case v of VBytes s \<Rightarrow> VStr s | _ \<Rightarrow> v)"

definition scan_row :: "string list \<Rightarrow> 'f val list \<Rightarrow> 'f row" where
  "scan_row cols vs = fold (\<lambda>(c, v) m. put c (normalize v) m) (zip cols vs) []"

definition decode_attributes :: "('f, 'z) exec_env_scheme \<Rightarrow> 'f row \<Rightarrow> 'f row" where
  "decode_attributes env r =
     (case get r ''attributes'' of
        VStr raw \<Rightarrow>
          if raw = [] then r
          else (case json_object env raw of
                  None \<Rightarrow> r
                | Some attrs \<Rightarrow> fold (\<lambda>(k, v) r. if map_of r k = None then put k (normalize v) r else r) attrs r)
      | _ \<Rightarrow> r)"

definition pipeline_step :: "('f, 'z) exec_env_scheme \<Rightarrow> node \<Rightarrow> 'f row list \<times> rex_cache \<Rightarrow> ('f row list \<times> rex_cache) run" where
  "pipeline_step env c st =
     (case c of
        EvalNode f e as \<Rightarrow> and_then (transform_eval env (eval_assignments f e as) (fst st)) (\<lambda>rows. Done (rows, snd st))
      | RexNode f p a m \<Rightarrow> Done (rex_rows env f p a m (snd st) (fst st))
      | EventstatsNode aggs gs \<Rightarrow> Done (apply_eventstats env aggs gs (fst st), snd st)
      | StreamstatsNode aggs gs w \<Rightarrow> Done (apply_streamstats env aggs gs w (fst st), snd st)
      | _ \<Rightarrow> Done st)"

fun run_commands :: "('c \<Rightarrow> 's \<Rightarrow> 's run) \<Rightarrow> 'c list \<Rightarrow> 's \<Rightarrow> 's run" where
  "run_commands step [] st = Done st"
| "run_commands step (c # cs) st = and_then (step c st) (run_commands step cs)"

definition apply_pipeline :: "('f, 'z) exec_env_scheme \<Rightarrow> query \<Rightarrow> 'f row list \<Rightarrow> 'f row list run" where
  "apply_pipeline env q rows =
     and_then (run_commands (pipeline_step env) (q_commands q) (rows, empty_cache)) (\<lambda>st. Done (fst st))"

definition match_op :: "('f, 'z) eval_env_scheme \<Rightarrow> string \<Rightarrow> string \<Rightarrow> string \<Rightarrow> bool" where
  "match_op env oper got want =
     (if oper = ''='' \<or> oper = ''=='' then got = want
      else if oper = ''!='' then got \<noteq> want
      else if oper \<in> {''<'', ''<='', ''>'', ''>=''} then cmp_float env oper (parsed env got) (parsed env want)
      else True)"

fun eval_expr_bool :: "('f, 'z) eval_env_scheme \<Rightarrow> 'f row \<Rightarrow> expr \<Rightarrow> bool" where
  "eval_expr_bool env r (EAnd args) = list_all (eval_expr_bool env r) args"
| "eval_expr_bool env r (EOr args) = list_ex (eval_expr_bool env r) args"
| "eval_expr_bool env r (ENot e) = (\<not> eval_expr_bool env r e)"
| "eval_expr_bool env r (ECmp f oper v) = match_op env oper (show_val env (get r f)) v"
| "eval_expr_bool env r (EIsNull f neg) = (is_empty_val (get r f) \<noteq> neg)"
| "eval_expr_bool env r (EIn f neg vs) = True"
| "eval_expr_bool env r (ELike f neg p) = True"
| "eval_expr_bool env r (EText v p) = True"
| "eval_expr_bool env r (EOther k) = True"

definition where_post :: "('f, 'z) eval_env_scheme \<Rightarrow> expr option \<Rightarrow> 'f row list \<Rightarrow> 'f row list" where
  "where_post env oe rows = (case oe of None \<Rightarrow> rows | Some e \<Rightarrow> filter (\<lambda>r. eval_expr_bool env r e) rows)"

definition post_agg_step :: "('f, 'z) exec_env_scheme \<Rightarrow> node \<Rightarrow> 'f row list \<Rightarrow> 'f row list run" where
  "post_agg_step env c rows =
     (case c of
        EvalNode f e as \<Rightarrow> transform_eval env (eval_assignments f e as) rows
      | WhereNode cs e \<Rightarrow> Done (where_post env e rows)
      | _ \<Rightarrow> Done rows)"

section \<open>RunQuery\<close>

record run_options =
  ro_limit :: int
  ro_offset :: int
  ro_earliest :: int
  ro_latest :: int

record 'f exec_result =
  er_columns :: "string list"
  er_rows :: "'f row list"
  er_count :: int
  er_scanned :: nat

datatype exec_error =
    ParseFailed parse_error
  | NilQuery
  | UnsupportedSpl "string list"
  | BinNotExecuted
  | LookupNotExecuted
  | PlanFailed plan_error
  | QueryFailed
  | AggregateFailed

type_synonym 'f answer = "(exec_error + 'f exec_result) run"

definition spaced :: "string \<Rightarrow> string" where
  "spaced s = (if s = [] then [] else '' '' @ s)"

definition rows_sql :: "query \<Rightarrow> string \<Rightarrow> int \<Rightarrow> int \<Rightarrow> string" where
  "rows_sql q w limit offset =
     (let (order, in_sql) = build_row_order q;
          n = row_limit (if in_sql then head_n q limit else limit)
      in ''SELECT '' @ join '', '' row_select_columns @ '' FROM events'' @ spaced w @ '' '' @ order
         @ '' LIMIT '' @ decimal n @ '' OFFSET '' @ decimal offset)"

definition finish_rows :: "query \<Rightarrow> string list \<Rightarrow> int \<Rightarrow> 'f row list \<Rightarrow> 'f exec_result" where
  "finish_rows q cols found rows =
     (let (rows', cols') = apply_rename q rows cols
      in \<lparr>er_columns = cols', er_rows = apply_head_tail q (project cols' rows'), er_count = found,
          er_scanned = length rows\<rparr>)"

definition run_rows :: "('f, 'z) exec_env_scheme \<Rightarrow> query \<Rightarrow> string \<Rightarrow> 'f arg list \<Rightarrow> int \<Rightarrow> int \<Rightarrow> 'f answer" where
  "run_rows env q w args limit offset =
     (case query_rows env (rows_sql q w limit offset) args of
        None \<Rightarrow> Done (Inl QueryFailed)
      | Some (names, vals) \<Rightarrow>
          let scanned = map (scan_row names) vals;
              found = (case projection_columns q of
                         Some cols \<Rightarrow> int (length scanned)
                       | None \<Rightarrow> (case query_count env (build_row_count w) args of
                             Some n \<Rightarrow> n | None \<Rightarrow> int (length scanned)))
          in and_then (apply_pipeline env q (map (decode_attributes env) scanned)) (\<lambda>rows.
               let rows' = apply_dedup env q (apply_sort env q rows);
                   cols = (case projection_columns q of Some cols \<Rightarrow> cols | None \<Rightarrow> default_columns)
               in Done (Inr (finish_rows q cols found rows'))))"

definition aggregate_sql :: "agg_sql \<Rightarrow> string \<Rightarrow> int \<Rightarrow> string" where
  "aggregate_sql a w n =
     ag_select a @ '' FROM events'' @ spaced w @ spaced (ag_group_by a) @ spaced (ag_order_by a) @ '' LIMIT '' @ decimal n"

definition run_aggregate :: "('f, 'z) exec_env_scheme \<Rightarrow> query \<Rightarrow> string \<Rightarrow> 'f arg list \<Rightarrow> int \<Rightarrow> 'f answer" where
  "run_aggregate env q w args limit =
     (let a = build_aggregate (fl_parse env) (span_scale env) q
      in if ag_select a = [] then Done (Inr \<lparr>er_columns = [], er_rows = [], er_count = 0, er_scanned = 0\<rparr>)
         else case query_rows env (aggregate_sql a w (row_limit (head_n q limit))) args of
             None \<Rightarrow> Done (Inl AggregateFailed)
           | Some (names, vals) \<Rightarrow>
               and_then (run_commands (post_agg_step env) (q_commands q) (map (scan_row names) vals)) (\<lambda>rows.
                 let rows' = apply_dedup env q (apply_sort env q rows);
                     cols = (case projection_columns q of Some cols \<Rightarrow> cols | None \<Rightarrow> ag_columns a);
                     res = finish_rows q cols 0 rows'
                 in Done (Inr (res\<lparr>er_count := int (length (er_rows res))\<rparr>))))"

fun not_executed :: "node list \<Rightarrow> exec_error option" where
  "not_executed [] = None"
| "not_executed (c # cs) =
     (case c of BinNode _ _ \<Rightarrow> Some BinNotExecuted | LookupNode _ _ _ _ \<Rightarrow> Some LookupNotExecuted | _ \<Rightarrow> not_executed cs)"

definition effective_limit :: "int \<Rightarrow> int" where
  "effective_limit n = (let m = (if n \<le> 0 then 100 else n) in if max_result_rows < m then max_result_rows else m)"

definition run_query :: "('f, 'z) exec_env_scheme \<Rightarrow> query option \<Rightarrow> run_options \<Rightarrow> 'f answer" where
  "run_query env oq opts =
     (case oq of
        None \<Rightarrow> Done (Inl NilQuery)
      | Some q \<Rightarrow>
          if unsupported_commands q \<noteq> [] then Done (Inl (UnsupportedSpl (unsupported_commands q)))
          else case not_executed (q_commands q) of
              Some e \<Rightarrow> Done (Inl e)
            | None \<Rightarrow>
                let limit = effective_limit (ro_limit opts); offset = max 0 (ro_offset opts)
                in case build_where (fl_parse env) q \<lparr>earliest = ro_earliest opts, latest = ro_latest opts\<rparr> [] of
                     Inl e \<Rightarrow> Done (Inl (PlanFailed e))
                   | Inr (w, args) \<Rightarrow>
                       if has_aggregation q then run_aggregate env q w args limit
                       else run_rows env q w args limit offset)"

definition run_spl :: "('f, 'z) exec_env_scheme \<Rightarrow> string \<Rightarrow> run_options \<Rightarrow> 'f answer" where
  "run_spl env input opts =
     (case parse_spl input of
        None \<Rightarrow> Stuck
      | Some (Inl e) \<Rightarrow> Done (Inl (ParseFailed e))
      | Some (Inr q) \<Rightarrow> run_query env (Some q) opts)"

section \<open>Commands of one stage\<close>

text \<open>
  Which commands the executor treats together: it runs over all commands once for each stage, so that only the
  order within a stage matters.
\<close>

fun stage :: "node \<Rightarrow> nat" where
  "stage (WhereNode _ _) = 1"
| "stage (EvalNode _ _ _) = 1"
| "stage (RexNode _ _ _ _) = 1"
| "stage (EventstatsNode _ _) = 1"
| "stage (StreamstatsNode _ _ _) = 1"
| "stage (SortNode _) = 2"
| "stage (DedupNode _) = 3"
| "stage (TableNode _) = 4"
| "stage (FieldsNode _ _) = 4"
| "stage (RenameNode _ _) = 5"
| "stage (HeadNode _) = 6"
| "stage (TailNode _) = 6"
| "stage (StatsNode _ _) = 7"
| "stage (TimechartNode _ _ _) = 7"
| "stage (SearchNode _ _ _) = 8"
| "stage _ = 0"

definition same_stages :: "query \<Rightarrow> query \<Rightarrow> bool" where
  "same_stages q q' =
     (\<forall>k. filter (\<lambda>c. stage c = k) (q_commands q) = filter (\<lambda>c. stage c = k) (q_commands q'))"

text \<open>A fold whose steps of different stages commute depends on the stages only.\<close>

lemma fold_past:
  assumes "\<And>d s. d \<in> set ds \<Longrightarrow> f c (f d s) = f d (f c s)"
  shows "fold f ds (f c s) = f c (fold f ds s)"
  using assms
proof (induction ds arbitrary: s)
  case (Cons d ds)
  have "f d (f c s) = f c (f d s)" by (rule Cons.prems [symmetric]) simp
  then show ?case using Cons.IH [of "f d s"] Cons.prems by simp
qed simp

lemma first_of_stage:
  assumes "filter (\<lambda>d. key d = key c) ds = c # es"
  obtains ds1 ds2 where "ds = ds1 @ c # ds2" "\<And>d. d \<in> set ds1 \<Longrightarrow> key d \<noteq> key c" "es = filter (\<lambda>d. key d = key c) ds2"
  using filter_eq_ConsD [OF assms] by blast

lemma fold_stages:
  assumes "\<And>c d s. stg c \<noteq> stg d \<Longrightarrow> f c (f d s) = f d (f c s)"
  shows "(\<And>k. filter (\<lambda>c. stg c = k) cs = filter (\<lambda>c. stg c = k) ds) \<Longrightarrow> fold f cs s = fold f ds s"
proof (induction cs arbitrary: ds s)
  case Nil
  then have "filter (\<lambda>c. stg c = k) ds = []" for k by simp
  then have "c \<notin> set ds" for c by (metis (mono_tags, lifting) filter_empty_conv)
  then have "ds = []" by (cases ds) auto
  then show ?case by simp
next
  case (Cons c cs)
  have "filter (\<lambda>d. stg d = stg c) ds = c # filter (\<lambda>d. stg d = stg c) cs"
    using Cons.prems [of "stg c"] by simp
  then obtain ds1 ds2 where ds: "ds = ds1 @ c # ds2" and ne: "\<And>d. d \<in> set ds1 \<Longrightarrow> stg d \<noteq> stg c"
    using first_of_stage [of stg c ds] by metis
  have "filter (\<lambda>d. stg d = k) cs = filter (\<lambda>d. stg d = k) (ds1 @ ds2)" for k
    using Cons.prems [of k] ne by (cases "k = stg c") (auto simp: ds filter_empty_conv)
  then have "fold f cs (f c s) = fold f (ds1 @ ds2) (f c s)" by (rule Cons.IH)
  also have "\<dots> = fold f ds s"
    using fold_past [of ds1 f c s] assms ne by (simp add: ds) metis
  finally show ?case by simp
qed

lemma same_stages_fold:
  assumes "same_stages q q'" and "\<And>c d s. stage c \<noteq> stage d \<Longrightarrow> f c (f d s) = f d (f c s)"
  shows "fold f (q_commands q) s = fold f (q_commands q') s"
  by (rule fold_stages [of stage f, OF assms(2)]) (use assms(1) in \<open>simp_all add: same_stages_def\<close>)

lemma run_commands_fold:
  "and_then r (run_commands step cs) = fold (\<lambda>c r. and_then r (step c)) cs r"
proof (induction cs arbitrary: r)
  case Nil
  show ?case by (cases r) simp_all
next
  case (Cons c cs)
  have "and_then r (run_commands step (c # cs)) = and_then (and_then r (step c)) (run_commands step cs)"
    by (cases r) simp_all
  then show ?case using Cons [of "and_then r (step c)"] by (simp only: fold_simps)
qed

text \<open>A fold that is idle outside one stage sees that stage only.\<close>

lemma fold_one_stage:
  "(\<And>c s. stage c \<noteq> k \<Longrightarrow> f c s = s) \<Longrightarrow> fold f (filter (\<lambda>c. stage c = k) cs) s = fold f cs s"
  by (induction cs arbitrary: s) simp_all

lemma same_stagesD:
  "same_stages q q' \<Longrightarrow> filter (\<lambda>c. stage c = k) (q_commands q) = filter (\<lambda>c. stage c = k) (q_commands q')"
  by (simp add: same_stages_def)

lemma same_fold:
  assumes "same_stages q q'" and "\<And>c s. stage c \<noteq> k \<Longrightarrow> f c s = s"
  shows "fold f (q_commands q) s = fold f (q_commands q') s"
  using fold_one_stage [of k f, OF assms(2)] same_stagesD [OF assms(1), of k] by metis

lemma same_run:
  assumes "same_stages q q'" and "\<And>c s. stage c \<noteq> k \<Longrightarrow> step c s = Done s"
  shows "run_commands step (q_commands q) s = run_commands step (q_commands q') s"
proof -
  have "and_then r (step c) = r" if "stage c \<noteq> k" for r c
    using assms(2) that by (cases r) simp_all
  then show ?thesis
    using same_fold [OF assms(1), of k "\<lambda>c r. and_then r (step c)" "Done s"] run_commands_fold [of "Done s" step]
    by simp
qed

lemma same_set:
  assumes "same_stages q q'"
  shows "set (q_commands q) = set (q_commands q')"
proof (rule set_eqI)
  fix c
  have "c \<in> set (filter (\<lambda>d. stage d = stage c) (q_commands q)) \<longleftrightarrow> c \<in> set (filter (\<lambda>d. stage d = stage c) (q_commands q'))"
    by (simp only: same_stagesD [OF assms])
  then show "c \<in> set (q_commands q) \<longleftrightarrow> c \<in> set (q_commands q')" by simp
qed

lemma where_idle: "stage c \<noteq> 1 \<Longrightarrow> where_clauses pf agg (c # cs) st = where_clauses pf agg cs st"
  by (cases c) simp_all

lemma pipeline_idle: "stage c \<noteq> 1 \<Longrightarrow> pipeline_step env c ps = Done ps"
  by (cases c) (simp_all add: pipeline_step_def)

lemma post_agg_idle: "stage c \<noteq> 1 \<Longrightarrow> post_agg_step env c rows = Done rows"
  by (cases c) (simp_all add: post_agg_step_def)

lemma sort_idle: "stage c \<noteq> 2 \<Longrightarrow> sort_step env c rows = rows"
  by (cases c) (simp_all add: sort_step_def)

lemma dedup_idle: "stage c \<noteq> 3 \<Longrightarrow> dedup_step env c rows = rows"
  by (cases c) (simp_all add: dedup_step_def)

lemma project_idle: "stage c \<noteq> 4 \<Longrightarrow> project_step c cols = cols"
  by (cases c) (simp_all add: project_step_def)

lemma rename_idle: "stage c \<noteq> 5 \<Longrightarrow> rename_step c m = m"
  by (cases c) (simp_all add: rename_step_def)

lemma head_tail_idle: "stage c \<noteq> 6 \<Longrightarrow> head_tail_step c xs = xs"
  by (cases c) (simp_all add: head_tail_step_def)

lemma unsupported_known: "stage c \<noteq> 0 \<Longrightarrow> unsupported_of c = []"
  by (cases c) (simp_all add: is_supported_command_def supported_commands_def)

lemma unsupported_stage: "concat (map unsupported_of (filter (\<lambda>c. stage c = 0) cs)) = concat (map unsupported_of cs)"
  by (induction cs) (auto simp: unsupported_known)

lemma where_stage: "where_clauses pf agg (filter (\<lambda>c. stage c = 1) cs) st = where_clauses pf agg cs st"
proof (induction cs arbitrary: st)
  case (Cons c cs)
  show ?case
  proof (cases "stage c = 1")
    case True
    then show ?thesis using Cons by (cases agg; cases c) (auto split: sum.split prod.split)
  next
    case False
    then show ?thesis
      using where_idle [OF False, of pf agg cs st] Cons [of st] by (simp del: where_clauses.simps)
  qed
qed simp

lemma sort_stage: "sort_node_fields (filter (\<lambda>c. stage c = 2) cs) = sort_node_fields cs"
proof (induction cs)
  case (Cons c cs)
  then show ?case by (cases c) simp_all
qed simp

lemma not_executed_stage: "not_executed (filter (\<lambda>c. stage c = 0) cs) = not_executed cs"
proof (induction cs)
  case (Cons c cs)
  then show ?case by (cases c) simp_all
qed simp

lemma put_agg_order: "put_agg a (st\<lparr>st_order := x\<rparr>) = (put_agg a st)\<lparr>st_order := x\<rparr>"
  by (simp add: put_agg_def case_prod_beta)

lemma put_group_order: "put_group g (st\<lparr>st_order := x\<rparr>) = (put_group g st)\<lparr>st_order := x\<rparr>"
  by (simp add: put_group_def)

lemma fold_order:
  "(\<And>a st. f a (st\<lparr>st_order := x\<rparr>) = (f a st)\<lparr>st_order := x\<rparr>) \<Longrightarrow> fold f as (st\<lparr>st_order := x\<rparr>) = (fold f as st)\<lparr>st_order := x\<rparr>"
  by (induction as arbitrary: st) simp_all

lemma put_command_order: "stage c = 7 \<Longrightarrow> put_command pf sc c (st\<lparr>st_order := x\<rparr>) = (put_command pf sc c st)\<lparr>st_order := x\<rparr>"
proof (cases c)
  case (TimechartNode a sp gs)
  let ?secs = "span_seconds pf sc sp"
  have 1: "st\<lparr>st_order := x, st_time := True, st_sel := A, st_cols := B\<rparr>
      = st\<lparr>st_time := True, st_sel := A, st_cols := B\<rparr>\<lparr>st_order := x\<rparr>" for A B by simp
  have 2: "t\<lparr>st_order := x, st_gb := g\<rparr> = t\<lparr>st_gb := g\<rparr>\<lparr>st_order := x\<rparr>" for t :: agg_state and g by simp
  show ?thesis
    unfolding TimechartNode put_command.simps Let_def agg_state.simps 1 put_agg_order 2
      fold_order [of put_group, OF put_group_order] by simp
qed (simp_all add: fold_order [of put_agg, OF put_agg_order] fold_order [of put_group, OF put_group_order])

lemma put_command_idle: "stage c \<noteq> 7 \<Longrightarrow> stage c \<noteq> 2 \<Longrightarrow> put_command pf sc c st = st"
  by (cases c) simp_all

lemma put_command_sort: "stage c = 2 \<Longrightarrow> put_command pf sc c st = st \<or> (\<exists>x. \<forall>st. put_command pf sc c st = st\<lparr>st_order := x\<rparr>)"
  by (cases c) auto

lemma build_aggregate_stages:
  assumes "same_stages q q'"
  shows "build_aggregate pf sc q = build_aggregate pf sc q'"
proof -
  have "put_command pf sc c (put_command pf sc d st) = put_command pf sc d (put_command pf sc c st)"
    if ne: "stage c \<noteq> stage d" for c d st
  proof -
    have sort_agg: "put_command pf sc a (put_command pf sc b st) = put_command pf sc b (put_command pf sc a st)"
      if "stage a = 2" "stage b = 7" for a b
      using put_command_sort [OF that(1), of pf sc] put_command_order [OF that(2), of pf sc]
      by (metis)
    consider "stage c \<noteq> 7" "stage c \<noteq> 2" | "stage d \<noteq> 7" "stage d \<noteq> 2" | "stage c = 2" "stage d = 7" | "stage c = 7" "stage d = 2"
      using ne by metis
    then show ?thesis
      by cases (auto simp: put_command_idle intro: sort_agg sort_agg [symmetric])
  qed
  then show ?thesis
    using same_stages_fold [OF assms, of "put_command pf sc"] by (simp add: build_aggregate_def)
qed

lemma stages_agree:
  assumes "same_stages q q'"
  shows "unsupported_commands q = unsupported_commands q'" "not_executed (q_commands q) = not_executed (q_commands q')"
    "has_aggregation q = has_aggregation q'" "build_row_order q = build_row_order q'" "head_n q n = head_n q' n"
    "projection_columns q = projection_columns q'" "rename_mapping q = rename_mapping q'"
    "apply_sort env q rows = apply_sort env q' rows" "apply_dedup env q rows = apply_dedup env q' rows"
    "apply_head_tail q xs = apply_head_tail q' xs"
    "apply_pipeline env q rows = apply_pipeline env q' rows"
    "run_commands (post_agg_step env) (q_commands q) rows = run_commands (post_agg_step env) (q_commands q') rows"
proof -
  show "unsupported_commands q = unsupported_commands q'"
    unfolding unsupported_commands_def using unsupported_stage same_stagesD [OF assms, of 0] by metis
  show "not_executed (q_commands q) = not_executed (q_commands q')"
    using not_executed_stage same_stagesD [OF assms, of 0] by metis
  show "has_aggregation q = has_aggregation q'"
    by (simp add: has_aggregation_def list_ex_iff same_set [OF assms])
  have "sort_node_fields (q_commands q) = sort_node_fields (q_commands q')"
    using sort_stage same_stagesD [OF assms, of 2] by metis
  then show "build_row_order q = build_row_order q'" by (simp add: build_row_order_def)
  show "head_n q n = head_n q' n"
    unfolding head_n_def by (rule same_fold [OF assms, of 6]) (auto split: node.split)
  show "projection_columns q = projection_columns q'"
    unfolding projection_columns_def by (rule same_fold [OF assms]) (rule project_idle)
  show "rename_mapping q = rename_mapping q'"
    unfolding rename_mapping_def by (rule same_fold [OF assms]) (rule rename_idle)
  show "apply_sort env q rows = apply_sort env q' rows"
    unfolding apply_sort_def by (rule same_fold [OF assms]) (rule sort_idle)
  show "apply_dedup env q rows = apply_dedup env q' rows"
    unfolding apply_dedup_def by (rule same_fold [OF assms]) (rule dedup_idle)
  show "apply_head_tail q xs = apply_head_tail q' xs"
    unfolding apply_head_tail_def by (rule same_fold [OF assms]) (rule head_tail_idle)
  show "apply_pipeline env q rows = apply_pipeline env q' rows"
    unfolding apply_pipeline_def using same_run [OF assms, of 1 "pipeline_step env"] pipeline_idle by metis
  show "run_commands (post_agg_step env) (q_commands q) rows = run_commands (post_agg_step env) (q_commands q') rows"
    by (rule same_run [OF assms]) (rule post_agg_idle)
qed

lemma build_where_stages:
  assumes "same_stages q q'" and "search_of q = search_of q'"
  shows "build_where pf q opts args = build_where pf q' opts args"
proof -
  have w: "where_clauses pf agg (q_commands q) st = where_clauses pf agg (q_commands q') st" for agg st
    using where_stage same_stagesD [OF assms(1), of 1] by metis
  show ?thesis
    by (simp only: build_where_def search_clause_def stages_agree(3) [OF assms(1)] assms(2) w)
qed

section \<open>Bounds\<close>

text \<open>The database answers at most as many rows as the limit at the end of the text.\<close>

definition honours_limit :: "('f, 'z) exec_env_scheme \<Rightarrow> bool" where
  "honours_limit env =
     ((\<forall>sql args n m names vals. query_rows env (sql @ '' LIMIT '' @ decimal n @ '' OFFSET '' @ decimal m) args = Some (names, vals)
         \<longrightarrow> 0 \<le> n \<longrightarrow> int (length vals) \<le> n)
      \<and> (\<forall>sql args n names vals. query_rows env (sql @ '' LIMIT '' @ decimal n) args = Some (names, vals)
         \<longrightarrow> 0 \<le> n \<longrightarrow> int (length vals) \<le> n))"

definition sort_permutes :: "('f, 'z) exec_env_scheme \<Rightarrow> bool" where
  "sort_permutes env = (\<forall>less rows. length (stable_sort env less rows) = length rows)"

lemma eval_rows_length: "eval_rows env f e rows = Done rows' \<Longrightarrow> length rows' = length rows"
  by (induction rows arbitrary: rows') (auto simp: and_then_Done)

lemma transform_eval_length: "transform_eval env as rows = Done rows' \<Longrightarrow> length rows' = length rows"
  by (induction as arbitrary: rows) (auto simp: and_then_Done dest: eval_rows_length)

lemma rex_rows_length: "length (fst (rex_rows env f p a m c rows)) = length rows"
  by (induction rows arbitrary: c) (auto simp: Let_def case_prod_beta)

lemma fold_length: "(\<And>x ys. length (f x ys) = length ys) \<Longrightarrow> length (fold f xs ys) = length ys"
  by (induction xs arbitrary: ys) simp_all

lemma fold_length_le: "(\<And>x ys. length (f x ys) \<le> length ys) \<Longrightarrow> length (fold f xs ys) \<le> length ys"
proof (induction xs arbitrary: ys)
  case (Cons x xs)
  then show ?case using le_trans [OF Cons.IH [OF Cons.prems] Cons.prems] by simp
qed simp

lemma apply_eventstats_length [simp]: "length (apply_eventstats env aggs gs rows) = length rows"
  unfolding apply_eventstats_def by (rule fold_length) (simp add: eventstats_agg_def)

lemma stream_fold_length: "length (snd (fold (stream_step env a w) idxs st)) = length (snd st)"
  by (induction idxs arbitrary: st) (simp_all add: stream_step_def Let_def)

lemma apply_streamstats_length [simp]: "length (apply_streamstats env aggs gs w rows) = length rows"
  unfolding apply_streamstats_def Let_def by (intro fold_length) (simp add: stream_fold_length)

lemma pipeline_step_length: "pipeline_step env c st = Done st' \<Longrightarrow> length (fst st') = length (fst st)"
  by (cases c) (auto simp: pipeline_step_def and_then_Done rex_rows_length dest: transform_eval_length)

lemma run_commands_length:
  assumes "\<And>c st st'. step c st = Done st' \<Longrightarrow> size_of st' \<le> (size_of st :: nat)"
  shows "run_commands step cs st = Done st' \<Longrightarrow> size_of st' \<le> size_of st"
proof (induction cs arbitrary: st)
  case (Cons c cs)
  then obtain st1 where "step c st = Done st1" "run_commands step cs st1 = Done st'" by (auto simp: and_then_Done)
  then show ?case using Cons.IH [of st1] assms [of c st st1] by simp
qed simp

lemma apply_pipeline_length: "apply_pipeline env q rows = Done rows' \<Longrightarrow> length rows' \<le> length rows"
  using run_commands_length [of "pipeline_step env" "\<lambda>st. length (fst st)"] pipeline_step_length [of env]
  by (fastforce simp: apply_pipeline_def and_then_Done)

lemma post_agg_length:
  "run_commands (post_agg_step env) cs rows = Done rows' \<Longrightarrow> length rows' \<le> length rows"
proof (rule run_commands_length [of "post_agg_step env" length])
  show "post_agg_step env c st = Done st' \<Longrightarrow> length st' \<le> length st" for c st st'
    by (cases c) (auto simp: post_agg_step_def where_post_def dest: transform_eval_length split: option.splits)
qed

lemma apply_sort_length: "sort_permutes env \<Longrightarrow> length (apply_sort env q rows) = length rows"
proof -
  assume s: "sort_permutes env"
  have "length (foldr (sort_by_field env) fs rows) = length rows" for fs and rows :: "'a row list"
    using s by (induction fs) (simp_all add: sort_by_field_def sort_permutes_def)
  then show ?thesis
    unfolding apply_sort_def by (intro fold_length) (simp add: sort_step_def split: node.split)
qed

lemma apply_dedup_length: "length (apply_dedup env q rows) \<le> length rows"
  unfolding apply_dedup_def
  by (rule fold_length_le)
    (auto simp: dedup_step_def dedup_rows_def intro: list_emb_length [OF firsts_by_subseq] split: node.split)

lemma apply_head_tail_length: "length (apply_head_tail q xs) \<le> length xs"
  unfolding apply_head_tail_def by (rule fold_length_le) (auto simp: head_tail_step_def split: node.split)

lemma finish_rows_length: "length (er_rows (finish_rows q cols n rows)) \<le> length rows"
proof -
  have "length (project cs rs) = length rs" for cs and rs :: "'a row list" by (simp add: project_def)
  then show ?thesis
    using apply_head_tail_length [of q "project cs (map g rows)" for cs g]
    by (auto simp: finish_rows_def apply_rename_def Let_def le_trans [OF apply_head_tail_length])
qed

section \<open>Properties\<close>

lemma stage_order:
  assumes "same_stages q q'" and "search_of q = search_of q'"
  shows "run_query env (Some q) opts = run_query env (Some q') opts"
proof -
  note agree = stages_agree [OF assms(1)]
  have f: "finish_rows q cols n rows = finish_rows q' cols n rows" for cols n and rows :: "'a row list"
    by (simp only: finish_rows_def apply_rename_def agree(7,10))
  have "rows_sql q w limit offset = rows_sql q' w limit offset" for w limit offset
    by (simp only: rows_sql_def agree(4,5))
  then have r: "run_rows env q w args limit offset = run_rows env q' w args limit offset" for w args limit offset
    by (simp only: run_rows_def agree(6,8,9,11) f)
  have a: "run_aggregate env q w args limit = run_aggregate env q' w args limit" for w args limit
    by (simp only: run_aggregate_def build_aggregate_stages [OF assms(1)] agree(5,6,8,9,12) f)
  show ?thesis
    by (simp only: run_query_def option.case agree(1-3) build_where_stages [OF assms] r a)
qed

text \<open>
  C36. The order of commands of different stages does not matter: two queries with the same search command in
  front (or both without one there: \<^verbatim>\<open>Search()\<close> looks at the first command only) whose commands agree stage by stage
  (filters and transformations, sort, dedup, table and fields, rename, head and tail, aggregations) have the same
  answer in every environment. A head before a sort or a where is a head after it, and a where before an
  aggregation is a where after it, against the comment of \<^verbatim>\<open>runAggregate\<close> that only what follows the aggregation is
  applied to its rows.
\<close>

theorem stage_order_irrelevant:
  assumes "same_stages q q'" and "search_of q = search_of q'"
  shows "run_query env (Some q) opts = run_query env (Some q') opts"
  by (rule stage_order [OF assms])

definition sample_exec :: "rat exec_env" where
  "sample_exec =
     \<lparr>fl_parse = fl_parse sample_eval, fl_junk = fl_junk sample_eval, fl_print = fl_print sample_eval, fl_of_int = of_int,
      fl_to_int = trunc, fl_add = (+), fl_sub = (-), fl_mul = (*), fl_div = (/), fl_neg = uminus, fl_less = (<), fl_eq = (=),
      fl_math = (\<lambda>f x. x), unix_now = 0, upper = id, text_of = id, regexp = (\<lambda>s. None),
      json_strings = join '','', json_object = (\<lambda>s. None), stable_sort = (\<lambda>less rows. rows), span_scale = (\<lambda>f n. n),
      query_rows = (\<lambda>sql args. Some ([''host'', ''user''],
         (if suffix ''LIMIT 2 OFFSET 0'' sql then take 2 else id)
           (if suffix '' LIMIT 0'' sql \<or> suffix '' LIMIT 0 OFFSET 0'' sql then []
            else [[VStr ''a'', VStr ''bob''], [VStr ''a'', VStr ''eve''], [VStr ''b'', VStr ''bob'']]))),
      query_count = (\<lambda>sql args. None)\<rparr>"

definition sample_query :: "node list \<Rightarrow> query" where
  "sample_query cs = \<lparr>q_version = 1, q_commands = SearchNode [] ''*'' None # cs\<rparr>"

definition no_options :: run_options where
  "no_options = \<lparr>ro_limit = 0, ro_offset = 0, ro_earliest = 0, ro_latest = 0\<rparr>"

theorem stage_order_irrelevant_witness:
  "run_query sample_exec (Some (sample_query [HeadNode 5, DedupNode ''host''])) no_options
   = run_query sample_exec (Some (sample_query [DedupNode ''host'', HeadNode 5])) no_options"
  by (rule stage_order_irrelevant) (simp_all add: same_stages_def sample_query_def search_of_def)

definition answer_rows :: "'f answer \<Rightarrow> nat option" where
  "answer_rows a = (case a of Done (Inr res) \<Rightarrow> Some (length (er_rows res)) | _ \<Rightarrow> None)"

text \<open>
  A head cuts before the dedup: with the limit pushed into SQL, \<^verbatim>\<open>dedup host | head 2\<close> over events of
  the hosts a, a and b answers one row, although the events have two hosts and head asks for two.
\<close>

theorem head_cuts_before_dedup:
  "answer_rows (run_query sample_exec (Some (sample_query [DedupNode ''host''])) no_options) = Some 2
   \<and> answer_rows (run_query sample_exec (Some (sample_query [DedupNode ''host'', HeadNode 2])) no_options) = Some 1"
  by (rule conjI; code_simp)

lemma head_n_le: "head_n q n \<le> n"
proof -
  have "fold (\<lambda>c n. case c of HeadNode k \<Rightarrow> if 0 \<le> k \<and> k < n then k else n | _ \<Rightarrow> n) cs m \<le> m" for cs and m :: int
  proof (induction cs arbitrary: m)
    case (Cons c cs)
    have "(case c of HeadNode k \<Rightarrow> if 0 \<le> k \<and> k < m then k else m | _ \<Rightarrow> m) \<le> m" by (auto split: node.split)
    then show ?case using Cons [of "case c of HeadNode k \<Rightarrow> if 0 \<le> k \<and> k < m then k else m | _ \<Rightarrow> m"] by simp
  qed simp
  then show ?thesis by (simp add: head_n_def)
qed

lemma row_limit_le: "0 \<le> n \<Longrightarrow> m \<le> n \<Longrightarrow> row_limit m \<le> n"
  by (simp add: row_limit_def max_result_rows_def)

lemma effective_limit_range: "0 \<le> effective_limit n \<and> effective_limit n \<le> 50000"
  by (simp add: effective_limit_def max_result_rows_def Let_def)

lemma run_rows_bounded:
  assumes "honours_limit env" and "sort_permutes env" and "0 \<le> limit"
    and "run_rows env q w args limit offset = Done (Inr res)"
  shows "int (length (er_rows res)) \<le> limit"
proof -
  obtain names vals rows where r: "query_rows env (rows_sql q w limit offset) args = Some (names, vals)"
    "apply_pipeline env q (map (decode_attributes env) (map (scan_row names) vals)) = Done rows"
    "length (er_rows res) \<le> length (apply_dedup env q (apply_sort env q rows))"
    using assms(4) by (auto simp: run_rows_def Let_def and_then_Done finish_rows_length split: option.splits)
  let ?n = "row_limit (if snd (build_row_order q) then head_n q limit else limit)"
  have sql: "\<exists>s. rows_sql q w limit offset = s @ '' LIMIT '' @ decimal ?n @ '' OFFSET '' @ decimal offset"
    by (simp add: rows_sql_def case_prod_beta Let_def)
  moreover have "0 \<le> ?n" by (simp add: row_limit_def max_result_rows_def)
  ultimately have "int (length vals) \<le> ?n" using assms(1) r(1) unfolding honours_limit_def by metis
  moreover have "?n \<le> limit" using head_n_le [of q limit] assms(3) by (simp add: row_limit_le)
  moreover have "length rows \<le> length vals" using apply_pipeline_length [OF r(2)] by simp
  moreover have "length (apply_dedup env q (apply_sort env q rows)) \<le> length rows"
    using apply_dedup_length [of env q "apply_sort env q rows"] apply_sort_length [OF assms(2), of q rows] by simp
  ultimately show ?thesis using r(3) by linarith
qed

lemma run_aggregate_bounded:
  assumes "honours_limit env" and "sort_permutes env" and "0 \<le> limit"
    and "run_aggregate env q w args limit = Done (Inr res)"
  shows "int (length (er_rows res)) \<le> limit"
proof (cases "ag_select (build_aggregate (fl_parse env) (span_scale env) q) = []")
  case True
  then show ?thesis using assms(3,4) by (auto simp: run_aggregate_def Let_def)
next
  case False
  let ?a = "build_aggregate (fl_parse env) (span_scale env) q" and ?n = "row_limit (head_n q limit)"
  obtain names vals rows where r: "query_rows env (aggregate_sql ?a w ?n) args = Some (names, vals)"
    "run_commands (post_agg_step env) (q_commands q) (map (scan_row names) vals) = Done rows"
    "length (er_rows res) \<le> length (apply_dedup env q (apply_sort env q rows))"
    using assms(4) False
    by (auto simp: run_aggregate_def Let_def and_then_Done finish_rows_length split: option.splits)
  have "\<exists>s. aggregate_sql ?a w ?n = s @ '' LIMIT '' @ decimal ?n"
    by (simp add: aggregate_sql_def)
  moreover have "0 \<le> ?n" by (simp add: row_limit_def max_result_rows_def)
  ultimately have "int (length vals) \<le> ?n" using assms(1) r(1) unfolding honours_limit_def by metis
  moreover have "?n \<le> limit" using head_n_le [of q limit] assms(3) by (simp add: row_limit_le)
  moreover have "length rows \<le> length vals" using post_agg_length [OF r(2)] by simp
  moreover have "length (apply_dedup env q (apply_sort env q rows)) \<le> length rows"
    using apply_dedup_length [of env q "apply_sort env q rows"] apply_sort_length [OF assms(2), of q rows] by simp
  ultimately show ?thesis using r(3) by linarith
qed

text \<open>
  \<^verbatim>\<open>RunQuery\<close> answers at most as many rows as the limit of the request, 100 without one, and never
  more than 50000, when the database honours the limit of the SQL text.
\<close>

theorem run_query_bounded:
  assumes "honours_limit env" and "sort_permutes env" and "run_query env oq opts = Done (Inr res)"
  shows "int (length (er_rows res)) \<le> effective_limit (ro_limit opts) \<and> length (er_rows res) \<le> 50000"
proof -
  have e: "0 \<le> effective_limit (ro_limit opts)" "effective_limit (ro_limit opts) \<le> 50000"
    using effective_limit_range by auto
  from assms(3) obtain q w args where
    "run_aggregate env q w args (effective_limit (ro_limit opts)) = Done (Inr res)
     \<or> run_rows env q w args (effective_limit (ro_limit opts)) (max 0 (ro_offset opts)) = Done (Inr res)"
    by (auto simp: run_query_def Let_def split: option.splits if_splits sum.splits prod.splits)
  then have "int (length (er_rows res)) \<le> effective_limit (ro_limit opts)"
    using run_rows_bounded [OF assms(1,2) e(1)] run_aggregate_bounded [OF assms(1,2) e(1)] by blast
  then show ?thesis using e by linarith
qed

definition one_row_exec :: "rat exec_env" where
  "one_row_exec = sample_exec\<lparr>query_rows :=
     (\<lambda>sql args. Some ([''host''], if sublist '' LIMIT 0'' sql then [] else [[VStr ''a'']]))\<rparr>"

lemma one_row_honours: "honours_limit one_row_exec"
proof -
  have zero: "sublist '' LIMIT 0'' (sql @ '' LIMIT '' @ decimal 0 @ rest)" for sql rest
  proof -
    have "decimal 0 = ''0''" by code_simp
    then show ?thesis using sublist_appendI [of "'' LIMIT 0''" sql rest] by simp
  qed
  have "int (length vals) \<le> n"
    if "query_rows one_row_exec (sql @ '' LIMIT '' @ decimal n @ rest) args = Some (names, vals)" "0 \<le> n"
    for sql n rest args names vals
    using that zero [of sql rest] by (cases "n = 0") (auto simp: one_row_exec_def split: if_splits)
  from this this [of _ _ "[]"] show ?thesis unfolding honours_limit_def by (metis append_Nil2)
qed

theorem run_query_bounded_witness:
  "answer_rows (run_query one_row_exec (Some (sample_query [])) no_options) = Some 1
   \<and> the (answer_rows (run_query one_row_exec (Some (sample_query [])) no_options)) \<le> 50000"
proof
  show one: "answer_rows (run_query one_row_exec (Some (sample_query [])) no_options) = Some 1" by code_simp
  have "sort_permutes one_row_exec" by (simp add: sort_permutes_def one_row_exec_def sample_exec_def)
  with one show "the (answer_rows (run_query one_row_exec (Some (sample_query [])) no_options)) \<le> 50000"
    using run_query_bounded [OF one_row_honours]
    by (auto simp: answer_rows_def split: run.splits sum.splits)
qed

text \<open>
  A dedup keeps the first row of every key: the rows it keeps are in their order, no two have the same
  printed value of the field, and the first row with a value is the same before and after.
\<close>

theorem dedup_keeps_first:
  "subseq (dedup_rows env f rows) rows
   \<and> distinct (map (\<lambda>r. show_val env (value_for r f)) (dedup_rows env f rows))
   \<and> find (\<lambda>r. show_val env (value_for r f) = k) (dedup_rows env f rows) = find (\<lambda>r. show_val env (value_for r f) = k) rows"
  by (simp add: dedup_rows_def firsts_by_subseq firsts_by_distinct firsts_by_first)

definition answer_column :: "string \<Rightarrow> 'f answer \<Rightarrow> 'f val list option" where
  "answer_column c a = (case a of Done (Inr res) \<Rightarrow> Some (map (\<lambda>r. get r c) (er_rows res)) | _ \<Rightarrow> None)"

text \<open>
  After an aggregation, a where with a list filters nothing: the query that keeps the host b by an
  equation answers that host, the one that keeps it by IN answers every host. The in-process filter takes
  every condition it does not know for true.
\<close>

theorem where_in_filters_nothing:
  "answer_column ''host'' (run_spl sample_exec ''* | stats count by host | where host = b'' no_options) = Some [VStr ''b'']
   \<and> answer_column ''host'' (run_spl sample_exec ''* | stats count by host | where host IN (b)'' no_options)
     = Some [VStr ''a'', VStr ''a'', VStr ''b'']"
  by (rule conjI; code_simp)

text \<open>
  A where in front of an aggregation filters the rows of the aggregation, and the rows of events not at all.
\<close>

theorem where_before_is_after:
  "run_query env (Some \<lparr>q_version = v, q_commands = SearchNode f t e # WhereNode cs w # StatsNode aggs gs # rest\<rparr>) opts
   = run_query env (Some \<lparr>q_version = v, q_commands = SearchNode f t e # StatsNode aggs gs # WhereNode cs w # rest\<rparr>) opts"
  by (rule stage_order) (simp_all add: same_stages_def search_of_def)

text \<open>
  The shipped rule \<^verbatim>\<open>web_scanning.yaml\<close> is written the other way: its commands after the search, which stands here
  for every event, are \<open>scan_query\<close> with a filter in front. That filter reads a column the aggregation
  does not have, the printed null reads as zero, and no row is left: the rule never fires, although the
  client of the sample has sixty requests.
\<close>

definition scan_exec :: "rat exec_env" where
  "scan_exec = sample_exec\<lparr>query_rows := (\<lambda>sql args. Some ([''source_ip'', ''count''], [[VStr ''10.0.0.9'', VInt 60]]))\<rparr>"

definition scan_query :: "node list \<Rightarrow> query" where
  "scan_query early =
     sample_query (early @ [StatsNode [mk_agg ''count'' [] []] [''source_ip''], WhereNode [] (Some (ECmp ''count'' ''>='' ''50''))])"

theorem web_scanning_never_fires:
  "answer_rows (run_query scan_exec (Some (scan_query [])) no_options) = Some 1
   \<and> answer_rows (run_query scan_exec (Some (scan_query [WhereNode [] (Some (ECmp ''status_code'' ''>='' ''404''))])) no_options)
     = Some 0"
  by (rule conjI; code_simp)

section \<open>Further behaviour\<close>

text \<open>A renamed alias of a column loses its value.\<close>

lemma renamed_alias_is_nil:
  "er_rows (finish_rows (sample_query [TableNode [''src_ip'']]) [''src_ip''] 1 [[(''source_ip'', VStr ''10.0.0.1'')]])
     = [[(''src_ip'', VStr ''10.0.0.1'' :: rat val)]]
   \<and> er_rows (finish_rows (sample_query [TableNode [''src_ip''], RenameNode [(''src_ip'', ''ip'')] []]) [''src_ip''] 1
       [[(''source_ip'', VStr ''10.0.0.1'')]]) = [[(''ip'', VNil :: rat val)]]"
  by (rule conjI; code_simp)

text \<open>The comparison of sort is a cycle on mixed values.\<close>

lemma sort_comparison_cycle:
  "cmp_values sample_eval (VStr ''2'') (VStr ''10'') < 0 \<and> cmp_values sample_eval (VStr ''10'') (VStr ''1a'') < 0
   \<and> cmp_values sample_eval (VStr ''1a'') (VStr ''2'') < 0"
  by (intro conjI; code_simp)

text \<open>The in-process count of a field counts its numbers only.\<close>

lemma count_counts_numbers:
  "aggregate_all sample_exec (mk_agg ''count'' ''user'' []) [[(''user'', VStr ''bob'')], [(''user'', VStr ''eve'')]] = VInt 0"
  by code_simp

text \<open>The cache of compiled patterns changes no result.\<close>

definition cache_ok :: "('f, 'z) eval_env_scheme \<Rightarrow> rex_cache \<Rightarrow> bool" where
  "cache_ok env c =
     ((\<forall>p re. map_of (rx_ok c) p = Some re \<longrightarrow> regexp env p = Some re) \<and> (\<forall>p \<in> set (rx_bad c). regexp env p = None))"

lemma compiled_rex_correct:
  "cache_ok env c \<Longrightarrow> fst (compiled_rex env p c) = regexp env p \<and> cache_ok env (snd (compiled_rex env p c))"
  by (auto simp: compiled_rex_def cache_ok_def split: option.splits if_splits)

end
