(* ===== verification/Tables.thy ===== *)
theory Tables
  imports Main "HOL-Library.List_Lexorder" "HOL-Library.Char_ord" "HOL-Library.Product_Lexorder"
begin

text \<open>
  SQL tables as lists of rows, in insertion order, and the statements the stores use on them: a
  select by a predicate, an insert that a UNIQUE column can refuse, an update and a delete of the
  rows that satisfy a predicate. The locale \<open>revocable\<close> is the contract of a credential table: a
  known credential that is not valid does not become valid by any step.
\<close>

named_theorems table_simps \<open>how the statements act on the rows\<close>

section \<open>Statements\<close>

definition select_row :: "('r \<Rightarrow> bool) \<Rightarrow> 'r list \<Rightarrow> 'r option" where
  "select_row p rows = find p rows"

definition row_count :: "('r \<Rightarrow> bool) \<Rightarrow> 'r list \<Rightarrow> nat" where
  "row_count p rows = length (filter p rows)"

definition update_rows :: "('r \<Rightarrow> bool) \<Rightarrow> ('r \<Rightarrow> 'r) \<Rightarrow> 'r list \<Rightarrow> 'r list" where
  "update_rows p f rows = map (\<lambda>r. if p r then f r else r) rows"

definition delete_rows :: "('r \<Rightarrow> bool) \<Rightarrow> 'r list \<Rightarrow> 'r list" where
  "delete_rows p rows = filter (\<lambda>r. \<not> p r) rows"

definition unique_by :: "('r \<Rightarrow> 'k) \<Rightarrow> 'r list \<Rightarrow> bool" where
  "unique_by key rows = distinct (map key rows)"

definition taken :: "('r \<Rightarrow> 'k) \<Rightarrow> 'k \<Rightarrow> 'r list \<Rightarrow> bool" where
  "taken key k rows = list_ex (\<lambda>r. key r = k) rows"

section \<open>Lemmas\<close>

lemma taken_iff: "taken key k rows \<longleftrightarrow> k \<in> key ` set rows"
  by (auto simp: taken_def list_ex_iff)

lemma select_row_Some:
  "select_row p rows = Some r \<Longrightarrow> r \<in> set rows \<and> p r"
  by (auto simp: select_row_def find_Some_iff)

lemma select_row_None [table_simps]: "select_row p rows = None \<longleftrightarrow> (\<forall>r \<in> set rows. \<not> p r)"
  by (auto simp: select_row_def find_None_iff)

lemma unique_byD:
  "unique_by key rows \<Longrightarrow> r \<in> set rows \<Longrightarrow> r' \<in> set rows \<Longrightarrow> key r = key r' \<Longrightarrow> r = r'"
  by (auto simp: unique_by_def distinct_map dest: inj_onD)

lemma select_row_key:
  assumes "unique_by key rows" and "r \<in> set rows" and "key r = k"
  shows "select_row (\<lambda>x. key x = k) rows = Some r"
proof (cases "select_row (\<lambda>x. key x = k) rows")
  case None
  with assms show ?thesis by (simp add: select_row_None)
next
  case (Some x)
  with select_row_Some [OF Some] assms unique_byD [of key rows x r] show ?thesis by auto
qed

lemma unique_by_snoc [table_simps]:
  "unique_by key (rows @ [r]) \<longleftrightarrow> unique_by key rows \<and> \<not> taken key (key r) rows"
  by (auto simp: unique_by_def taken_iff)

lemma unique_by_delete: "unique_by key rows \<Longrightarrow> unique_by key (delete_rows p rows)"
  by (auto simp: unique_by_def delete_rows_def distinct_map intro: inj_on_subset)

lemma set_update_rows: "set (update_rows p f rows) = (\<lambda>r. if p r then f r else r) ` set rows"
  by (simp add: update_rows_def)

lemma map_update_rows:
  "(\<And>r. p r \<Longrightarrow> key (f r) = key r) \<Longrightarrow> map key (update_rows p f rows) = map key rows"
  by (simp add: update_rows_def)

lemma unique_by_update:
  "(\<And>r. p r \<Longrightarrow> key (f r) = key r) \<Longrightarrow> unique_by key (update_rows p f rows) = unique_by key rows"
  by (simp add: unique_by_def map_update_rows)

lemma select_update_key:
  assumes "\<And>r. key (f r) = key r"
  shows "select_row (\<lambda>x. key x = k) (update_rows p f rows)
     = map_option (\<lambda>r. if p r then f r else r) (select_row (\<lambda>x. key x = k) rows)"
  using assms by (induction rows) (auto simp: select_row_def update_rows_def)

lemma select_snoc:
  "select_row p (rows @ [r]) = (case select_row p rows of Some x \<Rightarrow> Some x | None \<Rightarrow> if p r then Some r else None)"
  by (induction rows) (auto simp: select_row_def)

text \<open>Changing the key of the one row with identifier \<open>i\<close> to a value no other row has.\<close>

lemma unique_by_rekey:
  assumes "unique_by ident rows" and "unique_by key rows"
    and "\<not> list_ex (\<lambda>r. ident r \<noteq> i \<and> key r = k) rows"
    and "\<And>r. ident r = i \<Longrightarrow> key (f r) = k"
  shows "unique_by key (update_rows (\<lambda>r. ident r = i) f rows)"
  using assms
proof (induction rows)
  case (Cons r rows)
  show ?case
  proof (cases "ident r = i")
    case True
    then have "i \<notin> ident ` set rows"
      using Cons.prems(1) by (simp add: unique_by_def)
    then have others: "ident x \<noteq> i" if "x \<in> set rows" for x
      using that by blast
    then have same: "update_rows (\<lambda>r. ident r = i) f rows = rows"
      by (simp add: update_rows_def map_idI)
    have "k \<notin> key ` set rows"
      using Cons.prems(3) others by (auto simp: list_ex_iff)
    then show ?thesis
      using True Cons.prems(2,4) same by (simp add: unique_by_def update_rows_def)
  next
    case False
    have "unique_by key (update_rows (\<lambda>r. ident r = i) f rows)"
      using Cons by (simp add: unique_by_def)
    moreover have "key r \<notin> (\<lambda>x. key (if ident x = i then f x else x)) ` set rows"
    proof
      assume "key r \<in> (\<lambda>x. key (if ident x = i then f x else x)) ` set rows"
      then obtain x where x: "x \<in> set rows" "key r = key (if ident x = i then f x else x)"
        by blast
      then show False
        using Cons.prems(2,3,4) False by (cases "ident x = i") (auto simp: unique_by_def)
    qed
    ultimately show ?thesis using False by (simp add: unique_by_def update_rows_def image_image o_def)
  qed
qed (simp add: unique_by_def update_rows_def)

section \<open>The contract of a credential table\<close>

locale revocable =
  fixes known :: "'s \<Rightarrow> 'k \<Rightarrow> bool" and valid :: "'s \<Rightarrow> 'k \<Rightarrow> bool" and step :: "'s \<Rightarrow> 's \<Rightarrow> bool"
  assumes stays_known: "step s s' \<Longrightarrow> known s k \<Longrightarrow> known s' k"
    and no_revival: "step s s' \<Longrightarrow> known s k \<Longrightarrow> valid s' k \<Longrightarrow> valid s k"
begin

lemma revoked_forever:
  assumes "step\<^sup>*\<^sup>* s s'" and "known s k" and "\<not> valid s k"
  shows "known s' k \<and> \<not> valid s' k"
  using assms(1)
proof (induction rule: rtranclp_induct)
  case base
  then show ?case using assms(2,3) by blast
next
  case (step y z)
  then show ?case using stays_known no_revival by blast
qed

end

end
