(* ===== verification/AuthStore.thy ===== *)
theory AuthStore
  imports Prelude Tables
begin

text \<open>
  Accounts and API tokens, \<^verbatim>\<open>internal/auth/auth.go\<close>. The state holds the rows of the three tables;
  an operation answers a result (an error or a value) and the new state. SHA-256, bcrypt and the
  environment are the fields of \<open>auth_env\<close>; generated identifiers, random secrets and clock
  readings are arguments. A statement of the database fails exactly when it breaks a PRIMARY KEY or a
  UNIQUE constraint of the schema or, where the connection enforces foreign keys, a FOREIGN KEY constraint.
  Times are nanoseconds.

  Whether foreign keys are enforced is the field \<open>foreign_keys\<close>: \<^verbatim>\<open>database.Open\<close> turns them on
  for a file and leaves SQLite's default, off, for \<^verbatim>\<open>:memory:\<close>, on which most tests run.
\<close>

section \<open>State\<close>

datatype auth_error =
    InvalidCredentials
  | AccountDisabled
  | UserNotFound
  | UserExists
  | InvalidRole
  | PasswordTooShort
  | UserIsAdmin
  | TokenNotFound
  | TokenRevoked
  | HashFailure
  | ConstraintFailure

record user =
  u_id :: string
  u_username :: string
  u_password_hash :: string
  u_role :: string
  u_enabled :: bool
  u_created :: int
  u_updated :: int
  u_last_login :: "int option"
  u_failed :: int
  u_locked_until :: "int option"

record api_token =
  tk_id :: string
  tk_hash :: string
  tk_user :: string
  tk_name :: string
  tk_enabled :: bool
  tk_created :: int

record audit_row =
  au_id :: string
  au_user :: string
  au_action :: string
  au_resource :: string
  au_details :: string
  au_ip :: string
  au_created :: int

record auth_state =
  users :: "user list"
  tokens :: "api_token list"
  audit :: "audit_row list"

record auth_env =
  foreign_keys :: bool
  hash_token :: "string \<Rightarrow> string"
  hash_password :: "string \<Rightarrow> string \<Rightarrow> string option"
  check_password :: "string \<Rightarrow> string \<Rightarrow> bool"

definition empty_auth :: auth_state where
  "empty_auth = \<lparr>users = [], tokens = [], audit = []\<rparr>"

definition roles :: "string list" where
  "roles = [''admin'', ''analyst'', ''viewer'']"

definition lock_time :: int where
  "lock_time = 15 * 60 * 1000000000"

type_synonym 'a outcome = "(auth_error + 'a) \<times> auth_state"

section \<open>Accounts\<close>

definition new_user :: "string \<Rightarrow> string \<Rightarrow> string \<Rightarrow> string \<Rightarrow> int \<Rightarrow> user" where
  "new_user i name hash role now =
     \<lparr>u_id = i, u_username = name, u_password_hash = hash, u_role = role, u_enabled = True,
      u_created = now, u_updated = now, u_last_login = None, u_failed = 0, u_locked_until = None\<rparr>"

definition insert_user :: "user \<Rightarrow> auth_state \<Rightarrow> unit outcome" where
  "insert_user u st =
     (if taken u_id (u_id u) (users st) \<or> taken u_username (u_username u) (users st)
      then (Inl ConstraintFailure, st)
      else (Inr (), st\<lparr>users := users st @ [u]\<rparr>))"

definition ensure_default_admin :: "auth_env \<Rightarrow> string option \<Rightarrow> string \<Rightarrow> string \<Rightarrow> string \<Rightarrow> int
    \<Rightarrow> auth_state \<Rightarrow> unit outcome" where
  "ensure_default_admin env pinned random salt i now st =
     (if users st \<noteq> [] then (Inr (), st)
      else let password = (case pinned of
                    Some p \<Rightarrow> if p = [] then ''qz_'' @ random else p
                  | None \<Rightarrow> ''qz_'' @ random)
           in case hash_password env salt password of
                None \<Rightarrow> (Inl HashFailure, st)
              | Some h \<Rightarrow> insert_user (new_user i ''admin'' h ''admin'' now) st)"

definition create_user :: "auth_env \<Rightarrow> string \<Rightarrow> string \<Rightarrow> int \<Rightarrow> string \<Rightarrow> string \<Rightarrow> string
    \<Rightarrow> auth_state \<Rightarrow> unit outcome" where
  "create_user env salt i now username password role st =
     (let r = (if role = [] then ''viewer'' else role)
      in if length (utf8 password) < 4 then (Inl PasswordTooShort, st)
         else if r \<notin> set roles then (Inl InvalidRole, st)
         else if 0 < row_count (\<lambda>u. u_username u = username) (users st) then (Inl UserExists, st)
         else case hash_password env salt password of
             None \<Rightarrow> (Inl HashFailure, st)
           | Some h \<Rightarrow> insert_user (new_user i username h r now) st)"

definition get_user :: "string \<Rightarrow> auth_state \<Rightarrow> auth_error + user" where
  "get_user i st =
     (case select_row (\<lambda>u. u_id u = i) (users st) of None \<Rightarrow> Inl UserNotFound | Some u \<Rightarrow> Inr u)"

definition get_user_by_username :: "string \<Rightarrow> auth_state \<Rightarrow> auth_error + user" where
  "get_user_by_username name st =
     (case select_row (\<lambda>u. u_username u = name) (users st) of None \<Rightarrow> Inl UserNotFound | Some u \<Rightarrow> Inr u)"

text \<open>The rows in the order of their creation, without the columns the query does not select.\<close>

definition list_users :: "auth_state \<Rightarrow> user list" where
  "list_users st =
     map (\<lambda>u. u\<lparr>u_password_hash := [], u_last_login := None, u_failed := 0, u_locked_until := None\<rparr>)
       (sort_key u_created (users st))"

definition on_user :: "string \<Rightarrow> (user \<Rightarrow> user) \<Rightarrow> auth_state \<Rightarrow> auth_state" where
  "on_user i f st = st\<lparr>users := update_rows (\<lambda>u. u_id u = i) f (users st)\<rparr>"

definition increment_failed_logins :: "int \<Rightarrow> string \<Rightarrow> auth_state \<Rightarrow> auth_state" where
  "increment_failed_logins now i st =
     (case get_user i st of
        Inl e \<Rightarrow> st
      | Inr u \<Rightarrow>
          let n = u_failed u + 1
          in if 5 \<le> n
             then on_user i (\<lambda>x. x\<lparr>u_failed := n, u_locked_until := Some (now + lock_time), u_updated := now\<rparr>) st
             else on_user i (\<lambda>x. x\<lparr>u_failed := n, u_updated := now\<rparr>) st)"

text \<open>\<open>now\<close> is read for the lock check, \<open>later\<close> for the row that is written.\<close>

definition is_locked :: "int \<Rightarrow> user \<Rightarrow> bool" where
  "is_locked now u = (case u_locked_until u of None \<Rightarrow> False | Some t \<Rightarrow> now < t)"

definition authenticate :: "auth_env \<Rightarrow> int \<Rightarrow> int \<Rightarrow> string \<Rightarrow> string \<Rightarrow> auth_state \<Rightarrow> user outcome" where
  "authenticate env now later username password st =
     (case get_user_by_username username st of
        Inl e \<Rightarrow> (Inl InvalidCredentials, st)
      | Inr u \<Rightarrow>
          if \<not> u_enabled u then (Inl AccountDisabled, st)
          else if is_locked now u then (Inl AccountDisabled, st)
          else if \<not> check_password env (u_password_hash u) password
          then (Inl InvalidCredentials, increment_failed_logins later (u_id u) st)
          else (Inr (u\<lparr>u_last_login := Some later\<rparr>),
                on_user (u_id u) (\<lambda>x. x\<lparr>u_failed := 0, u_last_login := Some later, u_locked_until := None,
                                       u_updated := later\<rparr>) st))"

definition update_password :: "auth_env \<Rightarrow> string \<Rightarrow> int \<Rightarrow> string \<Rightarrow> string \<Rightarrow> auth_state \<Rightarrow> unit outcome" where
  "update_password env salt now i password st =
     (if length (utf8 password) < 4 then (Inl PasswordTooShort, st)
      else case hash_password env salt password of
          None \<Rightarrow> (Inl HashFailure, st)
        | Some h \<Rightarrow> (Inr (), on_user i (\<lambda>x. x\<lparr>u_password_hash := h, u_updated := now\<rparr>) st))"

definition delete_user :: "int \<Rightarrow> string \<Rightarrow> auth_state \<Rightarrow> unit outcome" where
  "delete_user now i st =
     (if row_count (\<lambda>u. u_role u = ''admin'' \<and> u_id u \<noteq> i) (users st) = 0
         \<or> row_count (\<lambda>u. u_id u \<noteq> i) (users st) = 0
      then (Inl UserIsAdmin, st)
      else (Inr (), on_user i (\<lambda>x. x\<lparr>u_enabled := False, u_updated := now\<rparr>) st))"

definition update_user_role :: "int \<Rightarrow> string \<Rightarrow> string \<Rightarrow> auth_state \<Rightarrow> unit outcome" where
  "update_user_role now i role st =
     (if role \<notin> set roles then (Inl InvalidRole, st)
      else (Inr (), on_user i (\<lambda>x. x\<lparr>u_role := role, u_updated := now\<rparr>) st))"

definition enable_user :: "int \<Rightarrow> string \<Rightarrow> auth_state \<Rightarrow> unit outcome" where
  "enable_user now i st =
     (Inr (), on_user i (\<lambda>x. x\<lparr>u_enabled := True, u_locked_until := None, u_failed := 0, u_updated := now\<rparr>) st)"

definition disable_user :: "int \<Rightarrow> string \<Rightarrow> auth_state \<Rightarrow> unit outcome" where
  "disable_user now i st =
     (Inr (), on_user i (\<lambda>x. x\<lparr>u_enabled := False, u_updated := now\<rparr>) st)"

definition set_fields :: "int \<Rightarrow> string \<Rightarrow> string \<Rightarrow> bool option \<Rightarrow> user \<Rightarrow> user" where
  "set_fields now username role enabled x =
     x\<lparr>u_username := (if username \<noteq> [] then username else u_username x),
       u_role := (if role \<noteq> [] then role else u_role x),
       u_enabled := (case enabled of None \<Rightarrow> u_enabled x | Some b \<Rightarrow> b), u_updated := now\<rparr>"

definition update_user :: "int \<Rightarrow> string \<Rightarrow> string \<Rightarrow> string \<Rightarrow> bool option \<Rightarrow> auth_state \<Rightarrow> unit outcome" where
  "update_user now i username role enabled st =
     (if username = [] \<and> role = [] \<and> enabled = None then (Inr (), st)
      else if role \<noteq> [] \<and> role \<notin> set roles then (Inl InvalidRole, st)
      else if username \<noteq> [] \<and> taken u_id i (users st)
              \<and> list_ex (\<lambda>u. u_id u \<noteq> i \<and> u_username u = username) (users st)
      then (Inl ConstraintFailure, st)
      else (Inr (), on_user i (set_fields now username role enabled) st))"

section \<open>API tokens\<close>

definition create_api_token :: "auth_env \<Rightarrow> string \<Rightarrow> string \<Rightarrow> int \<Rightarrow> string \<Rightarrow> string
    \<Rightarrow> auth_state \<Rightarrow> string outcome" where
  "create_api_token env random i now user name st =
     (let secret = ''siem_'' @ random; h = hash_token env secret
      in if taken tk_id i (tokens st) \<or> taken tk_hash h (tokens st)
           \<or> (foreign_keys env \<and> \<not> taken u_id user (users st))
         then (Inl ConstraintFailure, st)
         else (Inr secret,
               st\<lparr>tokens := tokens st @
                   [\<lparr>tk_id = i, tk_hash = h, tk_user = user, tk_name = name, tk_enabled = True, tk_created = now\<rparr>]\<rparr>))"

definition revoke_tokens :: "(api_token \<Rightarrow> bool) \<Rightarrow> auth_state \<Rightarrow> unit outcome" where
  "revoke_tokens p st =
     (let st' = st\<lparr>tokens := update_rows p (\<lambda>t. t\<lparr>tk_enabled := False\<rparr>) (tokens st)\<rparr>
      in if row_count p (tokens st) = 0 then (Inl TokenNotFound, st') else (Inr (), st'))"

definition revoke_api_token_by_value :: "auth_env \<Rightarrow> string \<Rightarrow> auth_state \<Rightarrow> unit outcome" where
  "revoke_api_token_by_value env secret st = revoke_tokens (\<lambda>t. tk_hash t = hash_token env secret) st"

definition revoke_api_token :: "string \<Rightarrow> auth_state \<Rightarrow> unit outcome" where
  "revoke_api_token i st = revoke_tokens (\<lambda>t. tk_id t = i) st"

definition validate_api_token :: "auth_env \<Rightarrow> string \<Rightarrow> auth_state \<Rightarrow> auth_error + api_token" where
  "validate_api_token env secret st =
     (case select_row (\<lambda>t. tk_hash t = hash_token env secret) (tokens st) of
        None \<Rightarrow> Inl TokenNotFound
      | Some t \<Rightarrow> if \<not> tk_enabled t then Inl TokenRevoked else Inr t)"

text \<open>\<^verbatim>\<open>strings.SplitN(h, " ", 2)\<close>, and the decision of the middleware: a refusal or the header to pass on.\<close>

definition split_blank :: "string \<Rightarrow> string list" where
  "split_blank s =
     (let a = takeWhile (\<lambda>c. c \<noteq> CHR '' '') s
      in if length a = length s then [s] else [a, drop (length a + 1) s])"

datatype refusal =
    MissingHeader
  | InvalidScheme
  | InvalidToken
  | NoUser
  | UserDisabled

definition auth_middleware :: "auth_env \<Rightarrow> string \<Rightarrow> auth_state \<Rightarrow> refusal + string" where
  "auth_middleware env header st =
     (if header = [] then Inl MissingHeader
      else case split_blank header of
          [scheme, secret] \<Rightarrow>
            if scheme \<noteq> ''Bearer'' then Inl InvalidScheme
            else (case validate_api_token env secret st of
                    Inl e \<Rightarrow> Inl InvalidToken
                  | Inr t \<Rightarrow>
                      (case get_user (tk_user t) st of
                         Inl e \<Rightarrow> Inl NoUser
                       | Inr u \<Rightarrow> if \<not> u_enabled u then Inl UserDisabled else Inr header))
        | _ \<Rightarrow> Inl InvalidScheme)"

section \<open>The audit log\<close>

definition log_audit :: "auth_env \<Rightarrow> string \<Rightarrow> int \<Rightarrow> string \<Rightarrow> string \<Rightarrow> string \<Rightarrow> string \<Rightarrow> string
    \<Rightarrow> auth_state \<Rightarrow> unit outcome" where
  "log_audit env i now user action resource details ip st =
     (if taken au_id i (audit st) \<or> (foreign_keys env \<and> \<not> taken u_id user (users st)) then (Inl ConstraintFailure, st)
      else (Inr (), st\<lparr>audit := audit st @
              [\<lparr>au_id = i, au_user = user, au_action = action, au_resource = resource,
                au_details = details, au_ip = ip, au_created = now\<rparr>]\<rparr>))"

record audit_entry =
  ae_row :: audit_row
  ae_username :: string

definition audit_entry_of :: "auth_state \<Rightarrow> audit_row \<Rightarrow> audit_entry" where
  "audit_entry_of st a =
     \<lparr>ae_row = a, ae_username =
        (case select_row (\<lambda>u. u_id u = au_user a) (users st) of None \<Rightarrow> au_user a | Some u \<Rightarrow> u_username u)\<rparr>"

definition audit_matches :: "auth_state \<Rightarrow> string \<Rightarrow> string \<Rightarrow> audit_row \<Rightarrow> bool" where
  "audit_matches st username action a =
     ((username = [] \<or>
       (case select_row (\<lambda>u. u_id u = au_user a) (users st) of None \<Rightarrow> False | Some u \<Rightarrow> u_username u = username))
      \<and> (action = [] \<or> au_action a = action))"

definition list_audit :: "string \<Rightarrow> string \<Rightarrow> int \<Rightarrow> auth_state \<Rightarrow> audit_entry list" where
  "list_audit username action limit st =
     (let n = (if limit \<le> 0 \<or> 500 < limit then 50 else limit)
      in take (nat n) (map (audit_entry_of st)
           (rev (sort_key (\<lambda>a. (au_created a, au_id a)) (filter (audit_matches st username action) (audit st))))))"


section \<open>Runs\<close>

text \<open>One rule for each operation that writes; a failed write is a step that keeps the state.\<close>

inductive auth_step :: "auth_env \<Rightarrow> auth_state \<Rightarrow> auth_state \<Rightarrow> bool" for env where
  bootstrap: "auth_step env st (snd (ensure_default_admin env pinned random salt i now st))"
| user_added: "auth_step env st (snd (create_user env salt i now name pw role st))"
| logged_in: "auth_step env st (snd (authenticate env now later name pw st))"
| password_set: "auth_step env st (snd (update_password env salt now i pw st))"
| user_deleted: "auth_step env st (snd (delete_user now i st))"
| role_set: "auth_step env st (snd (update_user_role now i role st))"
| user_enabled: "auth_step env st (snd (enable_user now i st))"
| user_disabled: "auth_step env st (snd (disable_user now i st))"
| user_updated: "auth_step env st (snd (update_user now i name role enabled st))"
| token_created: "auth_step env st (snd (create_api_token env random i now user name st))"
| token_revoked_by_value: "auth_step env st (snd (revoke_api_token_by_value env secret st))"
| token_revoked: "auth_step env st (snd (revoke_api_token i st))"
| audited: "auth_step env st (snd (log_audit env i now user action resource details ip st))"

lemmas auth_writes = ensure_default_admin_def create_user_def authenticate_def update_password_def
  delete_user_def update_user_role_def enable_user_def disable_user_def update_user_def
  create_api_token_def revoke_api_token_by_value_def revoke_api_token_def log_audit_def

definition auth_reachable :: "auth_env \<Rightarrow> auth_state \<Rightarrow> bool" where
  "auth_reachable env st = (auth_step env)\<^sup>*\<^sup>* empty_auth st"

section \<open>The invariant\<close>

definition users_ok :: "user list \<Rightarrow> bool" where
  "users_ok us =
     (unique_by u_id us \<and> unique_by u_username us \<and> list_all (\<lambda>u. u_role u \<in> set roles) us)"

definition refs_ok :: "user list \<Rightarrow> string list \<Rightarrow> bool" where
  "refs_ok us refs = list_all (\<lambda>r. taken u_id r us) refs"

definition auth_inv :: "auth_env \<Rightarrow> auth_state \<Rightarrow> bool" where
  "auth_inv env st =
     (users_ok (users st) \<and> unique_by tk_id (tokens st) \<and> unique_by tk_hash (tokens st) \<and> unique_by au_id (audit st)
      \<and> (foreign_keys env \<longrightarrow>
           refs_ok (users st) (map tk_user (tokens st)) \<and> refs_ok (users st) (map au_user (audit st))))"

lemma taken_update:
  "(\<And>u. p u \<Longrightarrow> key (f u) = key u) \<Longrightarrow> taken key k (update_rows p f us) = taken key k us"
  using map_update_rows [of p key f us] by (metis taken_iff set_map)

lemma taken_snoc [table_simps]: "taken key k (us @ [u]) \<longleftrightarrow> taken key k us \<or> key u = k"
  by (auto simp: taken_def)

lemma refs_ok_mono: "refs_ok us refs \<Longrightarrow> (\<And>k. taken u_id k us \<Longrightarrow> taken u_id k us') \<Longrightarrow> refs_ok us' refs"
  by (auto simp: refs_ok_def list_all_iff)

lemma on_user_inv:
  assumes "auth_inv env st" and "\<And>u. u_id (f u) = u_id u"
    and "unique_by u_username (update_rows (\<lambda>u. u_id u = i) f (users st))"
    and "\<And>u. u_role u \<in> set roles \<Longrightarrow> u_role (f u) \<in> set roles"
  shows "auth_inv env (on_user i f st)"
proof -
  let ?us = "update_rows (\<lambda>u. u_id u = i) f (users st)"
  have "users_ok ?us"
    using assms by (auto simp: auth_inv_def users_ok_def unique_by_update list_all_iff set_update_rows)
  moreover have "refs_ok ?us refs" if "refs_ok (users st) refs" for refs
    using that by (rule refs_ok_mono) (simp add: taken_update assms(2))
  ultimately show ?thesis using assms(1) by (simp add: auth_inv_def on_user_def)
qed

lemma on_user_inv_plain:
  assumes "auth_inv env st" and "\<And>u. u_id (f u) = u_id u" and "\<And>u. u_username (f u) = u_username u"
    and "\<And>u. u_role u \<in> set roles \<Longrightarrow> u_role (f u) \<in> set roles"
  shows "auth_inv env (on_user i f st)"
  using assms by (intro on_user_inv) (simp_all add: unique_by_update auth_inv_def users_ok_def)

lemma insert_user_inv:
  assumes "auth_inv env st" and "u_role u \<in> set roles"
  shows "auth_inv env (snd (insert_user u st))"
proof -
  have "refs_ok (users st @ [u]) refs" if "refs_ok (users st) refs" for refs
    using that by (rule refs_ok_mono) (simp add: taken_snoc)
  then show ?thesis
    using assms by (simp add: insert_user_def auth_inv_def users_ok_def table_simps)
qed

lemma revoke_tokens_inv: "auth_inv env st \<Longrightarrow> auth_inv env (snd (revoke_tokens p st))"
  by (simp add: revoke_tokens_def auth_inv_def unique_by_update map_update_rows Let_def)

lemma increment_inv: "auth_inv env st \<Longrightarrow> auth_inv env (increment_failed_logins now i st)"
  by (auto simp: increment_failed_logins_def Let_def intro: on_user_inv_plain split: sum.split)

lemma update_user_inv:
  assumes "auth_inv env st"
  shows "auth_inv env (snd (update_user now i name role enabled st))"
proof -
  let ?f = "set_fields now name role enabled"
  have uid: "unique_by u_id (users st)" and un: "unique_by u_username (users st)"
    using assms by (simp_all add: auth_inv_def users_ok_def)
  have "unique_by u_username (update_rows (\<lambda>u. u_id u = i) ?f (users st))"
    if "name = [] \<or> \<not> (taken u_id i (users st) \<and> list_ex (\<lambda>u. u_id u \<noteq> i \<and> u_username u = name) (users st))"
  proof (cases "name = []")
    case True
    then show ?thesis using un by (simp add: unique_by_update set_fields_def)
  next
    case False
    show ?thesis
    proof (cases "taken u_id i (users st)")
      case True
      with that False have no: "\<not> list_ex (\<lambda>u. u_id u \<noteq> i \<and> u_username u = name) (users st)" by simp
      show ?thesis by (rule unique_by_rekey [OF uid un no]) (simp add: set_fields_def False)
    next
      case absent: False
      then have "u_id u \<noteq> i" if "u \<in> set (users st)" for u
        using that by (auto simp: taken_iff)
      then have "update_rows (\<lambda>u. u_id u = i) ?f (users st) = users st"
        by (simp add: update_rows_def map_idI)
      then show ?thesis using un by simp
    qed
  qed
  then show ?thesis
    using assms by (auto simp: update_user_def set_fields_def intro!: on_user_inv split: if_splits)
qed

lemma create_api_token_inv:
  "auth_inv env st \<Longrightarrow> auth_inv env (snd (create_api_token env random i now user name st))"
  by (auto simp: create_api_token_def Let_def auth_inv_def table_simps refs_ok_def)

lemma log_audit_inv:
  "auth_inv env st \<Longrightarrow> auth_inv env (snd (log_audit env i now user action resource details ip st))"
  by (auto simp: log_audit_def auth_inv_def table_simps refs_ok_def)

lemma auth_step_inv:
  assumes "auth_step env st st'" and "auth_inv env st"
  shows "auth_inv env st'"
  using assms
proof (cases rule: auth_step.cases)
  case (bootstrap pinned random salt i now)
  have "''admin'' \<in> set roles" by (simp add: roles_def)
  then show ?thesis using bootstrap assms(2)
    by (auto simp: ensure_default_admin_def Let_def new_user_def intro!: insert_user_inv split: option.split)
next
  case (user_added salt i now name pw role)
  then show ?thesis using assms(2)
    by (auto simp: create_user_def Let_def new_user_def intro!: insert_user_inv split: option.split)
next
  case (logged_in now later name pw)
  then show ?thesis using assms(2)
    by (auto simp: authenticate_def Let_def intro: increment_inv on_user_inv_plain split: sum.split)
next
  case (user_updated now i name role enabled)
  then show ?thesis using assms(2) by (simp add: update_user_inv)
next
  case (token_created random i now user name)
  then show ?thesis using assms(2) by (simp add: create_api_token_inv)
next
  case (audited i now user action resource details ip)
  then show ?thesis using assms(2) by (simp add: log_audit_inv)
qed (use assms(2) in \<open>auto simp: auth_writes revoke_tokens_inv
    intro: on_user_inv_plain split: option.split\<close>)


section \<open>Tokens\<close>

definition token_known :: "auth_state \<Rightarrow> string \<Rightarrow> bool" where
  "token_known st h = taken tk_hash h (tokens st)"

definition token_live :: "auth_state \<Rightarrow> string \<Rightarrow> bool" where
  "token_live st h = list_ex (\<lambda>t. tk_hash t = h \<and> tk_enabled t) (tokens st)"

text \<open>What a step can do to the token table.\<close>

lemma auth_step_tokens:
  assumes "auth_step env st st'"
  obtains (same) "tokens st' = tokens st"
    | (added) t where "tokens st' = tokens st @ [t]" "\<not> taken tk_hash (tk_hash t) (tokens st)"
    | (disabled) p where "tokens st' = update_rows p (\<lambda>t. t\<lparr>tk_enabled := False\<rparr>) (tokens st)"
proof -
  have on: "tokens (on_user i f x) = tokens x" for i f x by (simp add: on_user_def)
  have ins: "tokens (snd (insert_user u x)) = tokens x" for u x by (simp add: insert_user_def)
  have inc: "tokens (increment_failed_logins n i x) = tokens x" for n i x
    by (simp add: increment_failed_logins_def Let_def on split: sum.split)
  have rev: "tokens (snd (revoke_tokens p x)) = update_rows p (\<lambda>t. t\<lparr>tk_enabled := False\<rparr>) (tokens x)" for p x
    by (simp add: revoke_tokens_def Let_def)
  from assms show ?thesis
  proof (cases rule: auth_step.cases)
    case (token_created random i now user name)
    then show ?thesis using same added by (auto simp: create_api_token_def Let_def split: if_splits)
  next
    case (token_revoked_by_value secret)
    then show ?thesis using disabled by (simp add: revoke_api_token_by_value_def rev)
  next
    case (token_revoked i)
    then show ?thesis using disabled by (simp add: revoke_api_token_def rev)
  qed (rule same; simp add: auth_writes on ins inc Let_def split: option.split sum.split)+
qed

interpretation api_tokens: revocable token_known token_live "auth_step env" for env
proof
  fix st st' h
  assume step: "auth_step env st st'" and known: "token_known st h"
  show "token_known st' h"
    using step
  proof (cases rule: auth_step_tokens)
    case (disabled p)
    then show ?thesis using known by (simp add: token_known_def taken_update)
  qed (use known in \<open>auto simp: token_known_def taken_snoc\<close>)
  show "token_live st h" if "token_live st' h"
    using step
  proof (cases rule: auth_step_tokens)
    case (disabled p)
    then show ?thesis using that by (auto simp: token_live_def list_ex_iff set_update_rows split: if_splits)
  next
    case (added t)
    then have "tk_hash t \<noteq> h" using known by (auto simp: token_known_def)
    then show ?thesis using that added by (simp add: token_live_def)
  qed (use that in \<open>simp add: token_live_def\<close>)
qed

lemma dead_token_refused:
  assumes "token_known st (hash_token env secret)" and "\<not> token_live st (hash_token env secret)"
  shows "validate_api_token env secret st = Inl TokenRevoked"
proof (cases "select_row (\<lambda>t. tk_hash t = hash_token env secret) (tokens st)")
  case None
  then show ?thesis using assms(1) by (auto simp: token_known_def taken_iff select_row_None)
next
  case (Some t)
  with select_row_Some [OF Some] assms(2) show ?thesis
    by (auto simp: validate_api_token_def token_live_def list_ex_iff)
qed

lemma revoked_by_value:
  assumes "revoke_api_token_by_value env secret st = (Inr (), st')"
  shows "token_known st' (hash_token env secret)" "\<not> token_live st' (hash_token env secret)"
proof -
  let ?p = "\<lambda>t. tk_hash t = hash_token env secret"
  have st': "tokens st' = update_rows ?p (\<lambda>t. t\<lparr>tk_enabled := False\<rparr>) (tokens st)"
    and n: "row_count ?p (tokens st) \<noteq> 0"
    using assms by (auto simp: revoke_api_token_by_value_def revoke_tokens_def Let_def split: if_splits)
  show "\<not> token_live st' (hash_token env secret)"
    by (auto simp: st' token_live_def list_ex_iff set_update_rows split: if_splits)
  from n obtain t where "t \<in> set (tokens st)" "?p t"
    by (auto simp: row_count_def filter_empty_conv)
  then show "token_known st' (hash_token env secret)"
    by (simp add: st' token_known_def taken_update) (auto simp: taken_def list_ex_iff)
qed

lemma split_blank_bearer: "split_blank (''Bearer '' @ secret) = [''Bearer'', secret]"
  by (simp add: split_blank_def Let_def)

section \<open>Logging in\<close>

lemma by_username_facts:
  assumes "get_user_by_username name st = Inr u"
  shows "u \<in> set (users st)" "u_username u = name"
  using assms select_row_Some [of "\<lambda>x. u_username x = name" "users st" u]
  by (auto simp: get_user_by_username_def split: option.splits)

lemma get_user_id:
  assumes "users_ok (users st)" and "u \<in> set (users st)"
  shows "get_user (u_id u) st = Inr u"
  using select_row_key [of u_id "users st" u "u_id u"] assms by (simp add: get_user_def users_ok_def)

lemma by_username_on_user:
  assumes "get_user_by_username name st = Inr u" and "\<And>x. u_username (f x) = u_username x"
  shows "get_user_by_username name (on_user (u_id u) f st) = Inr (f u)"
  using assms select_update_key [of u_username f name "\<lambda>x. u_id x = u_id u" "users st"]
  by (auto simp: get_user_by_username_def on_user_def split: option.splits)

lemma users_ok_on_user:
  assumes "users_ok (users st)" and "\<And>x. u_id (f x) = u_id x" and "\<And>x. u_username (f x) = u_username x"
    and "\<And>x. u_role (f x) = u_role x"
  shows "users_ok (users (on_user i f st))"
  using assms by (auto simp: users_ok_def on_user_def unique_by_update list_all_iff set_update_rows)

definition failed_once :: "int \<Rightarrow> user \<Rightarrow> user" where
  "failed_once later u =
     u\<lparr>u_failed := u_failed u + 1, u_updated := later,
       u_locked_until := (if 5 \<le> u_failed u + 1 then Some (later + lock_time) else u_locked_until u)\<rparr>"

lemma authenticate_wrong:
  assumes "users_ok (users st)" and "get_user_by_username name st = Inr u" and "u_enabled u"
    and "\<not> is_locked now u" and "\<not> check_password env (u_password_hash u) pw"
  obtains st' where "authenticate env now later name pw st = (Inl InvalidCredentials, st')"
    and "get_user_by_username name st' = Inr (failed_once later u)" and "users_ok (users st')"
proof -
  let ?n = "u_failed u + 1"
  let ?f = "\<lambda>x. if 5 \<le> ?n then x\<lparr>u_failed := ?n, u_locked_until := Some (later + lock_time), u_updated := later\<rparr>
              else x\<lparr>u_failed := ?n, u_updated := later\<rparr>"
  note g = get_user_id [OF assms(1) by_username_facts(1) [OF assms(2)]]
  have inc: "increment_failed_logins later (u_id u) st = on_user (u_id u) ?f st"
    using g by (simp add: increment_failed_logins_def Let_def)
  show ?thesis
  proof (rule that)
    show "authenticate env now later name pw st = (Inl InvalidCredentials, on_user (u_id u) ?f st)"
      using assms inc by (simp add: authenticate_def)
    show "get_user_by_username name (on_user (u_id u) ?f st) = Inr (failed_once later u)"
      by (subst by_username_on_user [OF assms(2)]) (simp_all add: failed_once_def)
    show "users_ok (users (on_user (u_id u) ?f st))"
      using assms(1) by (rule users_ok_on_user) simp_all
  qed
qed

lemma locked_refused:
  assumes "get_user_by_username name st = Inr u" and "is_locked now u"
  shows "authenticate env now later name pw st = (Inl AccountDisabled, st)"
  using assms by (simp add: authenticate_def)

text \<open>A sequence of attempts: the two clock readings and the password of each.\<close>

fun attempts :: "auth_env \<Rightarrow> string \<Rightarrow> (int \<times> int \<times> string) list \<Rightarrow> auth_state \<Rightarrow> auth_state" where
  "attempts env name [] st = st"
| "attempts env name ((now, later, pw) # as) st =
     attempts env name as (snd (authenticate env now later name pw st))"

lemma attempts_snoc:
  "attempts env name (as @ [(now, later, pw)]) st = snd (authenticate env now later name pw (attempts env name as st))"
  by (induction env name as st rule: attempts.induct) simp_all

definition all_wrong :: "auth_env \<Rightarrow> string \<Rightarrow> (int \<times> int \<times> string) list \<Rightarrow> bool" where
  "all_wrong env h as = list_all (\<lambda>(now, later, pw). \<not> check_password env h pw) as"

lemma few_failures:
  assumes "users_ok (users st)" and "get_user_by_username name st = Inr u" and "u_enabled u"
    and "u_locked_until u = None" and "all_wrong env (u_password_hash u) as"
    and "u_failed u + int (length as) \<le> 4"
  shows "\<exists>v. get_user_by_username name (attempts env name as st) = Inr v \<and> users_ok (users (attempts env name as st))
     \<and> u_enabled v \<and> u_locked_until v = None \<and> u_password_hash v = u_password_hash u
     \<and> u_failed v = u_failed u + int (length as)"
  using assms
proof (induction as arbitrary: st u)
  case (Cons a as)
  obtain now later pw where a: "a = (now, later, pw)" by (cases a)
  have w: "\<not> check_password env (u_password_hash u) pw" "all_wrong env (u_password_hash u) as"
    using Cons.prems(5) a by (simp_all add: all_wrong_def)
  have "\<not> is_locked now u" using Cons.prems(4) by (simp add: is_locked_def)
  from authenticate_wrong [OF Cons.prems(1-3) this w(1), of later] obtain st' where
    st': "authenticate env now later name pw st = (Inl InvalidCredentials, st')"
    "get_user_by_username name st' = Inr (failed_once later u)" "users_ok (users st')" .
  have f: "u_enabled (failed_once later u)" "u_locked_until (failed_once later u) = None"
    "u_password_hash (failed_once later u) = u_password_hash u" "u_failed (failed_once later u) = u_failed u + 1"
    using Cons.prems(3,4,6) by (simp_all add: failed_once_def)
  have "\<exists>v. get_user_by_username name (attempts env name as st') = Inr v \<and> users_ok (users (attempts env name as st'))
     \<and> u_enabled v \<and> u_locked_until v = None \<and> u_password_hash v = u_password_hash (failed_once later u)
     \<and> u_failed v = u_failed (failed_once later u) + int (length as)"
    using st'(2,3) f w(2) Cons.prems(6) by (intro Cons.IH) simp_all
  then show ?case using a st'(1) f by auto
qed auto

lemma failure_locks:
  assumes "users_ok (users st)" and "get_user_by_username name st = Inr u" and "u_enabled u"
    and "\<not> is_locked now u" and "\<not> check_password env (u_password_hash u) pw" and "4 \<le> u_failed u"
    and "now' < later + lock_time"
  shows "authenticate env now' later' name pw' (snd (authenticate env now later name pw st))
     = (Inl AccountDisabled, snd (authenticate env now later name pw st))"
proof -
  from authenticate_wrong [OF assms(1-5), of later] obtain st' where
    st': "authenticate env now later name pw st = (Inl InvalidCredentials, st')"
    "get_user_by_username name st' = Inr (failed_once later u)" .
  have "is_locked now' (failed_once later u)"
    using assms(6,7) by (simp add: failed_once_def is_locked_def)
  from locked_refused [OF st'(2) this] show ?thesis by (simp add: st'(1))
qed


section \<open>Properties\<close>

text \<open>The library functions of the witnesses: a hash that prefixes and passwords kept as they are.\<close>

definition sample_env :: auth_env where
  "sample_env = \<lparr>foreign_keys = True, hash_token = (\<lambda>s. CHR ''h'' # s), hash_password = (\<lambda>salt p. Some p), check_password = (=)\<rparr>"

definition bob_state :: auth_state where
  "bob_state = snd (create_api_token sample_env ''ff'' ''t1'' 7 ''u1'' ''cli''
     (snd (create_user sample_env [] ''u1'' 5 ''bob'' ''hunter2'' ''admin'' empty_auth)))"

lemma bob_reachable: "auth_reachable sample_env bob_state"
  unfolding auth_reachable_def bob_state_def
  by (rule rtranclp.rtrancl_into_rtrancl, rule rtranclp.rtrancl_into_rtrancl,
      rule rtranclp.rtrancl_refl, rule user_added, rule token_created)

text \<open>
  C4. In every state the store's operations reach from empty tables, identifiers, user names and
  token hashes are unique and every stored role is one of the three roles; where the connection enforces foreign
  keys, as \<^verbatim>\<open>database.Open\<close> sets it up for a file, every token and every audit record also belongs to a
  stored account.
\<close>

theorem auth_reachable_inv:
  assumes "auth_reachable env st"
  shows "auth_inv env st"
  using assms unfolding auth_reachable_def
proof (induction rule: rtranclp_induct)
  case base
  show ?case by (simp add: auth_inv_def users_ok_def refs_ok_def unique_by_def empty_auth_def)
next
  case (step y z)
  then show ?case using auth_step_inv by blast
qed

theorem auth_reachable_inv_witness:
  "auth_reachable sample_env bob_state \<and> auth_inv sample_env bob_state"
  by (rule conjI [OF bob_reachable auth_reachable_inv [OF bob_reachable]])

text \<open>
  On the in-memory database nothing checks the user of an audit record: \<^verbatim>\<open>LogAudit\<close> of an unknown user
  succeeds on empty tables, as \<^verbatim>\<open>TestLogAudit_Writes\<close> expects, and is refused on a file.
\<close>

theorem audit_of_unknown_user:
  "fst (log_audit (sample_env\<lparr>foreign_keys := False\<rparr>) ''a1'' 7 ''uid'' ''act'' ''res'' ''det'' ''1.2.3.4'' empty_auth) = Inr ()
   \<and> fst (log_audit sample_env ''a1'' 7 ''uid'' ''act'' ''res'' ''det'' ''1.2.3.4'' empty_auth) = Inl ConstraintFailure"
  by code_simp

text \<open>
  C2. A revoked token stays revoked: after \<^verbatim>\<open>RevokeAPITokenByValue\<close> succeeds, the token is
  refused by \<^verbatim>\<open>ValidateAPIToken\<close> and by the middleware in every later state, whatever
  operations follow. The UNIQUE hash column keeps a new token from reviving it, so nothing is
  assumed of the hash function.
\<close>

theorem revoked_token_stays_revoked:
  assumes "revoke_api_token_by_value env secret st = (Inr (), st1)" and "(auth_step env)\<^sup>*\<^sup>* st1 st2"
  shows "validate_api_token env secret st2 = Inl TokenRevoked
     \<and> auth_middleware env (''Bearer '' @ secret) st2 = Inl InvalidToken"
proof -
  have "token_known st2 (hash_token env secret) \<and> \<not> token_live st2 (hash_token env secret)"
    using assms(2) revoked_by_value [OF assms(1)] by (rule api_tokens.revoked_forever)
  then have v: "validate_api_token env secret st2 = Inl TokenRevoked"
    by (intro dead_token_refused) simp_all
  then show ?thesis using split_blank_bearer [of secret] by (simp add: auth_middleware_def)
qed

definition bob_logged_out :: auth_state where
  "bob_logged_out = snd (revoke_api_token_by_value sample_env ''siem_ff'' bob_state)"

definition bob_again :: auth_state where
  "bob_again = snd (create_api_token sample_env ''ee'' ''t2'' 9 ''u1'' ''cli'' bob_logged_out)"

theorem revoked_token_stays_revoked_witness:
  "revoke_api_token_by_value sample_env ''siem_ff'' bob_state = (Inr (), bob_logged_out)
   \<and> (auth_step sample_env)\<^sup>*\<^sup>* bob_logged_out bob_again
   \<and> (validate_api_token sample_env ''siem_ff'' bob_again = Inl TokenRevoked
      \<and> auth_middleware sample_env (''Bearer '' @ ''siem_ff'') bob_again = Inl InvalidToken)"
proof -
  have r: "revoke_api_token_by_value sample_env ''siem_ff'' bob_state = (Inr (), bob_logged_out)"
    by code_simp
  have s: "(auth_step sample_env)\<^sup>*\<^sup>* bob_logged_out bob_again"
    unfolding bob_again_def by (rule r_into_rtranclp) (rule token_created)
  show ?thesis by (intro conjI r s revoked_token_stays_revoked [OF r s])
qed

text \<open>
  C3. Five wrong passwords lock an account: from a fresh count, after five failed attempts every
  attempt before 15 minutes from the fifth has passed is refused, the right password included,
  and leaves the store as it is.
\<close>

theorem five_failures_lock:
  assumes "users_ok (users st)" and "get_user_by_username name st = Inr u" and "u_enabled u"
    and "u_locked_until u = None" and "u_failed u = 0"
    and "length as = 4" and "all_wrong env (u_password_hash u) (as @ [(now, later, pw)])"
    and "now' < later + lock_time"
  shows "authenticate env now' later' name pw' (attempts env name (as @ [(now, later, pw)]) st)
     = (Inl AccountDisabled, attempts env name (as @ [(now, later, pw)]) st)"
proof -
  have w: "all_wrong env (u_password_hash u) as" "\<not> check_password env (u_password_hash u) pw"
    using assms(7) by (simp_all add: all_wrong_def)
  obtain v where v: "get_user_by_username name (attempts env name as st) = Inr v"
    "users_ok (users (attempts env name as st))" "u_enabled v" "u_locked_until v = None"
    "u_password_hash v = u_password_hash u" "u_failed v = 4"
    using few_failures [OF assms(1-4) w(1)] assms(5,6) by auto
  have "\<not> is_locked now v" using v(4) by (simp add: is_locked_def)
  from failure_locks [OF v(2,1,3) this _ _ assms(8)] w(2) v(5,6) show ?thesis
    by (simp add: attempts_snoc)
qed

definition bob_row :: user where
  "bob_row = new_user ''u1'' ''bob'' ''hunter2'' ''admin'' 5"

definition four_tries :: "(int \<times> int \<times> string) list" where
  "four_tries = [(10, 11, ''a''), (20, 21, ''b''), (30, 31, ''c''), (40, 41, ''d'')]"

theorem five_failures_lock_witness:
  "users_ok (users bob_state) \<and> get_user_by_username ''bob'' bob_state = Inr bob_row \<and> u_enabled bob_row
   \<and> u_locked_until bob_row = None \<and> u_failed bob_row = 0 \<and> length four_tries = 4
   \<and> all_wrong sample_env (u_password_hash bob_row) (four_tries @ [(50, 51, ''e'')])
   \<and> (60::int) < 51 + lock_time
   \<and> authenticate sample_env 60 61 ''bob'' ''hunter2'' (attempts sample_env ''bob'' (four_tries @ [(50, 51, ''e'')]) bob_state)
     = (Inl AccountDisabled, attempts sample_env ''bob'' (four_tries @ [(50, 51, ''e'')]) bob_state)"
proof -
  have h: "users_ok (users bob_state)" "get_user_by_username ''bob'' bob_state = Inr bob_row"
    "u_enabled bob_row" "u_locked_until bob_row = None" "u_failed bob_row = 0" "length four_tries = 4"
    "all_wrong sample_env (u_password_hash bob_row) (four_tries @ [(50, 51, ''e'')])" "(60::int) < 51 + lock_time"
    by code_simp+
  show ?thesis by (intro conjI h five_failures_lock [OF h])
qed

text \<open>
  An expired lock does not reset the count: on an account whose count has reached five, one
  more wrong password locks it for another 15 minutes.
\<close>

theorem one_failure_relocks:
  assumes "users_ok (users st)" and "get_user_by_username name st = Inr u" and "u_enabled u"
    and "\<not> is_locked now u" and "5 \<le> u_failed u" and "\<not> check_password env (u_password_hash u) pw"
    and "now' < later + lock_time"
  shows "fst (authenticate env now' later' name pw' (snd (authenticate env now later name pw st)))
     = Inl AccountDisabled"
  using failure_locks [OF assms(1-4) assms(6) _ assms(7)] assms(5) by simp

definition stale_row :: user where
  "stale_row = bob_row\<lparr>u_failed := 5, u_locked_until := Some 100\<rparr>"

definition stale_state :: auth_state where
  "stale_state = \<lparr>users = [stale_row], tokens = [], audit = []\<rparr>"

theorem one_failure_relocks_witness:
  "users_ok (users stale_state) \<and> get_user_by_username ''bob'' stale_state = Inr stale_row
   \<and> u_enabled stale_row \<and> \<not> is_locked 100 stale_row \<and> 5 \<le> u_failed stale_row
   \<and> \<not> check_password sample_env (u_password_hash stale_row) ''x'' \<and> (200::int) < 101 + lock_time
   \<and> fst (authenticate sample_env 200 201 ''bob'' ''hunter2''
        (snd (authenticate sample_env 100 101 ''bob'' ''x'' stale_state))) = Inl AccountDisabled"
proof -
  have h: "users_ok (users stale_state)" "get_user_by_username ''bob'' stale_state = Inr stale_row"
    "u_enabled stale_row" "\<not> is_locked 100 stale_row" "5 \<le> u_failed stale_row"
    "\<not> check_password sample_env (u_password_hash stale_row) ''x''" "(200::int) < 101 + lock_time"
    by code_simp+
  show ?thesis by (intro conjI h one_failure_relocks [OF h])
qed

definition bcrypt_law :: "auth_env \<Rightarrow> bool" where
  "bcrypt_law env = (\<forall>salt p h. hash_password env salt p = Some h \<longrightarrow> check_password env h p)"

text \<open>
  A new account can log in: when \<^verbatim>\<open>CreateUser\<close> succeeds, \<^verbatim>\<open>Authenticate\<close> with the same
  name and password succeeds and answers the account with the requested role (viewer when none was
  given), provided bcrypt accepts the password a hash was made from.
\<close>

theorem created_user_logs_in:
  assumes "bcrypt_law env" and "create_user env salt i t name pw role st = (Inr (), st')"
  shows "\<exists>u st''. authenticate env now later name pw st' = (Inr u, st'') \<and> u_id u = i
     \<and> u_username u = name \<and> u_role u = (if role = [] then ''viewer'' else role) \<and> u_role u \<in> set roles"
proof -
  let ?r = "if role = [] then ''viewer'' else role"
  obtain h where h: "hash_password env salt pw = Some h" and r: "?r \<in> set roles"
    and no: "row_count (\<lambda>u. u_username u = name) (users st) = 0"
    and st': "st' = st\<lparr>users := users st @ [new_user i name h ?r t]\<rparr>"
    using assms(2) by (auto simp: create_user_def insert_user_def Let_def new_user_def
        split: if_splits option.splits)
  have "select_row (\<lambda>u. u_username u = name) (users st) = None"
    using no by (simp add: row_count_def select_row_None filter_empty_conv)
  then have "get_user_by_username name st' = Inr (new_user i name h ?r t)"
    by (simp add: get_user_by_username_def st' select_snoc new_user_def)
  then show ?thesis
    using assms(1) h r by (simp add: authenticate_def new_user_def is_locked_def bcrypt_law_def)
qed

definition eve_state :: auth_state where
  "eve_state = snd (create_user sample_env [] ''u2'' 6 ''eve'' ''secret'' [] bob_state)"

theorem created_user_logs_in_witness:
  "bcrypt_law sample_env
   \<and> create_user sample_env [] ''u2'' 6 ''eve'' ''secret'' [] bob_state = (Inr (), eve_state)
   \<and> (\<exists>u st''. authenticate sample_env 7 8 ''eve'' ''secret'' eve_state = (Inr u, st'') \<and> u_id u = ''u2''
     \<and> u_username u = ''eve'' \<and> u_role u = (if [] = ([] :: string) then ''viewer'' else []) \<and> u_role u \<in> set roles)"
proof -
  have b: "bcrypt_law sample_env" by (simp add: bcrypt_law_def sample_env_def)
  have c: "create_user sample_env [] ''u2'' 6 ''eve'' ''secret'' [] bob_state = (Inr (), eve_state)"
    by code_simp
  show ?thesis by (intro conjI b c created_user_logs_in [OF b c])
qed

text \<open>
  C37. What the middleware lets pass: only a bearer header whose secret hashes to an enabled token
  of an enabled account.
\<close>

theorem middleware_sound:
  assumes "auth_middleware env header st = Inr h"
  shows "h = header \<and> (\<exists>secret t u. split_blank header = [''Bearer'', secret] \<and> t \<in> set (tokens st)
     \<and> tk_hash t = hash_token env secret \<and> tk_enabled t \<and> u \<in> set (users st) \<and> u_id u = tk_user t \<and> u_enabled u)"
proof -
  obtain secret t u where s: "split_blank header = [''Bearer'', secret]"
    and v: "validate_api_token env secret st = Inr t" and g: "get_user (tk_user t) st = Inr u"
    and e: "u_enabled u" "h = header"
    using assms by (auto simp: auth_middleware_def split: if_splits list.splits sum.splits)
  have "t \<in> set (tokens st)" "tk_hash t = hash_token env secret" "tk_enabled t"
    using v select_row_Some [of "\<lambda>t. tk_hash t = hash_token env secret" "tokens st"]
    by (auto simp: validate_api_token_def split: option.splits if_splits)
  moreover have "u \<in> set (users st)" "u_id u = tk_user t"
    using g select_row_Some [of "\<lambda>x. u_id x = tk_user t" "users st"] by (auto simp: get_user_def split: option.splits)
  ultimately show ?thesis using s e by blast
qed

theorem middleware_sound_witness:
  "auth_middleware sample_env ''Bearer siem_ff'' bob_state = Inr ''Bearer siem_ff''
   \<and> (''Bearer siem_ff'' = ''Bearer siem_ff''
     \<and> (\<exists>secret t u. split_blank ''Bearer siem_ff'' = [''Bearer'', secret] \<and> t \<in> set (tokens bob_state)
       \<and> tk_hash t = hash_token sample_env secret \<and> tk_enabled t \<and> u \<in> set (users bob_state)
       \<and> u_id u = tk_user t \<and> u_enabled u))"
proof -
  have m: "auth_middleware sample_env ''Bearer siem_ff'' bob_state = Inr ''Bearer siem_ff''" by code_simp
  show ?thesis by (rule conjI [OF m middleware_sound [OF m]])
qed

definition two_admins :: auth_state where
  "two_admins = snd (disable_user 8 ''u2''
     (snd (create_user sample_env [] ''u2'' 6 ''amy'' ''secret'' ''admin'' bob_state)))"

text \<open>
  The last working administrator can be lost: a reachable store with one enabled administrator
  accepts the deletion of that account, because \<^verbatim>\<open>DeleteUser\<close> counts disabled administrators
  as remaining ones; no enabled administrator is left.
\<close>

theorem last_enabled_admin_deleted:
  "\<exists>st. auth_reachable sample_env st
     \<and> row_count (\<lambda>u. u_role u = ''admin'' \<and> u_enabled u) (users st) = 1
     \<and> fst (delete_user 9 ''u1'' st) = Inr ()
     \<and> row_count (\<lambda>u. u_role u = ''admin'' \<and> u_enabled u) (users (snd (delete_user 9 ''u1'' st))) = 0"
proof (intro exI conjI)
  show "auth_reachable sample_env two_admins"
    using bob_reachable unfolding auth_reachable_def two_admins_def
    by (elim rtranclp.rtrancl_into_rtrancl [OF rtranclp.rtrancl_into_rtrancl])
      (rule user_added user_disabled)+
qed code_simp+

text \<open>
  The audit list is bounded and newest first: at most 500 entries (50 for a limit out of
  range), all of them rows of the log that satisfy both filters, by decreasing time.
\<close>

theorem list_audit_bounded:
  "length (list_audit name action limit st) \<le> (if limit \<le> 0 \<or> 500 < limit then 50 else nat limit)
   \<and> sorted_wrt (\<lambda>a b. au_created (ae_row b) \<le> au_created (ae_row a)) (list_audit name action limit st)
   \<and> ae_row ` set (list_audit name action limit st) \<subseteq> {a \<in> set (audit st). audit_matches st name action a}"
proof -
  let ?rows = "filter (audit_matches st name action) (audit st)"
  let ?sorted = "rev (sort_key (\<lambda>a. (au_created a, au_id a)) ?rows)"
  have row: "ae_row (audit_entry_of st a) = a" for a by (simp add: audit_entry_of_def)
  have "sorted (map (\<lambda>a. (au_created a, au_id a)) (sort_key (\<lambda>a. (au_created a, au_id a)) ?rows))"
    by (rule sorted_sort_key)
  then have "sorted_wrt (\<lambda>a b. (au_created a, au_id a) \<le> (au_created b, au_id b))
      (sort_key (\<lambda>a. (au_created a, au_id a)) ?rows)"
    by (simp add: sorted_map)
  then have "sorted_wrt (\<lambda>a b. au_created a \<le> au_created b) (sort_key (\<lambda>a. (au_created a, au_id a)) ?rows)"
    by (rule sorted_wrt_mono_rel [rotated]) auto
  then have s: "sorted_wrt (\<lambda>a b. au_created (ae_row b) \<le> au_created (ae_row a)) (map (audit_entry_of st) ?sorted)"
    by (simp add: sorted_wrt_map sorted_wrt_rev row)
  have m: "ae_row ` set (map (audit_entry_of st) ?sorted) = {a \<in> set (audit st). audit_matches st name action a}"
    by (simp add: image_image row)
  have t: "ae_row ` set (take k (map (audit_entry_of st) ?sorted)) \<subseteq> {a \<in> set (audit st). audit_matches st name action a}" for k
    using image_mono [OF set_take_subset [of k "map (audit_entry_of st) ?sorted"], of ae_row] m by simp
  show ?thesis
    unfolding list_audit_def Let_def
    by (intro conjI sorted_wrt_take s t) simp
qed

end
