(* ===== verification/EventModel.thy ===== *)
theory EventModel
  imports Prelude
begin

text \<open>
  Events, \<^verbatim>\<open>pkg/event/event.go\<close>, and the field access of the detections that read them
  (\<^verbatim>\<open>internal/detections/correlation.go\<close>). A pointer to an event that may be nil is an
  \<open>event option\<close>. An attribute is the text \<^verbatim>\<open>fmt\<close> prints for its value; times are nanoseconds,
  0 for the zero time.
\<close>

record event =
  ev_id :: string
  ev_timestamp :: int
  ev_received_at :: int
  ev_source :: string
  ev_source_type :: string
  ev_host :: string
  ev_ip :: string
  ev_service :: string
  ev_application :: string
  ev_severity :: string
  ev_message :: string
  ev_event_type :: string
  ev_category :: string
  ev_action :: string
  ev_outcome :: string
  ev_user :: string
  ev_user_id :: string
  ev_process :: string
  ev_process_id :: string
  ev_parent_pid :: string
  ev_file_path :: string
  ev_destination_ip :: string
  ev_destination_port :: int
  ev_source_ip :: string
  ev_source_port :: int
  ev_attributes :: "(string \<times> string) list"
  ev_raw :: "string option"
  ev_raw_format :: string
  ev_trace_id :: string
  ev_span_id :: string

definition blank_event :: event where
  "blank_event =
     \<lparr>ev_id = [], ev_timestamp = 0, ev_received_at = 0, ev_source = [], ev_source_type = [], ev_host = [],
      ev_ip = [], ev_service = [], ev_application = [], ev_severity = [], ev_message = [], ev_event_type = [],
      ev_category = [], ev_action = [], ev_outcome = [], ev_user = [], ev_user_id = [], ev_process = [],
      ev_process_id = [], ev_parent_pid = [], ev_file_path = [], ev_destination_ip = [],
      ev_destination_port = 0, ev_source_ip = [], ev_source_port = 0, ev_attributes = [], ev_raw = None,
      ev_raw_format = [], ev_trace_id = [], ev_span_id = []\<rparr>"

section \<open>Severities\<close>

definition parse_severity :: "string \<Rightarrow> string" where
  "parse_severity raw =
     (let s = to_lower (trim_space raw)
      in if s \<in> {''debug'', ''dbg'', ''0''} then ''debug''
         else if s \<in> {''info'', ''informational'', ''1''} then ''info''
         else if s \<in> {''notice'', ''2''} then ''notice''
         else if s \<in> {''warning'', ''warn'', ''3''} then ''warning''
         else if s \<in> {''err'', ''error'', ''4''} then ''err''
         else if s \<in> {''critical'', ''crit'', ''5''} then ''critical''
         else if s \<in> {''alert'', ''6''} then ''alert''
         else if s \<in> {''emergency'', ''emerg'', ''7'', ''panic''} then ''emergency''
         else s)"

definition severity_names :: "string list" where
  "severity_names = [''debug'', ''info'', ''notice'', ''warning'', ''err'', ''critical'', ''alert'', ''emergency'']"

fun index_of :: "string \<Rightarrow> string list \<Rightarrow> int" where
  "index_of s [] = - 1"
| "index_of s (x # xs) = (if s = x then 0 else let i = index_of s xs in if i < 0 then - 1 else i + 1)"

definition severity_rank :: "string \<Rightarrow> int" where
  "severity_rank s = index_of s severity_names"

section \<open>Field access\<close>

definition event_field :: "string \<Rightarrow> event \<Rightarrow> string" where
  "event_field field ev =
     (let f = to_lower (trim_space field)
      in if f \<in> {''source_type'', ''sourcetype'', ''source''}
         then (if ev_source_type ev \<noteq> [] then ev_source_type ev else ev_source ev)
         else if f \<in> {''event_type'', ''eventtype''} then ev_event_type ev
         else if f = ''category'' then ev_category ev
         else if f = ''action'' then ev_action ev
         else if f = ''outcome'' then ev_outcome ev
         else if f = ''user'' then ev_user ev
         else if f = ''host'' then ev_host ev
         else if f = ''process'' then ev_process ev
         else if f = ''service'' then ev_service ev
         else if f \<in> {''severity'', ''sev''} then ev_severity ev
         else if f \<in> {''source_ip'', ''src_ip''} then ev_source_ip ev
         else if f \<in> {''destination_ip'', ''dest_ip''} then ev_destination_ip ev
         else case map_of (ev_attributes ev) (to_lower field) of Some v \<Rightarrow> v | None \<Rightarrow> [])"

definition predicate_matches :: "(string \<times> string) list \<Rightarrow> event \<Rightarrow> bool" where
  "predicate_matches pred ev = list_all (\<lambda>(k, want). equal_fold (event_field k ev) want) pred"

fun key_values :: "string list \<Rightarrow> event \<Rightarrow> string list option" where
  "key_values [] ev = Some []"
| "key_values (f # fs) ev =
     (let v = event_field f ev
      in if trim_space v = [] then None
         else case key_values fs ev of None \<Rightarrow> None | Some vs \<Rightarrow> Some (v # vs))"

lemma key_values_Some:
  "key_values fs ev = Some vs \<Longrightarrow> vs = map (\<lambda>f. event_field f ev) fs \<and> list_all (\<lambda>v. trim_space v \<noteq> []) vs"
  by (induction fs arbitrary: vs) (auto simp: Let_def split: if_splits option.splits)

end
