(* ===== verification/FindingStore.thy ===== *)
theory FindingStore
  imports Complex_Main EventModel Tables "HOL-Library.Multiset"
begin

text \<open>
  The analyst queue, \<^verbatim>\<open>internal/findings/findings.go\<close>: findings are created by detections, refreshed
  by later runs with the same deduplication key, and triaged by analysts. A row of the table is a
  \<open>finding\<close>; an empty text stands for NULL where the code writes one (\<^verbatim>\<open>nullStr\<close>). A risk score
  is the exact value of the float (no NaN), a time is nanoseconds with 0 for the zero time. New
  identifiers, clock readings, SQLite's \<^verbatim>\<open>LIKE\<close> and the order in which a Go map is iterated are
  arguments.
\<close>

section \<open>State\<close>

record finding =
  f_id :: string
  f_title :: string
  f_description :: string
  f_severity :: string
  f_status :: string
  f_risk :: rat
  f_detection_id :: string
  f_detection_name :: string
  f_dedup :: string
  f_user :: string
  f_host :: string
  f_source_ip :: string
  f_destination_ip :: string
  f_data_source :: string
  f_tactic :: string
  f_technique :: string
  f_owner :: string
  f_tags :: "string list"
  f_alert_ids :: "string list"
  f_event_ids :: "string list"
  f_entities :: "string list"
  f_match_count :: int
  f_first_seen :: int
  f_last_seen :: int
  f_created :: int
  f_updated :: int

record analyst_note =
  n_id :: string
  n_finding :: string
  n_author :: string
  n_content :: string
  n_created :: int

record finding_state =
  findings :: "finding list"
  finding_notes :: "analyst_note list"

datatype finding_error =
    NoRuleOrGroup
  | EmptyFindingId
  | EmptyNote
  | InvalidStatus string
  | FindingNotFound string
  | WriteFailure

definition empty_findings :: finding_state where
  "empty_findings = \<lparr>findings = [], finding_notes = []\<rparr>"

section \<open>Severity and status\<close>

definition statuses :: "string list" where
  "statuses = [''new'', ''in_progress'', ''investigating'', ''contained'', ''resolved'', ''false_positive'']"

definition valid_status :: "string \<Rightarrow> bool" where
  "valid_status s = (s \<in> set statuses)"

definition severity :: "string \<Rightarrow> string" where
  "severity raw =
     (let s = to_lower (trim_space raw)
      in if s \<in> {''critical'', ''emergency'', ''alert''} then ''critical''
         else if s \<in> {''high'', ''err'', ''error''} then ''high''
         else if s \<in> {''medium'', ''warning'', ''warn'', ''notice''} then ''medium''
         else if s \<in> {''low'', ''info'', ''debug'', []} then ''low''
         else ''medium'')"

definition severity_points :: "string \<Rightarrow> rat" where
  "severity_points s =
     (if severity s = ''critical'' then 50
      else if severity s = ''high'' then 35
      else if severity s = ''medium'' then 20 else 10)"

section \<open>Merging\<close>

fun dedup_onto :: "string list \<Rightarrow> string list \<Rightarrow> string list" where
  "dedup_onto out [] = out"
| "dedup_onto out (v # vs) = dedup_onto (if v \<in> set out then out else out @ [v]) vs"

fun add_capped :: "int \<Rightarrow> string list \<Rightarrow> string list \<Rightarrow> string list" where
  "add_capped cap out [] = out"
| "add_capped cap out (v # vs) =
     (if cap \<le> int (length out) then out
      else add_capped cap (if v \<in> set out then out else out @ [v]) vs)"

definition merge_strings :: "string list \<Rightarrow> string list \<Rightarrow> int \<Rightarrow> string list" where
  "merge_strings base add cap = add_capped cap (dedup_onto [] base) add"

fun primary_field :: "(event \<Rightarrow> string) \<Rightarrow> event option list \<Rightarrow> string" where
  "primary_field g [] = []"
| "primary_field g (None # evs) = primary_field g evs"
| "primary_field g (Some ev # evs) = (if g ev = [] then primary_field g evs else g ev)"

definition primary_entities :: "event option list \<Rightarrow> string \<times> string \<times> string \<times> string" where
  "primary_entities evs =
     (primary_field ev_user evs, primary_field ev_host evs, primary_field ev_source_ip evs,
      primary_field ev_destination_ip evs)"

text \<open>The identifiers and the entity references of the events; an event without identifier is skipped.\<close>

definition usable :: "event option list \<Rightarrow> event list" where
  "usable evs = concat (map (\<lambda>e. case e of None \<Rightarrow> [] | Some ev \<Rightarrow> if ev_id ev = [] then [] else [ev]) evs)"

definition event_ids :: "event option list \<Rightarrow> string list" where
  "event_ids evs = dedup_onto [] (map ev_id (usable evs))"

definition entity_ref :: "string \<Rightarrow> string \<Rightarrow> string list" where
  "entity_ref t v = (if v = [] then [] else [t @ '':'' @ v])"

definition event_entities :: "event \<Rightarrow> string list" where
  "event_entities ev =
     entity_ref ''user'' (ev_user ev) @ entity_ref ''host'' (ev_host ev) @ entity_ref ''ip'' (ev_source_ip ev)
     @ entity_ref ''ip'' (ev_destination_ip ev) @ entity_ref ''process'' (ev_process ev)"

record detection_args =
  da_rule_id :: string
  da_rule_name :: string
  da_group_key :: string
  da_title :: string
  da_description :: string
  da_severity :: string
  da_risk :: rat
  da_data_source :: string
  da_tactic :: string
  da_technique :: string
  da_tags :: "string list"
  da_matched :: int
  da_events :: "event option list"
  da_entities :: "string list"

definition entity_set :: "detection_args \<Rightarrow> string list" where
  "entity_set a =
     dedup_onto [] (concat (map event_entities (usable (da_events a))) @ filter (\<lambda>e. e \<noteq> []) (da_entities a))"

section \<open>Operations\<close>

definition by_dedup_key :: "string \<Rightarrow> finding_state \<Rightarrow> finding option" where
  "by_dedup_key k st = (if k = [] then None else select_row (\<lambda>f. f_dedup f = k) (findings st))"

text \<open>\<^verbatim>\<open>Create\<close>: the defaults it fills in, and the insert, refused by the primary key and the unique key.\<close>

definition with_defaults :: "string \<Rightarrow> int \<Rightarrow> int \<Rightarrow> finding \<Rightarrow> finding" where
  "with_defaults i seen now f =
     (let first = (if f_first_seen f = 0 then seen else f_first_seen f)
      in f\<lparr>f_id := (if f_id f = [] then i else f_id f),
           f_severity := (if f_severity f = [] then ''medium'' else f_severity f),
           f_status := (if f_status f = [] then ''new'' else f_status f),
           f_first_seen := first,
           f_last_seen := (if f_last_seen f = 0 then first else f_last_seen f),
           f_created := now, f_updated := now\<rparr>)"

definition create_finding :: "string \<Rightarrow> int \<Rightarrow> int \<Rightarrow> finding \<Rightarrow> finding_state
    \<Rightarrow> (finding_error + finding) \<times> finding_state" where
  "create_finding i seen now f st =
     (let g = with_defaults i seen now f
      in if taken f_id (f_id g) (findings st) \<or> (f_dedup g \<noteq> [] \<and> taken f_dedup (f_dedup g) (findings st))
         then (Inl WriteFailure, st)
         else (Inr g, st\<lparr>findings := findings st @ [g]\<rparr>))"

text \<open>\<^verbatim>\<open>Update\<close> writes every column but the identifier, the deduplication key and the creation time.\<close>

definition update_finding :: "int \<Rightarrow> finding \<Rightarrow> finding_state \<Rightarrow> (finding_error + finding) \<times> finding_state" where
  "update_finding now f st =
     (if f_id f = [] then (Inl EmptyFindingId, st)
      else let g = f\<lparr>f_updated := now\<rparr>
           in (Inr g, st\<lparr>findings := update_rows (\<lambda>x. f_id x = f_id f)
                 (\<lambda>x. g\<lparr>f_id := f_id x, f_dedup := f_dedup x, f_created := f_created x\<rparr>) (findings st)\<rparr>))"

text \<open>The separator of a title is an em dash in the code; the Latin-1 model writes a hyphen.\<close>

definition dash :: string where
  "dash = '' '' @ [CHR ''-''] @ '' ''"

definition title_of :: "detection_args \<Rightarrow> string" where
  "title_of a =
     (let t = (if da_title a \<noteq> [] then da_title a else if da_rule_name a \<noteq> [] then da_rule_name a else ''Detection'')
      in if da_group_key a \<noteq> ''global'' then t @ dash @ da_group_key a else t)"

definition dedup_key :: "detection_args \<Rightarrow> string" where
  "dedup_key a = da_rule_id a @ ''|'' @ da_group_key a"

definition fill :: "string \<Rightarrow> string \<Rightarrow> string" where
  "fill old new = (if old = [] then new else old)"

definition refreshed :: "(string list \<Rightarrow> string list) \<Rightarrow> int \<Rightarrow> detection_args \<Rightarrow> finding \<Rightarrow> finding" where
  "refreshed ord now a f =
     (let (pu, ph, ps, pd) = primary_entities (da_events a)
      in f\<lparr>f_last_seen := now,
           f_match_count := f_match_count f + da_matched a,
           f_event_ids := merge_strings (f_event_ids f) (event_ids (da_events a)) 200,
           f_entities := merge_strings (f_entities f) (ord (entity_set a)) 50,
           f_user := fill (f_user f) pu, f_host := fill (f_host f) ph,
           f_source_ip := fill (f_source_ip f) ps, f_destination_ip := fill (f_destination_ip f) pd,
           f_risk := (if f_risk f < da_risk a then da_risk a else f_risk f)\<rparr>)"

definition new_finding :: "(string list \<Rightarrow> string list) \<Rightarrow> int \<Rightarrow> int \<Rightarrow> detection_args \<Rightarrow> finding" where
  "new_finding ord seen1 seen2 a =
     (let (pu, ph, ps, pd) = primary_entities (da_events a); sev = severity (da_severity a)
      in \<lparr>f_id = [], f_title = title_of a, f_description = da_description a, f_severity = sev, f_status = ''new'',
          f_risk = (if da_risk a = 0 then severity_points sev else da_risk a),
          f_detection_id = da_rule_id a, f_detection_name = da_rule_name a, f_dedup = dedup_key a,
          f_user = pu, f_host = ph, f_source_ip = ps, f_destination_ip = pd, f_data_source = da_data_source a,
          f_tactic = da_tactic a, f_technique = da_technique a, f_owner = [], f_tags = da_tags a,
          f_alert_ids = [], f_event_ids = event_ids (da_events a), f_entities = ord (entity_set a),
          f_match_count = da_matched a, f_first_seen = seen1, f_last_seen = seen2, f_created = 0, f_updated = 0\<rparr>)"

text \<open>
  \<^verbatim>\<open>CreateOrUpdateFromDetection\<close>: \<open>now1\<close> and \<open>now2\<close> are its own clock readings, \<open>now3\<close> the one of
  the write.
\<close>

definition create_or_update :: "(string list \<Rightarrow> string list) \<Rightarrow> string \<Rightarrow> int \<Rightarrow> int \<Rightarrow> int \<Rightarrow> detection_args
    \<Rightarrow> finding_state \<Rightarrow> (finding_error + finding \<times> bool) \<times> finding_state" where
  "create_or_update ord i now1 now2 now3 a st =
     (if da_rule_id a = [] \<or> da_group_key a = [] then (Inl NoRuleOrGroup, st)
      else case by_dedup_key (dedup_key a) st of
          Some f \<Rightarrow>
            (case update_finding now3 (refreshed ord now1 a f) st of
               (Inl e, st') \<Rightarrow> (Inl e, st')
             | (Inr g, st') \<Rightarrow> (Inr (g, False), st'))
        | None \<Rightarrow>
            (case create_finding i now3 now3 (new_finding ord now1 now2 a) st of
               (Inl e, st') \<Rightarrow> (Inl e, st')
             | (Inr g, st') \<Rightarrow> (Inr (g, True), st')))"

definition get_finding :: "string \<Rightarrow> finding_state \<Rightarrow> finding_error + finding" where
  "get_finding i st =
     (if i = [] then Inl EmptyFindingId
      else case select_row (\<lambda>f. f_id f = i) (findings st) of
          None \<Rightarrow> Inl (FindingNotFound i)
        | Some f \<Rightarrow> Inr f)"

definition write_one :: "string \<Rightarrow> (finding \<Rightarrow> finding) \<Rightarrow> finding_state \<Rightarrow> (finding_error + unit) \<times> finding_state" where
  "write_one i f st =
     (let st' = st\<lparr>findings := update_rows (\<lambda>x. f_id x = i) f (findings st)\<rparr>
      in if row_count (\<lambda>x. f_id x = i) (findings st) = 0 then (Inl (FindingNotFound i), st') else (Inr (), st'))"

definition update_status :: "int \<Rightarrow> string \<Rightarrow> string \<Rightarrow> finding_state \<Rightarrow> (finding_error + unit) \<times> finding_state" where
  "update_status now i status st =
     (if \<not> valid_status status then (Inl (InvalidStatus status), st)
      else write_one i (\<lambda>x. x\<lparr>f_status := status, f_updated := now\<rparr>) st)"

definition assign :: "int \<Rightarrow> string \<Rightarrow> string \<Rightarrow> finding_state \<Rightarrow> (finding_error + unit) \<times> finding_state" where
  "assign now i owner st = write_one i (\<lambda>x. x\<lparr>f_owner := owner, f_updated := now\<rparr>) st"

definition add_note :: "string \<Rightarrow> int \<Rightarrow> analyst_note \<Rightarrow> finding_state \<Rightarrow> (finding_error + analyst_note) \<times> finding_state" where
  "add_note i now n st =
     (if n_finding n = [] then (Inl EmptyFindingId, st)
      else if n_content n = [] then (Inl EmptyNote, st)
      else let m = n\<lparr>n_id := (if n_id n = [] then i else n_id n), n_created := now\<rparr>
           in if taken n_id (n_id m) (finding_notes st) \<or> \<not> taken f_id (n_finding m) (findings st)
              then (Inl WriteFailure, st)
              else (Inr m, st\<lparr>finding_notes := finding_notes st @ [m]\<rparr>))"

definition get_notes :: "string \<Rightarrow> finding_state \<Rightarrow> analyst_note list" where
  "get_notes i st = sort_key n_created (filter (\<lambda>n. n_finding n = i) (finding_notes st))"

section \<open>Queries\<close>

definition is_open :: "finding \<Rightarrow> bool" where
  "is_open f = (f_status f \<notin> {''resolved'', ''false_positive''})"

text \<open>\<^verbatim>\<open>Posture\<close>: the severity levels, the open findings and the status counts, as a total map.\<close>

definition posture :: "finding_state \<Rightarrow> string \<Rightarrow> nat option" where
  "posture st k =
     (if k = ''open'' then Some (row_count is_open (findings st))
      else if k \<in> {''critical'', ''high'', ''medium'', ''low''}
      then Some (row_count (\<lambda>f. severity (f_severity f) = k) (findings st))
      else if prefix ''status_'' k \<and> taken f_status (drop 7 k) (findings st)
      then Some (row_count (\<lambda>f. f_status f = drop 7 k) (findings st))
      else None)"

definition clamp_related :: "int \<Rightarrow> int" where
  "clamp_related limit = (if limit \<le> 0 \<or> 50 < limit then 20 else limit)"

definition touches :: "string \<Rightarrow> string \<Rightarrow> finding \<Rightarrow> bool" where
  "touches kind v f =
     (if kind = ''user'' then f_user f = v
      else if kind = ''host'' then f_host f = v
      else if kind = ''ip'' then f_source_ip f = v \<or> f_destination_ip f = v
      else False)"

definition related_by_entity :: "string \<Rightarrow> string \<Rightarrow> int \<Rightarrow> finding_state \<Rightarrow> finding list" where
  "related_by_entity kind v limit st =
     (if v = [] then []
      else take (nat (clamp_related limit))
        (rev (sort_key f_last_seen (filter (\<lambda>f. touches kind v f \<and> is_open f) (findings st)))))"

text \<open>The techniques of the open findings with their counts, the most frequent first.\<close>

definition active_techniques :: "finding_state \<Rightarrow> (string \<times> string \<times> nat) list" where
  "active_techniques st =
     (let ps = map (\<lambda>f. (f_tactic f, f_technique f)) (filter (\<lambda>f. f_technique f \<noteq> [] \<and> is_open f) (findings st));
          n = (\<lambda>p. length (filter (\<lambda>q. q = p) ps))
      in map (\<lambda>p. (fst p, snd p, n p)) (sort_key (\<lambda>p. (- int (n p), snd p)) (remdups ps)))"

text \<open>New findings per bucket of their first sighting, in seconds since the epoch; widths are nanoseconds.\<close>

definition bucket_seconds :: "int \<Rightarrow> int" where
  "bucket_seconds width = max 60000000000 (min 86400000000000 width) div 1000000000"

definition timeline :: "int \<Rightarrow> int \<Rightarrow> int \<Rightarrow> finding_state \<Rightarrow> (int \<times> nat) list" where
  "timeline start stop width st =
     (let sec = bucket_seconds width;
          bs = map (\<lambda>f. f_first_seen f div 1000000000 div sec * sec)
                 (filter (\<lambda>f. start \<le> f_first_seen f \<and> f_first_seen f \<le> stop) (findings st))
      in map (\<lambda>b. (b, length (filter (\<lambda>x. x = b) bs))) (sort (remdups bs)))"

record finding_filter =
  ff_severity :: string
  ff_status :: string
  ff_owner :: string
  ff_detection_id :: string
  ff_user :: string
  ff_host :: string
  ff_source_ip :: string
  ff_dest_ip :: string
  ff_risk_min :: rat
  ff_has_risk :: bool
  ff_tactic :: string
  ff_technique :: string
  ff_source :: string
  ff_tag :: string
  ff_text :: string
  ff_start :: int
  ff_end :: int
  ff_sort_by :: string
  ff_sort_order :: string
  ff_limit :: int
  ff_offset :: int

definition eq_or_any :: "string \<Rightarrow> string \<Rightarrow> bool" where
  "eq_or_any wanted v = (wanted = [] \<or> v = wanted)"

text \<open>
  The WHERE clause of \<^verbatim>\<open>List\<close>. \<open>like p t\<close> is SQLite's case-insensitive \<^verbatim>\<open>LIKE\<close> and \<open>json\<close> the
  JSON text of a list of texts.
\<close>

definition filter_matches :: "(string \<Rightarrow> string \<Rightarrow> bool) \<Rightarrow> (string list \<Rightarrow> string) \<Rightarrow> finding_filter \<Rightarrow> finding \<Rightarrow> bool" where
  "filter_matches like json q f =
     (eq_or_any (ff_severity q) (f_severity f) \<and> eq_or_any (ff_status q) (f_status f)
      \<and> eq_or_any (ff_owner q) (f_owner f) \<and> eq_or_any (ff_detection_id q) (f_detection_id f)
      \<and> eq_or_any (ff_user q) (f_user f) \<and> eq_or_any (ff_host q) (f_host f)
      \<and> eq_or_any (ff_source_ip q) (f_source_ip f) \<and> eq_or_any (ff_dest_ip q) (f_destination_ip f)
      \<and> eq_or_any (ff_tactic q) (f_tactic f) \<and> eq_or_any (ff_technique q) (f_technique f)
      \<and> eq_or_any (ff_source q) (f_data_source f)
      \<and> (\<not> (0 < ff_risk_min q \<or> ff_has_risk q) \<or> 0 < f_risk f)
      \<and> (\<not> 0 < ff_risk_min q \<or> ff_risk_min q \<le> f_risk f)
      \<and> (ff_text q = [] \<or>
           (let p = ''%'' @ ff_text q @ ''%''
            in like p (f_title f) \<or> (f_detection_name f \<noteq> [] \<and> like p (f_detection_name f)) \<or> like p (f_owner f)))
      \<and> (ff_tag q = [] \<or> like (''%'' @ [dquote] @ filter (\<lambda>c. c \<noteq> dquote) (ff_tag q) @ [dquote] @ ''%'') (json (f_tags f)))
      \<and> (ff_start q = 0 \<or> ff_start q \<le> f_last_seen f)
      \<and> (ff_end q = 0 \<or> f_last_seen f \<le> ff_end q))"

definition sort_rows :: "string \<Rightarrow> finding list \<Rightarrow> finding list" where
  "sort_rows col fs =
     (if col = ''risk_score'' then sort_key f_risk fs
      else if col = ''first_seen'' then sort_key f_first_seen fs
      else if col = ''created_at'' then sort_key f_created fs
      else if col = ''severity'' then sort_key f_severity fs
      else if col = ''title'' then sort_key f_title fs
      else if col = ''match_count'' then sort_key f_match_count fs
      else sort_key f_last_seen fs)"

definition clamp_limit :: "int \<Rightarrow> int" where
  "clamp_limit n = (if n \<le> 0 \<or> 500 < n then 100 else n)"

definition list_findings :: "(string \<Rightarrow> string \<Rightarrow> bool) \<Rightarrow> (string list \<Rightarrow> string) \<Rightarrow> finding_filter \<Rightarrow> finding_state
    \<Rightarrow> finding list \<times> nat" where
  "list_findings like json q st =
     (let rows = filter (filter_matches like json q) (findings st);
          sorted_rows = sort_rows (ff_sort_by q) rows;
          page = (if ff_sort_order q = ''asc'' then sorted_rows else rev sorted_rows)
      in (take (nat (clamp_limit (ff_limit q))) (drop (nat (max 0 (ff_offset q))) page), length rows))"

section \<open>Runs\<close>

inductive finding_step :: "(string list \<Rightarrow> string list) \<Rightarrow> finding_state \<Rightarrow> finding_state \<Rightarrow> bool" for ord where
  detected: "finding_step ord st (snd (create_or_update ord i now1 now2 now3 a st))"
| created: "f_status f = [] \<or> valid_status (f_status f) \<Longrightarrow> finding_step ord st (snd (create_finding i seen now f st))"
| edited: "valid_status (f_status f) \<Longrightarrow> finding_step ord st (snd (update_finding now f st))"
| triaged: "finding_step ord st (snd (update_status now i s st))"
| assigned: "finding_step ord st (snd (assign now i owner st))"
| annotated: "finding_step ord st (snd (add_note i now n st))"

inductive_cases finding_stepE: "finding_step ord st st'"


definition findings_reachable :: "(string list \<Rightarrow> string list) \<Rightarrow> finding_state \<Rightarrow> bool" where
  "findings_reachable ord st = (finding_step ord)\<^sup>*\<^sup>* empty_findings st"

section \<open>Merging, lemmas\<close>

lemma dedup_onto_append: "dedup_onto out (xs @ ys) = dedup_onto (dedup_onto out xs) ys"
  by (induction xs arbitrary: out) simp_all

lemma set_dedup_onto [simp]: "set (dedup_onto out xs) = set out \<union> set xs"
  by (induction xs arbitrary: out) auto

lemma distinct_dedup_onto: "distinct out \<Longrightarrow> distinct (dedup_onto out xs)"
  by (induction xs arbitrary: out) simp_all

lemma dedup_onto_prefix: "\<exists>ys. dedup_onto out xs = out @ ys"
proof (induction xs arbitrary: out)
  case (Cons x xs)
  show ?case
  proof (cases "x \<in> set out")
    case True
    then show ?thesis using Cons.IH [of out] by simp
  next
    case False
    obtain ys where "dedup_onto (out @ [x]) xs = (out @ [x]) @ ys" using Cons.IH by blast
    then show ?thesis using False by simp
  qed
qed simp

text \<open>The capped loop keeps a prefix of what the loop without the cap gives.\<close>

lemma add_capped_take:
  "add_capped cap out vs = (if cap \<le> int (length out) then out else take (nat cap) (dedup_onto out vs))"
proof (induction vs arbitrary: out)
  case (Cons v vs)
  show ?case
  proof (cases "cap \<le> int (length out)")
    case False
    let ?out = "if v \<in> set out then out else out @ [v]"
    have "add_capped cap out (v # vs) = add_capped cap ?out vs" using False by simp
    also have "\<dots> = take (nat cap) (dedup_onto ?out vs)"
    proof (cases "cap \<le> int (length ?out)")
      case True
      then have "nat cap = length ?out" using False by (auto split: if_splits)
      moreover obtain ys where "dedup_onto ?out vs = ?out @ ys" using dedup_onto_prefix by blast
      ultimately show ?thesis using Cons.IH [of ?out] True by simp
    next
      case small: False
      then show ?thesis using Cons.IH [of ?out] by simp
    qed
    finally show ?thesis using False by simp
  qed simp
qed auto

section \<open>The invariant of the queue\<close>

definition keyed :: "finding list \<Rightarrow> finding list" where
  "keyed fs = filter (\<lambda>f. f_dedup f \<noteq> []) fs"

definition finding_inv :: "finding_state \<Rightarrow> bool" where
  "finding_inv st =
     (unique_by f_id (findings st) \<and> unique_by f_dedup (keyed (findings st))
      \<and> list_all (\<lambda>f. valid_status (f_status f)) (findings st)
      \<and> unique_by n_id (finding_notes st)
      \<and> list_all (\<lambda>n. taken f_id (n_finding n) (findings st)) (finding_notes st))"

text \<open>A write that keeps identifiers and keys.\<close>

definition keeps_keys :: "(finding \<Rightarrow> finding) \<Rightarrow> bool" where
  "keeps_keys g = (\<forall>f. f_id (g f) = f_id f \<and> f_dedup (g f) = f_dedup f)"

lemma keyed_update:
  assumes "keeps_keys g"
  shows "keyed (update_rows p g fs) = update_rows p g (keyed fs)"
  using assms by (induction fs) (auto simp: keyed_def update_rows_def keeps_keys_def)

lemma update_inv:
  assumes "finding_inv st" and "keeps_keys g"
    and "\<And>f. f \<in> set (findings st) \<Longrightarrow> p f \<Longrightarrow> valid_status (f_status (g f))"
  shows "finding_inv (st\<lparr>findings := update_rows p g (findings st)\<rparr>)"
proof -
  have k: "f_id (g f) = f_id f" "f_dedup (g f) = f_dedup f" for f
    using assms(2) by (simp_all add: keeps_keys_def)
  have t: "taken f_id i (update_rows p g (findings st)) = taken f_id i (findings st)" for i
    using map_update_rows [of p f_id g "findings st"] k(1) by (metis taken_iff set_map)
  show ?thesis
    using assms(1,3) by (auto simp: finding_inv_def unique_by_update k keyed_update [OF assms(2)] t list_all_iff set_update_rows)
qed

lemma create_finding_inv:
  assumes "finding_inv st" and "f_status f = [] \<or> valid_status (f_status f)"
  shows "finding_inv (snd (create_finding i seen now f st))"
proof -
  let ?g = "with_defaults i seen now f"
  have v: "valid_status (f_status ?g)"
    using assms(2) by (auto simp: with_defaults_def Let_def valid_status_def statuses_def)
  have t: "taken f_dedup k fs = taken f_dedup k (keyed fs)" if "k \<noteq> []" for k and fs :: "finding list"
    using that by (induction fs) (auto simp: taken_def keyed_def)
  show ?thesis
    using assms(1) v t [of "f_dedup ?g" "findings st"]
    by (auto simp: create_finding_def Let_def finding_inv_def unique_by_snoc keyed_def taken_iff list_all_iff)
qed

lemma update_finding_inv:
  assumes "finding_inv st" and "valid_status (f_status f)"
  shows "finding_inv (snd (update_finding now f st))"
  using update_inv [OF assms(1), of "\<lambda>x. f\<lparr>f_updated := now, f_id := f_id x, f_dedup := f_dedup x, f_created := f_created x\<rparr>"
      "\<lambda>x. f_id x = f_id f"] assms
  by (simp add: update_finding_def keeps_keys_def Let_def)

lemma write_one_inv:
  assumes "finding_inv st" and "keeps_keys g" and "\<And>f. valid_status (f_status f) \<Longrightarrow> valid_status (f_status (g f))"
  shows "finding_inv (snd (write_one i g st))"
proof -
  have "valid_status (f_status (g f))" if "f \<in> set (findings st)" for f
    using that assms(1,3) by (simp add: finding_inv_def list_all_iff)
  then show ?thesis using update_inv [OF assms(1,2), of "\<lambda>x. f_id x = i"] by (simp add: write_one_def Let_def)
qed

lemma by_dedup_key_Some: "by_dedup_key k st = Some f \<Longrightarrow> f \<in> set (findings st) \<and> f_dedup f = k \<and> k \<noteq> []"
  using select_row_Some [of "\<lambda>f. f_dedup f = k" "findings st" f] by (auto simp: by_dedup_key_def split: if_splits)

lemma refreshed_keeps:
  "f_id (refreshed ord now a f) = f_id f" "f_dedup (refreshed ord now a f) = f_dedup f"
  "f_status (refreshed ord now a f) = f_status f" "f_owner (refreshed ord now a f) = f_owner f"
  "f_title (refreshed ord now a f) = f_title f" "f_severity (refreshed ord now a f) = f_severity f"
  "f_created (refreshed ord now a f) = f_created f" "f_first_seen (refreshed ord now a f) = f_first_seen f"
  by (simp_all add: refreshed_def primary_entities_def)

lemma create_or_update_inv:
  assumes "finding_inv st"
  shows "finding_inv (snd (create_or_update ord i now1 now2 now3 a st))"
proof (cases "da_rule_id a = [] \<or> da_group_key a = []")
  case True
  then show ?thesis using assms by (simp add: create_or_update_def)
next
  case False
  show ?thesis
  proof (cases "by_dedup_key (dedup_key a) st")
    case None
    have "f_status (new_finding ord now1 now2 a) = ''new''" by (simp add: new_finding_def primary_entities_def Let_def)
    then have "valid_status (f_status (new_finding ord now1 now2 a))" by (simp add: valid_status_def statuses_def)
    then have "finding_inv (snd (create_finding i now3 now3 (new_finding ord now1 now2 a) st))"
      using create_finding_inv [OF assms] by blast
    then show ?thesis using False None by (auto simp: create_or_update_def split: prod.splits sum.splits)
  next
    case (Some f)
    have "valid_status (f_status (refreshed ord now1 a f))"
      using by_dedup_key_Some [OF Some] assms by (auto simp: refreshed_keeps finding_inv_def list_all_iff)
    then have "finding_inv (snd (update_finding now3 (refreshed ord now1 a f) st))"
      by (rule update_finding_inv [OF assms])
    then show ?thesis using False Some by (auto simp: create_or_update_def split: prod.splits sum.splits)
  qed
qed

lemma add_note_inv: "finding_inv st \<Longrightarrow> finding_inv (snd (add_note i now n st))"
  by (auto simp: add_note_def Let_def finding_inv_def unique_by_snoc list_all_iff)

lemma finding_step_inv: "finding_step ord st st' \<Longrightarrow> finding_inv st \<Longrightarrow> finding_inv st'"
  by (erule finding_stepE)
    (auto simp: create_or_update_inv create_finding_inv update_finding_inv add_note_inv update_status_def assign_def
      keeps_keys_def intro!: write_one_inv)


section \<open>One detection, one finding\<close>

lemma row_count_update:
  "(\<And>f. q (g f) = q f) \<Longrightarrow> row_count q (update_rows p g fs) = row_count q fs"
  by (induction fs) (auto simp: row_count_def update_rows_def)

lemma row_count_key:
  assumes "unique_by f_dedup (keyed fs)" and "k \<noteq> []" and "f \<in> set fs" and "f_dedup f = k"
  shows "row_count (\<lambda>x. f_dedup x = k) fs = 1"
proof -
  have "filter (\<lambda>x. f_dedup x = k) fs = filter (\<lambda>x. f_dedup x = k) (keyed fs)"
    using assms(2) by (induction fs) (auto simp: keyed_def)
  moreover have "distinct (map f_dedup (filter (\<lambda>x. f_dedup x = k) (keyed fs)))"
    using assms(1) by (simp add: unique_by_def distinct_map_filter)
  moreover have "set (map f_dedup (filter (\<lambda>x. f_dedup x = k) (keyed fs))) = {k}"
    using assms(2-4) by (auto simp: keyed_def)
  ultimately show ?thesis
    using distinct_card [of "map f_dedup (filter (\<lambda>x. f_dedup x = k) (keyed fs))"] by (simp add: row_count_def)
qed

lemma row_count_none: "by_dedup_key k st = None \<Longrightarrow> k \<noteq> [] \<Longrightarrow> row_count (\<lambda>x. f_dedup x = k) (findings st) = 0"
  by (simp add: by_dedup_key_def select_row_None row_count_def filter_empty_conv)

lemma dedup_key_nonempty [simp]: "dedup_key a \<noteq> []"
  by (simp add: dedup_key_def)

lemma refresh_run:
  assumes "finding_inv st" and "da_rule_id a \<noteq> []" and "da_group_key a \<noteq> []"
    and "by_dedup_key (dedup_key a) st = Some f" and "f_id f \<noteq> []"
  shows "create_or_update ord i now1 now2 now3 a st
     = (Inr ((refreshed ord now1 a f)\<lparr>f_updated := now3\<rparr>, False), snd (create_or_update ord i now1 now2 now3 a st))"
    and "by_dedup_key (dedup_key a) (snd (create_or_update ord i now1 now2 now3 a st))
       = Some ((refreshed ord now1 a f)\<lparr>f_updated := now3\<rparr>)"
    and "map f_dedup (findings (snd (create_or_update ord i now1 now2 now3 a st))) = map f_dedup (findings st)"
proof -
  let ?g = "(refreshed ord now1 a f)\<lparr>f_updated := now3\<rparr>"
  let ?w = "\<lambda>x. ?g\<lparr>f_id := f_id x, f_dedup := f_dedup x, f_created := f_created x\<rparr>"
  have run: "create_or_update ord i now1 now2 now3 a st
      = (Inr (?g, False), st\<lparr>findings := update_rows (\<lambda>x. f_id x = f_id f) ?w (findings st)\<rparr>)"
    using assms(2-5) by (simp add: create_or_update_def update_finding_def Let_def refreshed_keeps)
  show "create_or_update ord i now1 now2 now3 a st
     = (Inr (?g, False), snd (create_or_update ord i now1 now2 now3 a st))"
    by (simp add: run)
  have "?w f = ?g" by (simp add: refreshed_keeps)
  then show "by_dedup_key (dedup_key a) (snd (create_or_update ord i now1 now2 now3 a st)) = Some ?g"
    using assms(4) select_update_key [of f_dedup ?w "dedup_key a" "\<lambda>x. f_id x = f_id f" "findings st"]
    by (simp add: run by_dedup_key_def)
  show "map f_dedup (findings (snd (create_or_update ord i now1 now2 now3 a st))) = map f_dedup (findings st)"
    by (simp add: run map_update_rows)
qed

lemma create_run:
  assumes "by_dedup_key (dedup_key a) st = None"
    and "create_or_update ord i now1 now2 now3 a st = (Inr (g, new), st')"
  shows "new \<and> findings st' = findings st @ [g] \<and> f_dedup g = dedup_key a"
  using assms
  by (auto simp: create_or_update_def create_finding_def Let_def with_defaults_def new_finding_def
      primary_entities_def split: if_splits prod.splits sum.splits)

section \<open>Properties\<close>

definition sample_args :: "string \<Rightarrow> detection_args" where
  "sample_args sev =
     \<lparr>da_rule_id = ''r1'', da_rule_name = ''Brute force'', da_group_key = ''bob'', da_title = [], da_description = [],
      da_severity = sev, da_risk = 40, da_data_source = ''auth'', da_tactic = [], da_technique = [], da_tags = [],
      da_matched = 5, da_events = [Some (blank_event\<lparr>ev_id := ''e1'', ev_user := ''bob''\<rparr>), None], da_entities = []\<rparr>"

definition one_finding :: finding_state where
  "one_finding = snd (create_or_update id ''f1'' 10 11 12 (sample_args ''err'') empty_findings)"

lemma one_finding_reachable: "findings_reachable id one_finding"
  unfolding findings_reachable_def one_finding_def by (rule r_into_rtranclp) (rule detected)

text \<open>
  In every state the queue reaches, finding identifiers and deduplication keys are unique, every
  status is one of the lifecycle, and every note belongs to a stored finding.
\<close>

theorem findings_reachable_inv:
  assumes "findings_reachable ord st"
  shows "finding_inv st"
  using assms unfolding findings_reachable_def
proof (induction rule: rtranclp_induct)
  case base
  show ?case by (simp add: finding_inv_def empty_findings_def unique_by_def keyed_def)
next
  case (step y z)
  then show ?case using finding_step_inv by blast
qed

theorem findings_reachable_inv_witness:
  "findings_reachable id one_finding \<and> finding_inv one_finding"
  by (rule conjI [OF one_finding_reachable findings_reachable_inv [OF one_finding_reachable]])

text \<open>
  C13. Repeated runs of a detection do not flood the queue: when \<^verbatim>\<open>CreateOrUpdateFromDetection\<close>
  succeeds, exactly one finding carries the key of rule and group, the queue has grown by one row
  if there was none before and by none otherwise, and the flag it returns says which.
\<close>

theorem detection_upserts_one:
  assumes "finding_inv st" and "create_or_update ord i now1 now2 now3 a st = (Inr (g, new), st')"
  shows "row_count (\<lambda>f. f_dedup f = dedup_key a) (findings st') = 1
     \<and> length (findings st') = length (findings st) + (if new then 1 else 0)
     \<and> (new \<longleftrightarrow> by_dedup_key (dedup_key a) st = None)"
proof (cases "by_dedup_key (dedup_key a) st")
  case None
  then show ?thesis
    using create_run [OF None assms(2)] row_count_none [OF None] by (auto simp: row_count_def)
next
  case (Some f)
  have ne: "da_rule_id a \<noteq> []" "da_group_key a \<noteq> []" "f_id f \<noteq> []"
    using assms(2) Some by (auto simp: create_or_update_def update_finding_def refreshed_keeps split: if_splits)
  note r = refresh_run [OF assms(1) ne(1,2) Some ne(3), of ord i now1 now2 now3]
  have new: "\<not> new" using r(1) assms(2) by simp
  have map: "map f_dedup (findings st') = map f_dedup (findings st)" using r(3) assms(2) by simp
  have count: "row_count (\<lambda>f. f_dedup f = dedup_key a) fs = length (filter (\<lambda>k. k = dedup_key a) (map f_dedup fs))" for fs
    by (simp add: row_count_def filter_map o_def)
  have "row_count (\<lambda>f. f_dedup f = dedup_key a) (findings st') = row_count (\<lambda>f. f_dedup f = dedup_key a) (findings st)"
    by (simp only: count map)
  also have "\<dots> = 1"
    using by_dedup_key_Some [OF Some] assms(1) by (intro row_count_key [of _ _ f]) (simp_all add: finding_inv_def)
  finally show ?thesis using new Some map_eq_imp_length_eq [OF map] by simp
qed

theorem detection_upserts_one_witness:
  "finding_inv one_finding
   \<and> (\<exists>g new st'. create_or_update id ''f2'' 20 21 22 (sample_args ''low'') one_finding = (Inr (g, new), st')
      \<and> row_count (\<lambda>f. f_dedup f = dedup_key (sample_args ''low'')) (findings st') = 1
      \<and> length (findings st') = length (findings one_finding) + (if new then 1 else 0)
      \<and> (new \<longleftrightarrow> by_dedup_key (dedup_key (sample_args ''low'')) one_finding = None))"
proof -
  have i: "finding_inv one_finding"
    using create_or_update_inv [of empty_findings] unfolding one_finding_def
    by (simp add: finding_inv_def empty_findings_def unique_by_def keyed_def)
  have "\<not> isl (fst (create_or_update id ''f2'' 20 21 22 (sample_args ''low'') one_finding))"
    by code_simp
  then obtain g new st' where
    c: "create_or_update id ''f2'' 20 21 22 (sample_args ''low'') one_finding = (Inr (g, new), st')"
    by (cases "create_or_update id ''f2'' 20 21 22 (sample_args ''low'') one_finding"; cases "fst (create_or_update id ''f2'' 20 21 22 (sample_args ''low'') one_finding)") auto
  show ?thesis using i c detection_upserts_one [OF i c] by blast
qed

text \<open>
  A refresh keeps the triage: when a detection fires again for a stored finding, the finding keeps
  its identifier, status, owner, title, severity and first sighting, a resolved one stays resolved,
  the matches add up and the risk score is the larger of the two.
\<close>

theorem refresh_keeps_triage:
  assumes "finding_inv st" and "da_rule_id a \<noteq> []" and "da_group_key a \<noteq> []"
    and "by_dedup_key (dedup_key a) st = Some f" and "f_id f \<noteq> []"
  shows "\<exists>g st'. create_or_update ord i now1 now2 now3 a st = (Inr (g, False), st')
     \<and> by_dedup_key (dedup_key a) st' = Some g
     \<and> f_id g = f_id f \<and> f_status g = f_status f \<and> f_owner g = f_owner f \<and> f_title g = f_title f
     \<and> f_severity g = f_severity f \<and> f_first_seen g = f_first_seen f
     \<and> f_match_count g = f_match_count f + da_matched a \<and> f_risk g = max (f_risk f) (da_risk a)"
proof -
  have "f_match_count (refreshed ord now1 a f) = f_match_count f + da_matched a"
    "f_risk (refreshed ord now1 a f) = max (f_risk f) (da_risk a)"
    by (auto simp: refreshed_def primary_entities_def max_def)
  then show ?thesis
    using refresh_run(1,2) [OF assms, of ord i now1 now2 now3]
    by (intro exI [of _ "(refreshed ord now1 a f)\<lparr>f_updated := now3\<rparr>"]
        exI [of _ "snd (create_or_update ord i now1 now2 now3 a st)"]) (simp add: refreshed_keeps)
qed

theorem refresh_keeps_triage_witness:
  "finding_inv one_finding \<and> da_rule_id (sample_args ''low'') \<noteq> [] \<and> da_group_key (sample_args ''low'') \<noteq> []
   \<and> (\<exists>f. by_dedup_key (dedup_key (sample_args ''low'')) one_finding = Some f \<and> f_id f \<noteq> []
     \<and> (\<exists>g st'. create_or_update id ''f2'' 20 21 22 (sample_args ''low'') one_finding = (Inr (g, False), st')
       \<and> by_dedup_key (dedup_key (sample_args ''low'')) st' = Some g
       \<and> f_id g = f_id f \<and> f_status g = f_status f \<and> f_owner g = f_owner f \<and> f_title g = f_title f
       \<and> f_severity g = f_severity f \<and> f_first_seen g = f_first_seen f
       \<and> f_match_count g = f_match_count f + da_matched (sample_args ''low'')
       \<and> f_risk g = max (f_risk f) (da_risk (sample_args ''low''))))"
proof -
  have i: "finding_inv one_finding"
    using create_or_update_inv [of empty_findings] unfolding one_finding_def
    by (simp add: finding_inv_def empty_findings_def unique_by_def keyed_def)
  have n: "da_rule_id (sample_args ''low'') \<noteq> []" "da_group_key (sample_args ''low'') \<noteq> []"
    by (simp_all add: sample_args_def)
  have "map_option f_id (by_dedup_key (dedup_key (sample_args ''low'')) one_finding) = Some ''f1''" by code_simp
  then obtain f where f: "by_dedup_key (dedup_key (sample_args ''low'')) one_finding = Some f" and "f_id f = ''f1''"
    by auto
  then have d: "f_id f \<noteq> []" by simp
  show ?thesis using i n f d refresh_keeps_triage [OF i n f d, of id "''f2''" 20 21 22] by blast
qed

text \<open>
  Merging two lists of references keeps the first occurrences in order and stops at the cap: the
  result is the duplicate-free base when that has reached the cap, and otherwise the first \<open>cap\<close>
  entries of the duplicate-free concatenation.
\<close>

theorem merge_strings_spec:
  "merge_strings base add cap =
     (if cap \<le> int (length (dedup_onto [] base)) then dedup_onto [] base
      else take (nat cap) (dedup_onto [] (base @ add)))
   \<and> distinct (merge_strings base add cap)
   \<and> set (merge_strings base add cap) \<subseteq> set base \<union> set add"
proof -
  have eq: "merge_strings base add cap =
     (if cap \<le> int (length (dedup_onto [] base)) then dedup_onto [] base
      else take (nat cap) (dedup_onto [] (base @ add)))"
    by (simp add: merge_strings_def add_capped_take dedup_onto_append)
  moreover have "distinct (merge_strings base add cap)"
    by (simp add: eq distinct_dedup_onto)
  moreover have "set (merge_strings base add cap) \<subseteq> set base \<union> set add"
    using set_take_subset [of "nat cap" "dedup_onto [] (base @ add)"] by (auto simp: eq split: if_splits)
  ultimately show ?thesis by blast
qed

text \<open>
  The severity counts of \<^verbatim>\<open>Posture\<close> partition the queue: the four levels add up to the number
  of findings, whatever severities were stored, and normalizing a severity twice changes nothing.
\<close>

lemma severity_range: "severity s \<in> {''critical'', ''high'', ''medium'', ''low''}"
  by (simp add: severity_def Let_def)

lemma severity_partition:
  "row_count (\<lambda>f. severity (f_severity f) = ''critical'') fs + row_count (\<lambda>f. severity (f_severity f) = ''high'') fs
   + row_count (\<lambda>f. severity (f_severity f) = ''medium'') fs + row_count (\<lambda>f. severity (f_severity f) = ''low'') fs
   = length fs"
proof (induction fs)
  case (Cons f fs)
  then show ?case using severity_range [of "f_severity f"] by (auto simp: row_count_def)
qed (simp add: row_count_def)

theorem posture_partitions:
  "the (posture st ''critical'') + the (posture st ''high'') + the (posture st ''medium'') + the (posture st ''low'')
     = length (findings st)
   \<and> severity (severity s) = severity s"
proof
  show "the (posture st ''critical'') + the (posture st ''high'') + the (posture st ''medium'') + the (posture st ''low'')
     = length (findings st)"
    using severity_partition [of "findings st"] by (simp add: posture_def)
  have "severity ''critical'' = ''critical''" "severity ''high'' = ''high''" "severity ''medium'' = ''medium''"
    "severity ''low'' = ''low''" by code_simp+
  then show "severity (severity s) = severity s" using severity_range [of s] by auto
qed

lemma set_sort_rows [simp]: "set (sort_rows col fs) = set fs"
  by (simp add: sort_rows_def)

text \<open>
  A page of the queue has at most 500 findings, each of them stored and matching the filter, and
  the total it comes with counts all findings that match.
\<close>

theorem list_findings_page:
  "length (fst (list_findings like json q st)) \<le> 500
   \<and> set (fst (list_findings like json q st)) \<subseteq> {f \<in> set (findings st). filter_matches like json q f}
   \<and> snd (list_findings like json q st) = row_count (filter_matches like json q) (findings st)"
proof -
  let ?rows = "filter (filter_matches like json q) (findings st)"
  let ?page = "if ff_sort_order q = ''asc'' then sort_rows (ff_sort_by q) ?rows else rev (sort_rows (ff_sort_by q) ?rows)"
  have "set (take n (drop m ?page)) \<subseteq> set ?page" for n m
    using set_take_subset [of n "drop m ?page"] set_drop_subset [of m ?page] by blast
  moreover have "set ?page = {f \<in> set (findings st). filter_matches like json q f}" by auto
  ultimately have "set (take n (drop m ?page)) \<subseteq> {f \<in> set (findings st). filter_matches like json q f}" for n m
    by simp
  moreover have "nat (clamp_limit (ff_limit q)) \<le> 500" unfolding clamp_limit_def by (auto intro: nat_le_iff [THEN iffD2])
  ultimately show ?thesis by (simp add: list_findings_def Let_def row_count_def)
qed

end
