(* ===== verification/CorrelationEngine.thy ===== *)
theory CorrelationEngine
  imports FindingStore "HOL-Library.Sublist"
begin

text \<open>
  Sequence and correlation rules, \<^verbatim>\<open>internal/detections/correlation.go\<close>: one worker of the engine,
  evaluating one event at a time. SHA-1, \<^verbatim>\<open>time.ParseDuration\<close>, \<^verbatim>\<open>sort.Slice\<close>, the iteration
  order of a map and the printed confidence are the fields of \<open>corr_env\<close>; a rule carries its
  definition as \<^verbatim>\<open>json.Unmarshal\<close> answers it (\<open>None\<close> for an error). The clock readings and the
  identifier a step uses are the fields of \<open>clock\<close>.
\<close>

section \<open>Rules and state\<close>

record sequence_step =
  ss_id :: string
  ss_predicate :: "(string \<times> string) list"
  ss_technique :: string

record sequence_def =
  sd_key :: "string list"
  sd_window :: string
  sd_max_gap :: string
  sd_steps :: "sequence_step list"

record corr_condition =
  cc_id :: string
  cc_predicate :: "(string \<times> string) list"
  cc_count_gte :: int

record correlation_def =
  cd_key :: "string list"
  cd_window :: string
  cd_require :: string
  cd_min_match :: int
  cd_conditions :: "corr_condition list"
  cd_techniques :: "string list"

record detection_rule =
  r_id :: string
  r_name :: string
  r_description :: string
  r_severity :: string
  r_enabled :: bool
  r_suppressed :: bool
  r_risk :: rat
  r_tags :: "string list"
  r_tactic :: string
  r_sources :: "string list"
  r_kind :: string
  r_confidence :: rat
  r_has_definition :: bool
  r_sequence :: "sequence_def option"
  r_correlation :: "correlation_def option"

record seq_entry =
  se_ts :: int
  se_step :: nat
  se_ev :: event

record seq_state =
  sq_progress :: nat
  sq_buf :: "seq_entry list"
  sq_updated :: int

record corr_entry =
  ce_ts :: int
  ce_ev :: event

datatype evidence = SeqEvidence "(int \<times> string \<times> nat) list" | CorrEvidence "string list" nat

record state_row =
  sr_rule :: string
  sr_key :: string
  sr_step :: nat
  sr_first :: string
  sr_last :: int
  sr_evidence :: evidence
  sr_expires :: int

record contribution =
  ct_type :: string
  ct_value :: string
  ct_source_type :: string
  ct_finding :: string
  ct_description :: string
  ct_points :: rat

record engine =
  en_seq :: "string \<rightharpoonup> seq_state"
  en_corr :: "string \<rightharpoonup> corr_entry list"
  en_rows :: "state_row list"
  en_findings :: finding_state
  en_risk :: "contribution list"

record corr_env =
  sha1 :: "string \<Rightarrow> string"
  parse_duration :: "string \<Rightarrow> int option"
  sort_entries :: "seq_entry list \<Rightarrow> seq_entry list"
  map_order :: "string list \<Rightarrow> string list"
  conf_text :: "rat \<Rightarrow> int \<Rightarrow> string"
  has_risk_store :: bool

record clock =
  ck_now :: int
  ck_id :: string
  ck_first :: int
  ck_last :: int
  ck_write :: int
  ck_persist :: int

definition empty_engine :: engine where
  "empty_engine = \<lparr>en_seq = Map.empty, en_corr = Map.empty, en_rows = [], en_findings = empty_findings, en_risk = []\<rparr>"

definition seq_buffer_cap :: nat where "seq_buffer_cap = 20"
definition corr_buffer_cap :: nat where "corr_buffer_cap = 500"
definition rule_cache_ttl :: int where "rule_cache_ttl = 30 * 1000000000"

section \<open>Windows\<close>

text \<open>A \<^verbatim>\<open>time.Duration\<close> is a 64-bit integer; the product with a second wraps around.\<close>

definition parse_window :: "corr_env \<Rightarrow> string \<Rightarrow> int option" where
  "parse_window env value =
     (let v = trim_space value
      in if v = [] then None
         else case atoi v of
             Some secs \<Rightarrow> if secs < 0 then None else Some (wrap64 (secs * 1000000000))
           | None \<Rightarrow>
               (case parse_duration env v of
                  None \<Rightarrow> None
                | Some d \<Rightarrow> if d < 0 then None else Some d))"

definition hour :: int where "hour = 3600 * 1000000000"

definition rule_window :: "corr_env \<Rightarrow> string \<Rightarrow> int" where
  "rule_window env s =
     (if s = [] then hour
      else case parse_window env s of Some d \<Rightarrow> if 0 < d then d else hour | None \<Rightarrow> hour)"

text \<open>\<^verbatim>\<open>maxGap, _ = parseDetectionWindow(...)\<close>: an error leaves 0.\<close>

definition max_gap :: "corr_env \<Rightarrow> string \<Rightarrow> int" where
  "max_gap env s = (if s = [] then 0 else case parse_window env s of Some d \<Rightarrow> d | None \<Rightarrow> 0)"

definition state_key :: "corr_env \<Rightarrow> string \<Rightarrow> string list \<Rightarrow> string" where
  "state_key env rid vals = sha1 env (rid @ [CHR 0x00] @ join [CHR 0x00] vals)"

section \<open>The persisted rows\<close>

definition to_second :: "int \<Rightarrow> int" where
  "to_second t = t div 1000000000 * 1000000000"

definition persist :: "state_row \<Rightarrow> engine \<Rightarrow> engine" where
  "persist r en =
     en\<lparr>en_rows :=
        (if list_ex (\<lambda>x. sr_rule x = sr_rule r \<and> sr_key x = sr_key r) (en_rows en)
         then update_rows (\<lambda>x. sr_rule x = sr_rule r \<and> sr_key x = sr_key r) (\<lambda>x. r) (en_rows en)
         else en_rows en @ [r])\<rparr>"

definition delete_state :: "string \<Rightarrow> string \<Rightarrow> engine \<Rightarrow> engine" where
  "delete_state rid key en =
     en\<lparr>en_rows := delete_rows (\<lambda>x. sr_rule x = rid \<and> sr_key x = key) (en_rows en)\<rparr>"

definition sweep :: "int \<Rightarrow> engine \<Rightarrow> nat \<times> engine" where
  "sweep now en =
     (row_count (\<lambda>x. sr_expires x < now) (en_rows en),
      en\<lparr>en_rows := delete_rows (\<lambda>x. sr_expires x < now) (en_rows en)\<rparr>)"

definition list_states :: "string \<Rightarrow> engine \<Rightarrow> state_row list" where
  "list_states rid en = take 500 (rev (sort_key sr_last (filter (\<lambda>x. sr_rule x = rid) (en_rows en))))"

section \<open>Findings of a match\<close>

definition first_of :: "string list \<Rightarrow> string" where
  "first_of xs = (case xs of [] \<Rightarrow> [] | x # _ \<Rightarrow> x)"

definition split_colon :: "string \<Rightarrow> (string \<times> string) option" where
  "split_colon s =
     (let a = takeWhile (\<lambda>c. c \<noteq> CHR '':'') s
      in if length a = length s then None else Some (a, drop (length a + 1) s))"

definition finding_risk :: "finding \<Rightarrow> contribution list" where
  "finding_risk f =
     concat (map (\<lambda>e. case split_colon e of
          None \<Rightarrow> []
        | Some (t, v) \<Rightarrow>
            if v = [] then []
            else [\<lparr>ct_type = t, ct_value = v, ct_source_type = ''finding'', ct_finding = f_id f,
                   ct_description = f_title f @ '' ('' @ f_severity f @ '')'',
                   ct_points = (if t = ''process'' then f_risk f / 2 else f_risk f)\<rparr>]) (f_entities f))"

definition emit :: "corr_env \<Rightarrow> clock \<Rightarrow> detection_args \<Rightarrow> engine \<Rightarrow> bool \<times> engine" where
  "emit env ck a en =
     (case create_or_update (map_order env) (ck_id ck) (ck_first ck) (ck_last ck) (ck_write ck) a (en_findings en) of
        (Inl e, st) \<Rightarrow> (False, en\<lparr>en_findings := st\<rparr>)
      | (Inr (f, new), st) \<Rightarrow>
          (True, en\<lparr>en_findings := st,
             en_risk := en_risk en @ (if new \<and> has_risk_store env \<and> 0 < f_risk f then finding_risk f else [])\<rparr>))"

definition match_args :: "detection_rule \<Rightarrow> string \<Rightarrow> string \<Rightarrow> string list \<Rightarrow> event list \<Rightarrow> detection_args" where
  "match_args rule key desc techniques evs =
     \<lparr>da_rule_id = r_id rule, da_rule_name = r_name rule, da_group_key = key, da_title = r_name rule,
      da_description = desc, da_severity = r_severity rule, da_risk = r_risk rule,
      da_data_source = first_of (r_sources rule), da_tactic = r_tactic rule, da_technique = first_of techniques,
      da_tags = r_tags rule, da_matched = int (length evs), da_events = map Some evs, da_entities = []\<rparr>"

section \<open>Sequence rules\<close>

fun step_of :: "sequence_step list \<Rightarrow> event \<Rightarrow> nat option" where
  "step_of [] ev = None"
| "step_of (s # ss) ev =
     (if predicate_matches (ss_predicate s) ev then Some 0
      else case step_of ss ev of None \<Rightarrow> None | Some i \<Rightarrow> Some (Suc i))"

definition keep_last :: "nat \<Rightarrow> 'a list \<Rightarrow> 'a list" where
  "keep_last n xs = drop (length xs - n) xs"

text \<open>The state before the chain is searched: expiry, then the new entry.\<close>

definition buffered :: "int \<Rightarrow> int \<Rightarrow> nat option \<Rightarrow> event \<Rightarrow> seq_state \<Rightarrow> seq_state" where
  "buffered now window matched ev s0 =
     (let s = (if sq_updated s0 \<noteq> 0 \<and> sq_updated s0 + window < now then s0\<lparr>sq_progress := 0, sq_buf := []\<rparr> else s0)
      in case matched of
           None \<Rightarrow> s
         | Some i \<Rightarrow>
             s\<lparr>sq_buf := keep_last seq_buffer_cap (sq_buf s @ [\<lparr>se_ts = ev_timestamp ev, se_step = i, se_ev = ev\<rparr>]),
               sq_updated := now\<rparr>)"

text \<open>
  The greedy search: \<open>i\<close> is the step wanted next, \<open>t0\<close> the time of the last entry taken (0 before the
  first). It answers the entries taken.
\<close>

fun greedy :: "int \<Rightarrow> nat \<Rightarrow> nat \<Rightarrow> int \<Rightarrow> seq_entry list \<Rightarrow> seq_entry list" where
  "greedy gap n i t0 [] = []"
| "greedy gap n i t0 (e # es) =
     (if se_step e \<noteq> i then greedy gap n i t0 es
      else if t0 \<noteq> 0 \<and> 0 < gap \<and> gap < se_ts e - t0 then greedy gap n i t0 es
      else e # (if Suc i = n then [] else greedy gap n (Suc i) (se_ts e) es))"

text \<open>The code joins techniques with an arrow character; the Latin-1 model writes it in two characters.\<close>

definition arrow :: string where "arrow = '' -> ''"

definition sequence_description :: "detection_rule \<Rightarrow> string list \<Rightarrow> string" where
  "sequence_description rule ts =
     r_description rule @ (if ts \<noteq> [] then '' (sequence '' @ join arrow ts @ '')'' else [])"

definition seq_key :: "string \<Rightarrow> string" where "seq_key key = ''seq|rule|'' @ key"

definition seq_row :: "detection_rule \<Rightarrow> string \<Rightarrow> int \<Rightarrow> nat \<Rightarrow> seq_entry list \<Rightarrow> state_row" where
  "seq_row rule key window i buf =
     \<lparr>sr_rule = r_id rule, sr_key = key, sr_step = i, sr_first = ev_id (se_ev (hd buf)),
      sr_last = to_second (se_ts (last buf)),
      sr_evidence = SeqEvidence (map (\<lambda>e. (to_second (se_ts e), ev_id (se_ev e), se_step e)) buf),
      sr_expires = to_second (se_ts (last buf)) + window\<rparr>"

definition eval_sequence :: "corr_env \<Rightarrow> clock \<Rightarrow> detection_rule \<Rightarrow> event \<Rightarrow> engine \<Rightarrow> engine" where
  "eval_sequence env ck rule ev en =
     (case r_sequence rule of
        None \<Rightarrow> en
      | Some d \<Rightarrow>
          if sd_steps d = [] \<or> sd_key d = [] then en
          else case key_values (sd_key d) ev of
              None \<Rightarrow> en
            | Some vals \<Rightarrow>
                let key = state_key env (r_id rule) vals;
                    window = rule_window env (sd_window d);
                    s0 = (case en_seq en (seq_key key) of None \<Rightarrow> \<lparr>sq_progress = 0, sq_buf = [], sq_updated = 0\<rparr> | Some s \<Rightarrow> s);
                    s1 = buffered (ck_now ck) window (step_of (sd_steps d) ev) ev s0
                in if sq_buf s1 = [] then en\<lparr>en_seq := (en_seq en)(seq_key key \<mapsto> s1)\<rparr>
                   else let buf = sort_entries env (sq_buf s1);
                            chain = greedy (max_gap env (sd_max_gap d)) (length (sd_steps d)) 0 0 buf;
                            i = length chain;
                            en1 = persist (seq_row rule key window i buf)
                                    (en\<lparr>en_seq := (en_seq en)(seq_key key \<mapsto> s1\<lparr>sq_buf := buf, sq_progress := i\<rparr>)\<rparr>)
                        in if i < length (sd_steps d) then en1
                           else let techniques = filter (\<lambda>t. t \<noteq> []) (map ss_technique (sd_steps d));
                                    en2 = snd (emit env ck (match_args rule key (sequence_description rule techniques)
                                                              techniques (map se_ev chain)) en1)
                                in delete_state (r_id rule) key
                                     (en2\<lparr>en_seq := (en_seq en2)(seq_key key := None)\<rparr>))"

section \<open>Correlation rules\<close>

definition corr_key :: "string \<Rightarrow> string" where "corr_key key = ''corr|rule|'' @ key"

definition corr_buffered :: "int \<Rightarrow> int \<Rightarrow> bool \<Rightarrow> event \<Rightarrow> corr_entry list \<Rightarrow> corr_entry list" where
  "corr_buffered now window matched ev buf =
     (let kept = filter (\<lambda>e. \<not> ce_ts e < now - window) buf
      in if matched then keep_last corr_buffer_cap (kept @ [\<lparr>ce_ts = ev_timestamp ev, ce_ev = ev\<rparr>]) else kept)"

definition condition_met :: "corr_entry list \<Rightarrow> corr_condition \<Rightarrow> bool" where
  "condition_met buf c =
     (let need = (if cc_count_gte c \<le> 0 then 1 else cc_count_gte c)
      in need \<le> int (length (filter (\<lambda>e. predicate_matches (cc_predicate c) (ce_ev e)) buf)))"

definition satisfied :: "correlation_def \<Rightarrow> corr_entry list \<Rightarrow> string list" where
  "satisfied d buf = map cc_id (filter (condition_met buf) (cd_conditions d))"

definition required :: "correlation_def \<Rightarrow> int" where
  "required d =
     (let n = int (length (cd_conditions d))
      in if equal_fold (cd_require d) ''most''
         then (let m = (if cd_min_match d \<le> 0 then n - 1 else cd_min_match d) in if n < m then n else m)
         else n)"

definition corr_description :: "corr_env \<Rightarrow> detection_rule \<Rightarrow> correlation_def \<Rightarrow> string list \<Rightarrow> string" where
  "corr_description env rule d sat =
     r_description rule @ '' (correlation: '' @ digits_of (length sat) @ ''/'' @ digits_of (length (cd_conditions d))
       @ '' conditions satisfied, confidence '' @ conf_text env (r_confidence rule) (int (length sat) - required d) @ '')''"

definition eval_correlation :: "corr_env \<Rightarrow> clock \<Rightarrow> detection_rule \<Rightarrow> event \<Rightarrow> engine \<Rightarrow> engine" where
  "eval_correlation env ck rule ev en =
     (case r_correlation rule of
        None \<Rightarrow> en
      | Some d \<Rightarrow>
          if cd_conditions d = [] \<or> cd_key d = [] then en
          else case key_values (cd_key d) ev of
              None \<Rightarrow> en
            | Some vals \<Rightarrow>
                let key = state_key env (r_id rule) vals;
                    window = rule_window env (cd_window d);
                    matched = list_ex (\<lambda>c. predicate_matches (cc_predicate c) ev) (cd_conditions d);
                    buf = corr_buffered (ck_now ck) window matched ev
                            (case en_corr en (corr_key key) of None \<Rightarrow> [] | Some b \<Rightarrow> b);
                    en0 = en\<lparr>en_corr := (en_corr en)(corr_key key \<mapsto> buf)\<rparr>;
                    sat = satisfied d buf
                in if buf = [] then en0
                   else if int (length sat) < required d
                   then persist \<lparr>sr_rule = r_id rule, sr_key = key, sr_step = 0, sr_first = [],
                          sr_last = to_second (ce_ts (last buf)),
                          sr_evidence = CorrEvidence sat (length (cd_conditions d) - length sat),
                          sr_expires = to_second (ce_ts (last buf)) + window\<rparr> en0
                   else let (ok, en1) = emit env ck (match_args rule (key @ ''|'' @ join '','' sat)
                                          (corr_description env rule d sat) (cd_techniques d) (map ce_ev buf)) en0
                        in if \<not> ok then en1
                           else delete_state (r_id rule) key
                                  (en1\<lparr>en_corr := (en_corr en1)(corr_key key := None)\<rparr>))"

section \<open>The worker\<close>

definition process :: "corr_env \<Rightarrow> clock \<Rightarrow> detection_rule list \<Rightarrow> event \<Rightarrow> engine \<Rightarrow> engine" where
  "process env ck rules ev en =
     fold (\<lambda>rule en.
        if to_lower (r_kind rule) = ''sequence'' then eval_sequence env ck rule ev en
        else if to_lower (r_kind rule) = ''correlation'' then eval_correlation env ck rule ev en
        else en) rules en"

record rule_cache =
  rc_rules :: "detection_rule list"
  rc_at :: int

definition live_rule :: "detection_rule \<Rightarrow> bool" where
  "live_rule r =
     (r_enabled r \<and> \<not> r_suppressed r
      \<and> (to_lower (r_kind r) = ''sequence'' \<or> to_lower (r_kind r) = ''correlation'') \<and> r_has_definition r)"

text \<open>\<open>stored\<close> is what the rule table answers, \<open>None\<close> when the read fails.\<close>

definition live_rules :: "int \<Rightarrow> int \<Rightarrow> detection_rule list option \<Rightarrow> rule_cache \<Rightarrow> detection_rule list \<times> rule_cache" where
  "live_rules now later stored c =
     (if now - rc_at c < rule_cache_ttl then (rc_rules c, c)
      else case stored of
          None \<Rightarrow> ([], c)
        | Some rs \<Rightarrow> (filter live_rule rs, \<lparr>rc_rules = filter live_rule rs, rc_at = later\<rparr>))"

definition queue_cap :: nat where "queue_cap = 4096"

definition enqueue :: "event option \<Rightarrow> event list \<Rightarrow> event list" where
  "enqueue oe q =
     (case oe of None \<Rightarrow> q | Some ev \<Rightarrow> if length q < queue_cap then q @ [ev] else q)"


section \<open>The chain\<close>

definition sorts :: "corr_env \<Rightarrow> bool" where
  "sorts env = (\<forall>xs. mset (sort_entries env xs) = mset xs \<and> sorted (map se_ts (sort_entries env xs)))"

definition gap_ok :: "int \<Rightarrow> seq_entry list \<Rightarrow> bool" where
  "gap_ok gap es = (\<forall>k. Suc k < length es \<longrightarrow> 0 < gap \<longrightarrow> se_ts (es ! k) \<noteq> 0 \<longrightarrow> se_ts (es ! Suc k) - se_ts (es ! k) \<le> gap)"

lemma greedy_subseq: "subseq (greedy gap n i t0 es) es"
  by (induction gap n i t0 es rule: greedy.induct) auto

lemma greedy_steps: "map se_step (greedy gap n i t0 es) = [i..<i + length (greedy gap n i t0 es)]"
  by (induction gap n i t0 es rule: greedy.induct) (auto simp: upt_rec)

lemma greedy_length: "i < n \<Longrightarrow> i + length (greedy gap n i t0 es) \<le> n"
  by (induction gap n i t0 es rule: greedy.induct) auto

lemma greedy_head_gap:
  "greedy gap n i t0 es = e # ch \<Longrightarrow> t0 \<noteq> 0 \<Longrightarrow> 0 < gap \<Longrightarrow> se_ts e - t0 \<le> gap"
  by (induction gap n i t0 es rule: greedy.induct) (auto split: if_splits)

lemma gap_ok_Cons:
  "gap_ok gap (e # es) \<longleftrightarrow>
     gap_ok gap es \<and> (case es of [] \<Rightarrow> True | x # _ \<Rightarrow> 0 < gap \<longrightarrow> se_ts e \<noteq> 0 \<longrightarrow> se_ts x - se_ts e \<le> gap)"
  by (cases es) (auto simp: gap_ok_def nth_Cons split: nat.splits)

lemma greedy_gap: "gap_ok gap (greedy gap n i t0 es)"
proof (induction gap n i t0 es rule: greedy.induct)
  case (2 gap n i t0 e es)
  have nil: "gap_ok gap []" by (simp add: gap_ok_def)
  show ?case
    using 2 nil greedy_head_gap [of gap n "Suc i" "se_ts e" es]
    by (auto simp: gap_ok_Cons split: list.split)
qed (simp add: gap_ok_def)

lemma sorted_subseq: "subseq xs ys \<Longrightarrow> sorted (map f ys) \<Longrightarrow> sorted (map f xs)"
proof (induction xs ys rule: list_emb.induct)
  case (list_emb_Cons2 x y xs ys)
  then show ?case using list_emb_set [of "(=)" xs ys] by auto
qed simp_all

lemma step_of_Some:
  "step_of ss ev = Some i \<Longrightarrow> i < length ss \<and> predicate_matches (ss_predicate (ss ! i)) ev
     \<and> (\<forall>j < i. \<not> predicate_matches (ss_predicate (ss ! j)) ev)"
proof (induction ss arbitrary: i)
  case (Cons s ss)
  show ?case
  proof (cases "predicate_matches (ss_predicate s) ev")
    case True
    then show ?thesis using Cons.prems by simp
  next
    case False
    with Cons.prems obtain k where "step_of ss ev = Some k" "i = Suc k" by (auto split: option.splits)
    with Cons.IH [of k] False show ?thesis by (auto simp: nth_Cons split: nat.splits)
  qed
qed simp

section \<open>The buffers of a rule\<close>

text \<open>What an entry of the buffer under a key is: an event of that key, at its first matching step.\<close>

definition entry_ok :: "corr_env \<Rightarrow> detection_rule \<Rightarrow> sequence_def \<Rightarrow> string \<Rightarrow> seq_entry \<Rightarrow> bool" where
  "entry_ok env rule d k e =
     (step_of (sd_steps d) (se_ev e) = Some (se_step e) \<and> se_ts e = ev_timestamp (se_ev e)
      \<and> (\<exists>vals. key_values (sd_key d) (se_ev e) = Some vals \<and> k = seq_key (state_key env (r_id rule) vals)))"

definition seq_inv :: "corr_env \<Rightarrow> detection_rule \<Rightarrow> sequence_def \<Rightarrow> engine \<Rightarrow> bool" where
  "seq_inv env rule d en =
     (\<forall>k s. en_seq en k = Some s \<longrightarrow> list_all (entry_ok env rule d k) (sq_buf s))"

lemma set_keep_last: "set (keep_last n xs) \<subseteq> set xs"
  by (simp add: keep_last_def set_drop_subset)

lemma length_keep_last: "length (keep_last n xs) \<le> n"
  by (simp add: keep_last_def)

lemma buffered_entries:
  assumes "list_all P (sq_buf s)" and "\<And>i. m = Some i \<Longrightarrow> P \<lparr>se_ts = ev_timestamp ev, se_step = i, se_ev = ev\<rparr>"
  shows "list_all P (sq_buf (buffered now window m ev s))"
  using assms set_keep_last [of seq_buffer_cap] unfolding buffered_def Let_def
  by (fastforce simp: list_all_iff split: option.split)

lemma buffered_length:
  "length (sq_buf s) \<le> seq_buffer_cap \<Longrightarrow> length (sq_buf (buffered now window m ev s)) \<le> seq_buffer_cap"
  by (auto simp: buffered_def Let_def length_keep_last split: option.split)

lemma persist_keeps [simp]:
  "en_seq (persist r en) = en_seq en" "en_corr (persist r en) = en_corr en"
  "en_findings (persist r en) = en_findings en" "en_risk (persist r en) = en_risk en"
  by (simp_all add: persist_def)

lemma delete_state_keeps [simp]:
  "en_seq (delete_state i k en) = en_seq en" "en_corr (delete_state i k en) = en_corr en"
  "en_findings (delete_state i k en) = en_findings en"
  by (simp_all add: delete_state_def)

lemma emit_keeps [simp]:
  "en_seq (snd (emit env ck a en)) = en_seq en" "en_corr (snd (emit env ck a en)) = en_corr en"
  by (simp_all add: emit_def split: prod.split sum.split)

text \<open>What one evaluation does to the buffers: the one under the event's key is rewritten or dropped.\<close>

definition the_state :: "engine \<Rightarrow> string \<Rightarrow> seq_state" where
  "the_state en k = (case en_seq en k of None \<Rightarrow> \<lparr>sq_progress = 0, sq_buf = [], sq_updated = 0\<rparr> | Some s \<Rightarrow> s)"

lemma eval_sequence_cases:
  assumes "r_sequence rule = Some d"
  obtains (idle) "eval_sequence env ck rule ev en = en"
    | (empty) vals s1 where "key_values (sd_key d) ev = Some vals"
        "s1 = buffered (ck_now ck) (rule_window env (sd_window d)) (step_of (sd_steps d) ev) ev
                (the_state en (seq_key (state_key env (r_id rule) vals)))"
        "sq_buf s1 = []"
        "eval_sequence env ck rule ev en = en\<lparr>en_seq := (en_seq en)(seq_key (state_key env (r_id rule) vals) \<mapsto> s1)\<rparr>"
    | (pending) vals s1 buf r n where "key_values (sd_key d) ev = Some vals"
        "s1 = buffered (ck_now ck) (rule_window env (sd_window d)) (step_of (sd_steps d) ev) ev
                (the_state en (seq_key (state_key env (r_id rule) vals)))"
        "buf = sort_entries env (sq_buf s1)"
        "eval_sequence env ck rule ev en = persist r (en\<lparr>en_seq := (en_seq en)(seq_key (state_key env (r_id rule) vals)
            \<mapsto> s1\<lparr>sq_buf := buf, sq_progress := n\<rparr>)\<rparr>)"
    | (fired) vals s1 chain where "key_values (sd_key d) ev = Some vals"
        "s1 = buffered (ck_now ck) (rule_window env (sd_window d)) (step_of (sd_steps d) ev) ev
                (the_state en (seq_key (state_key env (r_id rule) vals)))"
        "chain = greedy (max_gap env (sd_max_gap d)) (length (sd_steps d)) 0 0 (sort_entries env (sq_buf s1))"
        "length (sd_steps d) \<le> length chain" "sd_steps d \<noteq> []"
        "en_seq (eval_sequence env ck rule ev en) = (en_seq en)(seq_key (state_key env (r_id rule) vals) := None)"
        "en_corr (eval_sequence env ck rule ev en) = en_corr en"
proof (cases "sd_steps d = [] \<or> sd_key d = [] \<or> key_values (sd_key d) ev = None")
  case True
  then show ?thesis using assms idle by (auto simp: eval_sequence_def)
next
  case False
  then obtain vals where v: "key_values (sd_key d) ev = Some vals" by auto
  let ?k = "seq_key (state_key env (r_id rule) vals)"
  let ?s1 = "buffered (ck_now ck) (rule_window env (sd_window d)) (step_of (sd_steps d) ev) ev (the_state en ?k)"
  let ?buf = "sort_entries env (sq_buf ?s1)"
  let ?chain = "greedy (max_gap env (sd_max_gap d)) (length (sd_steps d)) 0 0 ?buf"
  have ev: "eval_sequence env ck rule ev en =
     (if sq_buf ?s1 = [] then en\<lparr>en_seq := (en_seq en)(?k \<mapsto> ?s1)\<rparr>
      else let en1 = persist (seq_row rule (state_key env (r_id rule) vals) (rule_window env (sd_window d)) (length ?chain) ?buf)
                       (en\<lparr>en_seq := (en_seq en)(?k \<mapsto> ?s1\<lparr>sq_buf := ?buf, sq_progress := length ?chain\<rparr>)\<rparr>)
           in if length ?chain < length (sd_steps d) then en1
              else let techniques = filter (\<lambda>t. t \<noteq> []) (map ss_technique (sd_steps d));
                       en2 = snd (emit env ck (match_args rule (state_key env (r_id rule) vals)
                                    (sequence_description rule techniques) techniques (map se_ev ?chain)) en1)
                   in delete_state (r_id rule) (state_key env (r_id rule) vals) (en2\<lparr>en_seq := (en_seq en2)(?k := None)\<rparr>))"
    using assms False v by (simp add: eval_sequence_def Let_def the_state_def)
  show ?thesis
  proof (cases "sq_buf ?s1 = []")
    case True
    then show ?thesis using ev by (intro empty [OF v refl]) simp_all
  next
    case nonempty: False
    show ?thesis
    proof (cases "length ?chain < length (sd_steps d)")
      case True
      then show ?thesis using ev nonempty by (intro pending [OF v refl refl]) (simp add: Let_def)
    next
      case full: False
      then show ?thesis using ev nonempty False by (intro fired [OF v refl refl]) (simp_all add: Let_def)
    qed
  qed
qed


lemma the_state_entries:
  assumes "seq_inv env rule d en"
  shows "list_all (entry_ok env rule d k) (sq_buf (the_state en k))"
  using assms by (simp add: seq_inv_def the_state_def split: option.split)

lemma sorts_set:
  assumes "sorts env"
  shows "set (sort_entries env xs) = set xs" "length (sort_entries env xs) = length xs"
    "sorted (map se_ts (sort_entries env xs))"
  using assms mset_eq_setD [of "sort_entries env xs" xs] mset_eq_length [of "sort_entries env xs" xs]
  by (simp_all add: sorts_def)

lemma new_entry_ok:
  "step_of (sd_steps d) ev = Some i \<Longrightarrow> key_values (sd_key d) ev = Some vals \<Longrightarrow>
   entry_ok env rule d (seq_key (state_key env (r_id rule) vals)) \<lparr>se_ts = ev_timestamp ev, se_step = i, se_ev = ev\<rparr>"
  by (simp add: entry_ok_def)

lemma eval_sequence_inv:
  assumes "seq_inv env rule d en" and "r_sequence rule = Some d" and "sorts env"
  shows "seq_inv env rule d (eval_sequence env ck rule ev en)"
  using assms(2)
proof (cases rule: eval_sequence_cases [of rule d env ck ev en])
  case idle
  then show ?thesis using assms(1) by simp
next
  case (empty vals s1)
  then show ?thesis using assms(1) by (simp add: seq_inv_def)
next
  case (pending vals s1 buf r n)
  have "list_all (entry_ok env rule d (seq_key (state_key env (r_id rule) vals))) (sq_buf s1)"
    unfolding pending(2)
    using the_state_entries [OF assms(1)] new_entry_ok pending(1) by (intro buffered_entries) auto
  then have "list_all (entry_ok env rule d (seq_key (state_key env (r_id rule) vals))) buf"
    using pending(3) sorts_set(1) [OF assms(3)] by (simp add: list_all_iff)
  then show ?thesis using assms(1) pending(4) by (simp add: seq_inv_def)
next
  case (fired vals s1 chain)
  then show ?thesis using assms(1) by (simp add: seq_inv_def)
qed

text \<open>Running one rule over a sequence of events.\<close>

definition run_sequence :: "corr_env \<Rightarrow> detection_rule \<Rightarrow> (clock \<times> event) list \<Rightarrow> engine \<Rightarrow> engine" where
  "run_sequence env rule evs en = fold (\<lambda>(ck, ev) en. eval_sequence env ck rule ev en) evs en"

lemma run_sequence_inv:
  "seq_inv env rule d en \<Longrightarrow> r_sequence rule = Some d \<Longrightarrow> sorts env
   \<Longrightarrow> seq_inv env rule d (run_sequence env rule evs en)"
  by (induction evs arbitrary: en) (auto simp: run_sequence_def eval_sequence_inv)

lemma seq_inv_empty: "seq_inv env rule d empty_engine"
  by (simp add: seq_inv_def empty_engine_def)

section \<open>What a match means\<close>

text \<open>A witness of a full sequence: one event for each step, in time order, within the gap, of one key.\<close>

definition full_chain :: "corr_env \<Rightarrow> detection_rule \<Rightarrow> sequence_def \<Rightarrow> string \<Rightarrow> seq_entry list \<Rightarrow> bool" where
  "full_chain env rule d k ch =
     (length ch = length (sd_steps d) \<and> sorted (map se_ts ch) \<and> gap_ok (max_gap env (sd_max_gap d)) ch
      \<and> list_all (entry_ok env rule d k) ch
      \<and> (\<forall>i < length ch. se_step (ch ! i) = i \<and> predicate_matches (ss_predicate (sd_steps d ! i)) (se_ev (ch ! i))))"

lemma chain_full:
  assumes "list_all (entry_ok env rule d k) buf" and "sorted (map se_ts buf)" and "sd_steps d \<noteq> []"
    and "ch = greedy (max_gap env (sd_max_gap d)) (length (sd_steps d)) 0 0 buf" and "length (sd_steps d) \<le> length ch"
  shows "full_chain env rule d k ch"
proof -
  let ?n = "length (sd_steps d)"
  have sub: "subseq ch buf" by (simp add: assms(4) greedy_subseq)
  have len: "length ch = ?n"
    using greedy_length [of 0 ?n] assms(3,4,5) by (metis add_0 le_antisym length_greater_0_conv)
  have steps: "map se_step ch = [0..<?n]" using greedy_steps [of _ ?n 0 0 buf] assms(4) len by simp
  have ok: "list_all (entry_ok env rule d k) ch"
    using assms(1) sub list_emb_set [of "(=)" ch buf] by (auto simp: list_all_iff)
  have "se_step (ch ! i) = i \<and> predicate_matches (ss_predicate (sd_steps d ! i)) (se_ev (ch ! i))"
    if "i < length ch" for i
  proof -
    have i: "se_step (ch ! i) = i" using that steps len by (metis add_0 nth_map nth_upt)
    have "entry_ok env rule d k (ch ! i)" using ok that by (simp add: list_all_length)
    with i step_of_Some [of "sd_steps d" "se_ev (ch ! i)" i] show ?thesis by (simp add: entry_ok_def)
  qed
  then show ?thesis
    using len ok sorted_subseq [OF sub assms(2)] greedy_gap by (simp add: full_chain_def assms(4))
qed

lemma buffered_events:
  "se_ev ` set (sq_buf (buffered now window m ev s)) \<subseteq> insert ev (se_ev ` set (sq_buf s))"
proof -
  have sub: "se_ev ` set (keep_last seq_buffer_cap (b @ [x])) \<subseteq> insert (se_ev x) (se_ev ` set b)" for b and x :: seq_entry
    using image_mono [OF set_keep_last [of seq_buffer_cap "b @ [x]"], of se_ev] by simp
  show ?thesis
  proof (cases m)
    case None
    then show ?thesis by (auto simp: buffered_def Let_def)
  next
    case (Some i)
    let ?b = "if sq_updated s \<noteq> 0 \<and> sq_updated s + window < now then [] else sq_buf s"
    let ?x = "\<lparr>se_ts = ev_timestamp ev, se_step = i, se_ev = ev\<rparr>"
    have "sq_buf (buffered now window m ev s) = keep_last seq_buffer_cap (?b @ [?x])"
      using Some by (simp add: buffered_def Let_def)
    then have "se_ev ` set (sq_buf (buffered now window m ev s)) \<subseteq> insert ev (se_ev ` set ?b)"
      using sub [of ?b ?x] by simp
    then show ?thesis by (auto split: if_splits)
  qed
qed

lemma findings_change:
  assumes "seq_inv env rule d en" and "r_sequence rule = Some d" and "sorts env"
    and "en_findings (eval_sequence env ck rule ev en) \<noteq> en_findings en"
  shows "\<exists>vals ch. key_values (sd_key d) ev = Some vals
     \<and> full_chain env rule d (seq_key (state_key env (r_id rule) vals)) ch
     \<and> se_ev ` set ch \<subseteq> insert ev (se_ev ` set (sq_buf (the_state en (seq_key (state_key env (r_id rule) vals)))))"
  using assms(2)
proof (cases rule: eval_sequence_cases [of rule d env ck ev en])
  case (fired vals s1 chain)
  let ?k = "seq_key (state_key env (r_id rule) vals)"
  have "list_all (entry_ok env rule d ?k) (sq_buf s1)"
    unfolding fired(2)
    using the_state_entries [OF assms(1)] new_entry_ok fired(1) by (intro buffered_entries) auto
  then have "list_all (entry_ok env rule d ?k) (sort_entries env (sq_buf s1))"
    using sorts_set(1) [OF assms(3)] by (simp add: list_all_iff)
  then have full: "full_chain env rule d ?k chain"
    using chain_full [OF _ sorts_set(3) [OF assms(3)] fired(5,3,4)] by blast
  have "set chain \<subseteq> set (sq_buf s1)"
    using list_emb_set [OF greedy_subseq] sorts_set(1) [OF assms(3)] unfolding fired(3) by blast
  then have "se_ev ` set chain \<subseteq> insert ev (se_ev ` set (sq_buf (the_state en ?k)))"
    using buffered_events unfolding fired(2) by blast
  then show ?thesis using fired(1) full by blast
qed (use assms(4) in simp_all)

section \<open>The buffers are bounded\<close>

definition bounded :: "engine \<Rightarrow> bool" where
  "bounded en =
     ((\<forall>k s. en_seq en k = Some s \<longrightarrow> length (sq_buf s) \<le> seq_buffer_cap)
      \<and> (\<forall>k b. en_corr en k = Some b \<longrightarrow> length b \<le> corr_buffer_cap))"

lemma corr_buffered_length:
  "length b \<le> corr_buffer_cap \<Longrightarrow> length (corr_buffered now window m ev b) \<le> corr_buffer_cap"
  using length_filter_le [of "\<lambda>e. \<not> ce_ts e < now - window" b]
  by (simp add: corr_buffered_def Let_def length_keep_last del: length_filter_le)

lemma eval_sequence_bounded:
  assumes "bounded en" and "sorts env"
  shows "bounded (eval_sequence env ck rule ev en)"
proof (cases "r_sequence rule")
  case None
  then show ?thesis using assms(1) by (simp add: eval_sequence_def)
next
  case (Some d)
  have the: "length (sq_buf (the_state en k)) \<le> seq_buffer_cap" for k
    using assms(1) by (simp add: bounded_def the_state_def split: option.split)
  from Some show ?thesis
  proof (cases rule: eval_sequence_cases [of rule d env ck ev en])
    case (pending vals s1 buf r n)
    then show ?thesis
      using assms(1) buffered_length [OF the] sorts_set(2) [OF assms(2)] by (simp add: bounded_def)
  qed (use assms(1) in \<open>simp_all add: bounded_def\<close>)
qed

lemma eval_correlation_bounded:
  assumes "bounded en"
  shows "bounded (eval_correlation env ck rule ev en)"
proof (cases "r_correlation rule")
  case None
  then show ?thesis using assms by (simp add: eval_correlation_def)
next
  case (Some d)
  have b: "length (corr_buffered now window m e (case en_corr en k of None \<Rightarrow> [] | Some b \<Rightarrow> b)) \<le> corr_buffer_cap"
    for now window m e k
    using assms by (intro corr_buffered_length) (simp add: bounded_def split: option.split)
  show ?thesis
    using assms Some b by (simp add: eval_correlation_def Let_def bounded_def case_prod_beta split: option.split)
qed

lemma process_bounded: "bounded en \<Longrightarrow> sorts env \<Longrightarrow> bounded (process env ck rules ev en)"
  unfolding process_def
  by (induction rules arbitrary: en) (simp_all add: eval_sequence_bounded eval_correlation_bounded)

section \<open>Correlation matches\<close>

lemma all_required:
  "\<not> equal_fold (cd_require d) ''most'' \<Longrightarrow> required d \<le> int (length (satisfied d buf))
   \<Longrightarrow> list_all (condition_met buf) (cd_conditions d)"
  using filter_True length_filter_less [of _ "cd_conditions d" "condition_met buf"]
  by (fastforce simp: required_def satisfied_def list_all_iff)

lemma correlation_change:
  assumes "r_correlation rule = Some d" and "\<not> equal_fold (cd_require d) ''most''"
    and "en_findings (eval_correlation env ck rule ev en) \<noteq> en_findings en"
  shows "\<exists>vals buf. key_values (cd_key d) ev = Some vals
     \<and> buf = corr_buffered (ck_now ck) (rule_window env (cd_window d))
         (list_ex (\<lambda>c. predicate_matches (cc_predicate c) ev) (cd_conditions d)) ev
         (case en_corr en (corr_key (state_key env (r_id rule) vals)) of None \<Rightarrow> [] | Some b \<Rightarrow> b)
     \<and> list_all (condition_met buf) (cd_conditions d)
     \<and> list_all (\<lambda>e. ck_now ck - rule_window env (cd_window d) \<le> ce_ts e \<or> ce_ev e = ev) buf"
proof -
  obtain vals where v: "key_values (cd_key d) ev = Some vals" "cd_conditions d \<noteq> []" "cd_key d \<noteq> []"
    using assms(1,3) by (auto simp: eval_correlation_def split: if_splits option.splits)
  let ?buf = "corr_buffered (ck_now ck) (rule_window env (cd_window d))
         (list_ex (\<lambda>c. predicate_matches (cc_predicate c) ev) (cd_conditions d)) ev
         (case en_corr en (corr_key (state_key env (r_id rule) vals)) of None \<Rightarrow> [] | Some b \<Rightarrow> b)"
  have "\<not> int (length (satisfied d ?buf)) < required d"
    using assms(1,3) v by (auto simp: eval_correlation_def Let_def split: if_splits)
  then have "list_all (condition_met ?buf) (cd_conditions d)"
    using all_required [OF assms(2)] by simp
  moreover have "list_all (\<lambda>e. now - w \<le> ce_ts e \<or> ce_ev e = ev) (corr_buffered now w m ev b)" for now w m b
    using set_keep_last [of corr_buffer_cap "filter (\<lambda>e. \<not> ce_ts e < now - w) b @ [\<lparr>ce_ts = ev_timestamp ev, ce_ev = ev\<rparr>]"]
    by (auto simp: corr_buffered_def Let_def list_all_iff)
  ultimately show ?thesis using v(1) by blast
qed


section \<open>Where the entries come from\<close>

definition seq_from :: "event set \<Rightarrow> engine \<Rightarrow> bool" where
  "seq_from E en = (\<forall>k s. en_seq en k = Some s \<longrightarrow> se_ev ` set (sq_buf s) \<subseteq> E)"

lemma the_state_from: "seq_from E en \<Longrightarrow> se_ev ` set (sq_buf (the_state en k)) \<subseteq> E"
  by (simp add: seq_from_def the_state_def split: option.split)

lemma seq_from_mono: "seq_from E en \<Longrightarrow> E \<subseteq> F \<Longrightarrow> seq_from F en"
  unfolding seq_from_def by (metis order_trans)

lemma seq_from_update:
  "seq_from E en \<Longrightarrow> se_ev ` set (sq_buf s) \<subseteq> E \<Longrightarrow> en_seq en' = (en_seq en)(k \<mapsto> s) \<Longrightarrow> seq_from E en'"
  by (auto simp: seq_from_def split: if_splits)

lemma seq_from_drop: "seq_from E en \<Longrightarrow> en_seq en' = (en_seq en)(k := None) \<Longrightarrow> seq_from E en'"
  by (auto simp: seq_from_def split: if_splits)

lemma eval_sequence_from:
  assumes "seq_from E en" and "r_sequence rule = Some d" and "sorts env"
  shows "seq_from (insert ev E) (eval_sequence env ck rule ev en)"
proof -
  have start: "seq_from (insert ev E) en" using assms(1) seq_from_mono by blast
  have new: "se_ev ` set (sq_buf (buffered now w m ev (the_state en k))) \<subseteq> insert ev E" for now w m k
    using buffered_events [of now w m ev "the_state en k"] the_state_from [OF assms(1), of k] by blast
  show ?thesis
    using assms(2)
  proof (cases rule: eval_sequence_cases [of rule d env ck ev en])
    case idle
    then show ?thesis using start by simp
  next
    case (empty vals s1)
    then show ?thesis using new by (intro seq_from_update [OF start]) simp_all
  next
    case (pending vals s1 buf r n)
    have "se_ev ` set buf \<subseteq> insert ev E"
      using new pending(3) sorts_set(1) [OF assms(3)] unfolding pending(2) by simp
    then show ?thesis using pending(4) by (intro seq_from_update [OF start]) simp_all
  next
    case (fired vals s1 chain)
    then show ?thesis by (intro seq_from_drop [OF start])
  qed
qed

lemma run_sequence_snoc:
  "run_sequence env rule (evs @ [(ck, ev)]) en = eval_sequence env ck rule ev (run_sequence env rule evs en)"
  by (simp add: run_sequence_def)

lemma run_sequence_from:
  assumes "r_sequence rule = Some d" and "sorts env"
  shows "seq_from (snd ` set evs) (run_sequence env rule evs empty_engine)"
proof (induction evs rule: rev_induct)
  case Nil
  show ?case by (simp add: seq_from_def run_sequence_def empty_engine_def)
next
  case (snoc x xs)
  obtain ck ev where x: "x = (ck, ev)" by (cases x)
  show ?case using eval_sequence_from [OF snoc assms, of ev ck] by (simp add: x run_sequence_snoc)
qed

section \<open>Sample rules\<close>

definition sample_env :: corr_env where
  "sample_env = \<lparr>sha1 = id, parse_duration = (\<lambda>s. None), sort_entries = sort_key se_ts, map_order = id,
     conf_text = (\<lambda>c n. []), has_risk_store = True\<rparr>"

lemma sample_env_sorts: "sorts sample_env"
  by (simp add: sorts_def sample_env_def)

definition sample_clock :: "int \<Rightarrow> string \<Rightarrow> clock" where
  "sample_clock t i = \<lparr>ck_now = t, ck_id = i, ck_first = t, ck_last = t, ck_write = t, ck_persist = t\<rparr>"

definition sample_event :: "string \<Rightarrow> int \<Rightarrow> string \<Rightarrow> event" where
  "sample_event i t a = blank_event\<lparr>ev_id := i, ev_timestamp := t, ev_action := a, ev_user := ''bob''\<rparr>"

definition sample_rule :: "sequence_def option \<Rightarrow> correlation_def option \<Rightarrow> detection_rule" where
  "sample_rule sq co =
     \<lparr>r_id = ''r1'', r_name = ''Rule'', r_description = [], r_severity = ''high'', r_enabled = True, r_suppressed = False,
      r_risk = 50, r_tags = [], r_tactic = [], r_sources = [], r_kind = (if sq = None then ''correlation'' else ''sequence''),
      r_confidence = 0, r_has_definition = True, r_sequence = sq, r_correlation = co\<rparr>"

definition sample_step :: "string \<Rightarrow> sequence_step" where
  "sample_step a = \<lparr>ss_id = a, ss_predicate = [(''action'', a)], ss_technique = []\<rparr>"

definition login_exec :: sequence_def where
  "login_exec = \<lparr>sd_key = [''user''], sd_window = [], sd_max_gap = ''10'', sd_steps = [sample_step ''login'', sample_step ''exec'']\<rparr>"

abbreviation secs :: "int \<Rightarrow> int" where "secs n \<equiv> n * 1000000000"

section \<open>Properties\<close>

text \<open>
  C14. A sequence rule reports only real sequences: whenever evaluating an event changes the findings, the
  event has a correlation key, and among it and the events evaluated before there is one event for each
  step, of that key, matching the step's predicate, in time order and within the maximal gap.
\<close>

theorem sequence_sound:
  assumes "sorts env" and "r_sequence rule = Some d" and "en = run_sequence env rule evs empty_engine"
    and "en_findings (eval_sequence env ck rule ev en) \<noteq> en_findings en"
  shows "\<exists>vals ch. key_values (sd_key d) ev = Some vals
     \<and> full_chain env rule d (seq_key (state_key env (r_id rule) vals)) ch
     \<and> se_ev ` set ch \<subseteq> insert ev (snd ` set evs)"
proof -
  have inv: "seq_inv env rule d en"
    unfolding assms(3) by (rule run_sequence_inv [OF seq_inv_empty assms(2,1)])
  from findings_change [OF inv assms(2,1,4)] obtain vals ch where
    "key_values (sd_key d) ev = Some vals" "full_chain env rule d (seq_key (state_key env (r_id rule) vals)) ch"
    "se_ev ` set ch \<subseteq> insert ev (se_ev ` set (sq_buf (the_state en (seq_key (state_key env (r_id rule) vals)))))"
    by blast
  moreover have "se_ev ` set (sq_buf (the_state en k)) \<subseteq> snd ` set evs" for k
    using the_state_from run_sequence_from [OF assms(2,1)] unfolding assms(3) by blast
  ultimately show ?thesis by blast
qed

definition sample_history :: "(clock \<times> event) list" where
  "sample_history = [(sample_clock (secs 1) ''f0'', sample_event ''e1'' (secs 1) ''login'')]"

lemma findings_differ:
  "length (findings a) = 1 \<Longrightarrow> length (findings b) = 0 \<Longrightarrow> a \<noteq> b"
  by auto

lemma sample_sequence_fires:
  "en_findings (eval_sequence sample_env (sample_clock (secs 5) ''f1'') (sample_rule (Some login_exec) None)
      (sample_event ''e2'' (secs 5) ''exec'') (run_sequence sample_env (sample_rule (Some login_exec) None) sample_history empty_engine))
   \<noteq> en_findings (run_sequence sample_env (sample_rule (Some login_exec) None) sample_history empty_engine)"
  by (rule findings_differ; code_simp)

theorem sequence_sound_witness:
  "\<exists>vals ch. key_values (sd_key login_exec) (sample_event ''e2'' (secs 5) ''exec'') = Some vals
     \<and> full_chain sample_env (sample_rule (Some login_exec) None) login_exec
         (seq_key (state_key sample_env (r_id (sample_rule (Some login_exec) None)) vals)) ch
     \<and> se_ev ` set ch \<subseteq> insert (sample_event ''e2'' (secs 5) ''exec'') (snd ` set sample_history)"
  by (rule sequence_sound [OF sample_env_sorts _ refl sample_sequence_fires]) (simp add: sample_rule_def)

lemma repeated_step_no_chain:
  assumes "i < j" and "j < length (sd_steps d)"
    and "ss_predicate (sd_steps d ! i) = ss_predicate (sd_steps d ! j)"
  shows "\<not> full_chain env rule d k ch"
proof
  assume full: "full_chain env rule d k ch"
  then have j: "j < length ch" "se_step (ch ! j) = j" "predicate_matches (ss_predicate (sd_steps d ! j)) (se_ev (ch ! j))"
    "entry_ok env rule d k (ch ! j)"
    using assms(2) by (auto simp: full_chain_def list_all_length)
  then have "step_of (sd_steps d) (se_ev (ch ! j)) = Some j" by (simp add: entry_ok_def)
  then have "\<not> predicate_matches (ss_predicate (sd_steps d ! i)) (se_ev (ch ! j))"
    using step_of_Some assms(1) by blast
  then show False using assms(3) j(3) by simp
qed

text \<open>
  C34. A sequence with a repeated step never fires: when two steps have the same predicate, every event
  is filed under the first of them, so that no chain is ever complete and no finding is raised,
  whatever events arrive.
\<close>

theorem repeated_step_never_fires:
  assumes "sorts env" and "r_sequence rule = Some d" and "i < j" and "j < length (sd_steps d)"
    and "ss_predicate (sd_steps d ! i) = ss_predicate (sd_steps d ! j)"
  shows "en_findings (run_sequence env rule evs empty_engine) = empty_findings"
proof (induction evs rule: rev_induct)
  case Nil
  show ?case by (simp add: run_sequence_def empty_engine_def)
next
  case (snoc x xs)
  obtain ck ev where x: "x = (ck, ev)" by (cases x)
  have inv: "seq_inv env rule d (run_sequence env rule xs empty_engine)"
    by (rule run_sequence_inv [OF seq_inv_empty assms(2,1)])
  have "en_findings (eval_sequence env ck rule ev (run_sequence env rule xs empty_engine))
      = en_findings (run_sequence env rule xs empty_engine)"
    using findings_change [OF inv assms(2,1), of ck ev] repeated_step_no_chain [OF assms(3-5)] by blast
  then show ?case using snoc by (simp add: x run_sequence_snoc)
qed

definition three_logins :: sequence_def where
  "three_logins = \<lparr>sd_key = [''user''], sd_window = [], sd_max_gap = [], sd_steps = replicate 3 (sample_step ''login'')\<rparr>"

theorem repeated_step_never_fires_witness:
  "en_findings (run_sequence sample_env (sample_rule (Some three_logins) None)
      (map (\<lambda>n. (sample_clock (secs n) ''f'', sample_event ''e'' (secs n) ''login'')) [1, 2, 3, 4]) empty_engine) = empty_findings"
  by (rule repeated_step_never_fires [OF sample_env_sorts, of _ three_logins 0 1])
    (simp_all add: sample_rule_def three_logins_def)

definition missed_history :: "(clock \<times> event) list" where
  "missed_history =
     [(sample_clock (secs 1) ''f1'', sample_event ''e1'' (secs 1) ''login''),
      (sample_clock (secs 100) ''f2'', sample_event ''e2'' (secs 100) ''login''),
      (sample_clock (secs 105) ''f3'', sample_event ''e3'' (secs 105) ''exec'')]"

definition missed_chain :: "seq_entry list" where
  "missed_chain =
     [\<lparr>se_ts = secs 100, se_step = 0, se_ev = sample_event ''e2'' (secs 100) ''login''\<rparr>,
      \<lparr>se_ts = secs 105, se_step = 1, se_ev = sample_event ''e3'' (secs 105) ''exec''\<rparr>]"

lemma missed_chain_full:
  "full_chain sample_env (sample_rule (Some login_exec) None) login_exec
     (seq_key (state_key sample_env ''r1'' [''bob''])) missed_chain"
proof -
  have "step_of (sd_steps login_exec) (sample_event ''e2'' (secs 100) ''login'') = Some 0"
    "step_of (sd_steps login_exec) (sample_event ''e3'' (secs 105) ''exec'') = Some 1"
    "key_values (sd_key login_exec) (sample_event ''e2'' (secs 100) ''login'') = Some [''bob'']"
    "key_values (sd_key login_exec) (sample_event ''e3'' (secs 105) ''exec'') = Some [''bob'']"
    "predicate_matches (ss_predicate (sd_steps login_exec ! 0)) (sample_event ''e2'' (secs 100) ''login'')"
    "predicate_matches (ss_predicate (sd_steps login_exec ! 1)) (sample_event ''e3'' (secs 105) ''exec'')"
    "max_gap sample_env (sd_max_gap login_exec) = secs 10" "length (sd_steps login_exec) = 2"
    by code_simp+
  then show ?thesis
    by (simp add: full_chain_def missed_chain_def entry_ok_def gap_ok_def sample_rule_def sample_event_def less_Suc_eq)
qed

text \<open>
  The greedy search misses chains when a maximal gap is set: after a login, a second login 99 seconds
  later and an exec 5 seconds after that, the last two are a full sequence within the gap of 10
  seconds, but the search holds on to the first login and no finding is raised.
\<close>

theorem greedy_misses_chain:
  "full_chain sample_env (sample_rule (Some login_exec) None) login_exec
     (seq_key (state_key sample_env ''r1'' [''bob''])) missed_chain
   \<and> map se_ev missed_chain = map snd (drop 1 missed_history)
   \<and> findings (en_findings (run_sequence sample_env (sample_rule (Some login_exec) None) missed_history empty_engine)) = []"
proof (intro conjI missed_chain_full)
  show "map se_ev missed_chain = map snd (drop 1 missed_history)"
    by (simp add: missed_chain_def missed_history_def)
  have "length (findings (en_findings (run_sequence sample_env (sample_rule (Some login_exec) None) missed_history empty_engine))) = 0"
    by code_simp
  then show "findings (en_findings (run_sequence sample_env (sample_rule (Some login_exec) None) missed_history empty_engine)) = []"
    by simp
qed

text \<open>
  C15. A correlation rule that requires all its conditions reports only when each of them holds: the
  findings change only if, in the buffer of the event's key after the eviction, every condition has
  at least its count of matching events, and every event of that buffer is in the window or is the
  event just evaluated.
\<close>

theorem correlation_sound:
  assumes "r_correlation rule = Some d" and "\<not> equal_fold (cd_require d) ''most''"
    and "en_findings (eval_correlation env ck rule ev en) \<noteq> en_findings en"
  shows "\<exists>vals buf. key_values (cd_key d) ev = Some vals
     \<and> buf = corr_buffered (ck_now ck) (rule_window env (cd_window d))
         (list_ex (\<lambda>c. predicate_matches (cc_predicate c) ev) (cd_conditions d)) ev
         (case en_corr en (corr_key (state_key env (r_id rule) vals)) of None \<Rightarrow> [] | Some b \<Rightarrow> b)
     \<and> list_all (condition_met buf) (cd_conditions d)
     \<and> list_all (\<lambda>e. ck_now ck - rule_window env (cd_window d) \<le> ce_ts e \<or> ce_ev e = ev) buf"
  using correlation_change [OF assms] .

definition one_condition :: "string \<Rightarrow> int \<Rightarrow> correlation_def" where
  "one_condition req n = \<lparr>cd_key = [''user''], cd_window = [], cd_require = req, cd_min_match = 0,
     cd_conditions = [\<lparr>cc_id = ''fails'', cc_predicate = [(''action'', ''fail'')], cc_count_gte = n\<rparr>], cd_techniques = []\<rparr>"

lemma sample_correlation_fires:
  "en_findings (eval_correlation sample_env (sample_clock (secs 5) ''f1'') (sample_rule None (Some (one_condition [] 1)))
      (sample_event ''e1'' (secs 5) ''fail'') empty_engine) \<noteq> en_findings empty_engine"
  by (rule findings_differ; code_simp)

theorem correlation_sound_witness:
  "\<exists>vals buf. key_values (cd_key (one_condition [] 1)) (sample_event ''e1'' (secs 5) ''fail'') = Some vals
     \<and> buf = corr_buffered (ck_now (sample_clock (secs 5) ''f1'')) (rule_window sample_env (cd_window (one_condition [] 1)))
         (list_ex (\<lambda>c. predicate_matches (cc_predicate c) (sample_event ''e1'' (secs 5) ''fail'')) (cd_conditions (one_condition [] 1)))
         (sample_event ''e1'' (secs 5) ''fail'')
         (case en_corr empty_engine (corr_key (state_key sample_env (r_id (sample_rule None (Some (one_condition [] 1)))) vals)) of
            None \<Rightarrow> [] | Some b \<Rightarrow> b)
     \<and> list_all (condition_met buf) (cd_conditions (one_condition [] 1))
     \<and> list_all (\<lambda>e. ck_now (sample_clock (secs 5) ''f1'') - rule_window sample_env (cd_window (one_condition [] 1)) \<le> ce_ts e
         \<or> ce_ev e = sample_event ''e1'' (secs 5) ''fail'') buf"
proof (rule correlation_sound [OF _ _ sample_correlation_fires])
  show "r_correlation (sample_rule None (Some (one_condition [] 1))) = Some (one_condition [] 1)"
    by (simp add: sample_rule_def)
  show "\<not> equal_fold (cd_require (one_condition [] 1)) ''most''" by code_simp
qed

text \<open>
  A rule with one condition that requires most of its conditions requires none: with no minimum given,
  a rule that wants five failures raises a finding on the first one, although its condition does not
  hold.
\<close>

theorem most_of_one_is_none:
  "length (findings (en_findings (eval_correlation sample_env (sample_clock (secs 5) ''f1'')
      (sample_rule None (Some (one_condition ''most'' 5))) (sample_event ''e1'' (secs 5) ''fail'') empty_engine))) = 1
   \<and> satisfied (one_condition ''most'' 5) [\<lparr>ce_ts = secs 5, ce_ev = sample_event ''e1'' (secs 5) ''fail''\<rparr>] = []"
  by (rule conjI; code_simp)

definition run_worker :: "corr_env \<Rightarrow> (clock \<times> detection_rule list \<times> event) list \<Rightarrow> engine \<Rightarrow> engine" where
  "run_worker env jobs en = fold (\<lambda>(ck, rules, ev) en. process env ck rules ev en) jobs en"

lemma run_worker_bounded: "bounded en \<Longrightarrow> sorts env \<Longrightarrow> bounded (run_worker env jobs en)"
  by (induction jobs arbitrary: en) (auto simp: run_worker_def process_bounded)

text \<open>
  The engine's memory of one key is bounded: after any events, under any rules, no sequence buffer
  holds more than 20 entries and no correlation buffer more than 500.
\<close>

theorem buffers_bounded:
  assumes "sorts env"
  shows "(\<forall>k s. en_seq (run_worker env jobs empty_engine) k = Some s \<longrightarrow> length (sq_buf s) \<le> 20)
    \<and> (\<forall>k b. en_corr (run_worker env jobs empty_engine) k = Some b \<longrightarrow> length b \<le> 500)"
proof -
  have "bounded (run_worker env jobs empty_engine)"
    by (rule run_worker_bounded [OF _ assms]) (simp add: bounded_def empty_engine_def)
  then show ?thesis
    by (auto simp: bounded_def seq_buffer_cap_def corr_buffer_cap_def)
qed

definition login_stream :: "(clock \<times> detection_rule list \<times> event) list" where
  "login_stream = map (\<lambda>n. (sample_clock (secs n) ''f'', [sample_rule (Some login_exec) None], sample_event ''e'' (secs n) ''login''))
     [1, 2, 3]"

definition buffer_lengths :: "string \<Rightarrow> engine \<Rightarrow> nat option" where
  "buffer_lengths k en = map_option (\<lambda>s. length (sq_buf s)) (en_seq en k)"

theorem buffers_bounded_witness:
  "buffer_lengths (seq_key (state_key sample_env ''r1'' [''bob''])) (run_worker sample_env login_stream empty_engine) = Some 3
   \<and> the (buffer_lengths (seq_key (state_key sample_env ''r1'' [''bob''])) (run_worker sample_env login_stream empty_engine)) \<le> 20"
proof
  show len: "buffer_lengths (seq_key (state_key sample_env ''r1'' [''bob''])) (run_worker sample_env login_stream empty_engine) = Some 3"
    by code_simp
  then show "the (buffer_lengths (seq_key (state_key sample_env ''r1'' [''bob''])) (run_worker sample_env login_stream empty_engine)) \<le> 20"
    using buffers_bounded [OF sample_env_sorts, of login_stream] by (auto simp: buffer_lengths_def)
qed

end
