(* ===== verification/Walks.thy ===== *)
theory Walks
  imports Main
begin

text \<open>
  Steps and distances in a graph given by a link relation, and the locale \<open>adjacency\<close>: the contract
  of an operation that answers the neighbours of a node. Its lemmas carry the level by level
  searches.
\<close>

definition within :: "('n \<Rightarrow> 'n \<Rightarrow> bool) \<Rightarrow> nat \<Rightarrow> 'n \<Rightarrow> 'n \<Rightarrow> bool" where
  "within link k a b = (\<exists>j \<le> k. (link ^^ j) a b)"

definition at_distance :: "('n \<Rightarrow> 'n \<Rightarrow> bool) \<Rightarrow> nat \<Rightarrow> 'n \<Rightarrow> 'n \<Rightarrow> bool" where
  "at_distance link k a b = ((link ^^ k) a b \<and> (\<forall>j < k. \<not> (link ^^ j) a b))"

lemma at_distance_0 [simp]: "at_distance link 0 a b \<longleftrightarrow> b = a"
  by (auto simp: at_distance_def)

lemma within_0 [simp]: "within link 0 a b \<longleftrightarrow> b = a"
  by (auto simp: within_def)

lemma within_Suc: "within link (Suc k) a b \<longleftrightarrow> within link k a b \<or> at_distance link (Suc k) a b"
  unfolding within_def at_distance_def by (metis le_Suc_eq less_Suc_eq_le)

lemma within_distance: "within link k a b \<longleftrightarrow> (\<exists>j \<le> k. at_distance link j a b)"
proof (induction k)
  case (Suc k)
  then show ?case by (auto simp: within_Suc le_Suc_eq)
qed simp

lemma at_distance_unique: "at_distance link i a b \<Longrightarrow> at_distance link j a b \<Longrightarrow> i = j"
  unfolding at_distance_def by (metis linorder_neqE_nat)

lemma next_layer:
  "at_distance link (Suc k) a b \<longleftrightarrow> (\<exists>c. at_distance link k a c \<and> link c b) \<and> \<not> within link k a b"
proof
  assume d: "at_distance link (Suc k) a b"
  then obtain c where c: "(link ^^ k) a c" "link c b" by (auto simp: at_distance_def elim: relpowp_Suc_E)
  have "\<not> (link ^^ j) a c" if "j < k" for j
  proof
    assume "(link ^^ j) a c"
    then have "(link ^^ Suc j) a b" using c(2) by (rule relpowp_Suc_I)
    then show False using d that unfolding at_distance_def by blast
  qed
  then show "(\<exists>c. at_distance link k a c \<and> link c b) \<and> \<not> within link k a b"
    using d c by (auto simp: at_distance_def within_def less_Suc_eq_le)
next
  assume "(\<exists>c. at_distance link k a c \<and> link c b) \<and> \<not> within link k a b"
  then show "at_distance link (Suc k) a b"
    by (auto simp: at_distance_def within_def less_Suc_eq_le intro: relpowp_Suc_I)
qed

lemma no_later_layer:
  assumes "k \<le> j" and "\<forall>n. \<not> at_distance link k a n"
  shows "\<not> at_distance link j a b"
  using assms
proof (induction j arbitrary: b rule: dec_induct)
  case (step n)
  then show ?case by (simp add: next_layer)
qed simp

locale adjacency =
  fixes nbrs :: "'n \<Rightarrow> 'n list" and link :: "'n \<Rightarrow> 'n \<Rightarrow> bool"
  assumes nbrs_iff: "m \<in> set (nbrs n) \<longleftrightarrow> link n m"
begin

lemma layer_of_queue:
  assumes "set queue = {n. at_distance link k a n}" and "set seen = {n. within link k a n}"
  shows "(\<Union>c \<in> set queue. set (nbrs c)) - set seen = {n. at_distance link (Suc k) a n}"
    and "set seen \<union> (\<Union>c \<in> set queue. set (nbrs c)) = {n. within link (Suc k) a n}"
proof -
  show l: "(\<Union>c \<in> set queue. set (nbrs c)) - set seen = {n. at_distance link (Suc k) a n}"
    using assms by (auto simp: next_layer nbrs_iff)
  show "set seen \<union> (\<Union>c \<in> set queue. set (nbrs c)) = {n. within link (Suc k) a n}"
    using l assms(2) by (auto simp: within_Suc)
qed

lemma last_layer:
  assumes "{n. at_distance link k a n} = {}" and "k \<le> m"
  shows "at_distance link j a n \<and> j \<le> m \<longleftrightarrow> at_distance link j a n \<and> j < k"
proof -
  have "j < k" if "at_distance link j a n"
    using that no_later_layer [of k j link a n] assms(1) by (cases "k \<le> j") auto
  then show ?thesis using assms(2) by auto
qed

end

end
