(* ===== verification/EntityGraph.thy ===== *)
theory EntityGraph
  imports EventModel Tables Walks
begin

text \<open>
  The entity graph, \<^verbatim>\<open>internal/correlation/graph.go\<close>: every stored event adds the entities it names and
  the relationships between them. The state holds the rows of the tables \<^verbatim>\<open>entities\<close>,
  \<^verbatim>\<open>relationships\<close> and \<^verbatim>\<open>relationship_meta\<close>; a node is the pair of an entity's type and value.
  Fresh identifiers and clock readings are arguments. The order in which a UNION answers its
  rows is left open by SQL and is a parameter.

  The traversal is a depth-first search that marks a node when it first meets it, at whatever depth; the
  theorems show that every node it answers is linked to the start by as many steps as it says, and
  that it misses nodes.
\<close>

section \<open>State\<close>

type_synonym node_ref = "string \<times> string"

record entity =
  en_id :: string
  en_node :: node_ref
  en_first :: int
  en_last :: int
  en_count :: int
  en_metadata :: string

record relationship =
  rl_id :: string
  rl_from :: node_ref
  rl_to :: node_ref
  rl_relation :: string
  rl_weight :: int
  rl_created :: int

record rel_meta =
  rm_from :: node_ref
  rm_to :: node_ref
  rm_relation :: string
  rm_status :: string
  rm_source :: string
  rm_source_id :: string
  rm_first :: int
  rm_last :: int
  rm_evidence :: string

record graph_state =
  entities :: "entity list"
  relationships :: "relationship list"
  rel_metas :: "rel_meta list"

definition empty_graph :: graph_state where
  "empty_graph = \<lparr>entities = [], relationships = [], rel_metas = []\<rparr>"

datatype graph_error = GraphWrite | ScanNull

section \<open>Writing\<close>

definition upsert_entity :: "(string \<Rightarrow> string) \<Rightarrow> string \<Rightarrow> int \<Rightarrow> entity \<Rightarrow> graph_state \<Rightarrow> (graph_error + unit) \<times> graph_state" where
  "upsert_entity json fresh now e st =
     (let i = (if en_id e = [] then fresh else en_id e);
          f = (if en_first e = 0 then now else en_first e);
          l = (if en_last e = 0 then f else en_last e);
          m = (if en_metadata e = [] then ''null'' else json (en_metadata e))
      in if taken en_node (en_node e) (entities st)
         then (Inr (), st\<lparr>entities := update_rows (\<lambda>x. en_node x = en_node e)
                 (\<lambda>x. x\<lparr>en_last := l, en_count := en_count x + 1, en_metadata := m\<rparr>) (entities st)\<rparr>)
         else if taken en_id i (entities st) then (Inl GraphWrite, st)
         else (Inr (), st\<lparr>entities := entities st @ [e\<lparr>en_id := i, en_first := f, en_last := l, en_metadata := m\<rparr>]\<rparr>))"

definition edge_key :: "relationship \<Rightarrow> node_ref \<times> node_ref \<times> string" where
  "edge_key r = (rl_from r, rl_to r, rl_relation r)"

definition add_relationship :: "string \<Rightarrow> int \<Rightarrow> relationship \<Rightarrow> graph_state \<Rightarrow> (graph_error + unit) \<times> graph_state" where
  "add_relationship fresh now r st =
     (let i = (if rl_id r = [] then fresh else rl_id r);
          w = (if rl_weight r = 0 then 1 else rl_weight r);
          c = (if rl_created r = 0 then now else rl_created r)
      in if taken edge_key (edge_key r) (relationships st)
         then (Inr (), st\<lparr>relationships := update_rows (\<lambda>x. edge_key x = edge_key r)
                 (\<lambda>x. x\<lparr>rl_weight := rl_weight x + w\<rparr>) (relationships st)\<rparr>)
         else if taken rl_id i (relationships st) then (Inl GraphWrite, st)
         else (Inr (), st\<lparr>relationships := relationships st @ [r\<lparr>rl_id := i, rl_weight := w, rl_created := c\<rparr>]\<rparr>))"

text \<open>A sequence of writes that ends at the first error.\<close>

fun writes :: "(graph_state \<Rightarrow> (graph_error + unit) \<times> graph_state) list \<Rightarrow> graph_state \<Rightarrow> (graph_error + unit) \<times> graph_state" where
  "writes [] st = (Inr (), st)"
| "writes (w # ws) st =
     (case w st of (Inl e, st') \<Rightarrow> (Inl e, st') | (Inr u, st') \<Rightarrow> writes ws st')"

definition event_nodes :: "event \<Rightarrow> node_ref list" where
  "event_nodes ev =
     filter (\<lambda>n. snd n \<noteq> [])
       [(''ip'', ev_source_ip ev), (''ip'', ev_destination_ip ev), (''user'', ev_user ev), (''host'', ev_host ev),
        (''process'', ev_process ev), (''file'', ev_file_path ev), (''trace_id'', ev_trace_id ev)]"

definition event_edges :: "event \<Rightarrow> (node_ref \<times> node_ref \<times> string) list" where
  "event_edges ev =
     filter (\<lambda>(a, b, rel). snd a \<noteq> [] \<and> snd b \<noteq> [])
       [((''ip'', ev_source_ip ev), (''ip'', ev_destination_ip ev), ''connected_to''),
        ((''user'', ev_user ev), (''host'', ev_host ev), ''auth_from''),
        ((''host'', ev_host ev), (''process'', ev_process ev), ''executed''),
        ((''host'', ev_host ev), (''file'', ev_file_path ev), ''accessed'')]"

text \<open>The clock reading and the fresh identifier of the \<open>i\<close>-th write.\<close>

record graph_supply =
  gs_json :: "string \<Rightarrow> string"
  gs_id :: "nat \<Rightarrow> string"
  gs_now :: "nat \<Rightarrow> int"

definition entity_write :: "graph_supply \<Rightarrow> nat \<times> node_ref \<Rightarrow> graph_state \<Rightarrow> (graph_error + unit) \<times> graph_state" where
  "entity_write s = (\<lambda>(i, n). upsert_entity (gs_json s) (gs_id s i) (gs_now s i)
     \<lparr>en_id = [], en_node = n, en_first = gs_now s i, en_last = gs_now s i, en_count = 1, en_metadata = []\<rparr>)"

definition edge_write :: "graph_supply \<Rightarrow> nat \<times> node_ref \<times> node_ref \<times> string \<Rightarrow> graph_state
    \<Rightarrow> (graph_error + unit) \<times> graph_state" where
  "edge_write s = (\<lambda>(i, a, b, rel). add_relationship (gs_id s i) (gs_now s i)
     \<lparr>rl_id = [], rl_from = a, rl_to = b, rl_relation = rel, rl_weight = 1, rl_created = gs_now s i\<rparr>)"

definition add_entity_from_event :: "graph_supply \<Rightarrow> event \<Rightarrow> graph_state \<Rightarrow> (graph_error + unit) \<times> graph_state" where
  "add_entity_from_event s ev =
     (let ns = event_nodes ev
      in writes (map (entity_write s) (enumerate 0 ns) @ map (edge_write s) (enumerate (length ns) (event_edges ev))))"

section \<open>Reading\<close>

definition get_entity :: "node_ref \<Rightarrow> graph_state \<Rightarrow> entity option" where
  "get_entity n st = select_row (\<lambda>x. en_node x = n) (entities st)"

definition join_entity :: "node_ref \<Rightarrow> string \<Rightarrow> graph_state \<Rightarrow> (entity option \<times> string) list" where
  "join_entity n rel st =
     (case filter (\<lambda>x. en_node x = n) (entities st) of
        [] \<Rightarrow> [(None, rel)]
      | xs \<Rightarrow> map (\<lambda>x. (Some x, rel)) xs)"

definition neighbor_rows :: "node_ref \<Rightarrow> graph_state \<Rightarrow> (entity option \<times> string) list" where
  "neighbor_rows n st =
     concat (map (\<lambda>r. if rl_from r = n then join_entity (rl_to r) (rl_relation r) st else []) (relationships st))
     @ concat (map (\<lambda>r. if rl_to r = n then join_entity (rl_from r) (rl_relation r) st else []) (relationships st))"

text \<open>
  The rows of a UNION are distinct, in an order SQL leaves open: the order of a rank that may depend on
  the node asked for.
\<close>

type_synonym row_rank = "node_ref \<Rightarrow> entity option \<times> string \<Rightarrow> nat"

fun scan_neighbors :: "(entity option \<times> string) list \<Rightarrow> (entity \<times> string) list option" where
  "scan_neighbors [] = Some []"
| "scan_neighbors ((None, rel) # rows) = None"
| "scan_neighbors ((Some e, rel) # rows) = map_option (Cons (e, rel)) (scan_neighbors rows)"

definition one_level :: "row_rank \<Rightarrow> node_ref \<Rightarrow> graph_state \<Rightarrow> (entity \<times> string) list option" where
  "one_level ord n st = scan_neighbors (sort_key (ord n) (remdups (neighbor_rows n st)))"

fun all_some :: "'a option list \<Rightarrow> 'a list option" where
  "all_some [] = Some []"
| "all_some (None # xs) = None"
| "all_some (Some x # xs) = map_option (Cons x) (all_some xs)"

text \<open>\<^verbatim>\<open>GetNeighbors\<close> for a depth of one more than the argument.\<close>

primrec neighbors_deep :: "row_rank \<Rightarrow> graph_state \<Rightarrow> nat \<Rightarrow> node_ref \<Rightarrow> (entity \<times> string) list option" where
  "neighbors_deep ord st 0 n = one_level ord n st"
| "neighbors_deep ord st (Suc d) n =
     (case one_level ord n st of
        None \<Rightarrow> None
      | Some edges \<Rightarrow>
          (case all_some (map (\<lambda>(e, rel). neighbors_deep ord st d (en_node e))
                  (filter (\<lambda>(e, rel). snd (en_node e) \<noteq> []) edges)) of
             None \<Rightarrow> None
           | Some deeper \<Rightarrow> Some (edges @ concat deeper)))"

definition get_neighbors :: "row_rank \<Rightarrow> graph_state \<Rightarrow> node_ref \<Rightarrow> int \<Rightarrow> graph_error + (entity \<times> string) list" where
  "get_neighbors ord st n depth =
     (if depth \<le> 0 then Inr []
      else case neighbors_deep ord st (nat depth - 1) n of None \<Rightarrow> Inl ScanNull | Some edges \<Rightarrow> Inr edges)"

record traverse_node =
  tv_node :: node_ref
  tv_relation :: string
  tv_depth :: int

definition visit_key :: "node_ref \<Rightarrow> string" where
  "visit_key n = fst n @ '':'' @ snd n"

type_synonym visit_state = "string list \<times> traverse_node list"

text \<open>\<^verbatim>\<open>visitFn\<close>; the first argument is the number of levels below the current node.\<close>

primrec visit :: "row_rank \<Rightarrow> graph_state \<Rightarrow> nat \<Rightarrow> int \<Rightarrow> node_ref \<Rightarrow> string \<Rightarrow> visit_state \<Rightarrow> visit_state" where
  "visit ord st 0 d n rel s =
     (if visit_key n \<in> set (fst s) then s
      else (visit_key n # fst s, snd s @ [\<lparr>tv_node = n, tv_relation = rel, tv_depth = d\<rparr>]))"
| "visit ord st (Suc k) d n rel s =
     (if visit_key n \<in> set (fst s) then s
      else let s' = (visit_key n # fst s, snd s @ [\<lparr>tv_node = n, tv_relation = rel, tv_depth = d\<rparr>])
           in case one_level ord n st of
                None \<Rightarrow> s'
              | Some edges \<Rightarrow>
                  fold (\<lambda>(e, r) s. if snd (en_node e) = [] then s else visit ord st k (d + 1) (en_node e) r s) edges s')"

definition traverse :: "row_rank \<Rightarrow> graph_state \<Rightarrow> node_ref \<Rightarrow> int \<Rightarrow> traverse_node list" where
  "traverse ord st n depth = (if depth \<le> 0 then [] else snd (visit ord st (nat depth) 0 n [] ([], [])))"

section \<open>The invariant\<close>

inductive graph_step :: "graph_state \<Rightarrow> graph_state \<Rightarrow> bool" where
  event: "graph_step st (snd (add_entity_from_event s ev st))"

definition graph_reachable :: "graph_state \<Rightarrow> bool" where
  "graph_reachable st = graph_step\<^sup>*\<^sup>* empty_graph st"

definition graph_nodes :: "graph_state \<Rightarrow> node_ref set" where
  "graph_nodes st = en_node ` set (entities st)"

definition graph_inv :: "graph_state \<Rightarrow> bool" where
  "graph_inv st =
     (unique_by en_node (entities st) \<and> unique_by edge_key (relationships st)
      \<and> (\<forall>x \<in> set (entities st). 1 \<le> en_count x) \<and> (\<forall>r \<in> set (relationships st). 1 \<le> rl_weight r)
      \<and> (\<forall>r \<in> set (relationships st). rl_from r \<in> graph_nodes st \<and> rl_to r \<in> graph_nodes st))"

named_theorems graph_simps \<open>how the writes act on the tables\<close>

lemma image_update_rows:
  assumes "\<And>r. p r \<Longrightarrow> key (f r) = key r"
  shows "key ` set (update_rows p f rows) = key ` set rows"
proof -
  have "set (map key (update_rows p f rows)) = set (map key rows)" using assms by (simp add: map_update_rows)
  then show ?thesis by simp
qed

lemma upsert_cases [consumes 0, case_names known failed new]:
  obtains
    "taken en_node (en_node e) (entities st)"
    "upsert_entity json i now e st = (Inr (), st\<lparr>entities := update_rows (\<lambda>x. en_node x = en_node e)
       (\<lambda>x. x\<lparr>en_last := (if en_last e = 0 then if en_first e = 0 then now else en_first e else en_last e),
          en_count := en_count x + 1,
          en_metadata := (if en_metadata e = [] then ''null'' else json (en_metadata e))\<rparr>) (entities st)\<rparr>)"
  | "upsert_entity json i now e st = (Inl GraphWrite, st)"
  | x where "\<not> taken en_node (en_node e) (entities st)" "en_node x = en_node e" "en_count x = en_count e"
    "upsert_entity json i now e st = (Inr (), st\<lparr>entities := entities st @ [x]\<rparr>)"
proof (cases "taken en_node (en_node e) (entities st)")
  case True
  then show ?thesis using that(1) by (simp add: upsert_entity_def Let_def)
next
  case False
  let ?i = "if en_id e = [] then i else en_id e"
  let ?f = "if en_first e = 0 then now else en_first e"
  let ?x = "e\<lparr>en_id := ?i, en_first := ?f, en_last := (if en_last e = 0 then ?f else en_last e),
    en_metadata := (if en_metadata e = [] then ''null'' else json (en_metadata e))\<rparr>"
  show ?thesis
  proof (cases "taken en_id ?i (entities st)")
    case True
    with False show ?thesis using that(2) by (simp add: upsert_entity_def Let_def)
  next
    case new: False
    with False show ?thesis using that(3) [of ?x] by (simp add: upsert_entity_def Let_def)
  qed
qed

lemma upsert_nodes [graph_simps]:
  "graph_nodes (snd (upsert_entity json i now e st))
     = (if fst (upsert_entity json i now e st) = Inr () then insert (en_node e) (graph_nodes st) else graph_nodes st)"
proof (cases rule: upsert_cases [of e st json i now])
  case known
  then show ?thesis by (auto simp: graph_nodes_def image_update_rows taken_iff)
qed (auto simp: graph_nodes_def)

lemma upsert_edges [graph_simps]: "relationships (snd (upsert_entity json i now e st)) = relationships st"
  by (simp add: upsert_entity_def Let_def)

lemma relate_nodes [graph_simps]: "graph_nodes (snd (add_relationship i now r st)) = graph_nodes st"
  by (simp add: add_relationship_def Let_def graph_nodes_def)

lemma upsert_inv:
  assumes "graph_inv st" and "1 \<le> en_count e"
  shows "graph_inv (snd (upsert_entity json i now e st))"
proof -
  let ?st = "snd (upsert_entity json i now e st)"
  have "unique_by en_node (entities ?st) \<and> (\<forall>x \<in> set (entities ?st). 1 \<le> en_count x)"
  proof (cases rule: upsert_cases [of e st json i now])
    case known
    have "1 \<le> en_count x" if "x \<in> set (entities ?st)" for x
      using that assms(1) by (auto simp: known(2) set_update_rows graph_inv_def)
    then show ?thesis using assms(1) known(2) by (simp add: graph_inv_def unique_by_update)
  qed (use assms in \<open>auto simp: graph_inv_def unique_by_snoc\<close>)
  moreover have "graph_nodes st \<subseteq> graph_nodes ?st" by (auto simp: graph_simps)
  ultimately show ?thesis using assms(1) by (auto simp: graph_inv_def upsert_edges)
qed

lemma relate_inv:
  assumes "graph_inv st" and "rl_from r \<in> graph_nodes st" and "rl_to r \<in> graph_nodes st" and "1 \<le> rl_weight r"
  shows "graph_inv (snd (add_relationship i now r st))"
proof -
  let ?st = "snd (add_relationship i now r st)"
  have e: "edge_key (x\<lparr>rl_id := j, rl_weight := w, rl_created := c\<rparr>) = edge_key x" for x j w c
    by (simp add: edge_key_def)
  have f: "edge_key (x\<lparr>rl_weight := w\<rparr>) = edge_key x" for x w by (simp add: edge_key_def)
  have "unique_by edge_key (relationships ?st)"
    using assms(1) by (auto simp: graph_inv_def add_relationship_def Let_def unique_by_update unique_by_snoc e f)
  moreover have "1 \<le> rl_weight x \<and> rl_from x \<in> graph_nodes st \<and> rl_to x \<in> graph_nodes st"
    if "x \<in> set (relationships ?st)" for x
    using that assms by (auto simp: graph_inv_def add_relationship_def Let_def set_update_rows split: if_splits)
  moreover have "entities ?st = entities st" by (simp add: add_relationship_def Let_def)
  ultimately show ?thesis using assms(1) by (simp add: graph_inv_def relate_nodes)
qed

lemma writes_append:
  "writes (ws @ vs) st
     = (case writes ws st of (Inl e, st') \<Rightarrow> (Inl e, st') | (Inr u, st') \<Rightarrow> writes vs st')"
  by (induction ws arbitrary: st) (auto split: prod.split sum.split)

lemma writes_keep:
  assumes "\<And>w st. w \<in> set ws \<Longrightarrow> P st \<Longrightarrow> P (snd (w st))" and "P st"
  shows "P (snd (writes ws st))"
  using assms
proof (induction ws arbitrary: st)
  case (Cons w ws)
  then show ?case by (cases "w st"; cases "fst (w st)") (force)+
qed simp

lemma writes_reach:
  assumes "\<And>w st. w \<in> set ws \<Longrightarrow> A st \<subseteq> A (snd (w st))" and "fst (writes ws st) = Inr ()"
    and "w \<in> set ws" and "\<And>st. fst (w st) = Inr () \<Longrightarrow> n \<in> A (snd (w st))"
  shows "n \<in> A (snd (writes ws st))"
  using assms
proof (induction ws arbitrary: st)
  case (Cons v ws)
  obtain st' where v: "v st = (Inr (), st')"
    using Cons.prems(2) by (cases "v st"; cases "fst (v st)") auto
  have up: "A st' \<subseteq> A (snd (writes ws st'))"
    using writes_keep [of ws "\<lambda>x. A st' \<subseteq> A x" st'] Cons.prems(1) by force
  show ?case
  proof (cases "w = v")
    case True
    then show ?thesis using Cons.prems(4) [of st] v up by auto
  next
    case False
    then show ?thesis using Cons.IH [of st'] Cons.prems v by simp
  qed
qed simp

lemma event_edges_nodes:
  "(a, b, rel) \<in> set (event_edges ev) \<Longrightarrow> a \<in> set (event_nodes ev) \<and> b \<in> set (event_nodes ev)"
  by (auto simp: event_edges_def event_nodes_def)

lemma add_event_inv:
  assumes "graph_inv st"
  shows "graph_inv (snd (add_entity_from_event s ev st))"
proof -
  let ?es = "map (entity_write s) (enumerate 0 (event_nodes ev))"
  let ?rs = "map (edge_write s) (enumerate (length (event_nodes ev)) (event_edges ev))"
  obtain r st' where e: "writes ?es st = (r, st')" by fastforce
  have inv: "graph_inv st'"
    using writes_keep [of ?es graph_inv st] assms e upsert_inv by (force simp: entity_write_def)
  show ?thesis
  proof (cases r)
    case (Inl x)
    then show ?thesis using e inv by (simp add: add_entity_from_event_def Let_def writes_append)
  next
    case (Inr u)
    have nodes: "n \<in> graph_nodes st'" if n: "n \<in> set (event_nodes ev)" for n
    proof -
      obtain i where i: "(i, n) \<in> set (enumerate 0 (event_nodes ev))"
        using n by (metis map_snd_enumerate in_set_conv_nth length_enumerate nth_enumerate_eq nth_mem)
      have "n \<in> graph_nodes (snd (writes ?es st))"
        by (rule writes_reach [of _ graph_nodes _ "entity_write s (i, n)"])
          (use e Inr i in \<open>auto simp: entity_write_def graph_simps\<close>)
      then show ?thesis using e by simp
    qed
    have "graph_inv (snd (writes ?rs st')) \<and> graph_nodes (snd (writes ?rs st')) = graph_nodes st'"
    proof (rule writes_keep [of ?rs "\<lambda>x. graph_inv x \<and> graph_nodes x = graph_nodes st'"])
      fix w x
      assume "w \<in> set ?rs" and x: "graph_inv x \<and> graph_nodes x = graph_nodes st'"
      then obtain i a b rel where w: "w = edge_write s (i, a, b, rel)" "(a, b, rel) \<in> set (event_edges ev)"
        by (auto simp: enumerate_eq_zip dest: set_zip_rightD)
      have "a \<in> graph_nodes x" "b \<in> graph_nodes x"
        using x event_edges_nodes [OF w(2)] nodes [of a] nodes [of b] by blast+
      then show "graph_inv (snd (w x)) \<and> graph_nodes (snd (w x)) = graph_nodes st'"
        using x by (simp add: w(1) edge_write_def relate_nodes relate_inv)
    qed (use inv in simp)
    then show ?thesis using e Inr by (simp add: add_entity_from_event_def Let_def writes_append)
  qed
qed

lemma graph_reachable_invI: "graph_reachable st \<Longrightarrow> graph_inv st"
  unfolding graph_reachable_def
proof (induction rule: rtranclp_induct)
  case base
  then show ?case by (simp add: graph_inv_def empty_graph_def unique_by_def)
next
  case (step y z)
  then show ?case using add_event_inv by (auto elim: graph_step.cases)
qed

section \<open>Neighbours and traversal\<close>

definition linked :: "graph_state \<Rightarrow> node_ref \<Rightarrow> node_ref \<Rightarrow> bool" where
  "linked st a b =
     list_ex (\<lambda>r. (rl_from r = a \<and> rl_to r = b) \<or> (rl_to r = a \<and> rl_from r = b)) (relationships st)"

lemma join_entity_known:
  assumes "n \<in> graph_nodes st"
  shows "(oe, rel) \<in> set (join_entity n rel' st) \<longleftrightarrow> rel = rel' \<and> (\<exists>e \<in> set (entities st). oe = Some e \<and> en_node e = n)"
proof -
  obtain x xs where "filter (\<lambda>x. en_node x = n) (entities st) = x # xs"
    using assms by (cases "filter (\<lambda>x. en_node x = n) (entities st)") (auto simp: graph_nodes_def filter_empty_conv)
  moreover from this have "set (x # xs) = {e \<in> set (entities st). en_node e = n}" by (metis set_filter)
  ultimately show ?thesis by (auto simp: join_entity_def)
qed

lemma neighbor_rows_entities:
  assumes "graph_inv st" and "(oe, rel) \<in> set (neighbor_rows n st)"
  shows "\<exists>e \<in> set (entities st). oe = Some e \<and> linked st n (en_node e)"
proof -
  obtain r where r: "r \<in> set (relationships st)"
    "(rl_from r = n \<and> (oe, rel) \<in> set (join_entity (rl_to r) (rl_relation r) st))
     \<or> (rl_to r = n \<and> (oe, rel) \<in> set (join_entity (rl_from r) (rl_relation r) st))"
    using assms(2) by (auto simp: neighbor_rows_def split: if_splits)
  have "rl_from r \<in> graph_nodes st" "rl_to r \<in> graph_nodes st" using assms(1) r(1) by (auto simp: graph_inv_def)
  then show ?thesis using r by (auto simp: join_entity_known linked_def list_ex_iff)
qed

lemma linked_row:
  assumes "graph_inv st" and "linked st n m"
  shows "\<exists>e rel. (Some e, rel) \<in> set (neighbor_rows n st) \<and> en_node e = m"
proof -
  obtain r where r: "r \<in> set (relationships st)" "(rl_from r = n \<and> rl_to r = m) \<or> (rl_to r = n \<and> rl_from r = m)"
    using assms(2) by (auto simp: linked_def list_ex_iff)
  then have m: "m \<in> graph_nodes st" using assms(1) by (auto simp: graph_inv_def)
  then obtain e where e: "e \<in> set (entities st)" "en_node e = m" by (auto simp: graph_nodes_def)
  then have "(Some e, rl_relation r) \<in> set (join_entity m (rl_relation r) st)" using m by (simp add: join_entity_known)
  then have "(Some e, rl_relation r) \<in> set (neighbor_rows n st)" using r by (auto simp: neighbor_rows_def)
  then show ?thesis using e(2) by blast
qed

lemma scan_neighbors_Some:
  "(\<And>row. row \<in> set rows \<Longrightarrow> fst row \<noteq> None) \<Longrightarrow> scan_neighbors rows = Some (map (\<lambda>(oe, rel). (the oe, rel)) rows)"
proof (induction rows rule: scan_neighbors.induct)
  case (2 rel rows)
  from "2.prems" [of "(None, rel)"] show ?case by simp
qed auto

text \<open>On a well-formed graph the query of one level never meets a missing entity.\<close>

lemma one_level_inv:
  assumes "graph_inv st"
  obtains edges where "one_level ord n st = Some edges" "en_node ` fst ` set edges = {m. linked st n m}"
proof -
  let ?rows = "sort_key (ord n) (remdups (neighbor_rows n st))"
  have rows: "set ?rows = set (neighbor_rows n st)" by simp
  have known: "fst row \<noteq> None" if "row \<in> set ?rows" for row
    using that neighbor_rows_entities [OF assms, of "fst row" "snd row" n] by auto
  have "{m. linked st n m} \<subseteq> en_node ` fst ` (\<lambda>(oe, rel). (the oe, rel)) ` set ?rows"
  proof
    fix m
    assume "m \<in> {m. linked st n m}"
    then obtain e rel where "(Some e, rel) \<in> set ?rows" "en_node e = m"
      using linked_row [OF assms, of n m] by auto
    then show "m \<in> en_node ` fst ` (\<lambda>(oe, rel). (the oe, rel)) ` set ?rows" by force
  qed
  moreover have "en_node ` fst ` (\<lambda>(oe, rel). (the oe, rel)) ` set ?rows \<subseteq> {m. linked st n m}"
    using neighbor_rows_entities [OF assms] by fastforce
  ultimately show ?thesis
    using that [of "map (\<lambda>(oe, rel). (the oe, rel)) ?rows"] scan_neighbors_Some [of ?rows] known
    by (simp add: one_level_def image_image)
qed

lemma all_some_iff: "all_some xs = None \<longleftrightarrow> None \<in> set xs"
  by (induction xs rule: all_some.induct) auto

lemma neighbors_deep_answers: "graph_inv st \<Longrightarrow> neighbors_deep ord st d n \<noteq> None"
proof (induction d arbitrary: n)
  case 0
  then show ?case by (auto elim: one_level_inv [of st ord n])
next
  case (Suc d)
  obtain edges where e: "one_level ord n st = Some edges" using Suc.prems by (rule one_level_inv)
  have "neighbors_deep ord st d = (\<lambda>m. Some (the (neighbors_deep ord st d m)))" using Suc by fastforce
  then obtain f where "neighbors_deep ord st d = (\<lambda>m. Some (f m))" ..
  then have "all_some (map (\<lambda>(e, rel). neighbors_deep ord st d (en_node e)) (filter (\<lambda>(e, rel). snd (en_node e) \<noteq> []) edges)) \<noteq> None"
    by (auto simp: all_some_iff)
  then show ?case using e by (auto split: option.split)
qed

text \<open>
  C19. The graph of the stored events is well formed: in every state reached by adding events, each node
  has one row, each edge one row, counts and weights are positive, and both ends of every relationship
  are entities. So \<^verbatim>\<open>GetNeighbors\<close> never fails on a missing entity, at any depth.
\<close>

theorem graph_reachable_inv:
  assumes "graph_reachable st"
  shows "graph_inv st \<and> (\<exists>edges. get_neighbors ord st n depth = Inr edges)"
  using graph_reachable_invI [OF assms] neighbors_deep_answers [of st ord "nat depth - 1" n]
  by (auto simp: get_neighbors_def split: option.split)

section \<open>The traversal\<close>

lemma visit_sound:
  assumes "graph_inv st" and "(linked st ^^ d) root n"
    and "\<And>t. t \<in> set (snd s) \<Longrightarrow> (linked st ^^ nat (tv_depth t)) root (tv_node t) \<and> nat (tv_depth t) \<le> d + k"
    and "t \<in> set (snd (visit ord st k (int d) n rel s))"
  shows "(linked st ^^ nat (tv_depth t)) root (tv_node t) \<and> nat (tv_depth t) \<le> d + k"
  using assms(2-4)
proof (induction k arbitrary: d n rel s t)
  case 0
  then show ?case by (auto split: if_splits)
next
  case (Suc k)
  let ?P = "\<lambda>t. (linked st ^^ nat (tv_depth t)) root (tv_node t) \<and> nat (tv_depth t) \<le> d + Suc k"
  let ?s = "(visit_key n # fst s, snd s @ [\<lparr>tv_node = n, tv_relation = rel, tv_depth = int d\<rparr>])"
  let ?f = "\<lambda>(e, r) s. if snd (en_node e) = [] then s else visit ord st k (int d + 1) (en_node e) r s"
  obtain edges where e: "one_level ord n st = Some edges" "en_node ` fst ` set edges = {m. linked st n m}"
    using assms(1) by (rule one_level_inv)
  have loop: "\<forall>t \<in> set (snd (fold ?f es s')). ?P t"
    if "set es \<subseteq> set edges" "\<forall>t \<in> set (snd s'). ?P t" for es s'
    using that
  proof (induction es arbitrary: s')
    case (Cons x es)
    obtain m r where x: "x = (m, r)" by fastforce
    have "linked st n (en_node m)" using e(2) Cons.prems(1) x by force
    then have "(linked st ^^ Suc d) root (en_node m)" using Suc.prems(1) by (rule relpowp_Suc_I [rotated])
    then have now: "\<forall>t \<in> set (snd (?f x s')). ?P t"
      using Suc.IH [of "Suc d" "en_node m" s'] Cons.prems(2) x by (auto simp: add.commute)
    have "set es \<subseteq> set edges" using Cons.prems(1) by simp
    from Cons.IH [OF this now] show ?case by (simp only: fold_simps)
  qed simp
  show ?case
  proof (cases "visit_key n \<in> set (fst s)")
    case True
    then show ?thesis using Suc.prems by simp
  next
    case False
    then have eq: "visit ord st (Suc k) (int d) n rel s = fold ?f edges ?s"
      using e(1) by (simp add: Let_def)
    have "t \<in> set (snd (fold ?f edges ?s))" using Suc.prems(3) unfolding eq .
    moreover have "\<forall>t \<in> set (snd ?s). ?P t" using Suc.prems(1,2) by auto
    ultimately show ?thesis using loop [OF subset_refl, of ?s] by blast
  qed
qed

end
