(* ===== verification/GraphQueries.thy ===== *)
theory GraphQueries
  imports EntityGraph
begin

text \<open>
  The query layer over the entity graph, \<^verbatim>\<open>internal/graph/graph.go\<close>: the neighbourhood of a node by
  breadth-first search and the shortest paths between two nodes, over the edges whose state is asked
  for. The answer of the edge query is a map by node: of several edges to one node the last row wins.
  The order of the rows and the iteration order of that map are left open; each is given by a rank.
  Times are printed by the parameter \<open>stamp\<close>.
\<close>

section \<open>Edges\<close>

record edge_meta =
  em_relation :: string
  em_status :: string
  em_source :: string

record graph_env =
  row_rank :: "node_ref \<Rightarrow> node_ref \<times> edge_meta \<Rightarrow> nat"
  map_rank :: "node_ref \<Rightarrow> node_ref \<Rightarrow> nat"
  stamp :: "int \<Rightarrow> string"

definition metas_of :: "relationship \<Rightarrow> graph_state \<Rightarrow> rel_meta option list" where
  "metas_of r st =
     (case filter (\<lambda>m. rm_from m = rl_from r \<and> rm_to m = rl_to r \<and> rm_relation m = rl_relation r) (rel_metas st) of
        [] \<Rightarrow> [None]
      | ms \<Rightarrow> map Some ms)"

definition meta_status :: "rel_meta option \<Rightarrow> string" where
  "meta_status om = (case om of None \<Rightarrow> ''observed'' | Some m \<Rightarrow> rm_status m)"

definition meta_source :: "rel_meta option \<Rightarrow> string" where
  "meta_source om = (case om of Some m \<Rightarrow> rm_source m | None \<Rightarrow> [])"

definition state_wanted :: "string list \<Rightarrow> string \<Rightarrow> bool" where
  "state_wanted states s = (states = [] \<or> s \<in> set states)"

definition edge_rows :: "graph_state \<Rightarrow> string list \<Rightarrow> node_ref \<Rightarrow> (node_ref \<times> edge_meta) list" where
  "edge_rows st states n =
     concat (map (\<lambda>r.
       if rl_from r = n \<or> rl_to r = n
       then map (\<lambda>om. (if rl_from r = n then rl_to r else rl_from r,
                       \<lparr>em_relation = rl_relation r, em_status = meta_status om, em_source = meta_source om\<rparr>))
              (filter (\<lambda>om. state_wanted states (meta_status om)) (metas_of r st))
       else []) (relationships st))"

fun put_edge :: "node_ref \<times> edge_meta \<Rightarrow> (node_ref \<times> edge_meta) list \<Rightarrow> (node_ref \<times> edge_meta) list" where
  "put_edge e [] = [e]"
| "put_edge e (x # xs) = (if fst x = fst e then e # xs else x # put_edge e xs)"

definition edges_of :: "graph_env \<Rightarrow> graph_state \<Rightarrow> string list \<Rightarrow> node_ref \<Rightarrow> (node_ref \<times> edge_meta) list" where
  "edges_of env st states n =
     sort_key (\<lambda>e. map_rank env n (fst e)) (fold put_edge (sort_key (row_rank env n) (edge_rows st states n)) [])"

section \<open>The neighbourhood\<close>

record traversal_node =
  tn_node :: node_ref
  tn_relation :: string
  tn_depth :: int
  tn_status :: string
  tn_source :: string
  tn_count :: int
  tn_first :: string
  tn_last :: string

definition max_depth :: int where "max_depth = 4"

definition traversal_node_of :: "graph_env \<Rightarrow> graph_state \<Rightarrow> int \<Rightarrow> node_ref \<times> edge_meta \<Rightarrow> traversal_node" where
  "traversal_node_of env st level = (\<lambda>(n, m).
     case get_entity n st of
       Some e \<Rightarrow> \<lparr>tn_node = n, tn_relation = em_relation m, tn_depth = level, tn_status = em_status m,
                  tn_source = em_source m, tn_count = en_count e, tn_first = stamp env (en_first e),
                  tn_last = stamp env (en_last e)\<rparr>
     | None \<Rightarrow> \<lparr>tn_node = n, tn_relation = em_relation m, tn_depth = level, tn_status = em_status m,
                tn_source = em_source m, tn_count = 0, tn_first = [], tn_last = []\<rparr>)"

text \<open>The result so far, the visited nodes, and the queue of the next level.\<close>

type_synonym search_state = "traversal_node list \<times> node_ref list \<times> node_ref list"

fun visit_edges :: "graph_env \<Rightarrow> graph_state \<Rightarrow> int \<Rightarrow> (node_ref \<times> edge_meta) list \<Rightarrow> search_state \<Rightarrow> search_state" where
  "visit_edges env st level [] s = s"
| "visit_edges env st level ((nb, m) # es) (res, seen, nxt) =
     (if nb \<in> set seen then visit_edges env st level es (res, seen, nxt)
      else visit_edges env st level es (res @ [traversal_node_of env st level (nb, m)], nb # seen, nxt @ [nb]))"

fun visit_queue :: "graph_env \<Rightarrow> graph_state \<Rightarrow> string list \<Rightarrow> int \<Rightarrow> node_ref list \<Rightarrow> search_state \<Rightarrow> search_state" where
  "visit_queue env st states level [] s = s"
| "visit_queue env st states level (c # cs) s =
     visit_queue env st states level cs (visit_edges env st level (edges_of env st states c) s)"

fun visit_levels :: "graph_env \<Rightarrow> graph_state \<Rightarrow> string list \<Rightarrow> nat \<Rightarrow> int \<Rightarrow> search_state \<Rightarrow> traversal_node list" where
  "visit_levels env st states 0 level (res, seen, queue) = res"
| "visit_levels env st states (Suc k) level (res, seen, queue) =
     (if queue = [] then res
      else visit_levels env st states k (level + 1) (visit_queue env st states level queue (res, seen, [])))"

definition root_node :: "node_ref \<Rightarrow> traversal_node" where
  "root_node n = \<lparr>tn_node = n, tn_relation = [], tn_depth = 0, tn_status = ''observed'', tn_source = [],
     tn_count = 0, tn_first = [], tn_last = []\<rparr>"

definition neighbors :: "graph_env \<Rightarrow> graph_state \<Rightarrow> node_ref \<Rightarrow> int \<Rightarrow> string list \<Rightarrow> traversal_node list" where
  "neighbors env st root depth states =
     (if depth \<le> 0 then []
      else visit_levels env st states (nat (if max_depth < depth then max_depth else depth)) 1
             ([root_node root], [root], [root]))"

section \<open>Shortest paths\<close>

datatype hop = Start node_ref | Hop node_ref string string hop

record path =
  pa_nodes :: "node_ref list"
  pa_states :: "string list"

fun hop_node :: "hop \<Rightarrow> node_ref" where
  "hop_node (Start n) = n"
| "hop_node (Hop n rel status parent) = n"

fun hop_nodes :: "hop \<Rightarrow> node_ref list" where
  "hop_nodes (Start n) = [n]"
| "hop_nodes (Hop n rel status parent) = hop_nodes parent @ [n]"

fun hop_states :: "hop \<Rightarrow> string list" where
  "hop_states (Start n) = []"
| "hop_states (Hop n rel status parent) = hop_states parent @ (if rel \<noteq> [] then [status] else [])"

definition path_from :: "hop \<Rightarrow> node_ref \<Rightarrow> string \<Rightarrow> path" where
  "path_from cur nb status = \<lparr>pa_nodes = hop_nodes cur @ [nb], pa_states = hop_states cur @ [status]\<rparr>"

definition max_paths :: nat where "max_paths = 20"

text \<open>The scan of one frontier: the paths when there are enough, or the next frontier, the nodes seen and the paths.\<close>

type_synonym frontier = "hop list \<times> node_ref list \<times> path list"

fun scan_edges :: "node_ref \<Rightarrow> hop \<Rightarrow> (node_ref \<times> edge_meta) list \<Rightarrow> frontier \<Rightarrow> path list + frontier" where
  "scan_edges target cur [] s = Inr s"
| "scan_edges target cur ((nb, m) # es) (nxt, seen, paths) =
     (if nb = target
      then let ps = paths @ [path_from cur nb (em_status m)]
           in if max_paths \<le> length ps then Inl ps else scan_edges target cur es (nxt, seen, ps)
      else if nb \<in> set seen then scan_edges target cur es (nxt, seen, paths)
      else scan_edges target cur es (nxt @ [Hop nb (em_relation m) (em_status m) cur], nb # seen, paths))"

fun scan_frontier :: "graph_env \<Rightarrow> graph_state \<Rightarrow> string list \<Rightarrow> node_ref \<Rightarrow> hop list \<Rightarrow> frontier \<Rightarrow> path list + frontier" where
  "scan_frontier env st states target [] s = Inr s"
| "scan_frontier env st states target (c # cs) s =
     (case scan_edges target c (edges_of env st states (hop_node c)) s of
        Inl ps \<Rightarrow> Inl ps
      | Inr s' \<Rightarrow> scan_frontier env st states target cs s')"

fun search_paths :: "graph_env \<Rightarrow> graph_state \<Rightarrow> string list \<Rightarrow> node_ref \<Rightarrow> nat \<Rightarrow> hop list \<Rightarrow> node_ref list \<Rightarrow> path list" where
  "search_paths env st states target 0 front seen = []"
| "search_paths env st states target (Suc k) front seen =
     (if front = [] then []
      else case scan_frontier env st states target front ([], seen, []) of
             Inl ps \<Rightarrow> ps
           | Inr (nxt, seen', ps) \<Rightarrow> if ps \<noteq> [] then ps else search_paths env st states target k nxt seen')"

definition hop_limit :: "int \<Rightarrow> int" where
  "hop_limit n = (let m = (if n \<le> 0 then 1 else n) in if max_depth < m then max_depth else m)"

definition find_paths :: "graph_env \<Rightarrow> graph_state \<Rightarrow> node_ref \<Rightarrow> node_ref \<Rightarrow> int \<Rightarrow> string list \<Rightarrow> path list" where
  "find_paths env st a b max_hops states =
     (if a = b then [\<lparr>pa_nodes = [a], pa_states = []\<rparr>]
      else search_paths env st states b (nat (hop_limit max_hops)) [Start a] [a])"

section \<open>The edge query answers the links\<close>

definition live_link :: "graph_state \<Rightarrow> string list \<Rightarrow> node_ref \<Rightarrow> node_ref \<Rightarrow> bool" where
  "live_link st states a b =
     list_ex (\<lambda>r. ((rl_from r = a \<and> rl_to r = b) \<or> (rl_to r = a \<and> rl_from r = b))
       \<and> list_ex (\<lambda>om. state_wanted states (meta_status om)) (metas_of r st)) (relationships st)"

lemma keys_put_edge: "fst ` set (put_edge e xs) = insert (fst e) (fst ` set xs)"
  by (induction xs) auto

lemma keys_put_edges: "fst ` set (fold put_edge es xs) = fst ` set es \<union> fst ` set xs"
  by (induction es arbitrary: xs) (auto simp: keys_put_edge)

lemma edge_rows_iff: "m \<in> fst ` set (edge_rows st states n) \<longleftrightarrow> live_link st states n m"
  by (auto simp: edge_rows_def live_link_def list_ex_iff image_iff split: if_splits)

interpretation live: adjacency "\<lambda>n. map fst (edges_of env st states n)" "live_link st states" for env st states
  by unfold_locales (simp add: edges_of_def keys_put_edges edge_rows_iff)

section \<open>Breadth-first search\<close>

text \<open>The nodes a level adds: in the result, in front of the visited nodes and at the end of the queue.\<close>

definition place :: "traversal_node \<Rightarrow> node_ref \<times> int" where
  "place t = (tn_node t, tn_depth t)"

lemma place_simps [simp]: "place (traversal_node_of env st level e) = (fst e, level)" "place (root_node n) = (n, 0)"
  by (auto simp: place_def traversal_node_of_def root_node_def split: prod.split option.split)

definition adds :: "int \<Rightarrow> node_ref set \<Rightarrow> search_state \<Rightarrow> search_state \<Rightarrow> bool" where
  "adds level ns s s' =
     (\<exists>new. map place (fst s') = map place (fst s) @ map (\<lambda>n. (n, level)) new
        \<and> snd (snd s') = snd (snd s) @ new \<and> distinct new
        \<and> set new = ns - set (fst (snd s)) \<and> set (fst (snd s')) = set (fst (snd s)) \<union> ns)"

lemma adds_empty: "adds level {} s s"
  by (simp add: adds_def)

lemma adds_trans:
  assumes "adds level A s s'" and "adds level B s' s''"
  shows "adds level (A \<union> B) s s''"
proof -
  obtain new where n: "map place (fst s') = map place (fst s) @ map (\<lambda>n. (n, level)) new"
    "snd (snd s') = snd (snd s) @ new" "distinct new" "set new = A - set (fst (snd s))"
    "set (fst (snd s')) = set (fst (snd s)) \<union> A"
    using assms(1) unfolding adds_def by blast
  obtain new' where n': "map place (fst s'') = map place (fst s') @ map (\<lambda>n. (n, level)) new'"
    "snd (snd s'') = snd (snd s') @ new'" "distinct new'" "set new' = B - set (fst (snd s'))"
    "set (fst (snd s'')) = set (fst (snd s')) \<union> B"
    using assms(2) unfolding adds_def by blast
  show ?thesis unfolding adds_def
    by (rule exI [of _ "new @ new'"]) (use n n' in auto)
qed

lemma visit_edges_adds: "adds level (fst ` set es) s (visit_edges env st level es s)"
proof (induction env st level es s rule: visit_edges.induct)
  case (2 env st level nb m es res seen nxt)
  let ?s = "(res, seen, nxt)"
  let ?s' = "if nb \<in> set seen then ?s else (res @ [traversal_node_of env st level (nb, m)], nb # seen, nxt @ [nb])"
  have "adds level {nb} ?s ?s'"
    unfolding adds_def by (rule exI [of _ "if nb \<in> set seen then [] else [nb]"]) auto
  moreover have "adds level (fst ` set es) ?s' (visit_edges env st level es ?s')" using 2 by auto
  ultimately have "adds level ({nb} \<union> fst ` set es) ?s (visit_edges env st level es ?s')" by (rule adds_trans)
  then show ?case by (auto split: if_splits)
qed (simp add: adds_empty)

lemma visit_queue_adds:
  "adds level (\<Union>c \<in> set queue. set (map fst (edges_of env st states c))) s (visit_queue env st states level queue s)"
proof (induction queue arbitrary: s)
  case (Cons c cs)
  show ?case
    using adds_trans [OF visit_edges_adds [of level "edges_of env st states c" s env st] Cons.IH] by simp
qed (simp add: adds_empty)

text \<open>The nodes up to distance \<open>k\<close>, each with its distance.\<close>

definition ball :: "('n \<Rightarrow> 'n \<Rightarrow> bool) \<Rightarrow> 'n \<Rightarrow> nat \<Rightarrow> ('n \<times> int) set" where
  "ball link root k = {p. 0 \<le> snd p \<and> snd p \<le> int k \<and> at_distance link (nat (snd p)) root (fst p)}"

lemma ball_0: "ball link root 0 = {(root, 0)}"
  by (auto simp: ball_def)

lemma ball_Suc: "ball link root (Suc k) = ball link root k \<union> (\<lambda>n. (n, int (Suc k))) ` {n. at_distance link (Suc k) root n}"
proof -
  have "(n, d) \<in> ball link root (Suc k)
      \<longleftrightarrow> (n, d) \<in> ball link root k \<or> (d = int (Suc k) \<and> at_distance link (Suc k) root n)" for n d
    by (cases "d = int (Suc k)") (simp_all add: ball_def del: of_nat_Suc, linarith)
  then show ?thesis by (auto simp: image_iff simp del: of_nat_Suc)
qed

lemma fst_ball: "fst ` ball link root k = {n. within link k root n}"
  by (induction k) (auto simp: ball_0 ball_Suc within_Suc image_Un image_image)

lemma ball_stable:
  assumes "\<forall>n. \<not> at_distance link k root n"
  shows "ball link root (k + j) = ball link root k"
proof (induction j)
  case (Suc j)
  have "{n. at_distance link (Suc (k + j)) root n} = {}"
    using no_later_layer [of k "Suc (k + j)" link root] assms by simp
  then show ?case using Suc by (simp add: ball_Suc)
qed simp

definition bfs_done :: "graph_state \<Rightarrow> string list \<Rightarrow> node_ref \<Rightarrow> nat \<Rightarrow> traversal_node list \<Rightarrow> bool" where
  "bfs_done st states root k res =
     (distinct (map tn_node res) \<and> place ` set res = ball (live_link st states) root k)"

lemma visit_levels_bfs:
  assumes "bfs_done st states root k (fst s)" and "set (fst (snd s)) = {n. within (live_link st states) k root n}"
    and "set (snd (snd s)) = {n. at_distance (live_link st states) k root n}"
  shows "bfs_done st states root (k + j) (visit_levels env st states j (int (Suc k)) s)"
  using assms
proof (induction j arbitrary: k s)
  case 0
  then show ?case by (cases s) simp
next
  case (Suc j)
  obtain res seen queue where s: "s = (res, seen, queue)" by (cases s)
  show ?case
  proof (cases "queue = []")
    case True
    have "\<forall>n. \<not> at_distance (live_link st states) k root n" using Suc.prems(3) True s by auto
    from ball_stable [OF this, of "Suc j"] show ?thesis using Suc.prems(1) True s by (simp add: bfs_done_def)
  next
    case False
    let ?s = "visit_queue env st states (int (Suc k)) queue (res, seen, [])"
    let ?link = "live_link st states"
    have q: "set queue = {n. at_distance ?link k root n}" "set seen = {n. within ?link k root n}"
      using Suc.prems s by auto
    note layer = live.layer_of_queue [OF q, of env]
    obtain new where new: "map place (fst ?s) = map place res @ map (\<lambda>n. (n, int (Suc k))) new"
      "snd (snd ?s) = new" "distinct new" "set new = {n. at_distance ?link (Suc k) root n}"
      "set (fst (snd ?s)) = {n. within ?link (Suc k) root n}"
      using visit_queue_adds [where level = "int (Suc k)" and queue = queue and env = env and st = st and states = states
          and s = "(res, seen, [])"] layer
      unfolding adds_def by auto
    have nodes: "map tn_node (fst ?s) = map tn_node res @ new"
    proof -
      have "map fst (map place (fst ?s)) = map fst (map place res @ map (\<lambda>n. (n, int (Suc k))) new)"
        using new(1) by simp
      then show ?thesis by (simp add: place_def comp_def)
    qed
    have res: "distinct (map tn_node res)" "place ` set res = ball ?link root k"
      using Suc.prems(1) s by (auto simp: bfs_done_def)
    have "set (map tn_node res) = fst ` place ` set res" by (simp add: place_def image_image)
    then have "set (map tn_node res) = set seen" using res(2) q(2) by (simp add: fst_ball)
    then have "distinct (map tn_node (fst ?s))"
      using res(1) new(3,4) q(2) nodes by (auto simp: next_layer)
    moreover have "place ` set (fst ?s) = ball ?link root (Suc k)"
    proof -
      have "place ` set (fst ?s) = set (map place (fst ?s))" by simp
      also have "\<dots> = place ` set res \<union> (\<lambda>n. (n, int (Suc k))) ` set new" by (simp only: new(1)) simp
      finally show ?thesis using res(2) new(4) by (simp add: ball_Suc)
    qed
    ultimately have "bfs_done st states root (Suc k) (fst ?s)" by (simp add: bfs_done_def)
    from Suc.IH [OF this] new(2,4,5) False s
    have "bfs_done st states root (Suc k + j) (visit_levels env st states j (int (Suc (Suc k))) ?s)" by simp
    then show ?thesis using False s by (simp add: add.commute)
  qed
qed

text \<open>
  C17. The neighbourhood is exact: \<^verbatim>\<open>Neighbors\<close> lists each node once, and it lists a node with a
  depth exactly when that depth is the node's distance from the root over the edges of the wanted
  states, up to the depth asked for and at most 4.
\<close>

theorem neighbors_exact:
  "distinct (map tn_node (neighbors env st root depth states))
    \<and> (\<exists>t \<in> set (neighbors env st root depth states). tn_node t = n \<and> tn_depth t = d)
       = (0 < depth \<and> 0 \<le> d \<and> d \<le> min 4 depth \<and> at_distance (live_link st states) (nat d) root n)"
proof (cases "0 < depth")
  case True
  let ?k = "nat (if max_depth < depth then max_depth else depth)"
  let ?res = "neighbors env st root depth states"
  have "bfs_done st states root (0 + ?k) (visit_levels env st states ?k (int (Suc 0)) ([root_node root], [root], [root]))"
    by (rule visit_levels_bfs) (simp_all add: bfs_done_def ball_0 place_def root_node_def)
  then have exact: "bfs_done st states root ?k ?res"
    using True by (simp add: neighbors_def)
  have "(\<exists>t \<in> set ?res. tn_node t = n \<and> tn_depth t = d) \<longleftrightarrow> (n, d) \<in> place ` set ?res"
    by (auto simp: place_def image_iff)
  then show ?thesis using exact True by (auto simp: bfs_done_def ball_def max_depth_def)
qed (simp add: neighbors_def)

section \<open>The paths are shortest\<close>

definition walk :: "(node_ref \<Rightarrow> node_ref \<Rightarrow> bool) \<Rightarrow> node_ref \<Rightarrow> node_ref \<Rightarrow> node_ref list \<Rightarrow> bool" where
  "walk link a b ns = (ns \<noteq> [] \<and> hd ns = a \<and> last ns = b \<and> successively link ns)"

lemma walk_snoc: "walk link a b ns \<Longrightarrow> link b c \<Longrightarrow> walk link a c (ns @ [c])"
  by (auto simp: walk_def successively_append_iff)

definition hop_ok :: "(node_ref \<Rightarrow> node_ref \<Rightarrow> bool) \<Rightarrow> node_ref \<Rightarrow> nat \<Rightarrow> hop \<Rightarrow> bool" where
  "hop_ok link a k h = (walk link a (hop_node h) (hop_nodes h) \<and> length (hop_nodes h) = Suc k)"

definition path_ok :: "(node_ref \<Rightarrow> node_ref \<Rightarrow> bool) \<Rightarrow> node_ref \<Rightarrow> node_ref \<Rightarrow> nat \<Rightarrow> path \<Rightarrow> bool" where
  "path_ok link a b k p = (walk link a b (pa_nodes p) \<and> length (pa_nodes p) = Suc k)"

lemma hop_ok_step: "hop_ok link a k h \<Longrightarrow> link (hop_node h) n \<Longrightarrow> hop_ok link a (Suc k) (Hop n rel status h)"
  by (auto simp: hop_ok_def intro: walk_snoc)

lemma path_ok_step: "hop_ok link a k h \<Longrightarrow> link (hop_node h) b \<Longrightarrow> path_ok link a b (Suc k) (path_from h b status)"
  by (auto simp: hop_ok_def path_ok_def path_from_def intro: walk_snoc)

text \<open>What a scan does with a set \<open>N\<close> of neighbours; \<open>P\<close> holds of the paths and \<open>Q\<close> of the hops it makes.\<close>

definition scanned :: "(path \<Rightarrow> bool) \<Rightarrow> (hop \<Rightarrow> bool) \<Rightarrow> node_ref \<Rightarrow> node_ref set \<Rightarrow> frontier \<Rightarrow> path list + frontier \<Rightarrow> bool" where
  "scanned P Q target N s r =
     (case r of
        Inl ps \<Rightarrow> ps \<noteq> [] \<and> length ps \<le> max_paths \<and> list_all P ps \<and> target \<in> N
      | Inr (nxt, seen, ps) \<Rightarrow>
          length ps < max_paths \<and> list_all P ps \<and> (ps = [] \<longleftrightarrow> snd (snd s) = [] \<and> target \<notin> N)
          \<and> list_all Q nxt \<and> hop_node ` set nxt = hop_node ` set (fst s) \<union> (N - set (fst (snd s)) - {target})
          \<and> set seen = set (fst (snd s)) \<union> (N - {target}))"

definition fair :: "(path \<Rightarrow> bool) \<Rightarrow> (hop \<Rightarrow> bool) \<Rightarrow> frontier \<Rightarrow> bool" where
  "fair P Q s = (length (snd (snd s)) < max_paths \<and> list_all P (snd (snd s)) \<and> list_all Q (fst s))"

lemma scanned_empty: "fair P Q s \<Longrightarrow> scanned P Q target {} s (Inr s)"
  by (cases s) (simp add: scanned_def fair_def)

lemma scanned_fair: "scanned P Q target N s (Inr s') \<Longrightarrow> fair P Q s'"
  by (cases s') (auto simp: scanned_def fair_def)

lemma scanned_trans:
  assumes "scanned P Q target A s (Inr s')" and "scanned P Q target B s' r"
  shows "scanned P Q target (A \<union> B) s r"
proof (cases r)
  case (Inl ps)
  then show ?thesis using assms by (simp add: scanned_def)
next
  case (Inr t)
  obtain nxt seen ps where t: "t = (nxt, seen, ps)" by (cases t)
  obtain nxt' seen' ps' where s': "s' = (nxt', seen', ps')" by (cases s')
  have "hop_node ` set nxt = hop_node ` set (fst s) \<union> (A \<union> B - set (fst (snd s)) - {target})"
    using assms t s' Inr by (auto simp: scanned_def)
  moreover have "set seen = set (fst (snd s)) \<union> (A \<union> B - {target})"
    using assms t s' Inr by (auto simp: scanned_def)
  ultimately show ?thesis using assms t s' Inr by (auto simp: scanned_def)
qed

lemma scan_edges_scanned:
  assumes "fair P Q s" and "\<And>status. target \<in> fst ` set es \<Longrightarrow> P (path_from cur target status)"
    and "\<And>n rel status. n \<in> fst ` set es \<Longrightarrow> Q (Hop n rel status cur)"
  shows "scanned P Q target (fst ` set es) s (scan_edges target cur es s)"
  using assms
proof (induction target cur es s rule: scan_edges.induct)
  case (1 target cur s)
  then show ?case by (simp add: scanned_empty)
next
  case (2 target cur nb m es nxt seen paths)
  let ?s = "(nxt, seen, paths)" and ?ps = "paths @ [path_from cur nb (em_status m)]"
  have P: "target \<in> fst ` set es \<Longrightarrow> P (path_from cur target status)" for status
    using "2.prems"(2) by simp
  have Q: "n \<in> fst ` set es \<Longrightarrow> Q (Hop n rel status cur)" for n rel status using "2.prems"(3) by simp
  have insert: "{nb} \<union> fst ` set es = fst ` set ((nb, m) # es)" by simp
  consider (found) "nb = target" | (known) "nb \<noteq> target" "nb \<in> set seen" | (new) "nb \<noteq> target" "nb \<notin> set seen" by blast
  then show ?case
  proof cases
    case found
    have ok: "list_all P ?ps" using "2.prems" found by (simp add: fair_def)
    show ?thesis
    proof (cases "max_paths \<le> length ?ps")
      case True
      then show ?thesis using found ok "2.prems"(1) by (simp add: scanned_def fair_def Let_def)
    next
      case False
      have one: "scanned P Q target {nb} ?s (Inr (nxt, seen, ?ps))"
        using False found ok "2.prems"(1) by (auto simp: scanned_def fair_def)
      have "scanned P Q target (fst ` set es) (nxt, seen, ?ps) (scan_edges target cur es (nxt, seen, ?ps))"
        using "2.IH"(1) [OF found refl False scanned_fair [OF one] P Q] .
      from scanned_trans [OF one this] show ?thesis using found False insert by (simp add: Let_def)
    qed
  next
    case known
    have one: "scanned P Q target {nb} ?s (Inr ?s)" using known "2.prems"(1) by (auto simp: scanned_def fair_def)
    have "scanned P Q target (fst ` set es) ?s (scan_edges target cur es ?s)"
      using "2.IH"(2) [OF known "2.prems"(1) P Q] .
    from scanned_trans [OF one this] show ?thesis using known insert by simp
  next
    case new
    let ?t = "(nxt @ [Hop nb (em_relation m) (em_status m) cur], nb # seen, paths)"
    have one: "scanned P Q target {nb} ?s (Inr ?t)"
      using new "2.prems" by (auto simp: scanned_def fair_def)
    have "scanned P Q target (fst ` set es) ?t (scan_edges target cur es ?t)"
      using "2.IH"(3) [OF new scanned_fair [OF one] P Q] .
    from scanned_trans [OF one this] show ?thesis using new insert by simp
  qed
qed

lemma scan_frontier_scanned:
  assumes "fair P Q s"
    and "\<And>h status. h \<in> set front \<Longrightarrow> live_link st states (hop_node h) target \<Longrightarrow> P (path_from h target status)"
    and "\<And>h n rel status. h \<in> set front \<Longrightarrow> live_link st states (hop_node h) n \<Longrightarrow> Q (Hop n rel status h)"
  shows "scanned P Q target (\<Union>c \<in> hop_node ` set front. set (map fst (edges_of env st states c))) s
    (scan_frontier env st states target front s)"
  using assms
proof (induction front arbitrary: s)
  case Nil
  then show ?case by (simp add: scanned_empty)
next
  case (Cons c cs)
  let ?es = "edges_of env st states (hop_node c)"
  have nb: "n \<in> fst ` set ?es \<longleftrightarrow> live_link st states (hop_node c) n" for n
    using live.nbrs_iff [of n env st states "hop_node c"] by simp
  have one: "scanned P Q target (fst ` set ?es) s (scan_edges target c ?es s)"
    by (rule scan_edges_scanned) (use Cons.prems nb in auto)
  show ?case
  proof (cases "scan_edges target c ?es s")
    case (Inl ps)
    then show ?thesis using one by (auto simp: scanned_def)
  next
    case (Inr s')
    have "scanned P Q target (\<Union>c \<in> hop_node ` set cs. set (map fst (edges_of env st states c))) s'
      (scan_frontier env st states target cs s')"
      by (rule Cons.IH) (use one Inr Cons.prems scanned_fair in auto)
    from scanned_trans [OF one [unfolded Inr] this] show ?thesis using Inr by simp
  qed
qed

lemma search_paths_spec:
  fixes st states
  defines "link \<equiv> live_link st states"
  assumes "list_all (hop_ok link a k) front" and "hop_node ` set front = {n. at_distance link k a n}"
    and "set seen = {n. within link k a n}" and "\<not> within link k a b"
  shows "(search_paths env st states b j front seen \<noteq> [] \<longleftrightarrow> within link (k + j) a b)
    \<and> length (search_paths env st states b j front seen) \<le> max_paths
    \<and> list_all (\<lambda>p. \<exists>d. at_distance link d a b \<and> path_ok link a b d p) (search_paths env st states b j front seen)"
  using assms(2-5)
proof (induction j arbitrary: k front seen)
  case 0
  then show ?case by (simp add: max_paths_def)
next
  case (Suc j)
  let ?good = "\<lambda>p. \<exists>d. at_distance link d a b \<and> path_ok link a b d p"
  show ?case
  proof (cases "front = []")
    case True
    then have none: "\<forall>n. \<not> at_distance link k a n" using Suc.prems(2) by auto
    have "\<not> within link (k + Suc j) a b"
      using Suc.prems(4) no_later_layer [OF _ none] by (meson nle_le within_distance)
    then show ?thesis using True by (simp add: max_paths_def)
  next
    case False
    obtain queue where queue: "queue = map hop_node front" by simp
    have layer: "(\<Union>c \<in> hop_node ` set front. set (map fst (edges_of env st states c))) - set seen
        = {n. at_distance link (Suc k) a n}"
      "set seen \<union> (\<Union>c \<in> hop_node ` set front. set (map fst (edges_of env st states c))) = {n. within link (Suc k) a n}"
      using live.layer_of_queue [where queue = queue and k = k and st = st and states = states and a = a and seen = seen
          and env = env] Suc.prems(2,3) queue by (simp_all add: link_def)
    let ?N = "\<Union>c \<in> hop_node ` set front. set (map fst (edges_of env st states c))"
    have "b \<notin> set seen" using Suc.prems(3,4) by simp
    then have "b \<in> ?N \<longleftrightarrow> b \<in> ?N - set seen" by blast
    then have b: "b \<in> ?N \<longleftrightarrow> at_distance link (Suc k) a b" unfolding layer(1) by simp
    have P: "path_ok link a b (Suc k) (path_from h b status)" if "h \<in> set front" "link (hop_node h) b" for h status
      using that Suc.prems(1) by (auto simp: list_all_iff intro: path_ok_step)
    have Q: "hop_ok link a (Suc k) (Hop n rel status h)" if "h \<in> set front" "link (hop_node h) n" for h n rel status
      using that Suc.prems(1) by (auto simp: list_all_iff intro: hop_ok_step)
    have scan: "scanned (path_ok link a b (Suc k)) (hop_ok link a (Suc k)) b ?N ([], seen, [])
        (scan_frontier env st states b front ([], seen, []))"
      by (rule scan_frontier_scanned) (use P Q in \<open>auto simp: fair_def max_paths_def link_def\<close>)
    have good: "list_all ?good ps" if "list_all (path_ok link a b (Suc k)) ps" "at_distance link (Suc k) a b" for ps
      using that by (auto simp: list_all_iff)
    have far: "at_distance link (Suc k) a b \<Longrightarrow> within link (k + Suc j) a b" unfolding within_distance by (rule exI [of _ "Suc k"]) simp
    show ?thesis
    proof (cases "scan_frontier env st states b front ([], seen, [])")
      case (Inl ps)
      then show ?thesis using scan b good [of ps] far False by (auto simp: scanned_def)
    next
      case (Inr t)
      obtain nxt seen' ps where t: "t = (nxt, seen', ps)" by (cases t)
      show ?thesis
      proof (cases "ps = []")
        case True
        then have nb: "b \<notin> ?N" using scan Inr t by (simp add: scanned_def)
        have sets: "list_all (hop_ok link a (Suc k)) nxt" "hop_node ` set nxt = {n. at_distance link (Suc k) a n}"
          "set seen' = {n. within link (Suc k) a n}"
          using scan Inr t nb layer b by (auto simp: scanned_def)
        have "\<not> within link (Suc k) a b" using nb b Suc.prems(4) by (simp add: within_Suc)
        from Suc.IH [OF sets this] show ?thesis using Inr t True False by simp
      next
        case ps: False
        then have "at_distance link (Suc k) a b" using scan Inr t b by (auto simp: scanned_def)
        then show ?thesis using scan Inr t ps good [of ps] far False by (auto simp: scanned_def)
      qed
    qed
  qed
qed

text \<open>
  C18. The paths are shortest: \<^verbatim>\<open>Path\<close> answers a path exactly when the second node is within the hop
  limit of the first one; it answers at most 20, and each of them is a walk over edges of the
  wanted states from the first node to the second whose length is the distance of the two.
\<close>

theorem paths_are_shortest:
  "(find_paths env st a b n states \<noteq> [] \<longleftrightarrow> within (live_link st states) (nat (hop_limit n)) a b)
   \<and> length (find_paths env st a b n states) \<le> 20
   \<and> list_all (\<lambda>p. walk (live_link st states) a b (pa_nodes p)
        \<and> at_distance (live_link st states) (length (pa_nodes p) - 1) a b) (find_paths env st a b n states)"
proof (cases "a = b")
  case True
  have "within (live_link st states) k b b" for k by (auto simp: within_distance intro: exI [of _ 0])
  then show ?thesis using True by (simp add: find_paths_def walk_def)
next
  case False
  let ?link = "live_link st states"
  have "(search_paths env st states b j [Start a] [a] \<noteq> [] \<longleftrightarrow> within ?link (0 + j) a b)
      \<and> length (search_paths env st states b j [Start a] [a]) \<le> max_paths
      \<and> list_all (\<lambda>p. \<exists>d. at_distance ?link d a b \<and> path_ok ?link a b d p) (search_paths env st states b j [Start a] [a])" for j
    by (rule search_paths_spec) (use False in \<open>auto simp: hop_ok_def walk_def\<close>)
  from this [of "nat (hop_limit n)"] show ?thesis
    using False by (auto simp: find_paths_def max_paths_def path_ok_def list_all_iff)
qed

section \<open>Breadth first against depth first\<close>

definition connection :: "string \<Rightarrow> string \<Rightarrow> event" where
  "connection a b = blank_event\<lparr>ev_source_ip := a, ev_destination_ip := b\<rparr>"

definition sample_supply :: "nat \<Rightarrow> graph_supply" where
  "sample_supply k = \<lparr>gs_json = (\<lambda>s. s), gs_id = (\<lambda>i. decimal (int (10 * k + i))), gs_now = (\<lambda>i. int (1 + k))\<rparr>"

definition sample_graph :: "graph_state" where
  "sample_graph =
     fold (\<lambda>(k, a, b) st. snd (add_entity_from_event (sample_supply k) (connection a b) st))
       [(0, ''a'', ''b''), (1, ''b'', ''c''), (2, ''a'', ''c''), (3, ''c'', ''d'')] empty_graph"

definition sample_graph_env :: graph_env where
  "sample_graph_env = \<lparr>row_rank = (\<lambda>n row. 0), map_rank = (\<lambda>n m. 0), stamp = (\<lambda>t. [])\<rparr>"

text \<open>
  The depth-first traversal misses near nodes: after connections from a to b, b to c, a to c and
  c to d, the node d is two steps from a. \<^verbatim>\<open>Neighbors\<close> with depth 2 lists it; \<^verbatim>\<open>Traverse\<close> with depth 2
  meets c first behind b, at its last level, marks it as visited and never goes on from it.
\<close>

theorem traverse_misses_near_node:
  "map tv_node (traverse (\<lambda>n row. 0) sample_graph (''ip'', ''a'') 2) = [(''ip'', ''a''), (''ip'', ''b''), (''ip'', ''c'')]
   \<and> map place (neighbors sample_graph_env sample_graph (''ip'', ''a'') 2 [])
     = [((''ip'', ''a''), 0), ((''ip'', ''b''), 1), ((''ip'', ''c''), 1), ((''ip'', ''d''), 2)]"
  by (rule conjI; code_simp)

theorem graph_reachable_inv_witness:
  "graph_inv sample_graph \<and> (\<exists>edges. get_neighbors (\<lambda>n row. 0) sample_graph (''ip'', ''a'') 2 = Inr edges)
   \<and> length (entities sample_graph) = 4"
proof -
  have step: "graph_step\<^sup>*\<^sup>* empty_graph st \<Longrightarrow> graph_step\<^sup>*\<^sup>* empty_graph (snd (add_entity_from_event s ev st))" for s ev st
    by (erule rtranclp.rtrancl_into_rtrancl) (rule graph_step.event)
  have "graph_reachable sample_graph"
    unfolding graph_reachable_def sample_graph_def by (simp add: step)
  from graph_reachable_inv [OF this] have "graph_inv sample_graph \<and> (\<exists>edges. get_neighbors (\<lambda>n row. 0) sample_graph (''ip'', ''a'') 2 = Inr edges)" .
  moreover have "length (entities sample_graph) = 4" by code_simp
  ultimately show ?thesis by blast
qed

end
