(* ===== verification/GoText.thy ===== *)
theory GoText
  imports Prelude
begin

text \<open>
  More of Go's \<^verbatim>\<open>strings\<close> package: \<^verbatim>\<open>Split\<close>, \<^verbatim>\<open>SplitN\<close> with two parts, \<^verbatim>\<open>Fields\<close> and
  \<^verbatim>\<open>HasPrefix\<close>, with the laws that join and split invert each other.
\<close>

function split_from :: "string \<Rightarrow> string \<Rightarrow> string \<Rightarrow> string list" where
  "split_from sep run s =
     (case s of
        [] \<Rightarrow> [rev run]
      | c # cs \<Rightarrow>
          if sep \<noteq> [] \<and> prefix sep s then rev run # split_from sep [] (drop (length sep) s)
          else split_from sep (c # run) cs)"
  by pat_completeness auto
termination
  by (relation "measure (\<lambda>(sep, run, s). length s)") auto

declare split_from.simps [simp del]

text \<open>\<^verbatim>\<open>strings.Split(s, sep)\<close> for a separator that is not empty.\<close>

definition split_text :: "string \<Rightarrow> string \<Rightarrow> string list" where
  "split_text sep s = split_from sep [] s"

text \<open>\<^verbatim>\<open>strings.Fields\<close>: the runs of runes that are not white space.\<close>

fun fields_from :: "string \<Rightarrow> string \<Rightarrow> string list" where
  "fields_from run [] = (if run = [] then [] else [rev run])"
| "fields_from run (c # cs) =
     (if \<not> is_space c then fields_from (c # run) cs
      else if run = [] then fields_from [] cs
      else rev run # fields_from [] cs)"

definition fields :: "string \<Rightarrow> string list" where
  "fields s = fields_from [] s"

text \<open>\<^verbatim>\<open>strings.SplitN(s, c, 2)\<close> when the separator occurs.\<close>

definition cut :: "char \<Rightarrow> string \<Rightarrow> (string \<times> string) option" where
  "cut c s = (if c \<in> set s then Some (takeWhile (\<lambda>x. x \<noteq> c) s, tl (dropWhile (\<lambda>x. x \<noteq> c) s)) else None)"

section \<open>Laws\<close>

lemma split_from_Nil [simp]: "split_from sep run [] = [rev run]"
  by (subst split_from.simps) simp

lemma split_from_Cons:
  "split_from sep run (c # cs) =
     (if sep \<noteq> [] \<and> prefix sep (c # cs) then rev run # split_from sep [] (drop (length sep) (c # cs))
      else split_from sep (c # run) cs)"
  by (subst split_from.simps) simp

lemma split_from_nonempty [simp]: "split_from sep run s \<noteq> []"
  by (induction s arbitrary: run) (auto simp: split_from_Cons)

lemma join_Cons: "xs \<noteq> [] \<Longrightarrow> join sep (x # xs) = x @ sep @ join sep xs"
  by (cases xs) simp_all

lemma join_split_from: "join sep (split_from sep run s) = rev run @ s"
proof (induction sep run s rule: split_from.induct)
  case (1 sep run s)
  show ?case
  proof (cases s)
    case (Cons c cs)
    show ?thesis
    proof (cases "sep \<noteq> [] \<and> prefix sep s")
      case True
      then have "sep @ drop (length sep) s = s" by (auto elim: prefixE)
      then show ?thesis using True "1.IH"(1) [OF Cons True] Cons by (simp add: split_from_Cons join_Cons)
    next
      case False
      then show ?thesis using "1.IH"(2) [OF Cons False] Cons False by (simp add: split_from_Cons del: de_Morgan_conj)
    qed
  qed simp
qed

lemma join_split [go_string]: "join sep (split_text sep s) = s"
  by (simp add: split_text_def join_split_from)

lemma split_from_plain:
  "c \<notin> set s \<Longrightarrow> split_from [c] run s = [rev run @ s]"
  by (induction s arbitrary: run) (auto simp: split_from_Cons)

lemma split_from_part:
  "c \<notin> set x \<Longrightarrow> split_from [c] run (x @ c # s) = (rev run @ x) # split_from [c] [] s"
  by (induction x arbitrary: run) (auto simp: split_from_Cons)

lemma split_join [go_string]:
  "xs \<noteq> [] \<Longrightarrow> list_all (\<lambda>x. c \<notin> set x) xs \<Longrightarrow> split_text [c] (join [c] xs) = xs"
proof (induction "[c]" xs rule: join.induct)
  case (2 x)
  then show ?case by (simp add: split_text_def split_from_plain)
next
  case (3 x y xs)
  then show ?case by (simp add: split_text_def split_from_part)
qed simp

lemma split_text_nonempty [simp]: "split_text sep s \<noteq> []"
  by (simp add: split_text_def)

lemma split_from_sep: "sep \<noteq> [] \<Longrightarrow> split_from sep run (sep @ s) = rev run # split_from sep [] s"
  by (cases sep) (auto simp: split_from_Cons)

lemma cut_Some: "cut c s = Some (a, b) \<longleftrightarrow> s = a @ c # b \<and> c \<notin> set a"
proof
  assume "cut c s = Some (a, b)"
  then have ab: "c \<in> set s" "a = takeWhile (\<lambda>x. x \<noteq> c) s" "b = tl (dropWhile (\<lambda>x. x \<noteq> c) s)"
    by (auto simp: cut_def split: if_splits)
  then have "dropWhile (\<lambda>x. x \<noteq> c) s = c # b"
    by (metis (mono_tags, lifting) dropWhile_eq_Nil_conv hd_dropWhile list.collapse)
  then show "s = a @ c # b \<and> c \<notin> set a" using ab(2) by (metis (mono_tags, lifting) set_takeWhileD takeWhile_dropWhile_id)
next
  assume s: "s = a @ c # b \<and> c \<notin> set a"
  then have "list_all (\<lambda>x. x \<noteq> c) a" by (auto simp: list_all_iff)
  then have "takeWhile (\<lambda>x. x \<noteq> c) (a @ c # b) = a" "dropWhile (\<lambda>x. x \<noteq> c) (a @ c # b) = c # b"
    by (simp_all add: takeWhile_append_stop dropWhile_append_stop)
  then show "cut c s = Some (a, b)" using s by (simp add: cut_def)
qed

end
