(* ===== verification/EventStore.thy ===== *)
theory EventStore
  imports SplPlanner GoText EntityGraph "HOL-Library.AList"
begin

text \<open>
  The event store, \<^verbatim>\<open>internal/events/store.go\<close> and \<^verbatim>\<open>query.go\<close>, with the conversion of an event to
  columns from \<^verbatim>\<open>pkg/event/event.go\<close>. A row of the table \<^verbatim>\<open>events\<close> is the list of its cells in column
  order; what is stored and read back is modelled here, and a search is the SQL text with its bound
  arguments, whose answer is a parameter. \<^verbatim>\<open>encoding/json\<close> on the attribute map is a parameter. A
  created event also goes to the entity graph and to the observers, which run one after the other
  and whose panics are swallowed.
\<close>

section \<open>Columns\<close>

datatype cell = CText string | CTime int | CInt int | CNull

definition insert_columns :: "string list" where
  "insert_columns =
     [''id'', ''timestamp'', ''received_at'', ''source'', ''source_type'', ''host'', ''ip'', ''service'',
      ''application'', ''severity'', ''message'', ''event_type'', ''category'', ''action'', ''outcome'',
      ''user'', ''user_id'', ''process'', ''process_id'', ''parent_pid'', ''file_path'', ''destination_ip'',
      ''destination_port'', ''source_ip'', ''source_port'', ''raw'', ''raw_format'', ''trace_id'', ''span_id'',
      ''attributes'']"

record attr_json =
  aj_write :: "(string \<times> string) list \<Rightarrow> string option"
  aj_read :: "string \<Rightarrow> (string \<times> string) list option"

text \<open>The map \<^verbatim>\<open>EventToMap\<close> answers; the later entries of the list are the ones written last.\<close>

definition base_cells :: "event \<Rightarrow> (string \<times> cell) list" where
  "base_cells e =
     [(''id'', CText (ev_id e)), (''timestamp'', CTime (ev_timestamp e)), (''received_at'', CTime (ev_received_at e)),
      (''source'', CText (ev_source e)), (''source_type'', CText (ev_source_type e)), (''host'', CText (ev_host e)),
      (''ip'', CText (ev_ip e)), (''service'', CText (ev_service e)), (''application'', CText (ev_application e)),
      (''severity'', CText (parse_severity (ev_severity e))), (''message'', CText (ev_message e)),
      (''event_type'', CText (ev_event_type e)), (''category'', CText (ev_category e)),
      (''action'', CText (ev_action e)), (''outcome'', CText (ev_outcome e)), (''user'', CText (ev_user e)),
      (''user_id'', CText (ev_user_id e)), (''process'', CText (ev_process e)),
      (''process_id'', CText (ev_process_id e)), (''parent_pid'', CText (ev_parent_pid e)),
      (''file_path'', CText (ev_file_path e)), (''destination_ip'', CText (ev_destination_ip e)),
      (''destination_port'', CInt (ev_destination_port e)), (''source_ip'', CText (ev_source_ip e)),
      (''source_port'', CInt (ev_source_port e)), (''raw_format'', CText (ev_raw_format e)),
      (''trace_id'', CText (ev_trace_id e)), (''span_id'', CText (ev_span_id e))]"

definition mirror_cells :: "event \<Rightarrow> (string \<times> cell) list" where
  "mirror_cells e = map (\<lambda>(k, v). (''attr.'' @ k, CText v)) (ev_attributes e)"

definition event_to_map :: "attr_json \<Rightarrow> event \<Rightarrow> (string \<times> cell) list" where
  "event_to_map aj e =
     base_cells e
     @ (case aj_write aj (ev_attributes e) of Some s \<Rightarrow> [(''attributes'', CText s)] | None \<Rightarrow> [])
     @ mirror_cells e
     @ (case ev_raw e of Some s \<Rightarrow> [(''raw'', CText s)] | None \<Rightarrow> [])"

definition map_cell :: "(string \<times> cell) list \<Rightarrow> string \<Rightarrow> cell" where
  "map_cell m col = (case map_of (rev m) col of Some v \<Rightarrow> v | None \<Rightarrow> CNull)"

definition insert_values :: "attr_json \<Rightarrow> event \<Rightarrow> cell list" where
  "insert_values aj e = map (map_cell (event_to_map aj e)) insert_columns"

definition insert_sql :: string where
  "insert_sql =
     ''INSERT INTO events ('' @ join '', '' insert_columns @ '') VALUES (''
     @ join '', '' (replicate (length insert_columns) ''?'') @ '')''"

definition read_attributes :: "attr_json \<Rightarrow> cell \<Rightarrow> (string \<times> string) list" where
  "read_attributes aj c =
     (case c of CText s \<Rightarrow> if s = [] then [] else (case aj_read aj s of Some m \<Rightarrow> m | None \<Rightarrow> []) | _ \<Rightarrow> [])"

text \<open>
  \<^verbatim>\<open>scanEventRow\<close>: the cell of each column goes to its field, and a cell of another type is a scan
  error.
\<close>

definition text_columns :: "string list" where
  "text_columns =
     filter (\<lambda>c. c \<notin> {''timestamp'', ''received_at'', ''destination_port'', ''source_port'', ''raw'', ''attributes''})
       insert_columns"

definition row_cell :: "cell list \<Rightarrow> string \<Rightarrow> cell" where
  "row_cell row col = (case map_of (zip insert_columns row) col of Some c \<Rightarrow> c | None \<Rightarrow> CNull)"

definition text_of :: "cell \<Rightarrow> string" where
  "text_of c = (case c of CText s \<Rightarrow> s | _ \<Rightarrow> [])"

definition time_of :: "cell \<Rightarrow> int" where
  "time_of c = (case c of CTime t \<Rightarrow> t | _ \<Rightarrow> 0)"

definition int_of_cell :: "cell \<Rightarrow> int" where
  "int_of_cell c = (case c of CInt n \<Rightarrow> n | _ \<Rightarrow> 0)"

definition is_text :: "cell \<Rightarrow> bool" where
  "is_text c = (case c of CText s \<Rightarrow> True | _ \<Rightarrow> False)"

definition row_typed :: "cell list \<Rightarrow> bool" where
  "row_typed row =
     (list_all (\<lambda>c. is_text (row_cell row c)) text_columns
      \<and> list_all (\<lambda>c. case row_cell row c of CTime t \<Rightarrow> True | _ \<Rightarrow> False) [''timestamp'', ''received_at'']
      \<and> list_all (\<lambda>c. case row_cell row c of CInt n \<Rightarrow> True | _ \<Rightarrow> False) [''destination_port'', ''source_port''])"

definition scan_event :: "attr_json \<Rightarrow> cell list \<Rightarrow> event option" where
  "scan_event aj row =
     (let t = (\<lambda>c. text_of (row_cell row c))
      in if \<not> row_typed row then None
         else Some \<lparr>ev_id = t ''id'', ev_timestamp = time_of (row_cell row ''timestamp''),
           ev_received_at = time_of (row_cell row ''received_at''), ev_source = t ''source'',
           ev_source_type = t ''source_type'', ev_host = t ''host'', ev_ip = t ''ip'', ev_service = t ''service'',
           ev_application = t ''application'', ev_severity = t ''severity'', ev_message = t ''message'',
           ev_event_type = t ''event_type'', ev_category = t ''category'', ev_action = t ''action'',
           ev_outcome = t ''outcome'', ev_user = t ''user'', ev_user_id = t ''user_id'', ev_process = t ''process'',
           ev_process_id = t ''process_id'', ev_parent_pid = t ''parent_pid'', ev_file_path = t ''file_path'',
           ev_destination_ip = t ''destination_ip'',
           ev_destination_port = int_of_cell (row_cell row ''destination_port''), ev_source_ip = t ''source_ip'',
           ev_source_port = int_of_cell (row_cell row ''source_port''),
           ev_attributes = read_attributes aj (row_cell row ''attributes''),
           ev_raw = (case row_cell row ''raw'' of CText s \<Rightarrow> Some s | _ \<Rightarrow> None), ev_raw_format = t ''raw_format'',
           ev_trace_id = t ''trace_id'', ev_span_id = t ''span_id''\<rparr>)"

section \<open>Writing\<close>

datatype event_error =
    NilEvent
  | EmptyEventId
  | EventNotFound string
  | InsertFailed string
  | CorrelateFailed string
  | InvalidQuery string
  | EventQueryFailed

text \<open>The rows, the entity graph, and the state the observers act on.\<close>

record 'w event_store =
  es_rows :: "cell list list"
  es_graph :: graph_state
  es_world :: 'w

record 'w event_env =
  ee_json :: attr_json
  ee_observers :: "(event \<Rightarrow> 'w \<Rightarrow> 'w) list"

definition row_id :: "cell list \<Rightarrow> string" where
  "row_id row = (case row of CText i # cs \<Rightarrow> i | _ \<Rightarrow> [])"

definition normalize_event :: "int \<Rightarrow> event \<Rightarrow> event" where
  "normalize_event now e =
     (let ts = (if ev_timestamp e = 0 then now else ev_timestamp e)
      in e\<lparr>ev_timestamp := ts, ev_received_at := (if ev_received_at e = 0 then ts else ev_received_at e)\<rparr>)"

definition insert_row :: "attr_json \<Rightarrow> event \<Rightarrow> cell list list \<Rightarrow> cell list list option" where
  "insert_row aj e rows =
     (if taken row_id (ev_id e) rows then None else Some (rows @ [insert_values aj e]))"

definition observe :: "(event \<Rightarrow> 'w \<Rightarrow> 'w) list \<Rightarrow> event \<Rightarrow> 'w \<Rightarrow> 'w" where
  "observe obs e w = fold (\<lambda>f. f e) obs w"

definition create_event :: "('w, 'z) event_env_scheme \<Rightarrow> graph_supply \<Rightarrow> int \<Rightarrow> event option \<Rightarrow> 'w event_store
    \<Rightarrow> (event_error + event) \<times> 'w event_store" where
  "create_event env s now oe st =
     (case oe of
        None \<Rightarrow> (Inl NilEvent, st)
      | Some e0 \<Rightarrow>
          let e = normalize_event now e0
          in case insert_row (ee_json env) e (es_rows st) of
               None \<Rightarrow> (Inl (InsertFailed (ev_id e)), st)
             | Some rows \<Rightarrow>
                 (case add_entity_from_event s e (es_graph st) of
                    (Inl x, g) \<Rightarrow> (Inl (CorrelateFailed (ev_id e)), st\<lparr>es_rows := rows, es_graph := g\<rparr>)
                  | (Inr u, g) \<Rightarrow>
                      (Inr e, st\<lparr>es_rows := rows, es_graph := g, es_world := observe (ee_observers env) e (es_world st)\<rparr>)))"

text \<open>The inserts of a batch are one transaction: the identifier that failed, or all rows.\<close>

fun insert_all :: "attr_json \<Rightarrow> event list \<Rightarrow> cell list list \<Rightarrow> string + cell list list" where
  "insert_all aj [] rows = Inr rows"
| "insert_all aj (e # es) rows =
     (case insert_row aj e rows of None \<Rightarrow> Inl (ev_id e) | Some rows' \<Rightarrow> insert_all aj es rows')"

text \<open>The graph and the observers of a committed batch; the first graph error is remembered.\<close>

fun derive_all :: "('w, 'z) event_env_scheme \<Rightarrow> (nat \<Rightarrow> graph_supply) \<Rightarrow> nat \<Rightarrow> event list \<Rightarrow> string option \<Rightarrow> 'w event_store
    \<Rightarrow> string option \<times> 'w event_store" where
  "derive_all env s i [] err st = (err, st)"
| "derive_all env s i (e # es) err st =
     (case add_entity_from_event (s i) e (es_graph st) of
        (r, g) \<Rightarrow>
          derive_all env s (Suc i) es (case (err, r) of (None, Inl x) \<Rightarrow> Some (ev_id e) | _ \<Rightarrow> err)
            (st\<lparr>es_graph := g, es_world := observe (ee_observers env) e (es_world st)\<rparr>))"

definition present :: "'a option list \<Rightarrow> 'a list" where
  "present xs = List.map_filter (\<lambda>x. x) xs"

definition create_batch :: "('w, 'z) event_env_scheme \<Rightarrow> (nat \<Rightarrow> graph_supply) \<Rightarrow> int \<Rightarrow> event option list \<Rightarrow> 'w event_store
    \<Rightarrow> (event_error + unit) \<times> 'w event_store" where
  "create_batch env s now oes st =
     (if oes = [] then (Inr (), st)
      else let es = map (normalize_event now) (present oes)
           in case insert_all (ee_json env) es (es_rows st) of
                Inl i \<Rightarrow> (Inl (InsertFailed i), st)
              | Inr rows \<Rightarrow>
                  (case derive_all env s 0 es None (st\<lparr>es_rows := rows\<rparr>) of
                     (Some i, st') \<Rightarrow> (Inl (CorrelateFailed i), st')
                   | (None, st') \<Rightarrow> (Inr (), st')))"

section \<open>Reading and deleting one event\<close>

definition get_event :: "('w, 'z) event_env_scheme \<Rightarrow> string \<Rightarrow> 'w event_store \<Rightarrow> event_error + event" where
  "get_event env i st =
     (if i = [] then Inl EmptyEventId
      else case select_row (\<lambda>r. row_id r = i) (es_rows st) of
             None \<Rightarrow> Inl (EventNotFound i)
           | Some row \<Rightarrow> (case scan_event (ee_json env) row of Some e \<Rightarrow> Inr e | None \<Rightarrow> Inl EventQueryFailed))"

definition delete_event :: "string \<Rightarrow> 'w event_store \<Rightarrow> (event_error + unit) \<times> 'w event_store" where
  "delete_event i st =
     (if i = [] then (Inl EmptyEventId, st)
      else if row_count (\<lambda>r. row_id r = i) (es_rows st) = 0 then (Inl (EventNotFound i), st)
      else (Inr (), st\<lparr>es_rows := delete_rows (\<lambda>r. row_id r = i) (es_rows st)\<rparr>))"

section \<open>Searching\<close>

record event_query =
  eq_text :: string
  eq_source :: string
  eq_source_type :: string
  eq_host :: string
  eq_service :: string
  eq_severity :: string
  eq_event_type :: string
  eq_category :: string
  eq_action :: string
  eq_outcome :: string
  eq_user :: string
  eq_source_ip :: string
  eq_destination_ip :: string
  eq_start :: int
  eq_end :: int
  eq_limit :: int
  eq_offset :: int
  eq_sort_by :: string
  eq_sort_order :: string
  eq_attributes :: "(string \<times> string) list"

definition new_query :: event_query where
  "new_query =
     \<lparr>eq_text = [], eq_source = [], eq_source_type = [], eq_host = [], eq_service = [], eq_severity = [],
      eq_event_type = [], eq_category = [], eq_action = [], eq_outcome = [], eq_user = [], eq_source_ip = [],
      eq_destination_ip = [], eq_start = 0, eq_end = 0, eq_limit = 100, eq_offset = 0,
      eq_sort_by = ''timestamp'', eq_sort_order = ''desc'', eq_attributes = []\<rparr>"

definition max_search_limit :: int where "max_search_limit = 50000"

text \<open>The defaults and bounds that \<^verbatim>\<open>Search\<close> and \<^verbatim>\<open>buildEventQuery\<close> both apply.\<close>

definition clamp_query :: "event_query \<Rightarrow> event_query" where
  "clamp_query q =
     (let l = (if eq_limit q \<le> 0 then 100 else eq_limit q)
      in q\<lparr>eq_limit := (if max_search_limit < l then max_search_limit else l),
           eq_offset := (if eq_offset q < 0 then 0 else eq_offset q),
           eq_sort_by := (if eq_sort_by q = [] then ''timestamp'' else eq_sort_by q),
           eq_sort_order := (if eq_sort_order q = ''asc'' \<or> eq_sort_order q = ''desc'' then eq_sort_order q else ''desc'')\<rparr>)"

definition select_list :: string where
  "select_list =
     ''SELECT events.id, events.timestamp, events.received_at, events.source, events.source_type, events.host, events.ip, events.service, ''
     @ ''events.application, events.severity, events.message, events.event_type, events.category, events.action, events.outcome, ''
     @ ''events.user, events.user_id, events.process, events.process_id, events.parent_pid, events.file_path, ''
     @ ''events.destination_ip, events.destination_port, events.source_ip, events.source_port, ''
     @ ''events.raw, events.raw_format, events.trace_id, events.span_id, events.attributes FROM events''"

text \<open>The text so far, the arguments, and whether a WHERE has been written.\<close>

type_synonym 'f sql_state = "string \<times> 'f arg list \<times> bool"

definition add_cond :: "string \<Rightarrow> 'f arg list \<Rightarrow> 'f sql_state \<Rightarrow> 'f sql_state" where
  "add_cond c as = (\<lambda>(s, args, has_where). (s @ (if has_where then '' AND '' else '' WHERE '') @ c, args @ as, True))"

definition add_filter :: "string \<times> string \<Rightarrow> 'f sql_state \<Rightarrow> 'f sql_state" where
  "add_filter = (\<lambda>(col, v) st. if v = [] then st else add_cond (col @ '' = ?'') [AText v] st)"

definition string_filters :: "event_query \<Rightarrow> (string \<times> string) list" where
  "string_filters q =
     [(''source'', eq_source q), (''source_type'', eq_source_type q), (''host'', eq_host q),
      (''service'', eq_service q), (''severity'', eq_severity q), (''event_type'', eq_event_type q),
      (''category'', eq_category q), (''action'', eq_action q), (''outcome'', eq_outcome q), (''user'', eq_user q),
      (''source_ip'', eq_source_ip q), (''destination_ip'', eq_destination_ip q)]"

definition add_range :: "string \<Rightarrow> int \<Rightarrow> 'f sql_state \<Rightarrow> 'f sql_state" where
  "add_range c t st = (if t = 0 then st else add_cond c [ATime t] st)"

definition or_fields :: "(string \<times> string) list" where
  "or_fields =
     [(''__or_source__'', ''source''), (''__or_event_type__'', ''event_type''), (''__or_host__'', ''host''),
      (''__or_service__'', ''service''), (''__or_severity__'', ''severity''), (''__or_category__'', ''category''),
      (''__or_action__'', ''action''), (''__or_outcome__'', ''outcome''), (''__or_user__'', ''user'')]"

definition add_or_field :: "(string \<times> string) list \<Rightarrow> string \<times> string \<Rightarrow> 'f sql_state \<Rightarrow> 'f sql_state" where
  "add_or_field attrs = (\<lambda>(key, col) st.
     case map_of attrs key of
       None \<Rightarrow> st
     | Some vs \<Rightarrow>
         let vals = split_text '','' vs
         in add_cond (col @ '' IN ('' @ join '', '' (replicate (length vals) ''?'') @ '')'')
              (map (\<lambda>v. AText (trim_space v)) vals) st)"

definition valid_attr_key :: "string \<Rightarrow> bool" where
  "valid_attr_key k =
     (k \<noteq> [] \<and> list_all (\<lambda>c. (97 \<le> code c \<and> code c \<le> 122) \<or> is_digit c \<or> c = CHR ''_'') k)"

fun add_attributes :: "(string \<times> string) list \<Rightarrow> 'f sql_state \<Rightarrow> event_error + 'f sql_state" where
  "add_attributes [] st = Inr st"
| "add_attributes ((k, v) # kvs) st =
     (if prefix ''__or_'' k then add_attributes kvs st
      else if \<not> valid_attr_key (to_lower k) then Inl (InvalidQuery k)
      else add_attributes kvs (add_cond (json_extract (to_lower k) @ '' = ?'') [AText v] st))"

definition sort_columns :: "string list" where
  "sort_columns =
     [''id'', ''timestamp'', ''received_at'', ''source'', ''source_type'', ''host'', ''ip'', ''service'',
      ''application'', ''severity'', ''message'', ''event_type'', ''category'', ''action'', ''outcome'',
      ''user'', ''user_id'', ''process'', ''process_id'', ''parent_pid'', ''file_path'', ''destination_ip'',
      ''destination_port'', ''source_ip'', ''source_port'', ''raw_format'', ''trace_id'', ''span_id'']"

definition query_start :: "bool \<Rightarrow> event_query \<Rightarrow> 'f sql_state" where
  "query_start count_only q =
     (let s = (if count_only then ''SELECT COUNT(*) FROM events'' else select_list)
      in if eq_text q = [] then (s, [], False)
         else add_cond ''events.rowid IN (SELECT rowid FROM events_fts WHERE events_fts MATCH ?)''
                [AText (sanitize_fts (eq_text q))] (s, [], False))"

definition query_filters :: "(string \<Rightarrow> nat) \<Rightarrow> event_query \<Rightarrow> 'f sql_state \<Rightarrow> 'f sql_state" where
  "query_filters or_rank q st =
     fold (add_or_field (eq_attributes q)) (sort_key (\<lambda>p. or_rank (fst p)) or_fields)
       (add_range ''timestamp <= ?'' (eq_end q) (add_range ''timestamp >= ?'' (eq_start q)
         (fold add_filter (string_filters q) st)))"

text \<open>\<open>or_rank\<close> is the iteration order of the map of OR fields, the list of attributes that of the attributes.\<close>

definition build_event_query :: "(string \<Rightarrow> nat) \<Rightarrow> event_query \<Rightarrow> bool \<Rightarrow> event_error + (string \<times> 'f arg list)" where
  "build_event_query or_rank q0 count_only =
     (let q = clamp_query q0
      in case add_attributes (eq_attributes q) (query_filters or_rank q (query_start count_only q)) of
           Inl e \<Rightarrow> Inl e
         | Inr (s, args, has_where) \<Rightarrow>
             if to_lower (eq_sort_by q) \<notin> set sort_columns then Inl (InvalidQuery (eq_sort_by q))
             else Inr (if count_only then s
                       else s @ '' ORDER BY '' @ to_lower (eq_sort_by q) @ '' '' @ eq_sort_order q
                              @ '' LIMIT '' @ decimal (eq_limit q) @ '' OFFSET '' @ decimal (eq_offset q), args))"

record 'f event_db =
  ed_or_rank :: "string \<Rightarrow> nat"
  ed_events :: "string \<Rightarrow> 'f arg list \<Rightarrow> event list option"
  ed_count :: "string \<Rightarrow> 'f arg list \<Rightarrow> int option"

definition search_events :: "('f, 'z) event_db_scheme \<Rightarrow> event_query \<Rightarrow> event_error + event list" where
  "search_events db q =
     (case build_event_query (ed_or_rank db) (clamp_query q) False of
        Inl e \<Rightarrow> Inl e
      | Inr (sql, args) \<Rightarrow> (case ed_events db sql args of None \<Rightarrow> Inl EventQueryFailed | Some es \<Rightarrow> Inr es))"

definition count_events :: "('f, 'z) event_db_scheme \<Rightarrow> event_query \<Rightarrow> event_error + int" where
  "count_events db q =
     (case build_event_query (ed_or_rank db) q True of
        Inl e \<Rightarrow> Inl e
      | Inr (sql, args) \<Rightarrow> (case ed_count db sql args of None \<Rightarrow> Inl EventQueryFailed | Some n \<Rightarrow> Inr n))"

text \<open>\<^verbatim>\<open>GetRelatedEvents\<close> of the entity graph: the query for the events of a node.\<close>

definition related_clause :: "string \<Rightarrow> (string \<times> nat) option" where
  "related_clause t =
     (if t = ''ip'' then Some (''(source_ip = ? OR destination_ip = ?)'', 2)
      else if t = ''user'' then Some (''user = ?'', 1)
      else if t = ''host'' then Some (''host = ?'', 1)
      else if t = ''trace_id'' then Some (''trace_id = ?'', 1)
      else if t = ''process'' then Some (''process = ?'', 1)
      else if t = ''file'' then Some (''file_path = ?'', 1)
      else if t = ''email'' then Some (''json_extract(attributes, '' @ [squote] @ ''$.email'' @ [squote] @ '') = ?'', 1)
      else None)"

definition related_limit :: "int \<Rightarrow> int" where
  "related_limit n = (let m = (if n \<le> 0 then 100 else n) in if 10000 < m then 10000 else m)"

definition related_events :: "(string \<Rightarrow> string list \<Rightarrow> int \<Rightarrow> string list option) \<Rightarrow> node_ref \<Rightarrow> int \<Rightarrow> string list option" where
  "related_events ids n limit =
     (case related_clause (fst n) of
        None \<Rightarrow> Some []
      | Some (c, k) \<Rightarrow>
          ids (''SELECT id FROM events WHERE '' @ c @ '' ORDER BY timestamp DESC LIMIT ?'')
            (replicate k (snd n)) (related_limit limit))"

text \<open>The bounds of \<^verbatim>\<open>Timeline\<close> and \<^verbatim>\<open>SourceCounts\<close>; durations are nanoseconds.\<close>

definition timeline_seconds :: "int \<Rightarrow> int" where
  "timeline_seconds width =
     (let b = (if width < 60 * 10 ^ 9 then 60 * 10 ^ 9 else width);
          b' = (if 24 * 3600 * 10 ^ 9 < b then 24 * 3600 * 10 ^ 9 else b)
      in b' div 10 ^ 9)"

definition source_limit :: "int \<Rightarrow> int" where
  "source_limit n = (let m = (if n \<le> 0 then 100 else n) in if max_search_limit < m then max_search_limit else m)"

definition source_counts :: "(string \<Rightarrow> int \<Rightarrow> (string \<times> int) list option) \<Rightarrow> int \<Rightarrow> (string \<times> int) list option" where
  "source_counts rows limit =
     map_option (\<lambda>rs. fold (\<lambda>(src, n) m. AList.update src ((case map_of m src of Some k \<Rightarrow> k | None \<Rightarrow> 0) + n) m) rs [])
       (rows ''SELECT source, COUNT(*) FROM (SELECT source FROM events ORDER BY timestamp DESC LIMIT ?) GROUP BY source''
         (source_limit limit))"

section \<open>What is stored is read back\<close>

lemma select_list_columns: "select_list = ''SELECT '' @ join '', '' (map (\<lambda>c. ''events.'' @ c) insert_columns) @ '' FROM events''"
  by code_simp

lemma row_cell_insert: "c \<in> set insert_columns \<Longrightarrow> row_cell (insert_values aj e) c = map_cell (event_to_map aj e) c"
  by (simp add: row_cell_def insert_values_def map_of_zip_map)

lemma mirror_lookup:
  "\<not> prefix ''attr.'' c \<Longrightarrow> map_of (rev (mirror_cells e)) c = None"
  by (auto simp: map_of_eq_None_iff mirror_cells_def)

lemma map_of_rev_distinct:
  assumes "distinct (map fst xs)"
  shows "map_of (rev xs) k = map_of xs k"
proof (cases "map_of xs k")
  case None
  then have "map_of (rev xs) k = None" by (simp add: map_of_eq_None_iff)
  with None show ?thesis by simp
next
  case (Some v)
  moreover have "distinct (map fst (rev xs))" using assms by (simp add: rev_map [symmetric])
  ultimately show ?thesis by (auto dest: map_of_SomeD intro: map_of_is_SomeI)
qed

lemma map_cell_base:
  assumes "c \<in> set insert_columns" and "c \<noteq> ''attributes''" and "c \<noteq> ''raw''"
  shows "map_cell (event_to_map aj e) c = the (map_of (base_cells e) c)"
proof -
  have d: "distinct (map fst (base_cells e))" by (simp add: base_cells_def)
  have "\<not> prefix ''attr.'' c" using assms(1) by (auto simp: insert_columns_def)
  then have "map_of (rev (event_to_map aj e)) c = map_of (rev (base_cells e)) c"
    using assms(2,3) by (auto simp: event_to_map_def map_add_def mirror_lookup split: option.split)
  also have "\<dots> = map_of (base_cells e) c" using d by (rule map_of_rev_distinct)
  finally have m: "map_of (rev (event_to_map aj e)) c = map_of (base_cells e) c" .
  have "map_of (base_cells e) c \<noteq> None"
    using assms by (auto simp: insert_columns_def base_cells_def)
  then show ?thesis using m by (auto simp: map_cell_def)
qed

lemma row_id_insert: "row_id (insert_values aj e) = ev_id e"
proof -
  have "map_cell (event_to_map aj e) ''id'' = CText (ev_id e)"
    by (subst map_cell_base) (simp_all add: insert_columns_def base_cells_def)
  then show ?thesis by (simp add: row_id_def insert_values_def insert_columns_def)
qed

lemma map_cell_attributes:
  "aj_write aj (ev_attributes e) = Some s \<Longrightarrow> map_cell (event_to_map aj e) ''attributes'' = CText s"
  by (simp add: map_cell_def event_to_map_def map_add_def mirror_lookup split: option.split)

lemma map_cell_raw:
  "map_cell (event_to_map aj e) ''raw'' = (case ev_raw e of Some s \<Rightarrow> CText s | None \<Rightarrow> CNull)"
proof -
  have "map_of (rev (base_cells e)) ''raw'' = None" by (simp add: base_cells_def)
  then show ?thesis
    by (auto simp: map_cell_def event_to_map_def map_add_def mirror_lookup split: option.splits)
qed

definition severity_stored :: "event \<Rightarrow> event" where
  "severity_stored e = e\<lparr>ev_severity := parse_severity (ev_severity e)\<rparr>"

lemma scan_insert:
  assumes "aj_write aj (ev_attributes e) = Some s" and "s \<noteq> []" and "aj_read aj s = Some (ev_attributes e)"
  shows "scan_event aj (insert_values aj e) = Some (severity_stored e)"
proof -
  have cells: "row_cell (insert_values aj e) c = the (map_of (base_cells e) c)"
    if "c \<in> set insert_columns" "c \<noteq> ''attributes''" "c \<noteq> ''raw''" for c
    using that by (simp add: row_cell_insert map_cell_base)
  have typed: "row_typed (insert_values aj e)"
    unfolding row_typed_def text_columns_def
    by (simp add: insert_columns_def cells [unfolded insert_columns_def] base_cells_def is_text_def)
  have attrs: "row_cell (insert_values aj e) ''attributes'' = CText s"
    using assms(1) by (simp add: row_cell_insert insert_columns_def map_cell_attributes)
  have raw: "row_cell (insert_values aj e) ''raw'' = (case ev_raw e of Some s \<Rightarrow> CText s | None \<Rightarrow> CNull)"
    by (simp add: row_cell_insert insert_columns_def map_cell_raw)
  show ?thesis
    using typed assms(2,3)
    by (simp add: scan_event_def Let_def attrs raw cells [unfolded insert_columns_def] base_cells_def text_of_def time_of_def
        int_of_cell_def read_attributes_def severity_stored_def split: option.split)
qed

lemma select_inserted:
  assumes "insert_row aj e rows = Some rows'"
  shows "select_row (\<lambda>r. row_id r = ev_id e) rows' = Some (insert_values aj e)"
proof -
  have "\<not> taken row_id (ev_id e) rows" "rows' = rows @ [insert_values aj e]"
    using assms by (auto simp: insert_row_def split: if_splits)
  moreover from this(1) have "select_row (\<lambda>r. row_id r = ev_id e) rows = None"
    by (auto simp: select_row_None taken_iff image_iff)
  ultimately show ?thesis by (simp add: select_snoc row_id_insert)
qed

lemma create_event_rows:
  assumes "create_event env s now (Some e) st = (Inr e', st')"
  shows "e' = normalize_event now e" "insert_row (ee_json env) e' (es_rows st) = Some (es_rows st')"
  using assms by (auto simp: create_event_def Let_def split: option.splits prod.splits sum.splits)

text \<open>
  C8. A stored event is read back: when \<^verbatim>\<open>Create\<close> succeeds for an event with an identifier whose attributes
  survive their JSON text, \<^verbatim>\<open>GetByID\<close> answers the event with its missing times filled in and its severity in
  canonical form. The column order of the insert, of the select and of the scan agree.
\<close>

theorem stored_event_reads_back:
  assumes "create_event env s now (Some e) st = (Inr e', st')" and "ev_id e \<noteq> []"
    and "aj_write (ee_json env) (ev_attributes e) = Some t" and "t \<noteq> []"
    and "aj_read (ee_json env) t = Some (ev_attributes e)"
  shows "get_event env (ev_id e) st' = Inr (severity_stored (normalize_event now e))"
proof -
  note c = create_event_rows [OF assms(1)]
  have n: "ev_id e' = ev_id e" "ev_attributes e' = ev_attributes e"
    by (simp_all add: c(1) normalize_event_def Let_def)
  have "select_row (\<lambda>r. row_id r = ev_id e) (es_rows st') = Some (insert_values (ee_json env) e')"
    using select_inserted [OF c(2)] n by simp
  moreover have "scan_event (ee_json env) (insert_values (ee_json env) e') = Some (severity_stored e')"
    using assms(3-5) n by (intro scan_insert) simp_all
  ultimately show ?thesis using assms(2) c(1) by (simp add: get_event_def)
qed

definition sample_json :: attr_json where
  "sample_json =
     \<lparr>aj_write = (\<lambda>m. Some (join '','' (map (\<lambda>(k, v). k @ ''='' @ v) m) @ '';'')),
      aj_read = (\<lambda>s. if s = ''port=22;'' then Some [(''port'', ''22'')] else None)\<rparr>"

definition sample_event :: event where
  "sample_event = blank_event\<lparr>ev_id := ''e1'', ev_severity := '' Warn'', ev_user := ''bob'', ev_host := ''web'',
     ev_attributes := [(''port'', ''22'')]\<rparr>"

definition sample_event_env :: "string list event_env" where
  "sample_event_env = \<lparr>ee_json = sample_json, ee_observers = [\<lambda>e w. ev_id e # w]\<rparr>"

definition sample_event_supply :: "nat \<Rightarrow> graph_supply" where
  "sample_event_supply k = \<lparr>gs_json = (\<lambda>s. s), gs_id = (\<lambda>i. decimal (int (20 * k + i))), gs_now = (\<lambda>i. 7)\<rparr>"

definition no_events :: "string list event_store" where
  "no_events = \<lparr>es_rows = [], es_graph = empty_graph, es_world = []\<rparr>"

theorem stored_event_reads_back_witness:
  "get_event sample_event_env ''e1'' (snd (create_event sample_event_env (sample_event_supply 0) 5 (Some sample_event) no_events))
     = Inr (severity_stored (normalize_event 5 sample_event))
   \<and> ev_severity (severity_stored sample_event) = ''warning''"
proof
  have "fst (create_event sample_event_env (sample_event_supply 0) 5 (Some sample_event) no_events)
    = Inr (normalize_event 5 sample_event)" by code_simp
  then have c: "create_event sample_event_env (sample_event_supply 0) 5 (Some sample_event) no_events
    = (Inr (normalize_event 5 sample_event),
       snd (create_event sample_event_env (sample_event_supply 0) 5 (Some sample_event) no_events))"
    by (metis prod.collapse)
  have i: "ev_id sample_event = ''e1''" by code_simp
  have "get_event sample_event_env (ev_id sample_event)
      (snd (create_event sample_event_env (sample_event_supply 0) 5 (Some sample_event) no_events))
    = Inr (severity_stored (normalize_event 5 sample_event))"
    by (rule stored_event_reads_back [OF c, of "''port=22;''"]) code_simp+
  then show "get_event sample_event_env ''e1''
      (snd (create_event sample_event_env (sample_event_supply 0) 5 (Some sample_event) no_events))
    = Inr (severity_stored (normalize_event 5 sample_event))" unfolding i .
  show "ev_severity (severity_stored sample_event) = ''warning''" by code_simp
qed

section \<open>A batch is one transaction\<close>

lemma insert_all_rows: "insert_all aj es rows = Inr rows' \<Longrightarrow> rows' = rows @ map (insert_values aj) es"
  by (induction aj es rows rule: insert_all.induct) (auto simp: insert_row_def split: option.splits if_splits)

lemma derive_all_rows: "es_rows (snd (derive_all env s i es err st)) = es_rows st"
  by (induction es arbitrary: i err st) (auto split: prod.split)

text \<open>
  C25. \<^verbatim>\<open>CreateBatch\<close> is atomic on the events: when an insert fails nothing has changed, neither the rows nor
  the entity graph nor what the observers keep; otherwise exactly the events that are not nil were
  appended in order, also when a later write to the graph failed.
\<close>

theorem batch_is_atomic:
  "case create_batch env s now oes st of
     (Inl (InsertFailed i), st') \<Rightarrow> st' = st
   | (r, st') \<Rightarrow> es_rows st' = es_rows st @ map (\<lambda>e. insert_values (ee_json env) (normalize_event now e)) (present oes)"
proof (cases "oes = []")
  case True
  then show ?thesis by (simp add: create_batch_def present_def)
next
  case False
  let ?es = "map (normalize_event now) (present oes)"
  show ?thesis
  proof (cases "insert_all (ee_json env) ?es (es_rows st)")
    case (Inl i)
    then show ?thesis using False by (simp add: create_batch_def)
  next
    case (Inr rows)
    obtain err st' where d: "derive_all env s 0 ?es None (st\<lparr>es_rows := rows\<rparr>) = (err, st')" by fastforce
    have "es_rows st' = rows" using derive_all_rows [of env s 0 ?es None "st\<lparr>es_rows := rows\<rparr>"] d by simp
    then show ?thesis
      using False Inr d insert_all_rows [OF Inr] by (cases err) (simp_all add: create_batch_def comp_def)
  qed
qed

section \<open>Every stored row scans\<close>

lemma insert_typed: "row_typed (insert_values aj e)"
proof -
  have cells: "row_cell (insert_values aj e) c = the (map_of (base_cells e) c)"
    if "c \<in> set insert_columns" "c \<noteq> ''attributes''" "c \<noteq> ''raw''" for c
    using that by (simp add: row_cell_insert map_cell_base)
  show ?thesis
    unfolding row_typed_def text_columns_def
    by (simp add: insert_columns_def cells [unfolded insert_columns_def] base_cells_def is_text_def)
qed

definition rows_ok :: "cell list list \<Rightarrow> bool" where
  "rows_ok rows = (list_all row_typed rows \<and> unique_by row_id rows)"

inductive event_step :: "'w event_env \<Rightarrow> 'w event_store \<Rightarrow> 'w event_store \<Rightarrow> bool" for env where
  stored: "event_step env st (snd (create_event env s now oe st))"
| batched: "event_step env st (snd (create_batch env ss now oes st))"
| removed: "event_step env st (snd (delete_event i st))"

lemma insert_row_ok: "insert_row aj e rows = Some rows' \<Longrightarrow> rows_ok rows \<Longrightarrow> rows_ok rows'"
  by (auto simp: insert_row_def rows_ok_def insert_typed table_simps row_id_insert split: if_splits)

lemma insert_all_ok: "insert_all aj es rows = Inr rows' \<Longrightarrow> rows_ok rows \<Longrightarrow> rows_ok rows'"
  by (induction aj es rows rule: insert_all.induct) (auto split: option.splits dest: insert_row_ok)

lemma create_batch_ok:
  assumes "rows_ok (es_rows st)"
  shows "rows_ok (es_rows (snd (create_batch env ss now oes st)))"
proof (cases "insert_all (ee_json env) (map (normalize_event now) (present oes)) (es_rows st)")
  case (Inl i)
  then show ?thesis using assms by (simp add: create_batch_def)
next
  case (Inr rows)
  obtain err st' where d: "derive_all env ss 0 (map (normalize_event now) (present oes)) None (st\<lparr>es_rows := rows\<rparr>) = (err, st')"
    by fastforce
  have "es_rows st' = rows"
    using derive_all_rows [of env ss 0 "map (normalize_event now) (present oes)" None "st\<lparr>es_rows := rows\<rparr>"] d by simp
  then show ?thesis
    using assms Inr d insert_all_ok [OF Inr assms] by (cases err) (simp_all add: create_batch_def)
qed

lemma event_step_ok: "event_step env st st' \<Longrightarrow> rows_ok (es_rows st) \<Longrightarrow> rows_ok (es_rows st')"
proof (induction rule: event_step.induct)
  case (stored st s now oe)
  then show ?case
    by (auto simp: create_event_def Let_def split: option.splits prod.splits sum.splits dest: insert_row_ok)
next
  case (batched st ss now oes)
  then show ?case by (rule create_batch_ok)
next
  case (removed st i)
  then show ?case
    by (auto simp: delete_event_def rows_ok_def unique_by_delete delete_rows_def list_all_iff
        intro: unique_by_delete [unfolded delete_rows_def])
qed

text \<open>
  C24. Every row that \<^verbatim>\<open>Create\<close>, \<^verbatim>\<open>CreateBatch\<close> and \<^verbatim>\<open>DeleteByID\<close> leave behind has in each column a cell of
  the type that \<^verbatim>\<open>scanEventRow\<close> reads, and its own identifier: reading an event by its identifier never
  fails in the scan.
\<close>

theorem stored_rows_are_typed:
  assumes "(event_step env)\<^sup>*\<^sup>* st0 st" and "es_rows st0 = []"
  shows "list_all row_typed (es_rows st) \<and> unique_by row_id (es_rows st) \<and> get_event env i st \<noteq> Inl EventQueryFailed"
proof -
  have "rows_ok (es_rows st0)" using assms(2) by (simp add: rows_ok_def unique_by_def)
  with assms(1) have ok: "rows_ok (es_rows st)"
    by (induction rule: rtranclp_induct) (auto intro: event_step_ok)
  have scan: "scan_event (ee_json env) row \<noteq> None" if "select_row p (es_rows st) = Some row" for p row
    using select_row_Some [OF that] ok by (auto simp: rows_ok_def list_all_iff scan_event_def Let_def)
  have "get_event env i st \<noteq> Inl EventQueryFailed"
    using scan [of "\<lambda>r. row_id r = i"]
    by (cases "select_row (\<lambda>r. row_id r = i) (es_rows st)") (auto simp: get_event_def split: option.split)
  then show ?thesis using ok by (simp add: rows_ok_def)
qed

definition one_event :: "string list event_store" where
  "one_event = snd (create_event sample_event_env (sample_event_supply 0) 5 (Some sample_event) no_events)"

theorem stored_rows_are_typed_witness:
  "list_all row_typed (es_rows one_event) \<and> unique_by row_id (es_rows one_event)
   \<and> get_event sample_event_env ''e1'' one_event \<noteq> Inl EventQueryFailed \<and> length (es_rows one_event) = 1"
proof -
  have "event_step sample_event_env no_events one_event" unfolding one_event_def by (rule event_step.stored)
  then have "(event_step sample_event_env)\<^sup>*\<^sup>* no_events one_event" by (rule r_into_rtranclp)
  then have "list_all row_typed (es_rows one_event) \<and> unique_by row_id (es_rows one_event)
      \<and> get_event sample_event_env ''e1'' one_event \<noteq> Inl EventQueryFailed"
    by (rule stored_rows_are_typed) (simp add: no_events_def)
  moreover have "length (es_rows one_event) = 1" unfolding one_event_def by code_simp
  ultimately show ?thesis by blast
qed

section \<open>Queries\<close>

definition sql_ok :: "'f sql_state \<Rightarrow> bool" where
  "sql_ok = (\<lambda>(s, args, h). placeholders s = length args \<and> list_all sql_char s)"

lemma sql_ok_cond:
  "sql_ok st \<Longrightarrow> placeholders c = length as \<Longrightarrow> list_all sql_char c \<Longrightarrow> sql_ok (add_cond c as st)"
  by (cases st) (auto simp: sql_ok_def add_cond_def)

definition column_word :: "string \<Rightarrow> bool" where
  "column_word s = list_all name_char s"

lemma column_word_facts: "column_word s \<Longrightarrow> placeholders s = 0 \<and> list_all sql_char s"
  by (simp add: column_word_def name_text_no_placeholder list_all_name_sql)

lemma sql_ok_filter: "column_word (fst f) \<Longrightarrow> sql_ok st \<Longrightarrow> sql_ok (add_filter f st)"
  using column_word_facts [of "fst f"] by (cases f) (auto simp: add_filter_def intro!: sql_ok_cond)

lemma sql_ok_fold:
  "(\<And>x st. x \<in> set xs \<Longrightarrow> sql_ok st \<Longrightarrow> sql_ok (f x st)) \<Longrightarrow> sql_ok st \<Longrightarrow> sql_ok (fold f xs st)"
  by (induction xs arbitrary: st) simp_all

lemma sql_ok_range: "placeholders c = 1 \<Longrightarrow> list_all sql_char c \<Longrightarrow> sql_ok st \<Longrightarrow> sql_ok (add_range c t st)"
  by (simp add: add_range_def sql_ok_cond)

lemma placeholders_marks: "placeholders (join '', '' (replicate n ''?'')) = n"
  by (simp add: placeholders_join sum_list_replicate)

lemma sql_ok_or_field: "column_word (snd f) \<Longrightarrow> sql_ok st \<Longrightarrow> sql_ok (add_or_field attrs f st)"
proof (cases "map_of attrs (fst f)")
  case (Some vs)
  assume "column_word (snd f)" "sql_ok st"
  moreover have "list_all sql_char (join '', '' (replicate n ''?''))" for n
    by (rule list_all_join) (auto simp: list_all_iff)
  ultimately show ?thesis
    using Some column_word_facts [of "snd f"]
    by (cases f) (auto simp: add_or_field_def Let_def placeholders_marks intro!: sql_ok_cond)
qed (auto simp: add_or_field_def split: prod.split)

lemma valid_key_word: "valid_attr_key k \<Longrightarrow> column_word k"
  by (auto simp: valid_attr_key_def column_word_def name_char_def is_word_def is_ascii_letter_def list_all_iff)

lemma sql_ok_attributes: "sql_ok st \<Longrightarrow> add_attributes kvs st = Inr st' \<Longrightarrow> sql_ok st'"
proof (induction kvs st rule: add_attributes.induct)
  case (2 k v kvs st)
  have "sql_ok (add_cond (json_extract (to_lower k) @ '' = ?'') [AText v] st)" if "valid_attr_key (to_lower k)"
    using "2.prems"(1) column_word_facts [OF valid_key_word [OF that]] by (intro sql_ok_cond) auto
  then show ?case using 2 by (auto split: if_splits)
qed simp

lemma string_filter_columns: "list_all (\<lambda>f. column_word (fst f)) (string_filters q)"
proof -
  have "list_all column_word (map fst (string_filters blank))" for blank
    by (simp add: string_filters_def column_word_def) code_simp
  then show ?thesis by (simp add: list_all_iff)
qed

lemma or_field_columns: "list_all (\<lambda>f. column_word (snd f)) or_fields"
  by code_simp

lemma sort_column_words: "list_all column_word sort_columns"
  by code_simp

lemma sql_ok_start: "sql_ok (query_start c q)"
proof -
  have l: "placeholders select_list = 0" "list_all sql_char select_list" by code_simp+
  show ?thesis using l by (auto simp: query_start_def Let_def sql_ok_def add_cond_def)
qed

lemma sql_ok_query_filters: "sql_ok st \<Longrightarrow> sql_ok (query_filters or_rank q st)"
  unfolding query_filters_def
  using string_filter_columns [of q] or_field_columns
  by (intro sql_ok_fold sql_ok_range) (auto simp: list_all_iff intro: sql_ok_filter sql_ok_or_field)

lemma decimal_name: "column_word (decimal n)"
proof -
  have "list_all name_char (digits_of m)" for m
    using digits_of_digits [of m] by (auto simp: list_all_iff name_char_def is_word_def)
  then show ?thesis by (simp add: column_word_def decimal_def name_char_def)
qed

text \<open>Two texts that differ in a common beginning.\<close>

definition same_tail :: "string \<Rightarrow> string \<Rightarrow> 'f sql_state \<Rightarrow> 'f sql_state \<Rightarrow> bool" where
  "same_tail p p' st st' = (\<exists>w as h. st = (p @ w, as, h) \<and> st' = (p' @ w, as, h))"

lemma same_tail_cond: "same_tail p p' st st' \<Longrightarrow> same_tail p p' (add_cond c as st) (add_cond c as st')"
  by (auto simp: same_tail_def add_cond_def)

lemma same_tail_fold:
  "(\<And>x st st'. same_tail p p' st st' \<Longrightarrow> same_tail p p' (f x st) (f x st')) \<Longrightarrow> same_tail p p' st st'
    \<Longrightarrow> same_tail p p' (fold f xs st) (fold f xs st')"
  by (induction xs arbitrary: st st') simp_all

lemma same_tail_steps:
  assumes "same_tail p p' st st'"
  shows "same_tail p p' (add_filter f st) (add_filter f st')"
    and "same_tail p p' (add_range c t st) (add_range c t st')"
    and "same_tail p p' (add_or_field attrs g st) (add_or_field attrs g st')"
  using assms by (auto simp: add_filter_def add_range_def add_or_field_def Let_def
      intro: same_tail_cond split: prod.split option.split)

lemma same_tail_start: "same_tail ''SELECT COUNT(*) FROM events'' select_list (query_start True q) (query_start False q)"
proof -
  let ?c = "''SELECT COUNT(*) FROM events''"
  have base: "same_tail ?c select_list (?c, as, h) (select_list, as, h)" for as h
    unfolding same_tail_def by (intro exI [of _ "[]"] exI [of _ as] exI [of _ h]) simp
  show ?thesis unfolding query_start_def Let_def using base same_tail_cond [OF base] by (cases "eq_text q = []") simp_all
qed

lemma same_tail_query:
  "same_tail p p' st st' \<Longrightarrow> same_tail p p' (query_filters or_rank q st) (query_filters or_rank q st')"
  unfolding query_filters_def by (intro same_tail_fold same_tail_steps)

lemma same_tail_attributes:
  assumes "same_tail p p' st st'"
  shows "case add_attributes kvs st of
      Inl e \<Rightarrow> add_attributes kvs st' = Inl e
    | Inr t \<Rightarrow> \<exists>t'. add_attributes kvs st' = Inr t' \<and> same_tail p p' t t'"
  using assms
proof (induction kvs st arbitrary: st' rule: add_attributes.induct)
  case (2 k v kvs st)
  show ?case
  proof (cases "prefix ''__or_'' k")
    case True
    then have "add_attributes ((k, v) # kvs) x = add_attributes kvs x" for x :: "'a sql_state" by simp
    then show ?thesis using "2.IH"(1) [OF True "2.prems"] by presburger
  next
    case False
    show ?thesis
    proof (cases "valid_attr_key (to_lower k)")
      case True
      then have "add_attributes ((k, v) # kvs) x
          = add_attributes kvs (add_cond (json_extract (to_lower k) @ '' = ?'') [AText v] x)" for x :: "'a sql_state"
        using False by simp
      moreover note "2.IH"(2) [OF False _ same_tail_cond [OF "2.prems"]]
      ultimately show ?thesis using True by presburger
    next
      case invalid: False
      then show ?thesis using False by simp
    qed
  qed
qed simp

text \<open>
  C26. A search binds exactly its placeholders and brings no text of the caller into the SQL beyond attribute
  keys of lower-case letters, digits and underscores: whatever the query, the statement consists of the
  planner's alphabet. The count uses the same condition and the same arguments as the search, and
  either both are rejected with the same error or none. Both range the attribute map in the same order, one
  argument of the model; the code ranges it once for each.
\<close>

theorem event_query_bound:
  "case build_event_query or_rank q False :: event_error + (string \<times> 'f arg list) of
     Inl e \<Rightarrow> (build_event_query or_rank q True :: event_error + (string \<times> 'f arg list)) = Inl e
   | Inr (sql, args) \<Rightarrow>
       placeholders sql = length args \<and> list_all sql_char sql
       \<and> (\<exists>w t. sql = select_list @ w @ t
              \<and> build_event_query or_rank q True = Inr (''SELECT COUNT(*) FROM events'' @ w, args))"
proof -
  let ?q = "clamp_query q"
  let ?st = "query_filters or_rank ?q (query_start False ?q) :: 'f sql_state"
  let ?ct = "query_filters or_rank ?q (query_start True ?q) :: 'f sql_state"
  have tails: "same_tail ''SELECT COUNT(*) FROM events'' select_list ?ct ?st"
    by (rule same_tail_query [OF same_tail_start])
  note attrs = same_tail_attributes [OF tails, of "eq_attributes ?q"]
  show ?thesis
  proof (cases "add_attributes (eq_attributes ?q) ?ct")
    case (Inl e)
    then show ?thesis using attrs by (simp add: build_event_query_def Let_def)
  next
    case (Inr t)
    then obtain t' where t': "add_attributes (eq_attributes ?q) ?st = Inr t'"
      "same_tail ''SELECT COUNT(*) FROM events'' select_list t t'" using attrs by auto
    then obtain w as h where w: "t = (''SELECT COUNT(*) FROM events'' @ w, as, h)" "t' = (select_list @ w, as, h)"
      by (auto simp: same_tail_def)
    have ok: "placeholders (select_list @ w) = length as" "list_all sql_char (select_list @ w)"
      using sql_ok_attributes [OF sql_ok_query_filters [OF sql_ok_start] t'(1)] w(2) by (simp_all add: sql_ok_def)
    show ?thesis
    proof (cases "to_lower (eq_sort_by ?q) \<in> set sort_columns")
      case True
      then have c: "column_word (to_lower (eq_sort_by ?q))" using sort_column_words by (auto simp: list_all_iff)
      have o: "eq_sort_order ?q = ''asc'' \<or> eq_sort_order ?q = ''desc''" by (auto simp: clamp_query_def Let_def)
      let ?t = "'' ORDER BY '' @ to_lower (eq_sort_by ?q) @ '' '' @ eq_sort_order ?q
        @ '' LIMIT '' @ decimal (eq_limit ?q) @ '' OFFSET '' @ decimal (eq_offset ?q)"
      have "placeholders ?t = 0 \<and> list_all sql_char ?t"
        using column_word_facts [OF c] column_word_facts [OF decimal_name [of "eq_limit ?q"]]
          column_word_facts [OF decimal_name [of "eq_offset ?q"]] o by auto
      moreover have "build_event_query or_rank q True = Inr (''SELECT COUNT(*) FROM events'' @ w, as)"
        "build_event_query or_rank q False = Inr (select_list @ w @ ?t, as)"
        using True Inr t'(1) w by (simp_all add: build_event_query_def Let_def)
      ultimately show ?thesis using ok by auto
    next
      case False
      then show ?thesis using Inr t'(1) w by (simp add: build_event_query_def Let_def)
    qed
  qed
qed

end
