(* ===== verification/Rows.thy ===== *)
theory Rows
  imports Tables
begin

text \<open>
  Tables whose rows are written by \<^verbatim>\<open>INSERT ... ON CONFLICT(key) DO UPDATE\<close>: the row at a key, the
  upsert with its merge, and the order \<^verbatim>\<open>DESC\<close>. The locale \<open>upsert_table\<close> is the contract of the merge of
  such a statement, that it keeps the key; under it an upsert is an update of the map from keys to rows.
\<close>

definition row_at :: "('r \<Rightarrow> 'k) \<Rightarrow> 'r list \<Rightarrow> 'k \<Rightarrow> 'r option" where
  "row_at key rows k = select_row (\<lambda>r. key r = k) rows"

definition upsert_row :: "('r \<Rightarrow> 'k) \<Rightarrow> ('r \<Rightarrow> 'r \<Rightarrow> 'r) \<Rightarrow> 'r \<Rightarrow> 'r list \<Rightarrow> 'r list" where
  "upsert_row key merge x rows =
     (if taken key (key x) rows then update_rows (\<lambda>y. key y = key x) (merge x) rows else rows @ [x])"

definition sort_desc :: "('a \<Rightarrow> 'k::linorder) \<Rightarrow> 'a list \<Rightarrow> 'a list" where
  "sort_desc key xs = rev (sort_key key (rev xs))"

lemma set_sort_desc [simp]: "set (sort_desc key xs) = set xs"
  by (simp add: sort_desc_def)

lemma sorted_sort_desc: "sorted_wrt (\<lambda>a b. key b \<le> key a) (sort_desc key xs)"
  unfolding sort_desc_def using sorted_sort_key [of key "rev xs"]
  by (simp add: sorted_map sorted_wrt_rev)

lemma row_at_Some: "row_at key rows k = Some r \<Longrightarrow> r \<in> set rows \<and> key r = k"
  by (auto simp: row_at_def dest: select_row_Some)

lemma taken_row_at: "taken key k rows \<longleftrightarrow> row_at key rows k \<noteq> None"
  by (auto simp: taken_iff row_at_def table_simps)

lemma row_at_snoc:
  "row_at key (rows @ [x]) = (if taken key (key x) rows then row_at key rows else (row_at key rows)(key x \<mapsto> x))"
  by (auto simp: row_at_def taken_row_at select_snoc fun_eq_iff split: option.splits)

lemma row_at_Nil [simp]: "row_at key [] = Map.empty"
  by (simp add: row_at_def select_row_def fun_eq_iff)

lemma row_at_unique: "unique_by key rows \<Longrightarrow> r \<in> set rows \<Longrightarrow> row_at key rows (key r) = Some r"
  unfolding row_at_def by (rule select_row_key) simp_all

lemma row_at_update_key:
  assumes "\<And>y. key (f y) = key y"
  shows "row_at key (update_rows (\<lambda>y. key y = k) f rows) =
     (\<lambda>k'. if k' = k then map_option f (row_at key rows k) else row_at key rows k')"
proof
  fix k'
  show "row_at key (update_rows (\<lambda>y. key y = k) f rows) k' =
     (if k' = k then map_option f (row_at key rows k) else row_at key rows k')"
    by (induction rows) (auto simp: row_at_def select_row_def update_rows_def assms)
qed

locale upsert_table =
  fixes key :: "'r \<Rightarrow> 'k" and merge :: "'r \<Rightarrow> 'r \<Rightarrow> 'r"
  assumes key_merge: "key (merge x y) = key y"
begin

lemma row_at_update:
  "row_at key (update_rows (\<lambda>y. key y = k) (merge x) rows) =
     (\<lambda>k'. if k' = k then map_option (merge x) (row_at key rows k) else row_at key rows k')"
  by (rule row_at_update_key) (rule key_merge)

lemma row_at_upsert:
  "row_at key (upsert_row key merge x rows) =
     (row_at key rows)(key x \<mapsto> (case row_at key rows (key x) of None \<Rightarrow> x | Some y \<Rightarrow> merge x y))"
  by (auto simp: upsert_row_def row_at_update row_at_snoc taken_row_at fun_eq_iff split: option.splits)

lemma unique_upsert: "unique_by key rows \<Longrightarrow> unique_by key (upsert_row key merge x rows)"
  by (simp add: upsert_row_def table_simps unique_by_update key_merge)

lemma taken_upsert: "taken key k (upsert_row key merge x rows) \<longleftrightarrow> k = key x \<or> taken key k rows"
  by (auto simp: taken_row_at row_at_upsert)

end

end
