(* ===== verification/EntityStore.thy ===== *)
theory EntityStore
  imports GoText GraphQueries Rows Complex_Main
begin

text \<open>
  Entity resolution, \<^verbatim>\<open>internal/entities\<close>: the alias table, the metadata of an entity, the state of an
  edge, the normal forms of extracted values and the write path that runs on every stored event. A
  confidence is the exact value of the float. A NULL text is the empty text, which the code
  writes as NULL. Where a statement leaves the order of rows open, a rank gives it.
\<close>

section \<open>State\<close>

record identity =
  id_id :: string
  id_canonical :: node_ref
  id_alias :: node_ref
  id_status :: string
  id_confidence :: rat
  id_source :: string
  id_first :: int
  id_last :: int

record entity_meta =
  mt_node :: node_ref
  mt_display_name :: string
  mt_os :: string
  mt_os_version :: string
  mt_environment :: string
  mt_exposed :: "bool option"
  mt_privilege :: string
  mt_cloud_provider :: string
  mt_cloud_account :: string
  mt_tags :: string
  mt_updated :: int

record entity_store =
  et_graph :: graph_state
  et_identities :: "identity list"
  et_metas :: "entity_meta list"

datatype entity_error = EntityWrite | IdentityNotFound

section \<open>Identities\<close>

definition identity_statuses :: "string list" where
  "identity_statuses = [''unknown'', ''possible'', ''probable'', ''confirmed'']"

definition rank_identity :: "string \<Rightarrow> int" where
  "rank_identity s =
     (if s = ''possible'' then 1 else if s = ''probable'' then 2 else if s = ''confirmed'' then 3 else 0)"

definition identity_status_better :: "string \<Rightarrow> string \<Rightarrow> bool" where
  "identity_status_better candidate current = (rank_identity current < rank_identity candidate)"

definition alias_key :: "identity \<Rightarrow> node_ref \<times> node_ref" where
  "alias_key x = (id_canonical x, id_alias x)"

definition identity_defaults :: "string \<Rightarrow> int \<Rightarrow> identity \<Rightarrow> identity" where
  "identity_defaults fresh now x =
     (let f = (if id_first x = 0 then now else id_first x)
      in x\<lparr>id_id := (if id_id x = [] then fresh else id_id x),
           id_status := (if id_status x = [] then ''unknown'' else id_status x),
           id_confidence := (if id_confidence x \<le> 0 then 1 / 2 else id_confidence x),
           id_source := (if id_source x = [] then ''observation'' else id_source x),
           id_first := f, id_last := (if id_last x = 0 then f else id_last x)\<rparr>)"

text \<open>A promotion: the status and the confidence only move up.\<close>

definition promote :: "identity option \<Rightarrow> identity \<Rightarrow> identity" where
  "promote cur x =
     (case cur of
        None \<Rightarrow> x
      | Some c \<Rightarrow> x\<lparr>id_status := (if identity_status_better (id_status x) (id_status c) then id_status x else id_status c),
                    id_confidence := (if id_confidence x < id_confidence c then id_confidence c else id_confidence x)\<rparr>)"

definition merge_identity :: "identity \<Rightarrow> identity \<Rightarrow> identity" where
  "merge_identity x old = old\<lparr>id_status := id_status x, id_confidence := id_confidence x, id_last := id_last x\<rparr>"

definition upsert_identity :: "string \<Rightarrow> int \<Rightarrow> identity \<Rightarrow> entity_store \<Rightarrow> (entity_error + unit) \<times> entity_store" where
  "upsert_identity fresh now x0 st =
     (let x = promote (row_at alias_key (et_identities st) (alias_key x0)) (identity_defaults fresh now x0)
      in if id_status x \<notin> set identity_statuses
            \<or> (\<not> taken alias_key (alias_key x) (et_identities st) \<and> taken id_id (id_id x) (et_identities st))
         then (Inl EntityWrite, st)
         else (Inr (), st\<lparr>et_identities := upsert_row alias_key merge_identity x (et_identities st)\<rparr>))"

text \<open>\<^verbatim>\<open>ORDER BY status DESC, confidence DESC\<close>: the status is compared as a text.\<close>

definition by_status :: "(identity \<Rightarrow> nat) \<Rightarrow> identity list \<Rightarrow> identity list" where
  "by_status rank xs = sort_desc (\<lambda>x. (id_status x, id_confidence x)) (sort_key rank xs)"

definition identities_for :: "(identity \<Rightarrow> nat) \<Rightarrow> node_ref \<Rightarrow> entity_store \<Rightarrow> identity list" where
  "identities_for rank n st = by_status rank (filter (\<lambda>x. id_canonical x = n) (et_identities st))"

definition link_identity :: "string \<Rightarrow> int \<Rightarrow> node_ref \<Rightarrow> node_ref \<Rightarrow> entity_store \<Rightarrow> (entity_error + unit) \<times> entity_store" where
  "link_identity fresh now c a =
     upsert_identity fresh now
       \<lparr>id_id = [], id_canonical = c, id_alias = a, id_status = ''confirmed'', id_confidence = 1,
        id_source = ''analyst'', id_first = 0, id_last = 0\<rparr>"

definition unlink_identity :: "node_ref \<Rightarrow> node_ref \<Rightarrow> entity_store \<Rightarrow> (entity_error + unit) \<times> entity_store" where
  "unlink_identity c a st =
     (if row_count (\<lambda>x. alias_key x = (c, a)) (et_identities st) = 0 then (Inl IdentityNotFound, st)
      else (Inr (), st\<lparr>et_identities := delete_rows (\<lambda>x. alias_key x = (c, a)) (et_identities st)\<rparr>))"

record candidate =
  cd_node :: node_ref
  cd_matched_as :: string
  cd_status :: string
  cd_confidence :: rat
  cd_count :: int
  cd_first :: string
  cd_last :: string

definition value_candidate :: "(int \<Rightarrow> string) \<Rightarrow> entity \<Rightarrow> candidate" where
  "value_candidate rfc e =
     \<lparr>cd_node = en_node e, cd_matched_as = ''value'', cd_status = [], cd_confidence = 1, cd_count = en_count e,
      cd_first = rfc (en_first e), cd_last = rfc (en_last e)\<rparr>"

definition alias_candidate :: "identity \<Rightarrow> candidate" where
  "alias_candidate x =
     \<lparr>cd_node = id_canonical x, cd_matched_as = ''alias'', cd_status = id_status x, cd_confidence = id_confidence x,
      cd_count = 0, cd_first = [], cd_last = []\<rparr>"

text \<open>The candidates of the values and then of the aliases, each printed node once.\<close>

definition resolve_entity :: "(int \<Rightarrow> string) \<Rightarrow> (entity \<Rightarrow> nat) \<Rightarrow> (identity \<Rightarrow> nat) \<Rightarrow> string \<Rightarrow> entity_store \<Rightarrow> candidate list" where
  "resolve_entity rfc erank irank raw0 st =
     (let raw = trim_space raw0
      in if raw = [] then []
         else firsts_by (\<lambda>c. visit_key (cd_node c)) []
           (map (value_candidate rfc) (sort_key erank (filter (\<lambda>e. snd (en_node e) = raw) (entities (et_graph st))))
            @ map alias_candidate (by_status irank
                (filter (\<lambda>x. snd (id_alias x) = raw \<and> id_status x \<in> {''confirmed'', ''probable''}) (et_identities st)))))"

section \<open>Metadata\<close>

definition keep_old :: "string \<Rightarrow> string \<Rightarrow> string" where
  "keep_old new old = (if new = [] then old else new)"

text \<open>The tags of the argument are given as their JSON text, empty for a nil slice.\<close>

definition merge_meta :: "entity_meta \<Rightarrow> entity_meta \<Rightarrow> entity_meta" where
  "merge_meta m old =
     old\<lparr>mt_display_name := keep_old (mt_display_name m) (mt_display_name old), mt_os := keep_old (mt_os m) (mt_os old),
         mt_os_version := keep_old (mt_os_version m) (mt_os_version old),
         mt_environment := keep_old (mt_environment m) (mt_environment old),
         mt_exposed := (case mt_exposed m of Some b \<Rightarrow> Some b | None \<Rightarrow> mt_exposed old),
         mt_privilege := keep_old (mt_privilege m) (mt_privilege old),
         mt_cloud_provider := keep_old (mt_cloud_provider m) (mt_cloud_provider old),
         mt_cloud_account := keep_old (mt_cloud_account m) (mt_cloud_account old),
         mt_tags := keep_old (mt_tags m) (mt_tags old), mt_updated := mt_updated m\<rparr>"

definition upsert_meta :: "int \<Rightarrow> entity_meta \<Rightarrow> entity_store \<Rightarrow> entity_store" where
  "upsert_meta now m0 st =
     (let m = m0\<lparr>mt_updated := (if mt_updated m0 = 0 then now else mt_updated m0)\<rparr>
      in st\<lparr>et_metas := upsert_row mt_node merge_meta m (et_metas st)\<rparr>)"

definition get_meta :: "node_ref \<Rightarrow> entity_store \<Rightarrow> entity_meta option" where
  "get_meta n st = row_at mt_node (et_metas st) n"

section \<open>The state of an edge\<close>

definition edge_statuses :: "string list" where
  "edge_statuses = [''observed'', ''inferred'', ''potential'', ''blocked'']"

definition meta_key :: "rel_meta \<Rightarrow> node_ref \<times> node_ref \<times> string" where
  "meta_key m = (rm_from m, rm_to m, rm_relation m)"

definition meta_defaults :: "int \<Rightarrow> rel_meta \<Rightarrow> rel_meta" where
  "meta_defaults now m =
     (let f = (if rm_first m = 0 then now else rm_first m)
      in m\<lparr>rm_status := (if rm_status m = [] then ''observed'' else rm_status m),
           rm_source := (if rm_source m = [] then ''event'' else rm_source m), rm_first := f,
           rm_last := (if rm_last m = 0 then f else rm_last m)\<rparr>)"

definition merge_edge :: "rel_meta \<Rightarrow> rel_meta \<Rightarrow> rel_meta" where
  "merge_edge m old =
     (let new = (if rm_source m = ''analyst'' then m else old)
      in old\<lparr>rm_status := rm_status new, rm_source := rm_source new, rm_source_id := rm_source_id new,
             rm_last := rm_last m, rm_evidence := keep_old (rm_evidence m) (rm_evidence old)\<rparr>)"

definition upsert_relationship_meta :: "int \<Rightarrow> rel_meta \<Rightarrow> entity_store \<Rightarrow> (entity_error + unit) \<times> entity_store" where
  "upsert_relationship_meta now m0 st =
     (let m = meta_defaults now m0
      in if rm_status m \<notin> set edge_statuses then (Inl EntityWrite, st)
         else (Inr (), st\<lparr>et_graph := (et_graph st)\<lparr>rel_metas := upsert_row meta_key merge_edge m (rel_metas (et_graph st))\<rparr>\<rparr>))"

record edge =
  eg_from :: node_ref
  eg_to :: node_ref
  eg_relation :: string
  eg_weight :: int
  eg_status :: string
  eg_source :: string
  eg_source_id :: string
  eg_last :: string
  eg_evidence :: string

definition edge_of :: "(int \<Rightarrow> string) \<Rightarrow> relationship \<times> rel_meta option \<Rightarrow> edge" where
  "edge_of rfc = (\<lambda>(r, om).
     \<lparr>eg_from = rl_from r, eg_to = rl_to r, eg_relation = rl_relation r, eg_weight = rl_weight r,
      eg_status = meta_status om, eg_source = meta_source om,
      eg_source_id = (case om of Some m \<Rightarrow> rm_source_id m | None \<Rightarrow> []),
      eg_last = rfc (case om of Some m \<Rightarrow> rm_last m | None \<Rightarrow> rl_created r),
      eg_evidence = (case om of Some m \<Rightarrow> rm_evidence m | None \<Rightarrow> [])\<rparr>)"

definition relationships_limit :: "int \<Rightarrow> nat" where
  "relationships_limit n = (if n \<le> 0 \<or> 1000 < n then 500 else nat n)"

definition relationships_of :: "(int \<Rightarrow> string) \<Rightarrow> (relationship \<times> rel_meta option \<Rightarrow> nat) \<Rightarrow> node_ref \<Rightarrow> int \<Rightarrow> entity_store \<Rightarrow> edge list" where
  "relationships_of rfc rank n limit st =
     map (edge_of rfc) (take (relationships_limit limit)
       (sort_desc (\<lambda>p. rl_created (fst p)) (sort_key rank
         (concat (map (\<lambda>r. if rl_from r = n \<or> rl_to r = n then map (Pair r) (metas_of r (et_graph st)) else [])
            (relationships (et_graph st)))))))"

section \<open>Normal forms\<close>

fun cut_last :: "(char \<Rightarrow> bool) \<Rightarrow> string \<Rightarrow> string option" where
  "cut_last p [] = None"
| "cut_last p (c # cs) = (case cut_last p cs of Some t \<Rightarrow> Some t | None \<Rightarrow> if p c then Some cs else None)"

text \<open>The normal form of a user name and its original forms.\<close>

definition normalize_user :: "string \<Rightarrow> string \<times> string list" where
  "normalize_user s0 =
     (let s = trim_space s0; sep = (\<lambda>c. c = backslash \<or> c = CHR ''/'');
          (s1, a1) = (if list_ex sep s then (tl (dropWhile (\<lambda>c. \<not> sep c) s), [s]) else (s, []));
          (s2, a2) = (case cut_last (\<lambda>c. c = backslash) s1 of Some t \<Rightarrow> (t, a1 @ [s1]) | None \<Rightarrow> (s1, a1))
      in (to_lower s2, a2))"

definition normalize_host :: "(string \<Rightarrow> string) \<Rightarrow> string \<Rightarrow> string" where
  "normalize_host upper s = upper (trim_space s)"

definition normalize_domain :: "string \<Rightarrow> string" where
  "normalize_domain s0 =
     (let s1 = to_lower (trim_space s0);
          s2 = (if s1 \<noteq> [] \<and> last s1 = CHR ''.'' then butlast s1 else s1)
      in if CHR '':'' \<in> set s2 \<and> hd s2 \<noteq> CHR '':'' then takeWhile (\<lambda>c. c \<noteq> CHR '':'') s2 else s2)"

record url_parts =
  up_scheme :: string
  up_host :: string
  up_path :: string
  up_query :: string
  up_fragment :: string
  up_request_uri :: string

definition normalize_url :: "(string \<Rightarrow> url_parts option) \<Rightarrow> string \<Rightarrow> string" where
  "normalize_url parse s0 =
     (let s = trim_space s0
      in case parse s of
           None \<Rightarrow> s
         | Some u \<Rightarrow>
             if up_host u = [] then s
             else to_lower (up_scheme u) @ ''://'' @ to_lower (up_host u)
                  @ (if up_path u = [] \<and> up_query u = [] \<and> up_fragment u = [] then [] else up_request_uri u))"

definition ends_with :: "string \<Rightarrow> string \<Rightarrow> bool" where
  "ends_with t s = prefix (rev t) (rev s)"

definition normalize_process :: "string \<Rightarrow> string \<times> string list" where
  "normalize_process s0 =
     (let s = trim_space s0
      in if s = [] then ([], [])
         else case cut_last (\<lambda>c. c = CHR ''/'' \<or> c = backslash) s of
                None \<Rightarrow> (to_lower s, [])
              | Some base \<Rightarrow> if ends_with ''.exe'' (to_lower base) then (base, [s]) else (to_lower base, [s]))"

definition is_hex :: "char \<Rightarrow> bool" where
  "is_hex c = (is_digit c \<or> (97 \<le> code c \<and> code c \<le> 102))"

definition normalize_hash :: "string \<Rightarrow> string" where
  "normalize_hash s0 =
     (let s = to_lower (trim_space s0) in if length s \<in> {32, 40, 64} \<and> list_all is_hex s then s else [])"

definition normalize_email :: "string \<Rightarrow> string" where
  "normalize_email s = to_lower (trim_space s)"

record extracted =
  ex_type :: string
  ex_value :: string
  ex_aliases :: "string list"

definition extracted_value :: "string \<Rightarrow> string \<times> string list \<Rightarrow> extracted list" where
  "extracted_value t = (\<lambda>(v, as). if v = [] then [] else [\<lparr>ex_type = t, ex_value = v, ex_aliases = as\<rparr>])"

text \<open>The argument holds the attributes whose value is a string.\<close>

definition extract_from_attributes :: "(string \<Rightarrow> url_parts option) \<Rightarrow> (string \<times> string) list \<Rightarrow> extracted list" where
  "extract_from_attributes parse attrs =
     (let on = (\<lambda>k f. case map_of attrs k of Some v \<Rightarrow> f v | None \<Rightarrow> [])
      in on ''domain'' (\<lambda>v. extracted_value ''domain'' (normalize_domain v, []))
         @ on ''url'' (\<lambda>v. extracted_value ''url'' (normalize_url parse v, []))
         @ on ''email'' (\<lambda>v. extracted_value ''email'' (normalize_email v, []))
         @ on ''file_hash'' (\<lambda>v. extracted_value ''hash'' (normalize_hash v, []))
         @ on ''file'' (\<lambda>v. extracted_value ''file'' (trim_space v, []))
         @ on ''process'' (\<lambda>v. extracted_value ''process'' (normalize_process v))
         @ on ''user'' (\<lambda>v. extracted_value ''user'' (normalize_user v)))"

section \<open>The write path\<close>

text \<open>Errors of the single writes are dropped. The \<open>i\<close>-th write has its own identifier and clock reading.\<close>

record resolver_supply = graph_supply +
  rs_url :: "string \<Rightarrow> url_parts option"
  rs_at :: int

datatype resolver_write = EntityRow node_ref | AliasRow node_ref node_ref string rat | EdgeRow node_ref node_ref string string

definition is_blocked_outcome :: "string \<Rightarrow> bool" where
  "is_blocked_outcome s =
     (to_lower (trim_space s) \<in> {''deny'', ''denied'', ''block'', ''blocked'', ''failure'', ''failed'', ''fail''})"

definition edge_state :: "string \<Rightarrow> bool \<Rightarrow> string" where
  "edge_state normal blocked = (if blocked then ''blocked'' else normal)"

definition extracted_writes :: "extracted \<Rightarrow> resolver_write list" where
  "extracted_writes x =
     EntityRow (ex_type x, ex_value x)
     # map (\<lambda>a. AliasRow (ex_type x, ex_value x) (ex_type x, a) ''confirmed'' 1) (ex_aliases x)"

definition host_aliases :: "event \<Rightarrow> resolver_write list" where
  "host_aliases ev =
     (if ev_host ev = [] then []
      else map (\<lambda>ip. AliasRow (''host'', ev_host ev) (''ip'', ip) ''probable'' (4 / 5))
             (filter (\<lambda>ip. ip \<noteq> []) [ev_source_ip ev, ev_destination_ip ev]))"

definition edge_writes :: "event \<Rightarrow> resolver_write list" where
  "edge_writes ev =
     (let s = edge_state ''observed'' (is_blocked_outcome (ev_outcome ev))
      in map (\<lambda>(a, b, rel). EdgeRow a b rel (if rel \<in> {''connected_to'', ''auth_from''} then s else ''observed''))
           (event_edges ev))"

definition resolver_write_to :: "resolver_supply \<Rightarrow> string \<Rightarrow> nat \<times> resolver_write \<Rightarrow> entity_store \<Rightarrow> entity_store" where
  "resolver_write_to s ev_ident = (\<lambda>(i, w) st.
     case w of
       EntityRow n \<Rightarrow>
         st\<lparr>et_graph := snd (upsert_entity (gs_json s) (gs_id s i) (gs_now s i)
           \<lparr>en_id = [], en_node = n, en_first = rs_at s, en_last = rs_at s, en_count = 1, en_metadata = []\<rparr> (et_graph st))\<rparr>
     | AliasRow c a status conf \<Rightarrow>
         snd (upsert_identity (gs_id s i) (gs_now s i)
           \<lparr>id_id = [], id_canonical = c, id_alias = a, id_status = status, id_confidence = conf,
            id_source = ''observation'', id_first = 0, id_last = 0\<rparr> st)
     | EdgeRow a b rel status \<Rightarrow>
         snd (upsert_relationship_meta (gs_now s i)
           \<lparr>rm_from = a, rm_to = b, rm_relation = rel, rm_status = status, rm_source = ''event'',
            rm_source_id = ev_ident, rm_first = 0, rm_last = rs_at s, rm_evidence = []\<rparr> st))"

definition from_event :: "resolver_supply \<Rightarrow> (string \<times> string) list \<Rightarrow> event \<Rightarrow> entity_store \<Rightarrow> entity_store" where
  "from_event s attrs ev st =
     fold (resolver_write_to s (ev_id ev))
       (enumerate 0 (concat (map extracted_writes (extract_from_attributes (rs_url s) attrs))
          @ host_aliases ev @ edge_writes ev)) st"

section \<open>The tables\<close>

interpretation identity_table: upsert_table alias_key merge_identity
  by unfold_locales (simp add: alias_key_def merge_identity_def)

interpretation meta_table: upsert_table mt_node merge_meta
  by unfold_locales (simp add: merge_meta_def)

interpretation edge_table: upsert_table meta_key merge_edge
  by unfold_locales (simp add: meta_key_def merge_edge_def Let_def)

section \<open>The evidence of an alias\<close>

text \<open>What the alias table promises: for each pair of a canonical entity and an alias the strongest status
  and the highest confidence seen so far.\<close>

definition weight_of :: "identity \<Rightarrow> int \<times> rat" where
  "weight_of x = (rank_identity (id_status x), id_confidence x)"

definition alias_evidence :: "identity list \<Rightarrow> node_ref \<times> node_ref \<Rightarrow> (int \<times> rat) option" where
  "alias_evidence xs k = map_option weight_of (row_at alias_key xs k)"

definition stronger :: "(int \<times> rat) option \<Rightarrow> int \<times> rat \<Rightarrow> int \<times> rat" where
  "stronger old new = (case old of None \<Rightarrow> new | Some (r, c) \<Rightarrow> (max r (fst new), max c (snd new)))"

definition observation :: "identity \<Rightarrow> int \<times> rat" where
  "observation x = (rank_identity (id_status x), if id_confidence x \<le> 0 then 1 / 2 else id_confidence x)"

lemma stronger_commute: "stronger (Some (stronger old a)) b = stronger (Some (stronger old b)) a"
  by (cases old; cases a; cases b) (auto simp: stronger_def max.assoc max.commute max.left_commute)

lemma stronger_absorb: "stronger (Some (stronger old a)) a = stronger old a"
  by (cases old; cases a) (auto simp: stronger_def)

lemma alias_key_defaults [simp]: "alias_key (identity_defaults fresh now x) = alias_key x"
  by (simp add: identity_defaults_def alias_key_def Let_def)

lemma alias_key_promote [simp]: "alias_key (promote cur x) = alias_key x"
  by (simp add: promote_def alias_key_def split: option.splits)

lemma weight_promote: "weight_of (promote cur x) = stronger (map_option weight_of cur) (weight_of x)"
  by (auto simp: promote_def stronger_def weight_of_def identity_status_better_def max_def split: option.splits)

lemma weight_defaults: "weight_of (identity_defaults fresh now x) = observation x"
  by (simp add: identity_defaults_def observation_def weight_of_def Let_def rank_identity_def)

lemma weight_merge: "weight_of (merge_identity x old) = weight_of x"
  by (simp add: merge_identity_def weight_of_def)

lemma evidence_upsert: "alias_evidence (upsert_row alias_key merge_identity x xs) = (alias_evidence xs)(alias_key x \<mapsto> weight_of x)"
  by (auto simp: alias_evidence_def identity_table.row_at_upsert weight_merge fun_eq_iff split: option.splits)

lemma upsert_identity_evidence:
  "upsert_identity fresh now x st = (r, st') \<Longrightarrow>
   (case r of
      Inl _ \<Rightarrow> st' = st
    | Inr _ \<Rightarrow> alias_evidence (et_identities st') = (alias_evidence (et_identities st))
         (alias_key x \<mapsto> stronger (alias_evidence (et_identities st) (alias_key x)) (observation x)))"
  by (auto simp: upsert_identity_def Let_def evidence_upsert weight_promote weight_defaults
      simp: alias_evidence_def split: if_splits)

text \<open>C9. A successful observation of an alias joins its evidence, the rank of its status and its confidence, to what
  the table held for that pair, by the maximum of each; every other pair keeps its evidence, and a
  refused observation changes nothing.\<close>

theorem alias_evidence_is_a_join:
  "case upsert_identity fresh now x st of
     (Inl _, st') \<Rightarrow> st' = st
   | (Inr _, st') \<Rightarrow>
       alias_evidence (et_identities st') = (alias_evidence (et_identities st))
         (alias_key x \<mapsto> stronger (alias_evidence (et_identities st) (alias_key x)) (observation x))"
  using upsert_identity_evidence [of fresh now x st] by (auto split: prod.splits sum.splits)

section \<open>The state of an edge under observation\<close>

definition edge_states :: "entity_store \<Rightarrow> node_ref \<times> node_ref \<times> string \<Rightarrow> string option" where
  "edge_states st k = map_option rm_status (row_at meta_key (rel_metas (et_graph st)) k)"

definition weaker_evidence :: "(int \<times> rat) option \<Rightarrow> (int \<times> rat) option \<Rightarrow> bool" where
  "weaker_evidence a b =
     (case a of None \<Rightarrow> True
      | Some (r, c) \<Rightarrow> (case b of None \<Rightarrow> False | Some (r', c') \<Rightarrow> r \<le> r' \<and> c \<le> c'))"

lemma weaker_refl [simp]: "weaker_evidence a a"
  by (simp add: weaker_evidence_def split: option.splits)

lemma weaker_trans: "weaker_evidence a b \<Longrightarrow> weaker_evidence b c \<Longrightarrow> weaker_evidence a c"
  by (auto simp: weaker_evidence_def split: option.splits)

lemma weaker_stronger [simp]: "weaker_evidence old (Some (stronger old new))"
  by (auto simp: weaker_evidence_def stronger_def split: option.splits)

definition keeps_knowledge :: "entity_store \<Rightarrow> entity_store \<Rightarrow> bool" where
  "keeps_knowledge st st' =
     (edge_states st \<subseteq>\<^sub>m edge_states st'
      \<and> (\<forall>k. weaker_evidence (alias_evidence (et_identities st) k) (alias_evidence (et_identities st') k)))"

lemma keeps_refl: "keeps_knowledge st st"
  by (simp add: keeps_knowledge_def)

lemma keeps_trans: "keeps_knowledge a b \<Longrightarrow> keeps_knowledge b c \<Longrightarrow> keeps_knowledge a c"
  unfolding keeps_knowledge_def using map_le_trans weaker_trans by meson

lemma meta_defaults_key [simp]:
  "meta_key (meta_defaults now m) = meta_key m" "rm_source (meta_defaults now m) = ''analyst'' \<longleftrightarrow> rm_source m = ''analyst''"
  by (simp_all add: meta_defaults_def meta_key_def Let_def)

lemma edge_states_upsert:
  assumes "upsert_relationship_meta now m st = (Inr u, st')"
  shows "edge_states st' = (if rm_source m = ''analyst'' \<or> edge_states st (meta_key m) = None
           then (edge_states st) (meta_key m \<mapsto> rm_status (meta_defaults now m)) else edge_states st)"
    and "et_identities st' = et_identities st"
  using assms unfolding upsert_relationship_meta_def Let_def
  by (auto simp: edge_states_def edge_table.row_at_upsert merge_edge_def Let_def fun_eq_iff
      split: if_splits option.splits)

lemma upsert_relationship_meta_fails: "upsert_relationship_meta now m st = (Inl e, st') \<Longrightarrow> st' = st"
  by (simp add: upsert_relationship_meta_def Let_def split: if_splits)

lemma upsert_relationship_keeps:
  assumes "rm_source m \<noteq> ''analyst''"
  shows "keeps_knowledge st (snd (upsert_relationship_meta now m st))"
proof (cases "upsert_relationship_meta now m st")
  case (Pair r st')
  show ?thesis
  proof (cases r)
    case (Inl e)
    then show ?thesis using Pair upsert_relationship_meta_fails keeps_refl by fastforce
  next
    case (Inr u)
    then show ?thesis using Pair assms edge_states_upsert [of now m st u st']
      by (auto simp: keeps_knowledge_def map_le_def)
  qed
qed

lemma edge_states_identity [simp]: "edge_states (snd (upsert_identity fresh now x st)) = edge_states st"
  by (simp add: edge_states_def fun_eq_iff upsert_identity_def Let_def)

lemma upsert_identity_keeps: "keeps_knowledge st (snd (upsert_identity fresh now x st))"
proof (cases "upsert_identity fresh now x st")
  case (Pair r st')
  then show ?thesis using upsert_identity_evidence [OF Pair] edge_states_identity [of fresh now x st]
    by (auto simp: keeps_knowledge_def split: sum.splits)
qed

lemma upsert_entity_rel_metas: "rel_metas (snd (upsert_entity js fresh now x g)) = rel_metas g"
  by (simp add: upsert_entity_def Let_def)

lemma resolver_write_keeps: "keeps_knowledge st (resolver_write_to s i w st)"
proof -
  obtain n r where w: "w = (n, r)" by (cases w)
  show ?thesis
  proof (cases r)
    case (EntityRow a)
    have "edge_states st = edge_states (resolver_write_to s i w st)"
      by (simp add: w EntityRow resolver_write_to_def edge_states_def fun_eq_iff upsert_entity_rel_metas)
    then show ?thesis by (simp add: w EntityRow resolver_write_to_def keeps_knowledge_def)
  next
    case (AliasRow c a t f)
    then show ?thesis by (simp add: w resolver_write_to_def upsert_identity_keeps)
  next
    case (EdgeRow a b rel t)
    then show ?thesis by (simp add: w resolver_write_to_def upsert_relationship_keeps)
  qed
qed

text \<open>Resolving an event never takes back what is known: an edge that has a state keeps it, whatever the
  outcome of the event, and no alias loses rank or confidence.\<close>

theorem resolving_an_event_keeps_knowledge: "keeps_knowledge st (from_event s attrs ev st)"
proof -
  have "keeps_knowledge st (fold (resolver_write_to s i) ws st)" for i ws
    by (induction ws arbitrary: st) (auto intro: keeps_refl keeps_trans resolver_write_keeps)
  then show ?thesis by (simp add: from_event_def)
qed

lemma get_upsert_meta:
  "get_meta n (upsert_meta now m st) =
     (let m' = m\<lparr>mt_updated := (if mt_updated m = 0 then now else mt_updated m)\<rparr>
      in if n = mt_node m then Some (case get_meta n st of None \<Rightarrow> m' | Some old \<Rightarrow> merge_meta m' old) else get_meta n st)"
  by (simp add: get_meta_def upsert_meta_def meta_table.row_at_upsert Let_def)

end
