(* ===== verification/AssetStore.thy ===== *)
theory AssetStore
  imports GoText Rows Complex_Main "HOL-Library.Sublist"
begin

text \<open>
  The asset inventory, \<^verbatim>\<open>internal/assets\<close>: the entries with their aliases, software and
  vulnerabilities, the drafts an event creates and the patch by which an analyst confirms one. The
  zero time is 0, a NULL text the empty text; fresh identifiers, clock readings, SQLite's
  \<^verbatim>\<open>LIKE\<close> and the order a statement leaves open are arguments. The tables reference their asset, which the
  database enforces.
\<close>

section \<open>State\<close>

record asset =
  as_id :: string
  as_type :: string
  as_ref :: string
  as_name :: string
  as_os :: string
  as_os_version :: string
  as_environment :: string
  as_criticality :: string
  as_owner :: string
  as_unit :: string
  as_location :: string
  as_classification :: string
  as_exposed :: bool
  as_tags :: "string list"
  as_first :: int
  as_last :: int
  as_created_by :: string
  as_updated :: int

record asset_alias =
  aa_asset :: string
  aa_type :: string
  aa_value :: string

record software =
  so_asset :: string
  so_name :: string
  so_vendor :: string
  so_version :: string
  so_cpe :: string
  so_first :: int
  so_last :: int
  so_source :: string

record vulnerability =
  vu_asset :: string
  vu_cve :: string
  vu_severity :: string
  vu_cvss :: "rat option"
  vu_epss :: "rat option"
  vu_exploit :: string
  vu_evidence :: string
  vu_first :: int
  vu_last :: int

record asset_state =
  assets :: "asset list"
  asset_aliases :: "asset_alias list"
  asset_software :: "software list"
  asset_vulns :: "vulnerability list"

datatype asset_error =
    InvalidEntityType string
  | MissingRef
  | MissingName
  | InvalidCriticality string
  | AssetExists string
  | AssetNotFound
  | AssetWrite

section \<open>Validation\<close>

definition entity_types :: "string list" where
  "entity_types =
     [''host'', ''server'', ''workstation'', ''container'', ''cloud_resource'', ''database'', ''application'',
      ''identity_provider'', ''network'']"

definition criticalities :: "string list" where
  "criticalities = [''critical'', ''high'', ''medium'', ''low'']"

definition exploit_availability :: "string list" where
  "exploit_availability = [''in-the-wild'', ''public-poc'', ''theoretical'', ''unknown'']"

definition is_invalid :: "asset_error \<Rightarrow> bool" where
  "is_invalid e = (e \<noteq> AssetNotFound \<and> e \<noteq> AssetWrite)"

definition validate_asset :: "asset \<Rightarrow> asset_error + asset" where
  "validate_asset a =
     (let b = a\<lparr>as_criticality := (if as_criticality a = [] then ''medium'' else as_criticality a)\<rparr>
      in if as_type a \<notin> set entity_types then Inl (InvalidEntityType (as_type a))
         else if as_ref a = [] then Inl MissingRef
         else if trim_space (as_name a) = [] then Inl MissingName
         else if as_criticality b \<notin> set criticalities then Inl (InvalidCriticality (as_criticality b))
         else Inr b)"

definition names_any :: "string list \<Rightarrow> string \<Rightarrow> bool" where
  "names_any ws s = list_ex (\<lambda>w. sublist w s) ws"

definition suggest_criticality :: "string \<Rightarrow> string \<Rightarrow> string" where
  "suggest_criticality t name =
     (let n = to_lower name
      in if t = ''identity_provider''
            \<or> names_any [''domain controller'', ''domain-controller'', ''payment'', ''card-'', ''core-banking''] n then ''critical''
         else if t = ''database''
            \<or> names_any [''database'', ''db-'', ''pg-'', ''postgres'', ''mysql'', ''oracle'', ''sql''] n then ''high''
         else if names_any [''firewall'', ''router'', ''switch'', ''gateway'', ''loadbalancer'', ''load-balancer'',
                            ''bastion'', ''jumpserver''] n then ''high''
         else if t = ''server'' then ''high''
         else if names_any [''ci-'', ''build'', ''test'', ''dev'', ''sandbox'', ''staging'', ''demo'', ''training''] n then ''low''
         else ''medium'')"

section \<open>Reading\<close>

record asset_view =
  av_asset :: asset
  av_aliases :: "(string \<times> string) list"
  av_software :: "software list"

definition load_related :: "(software \<Rightarrow> nat) \<Rightarrow> asset_state \<Rightarrow> asset \<Rightarrow> asset_view" where
  "load_related rank st a =
     \<lparr>av_asset = a,
      av_aliases = sort (map (\<lambda>x. (aa_type x, aa_value x)) (filter (\<lambda>x. aa_asset x = as_id a) (asset_aliases st))),
      av_software = sort_key so_name (sort_key rank (filter (\<lambda>x. so_asset x = as_id a) (asset_software st)))\<rparr>"

definition found :: "(software \<Rightarrow> nat) \<Rightarrow> asset_state \<Rightarrow> asset option \<Rightarrow> asset_error + asset_view" where
  "found rank st oa = (case oa of None \<Rightarrow> Inl AssetNotFound | Some a \<Rightarrow> Inr (load_related rank st a))"

definition get_asset :: "(software \<Rightarrow> nat) \<Rightarrow> string \<Rightarrow> asset_state \<Rightarrow> asset_error + asset_view" where
  "get_asset rank i st = (if i = [] then Inl AssetNotFound else found rank st (row_at as_id (assets st) i))"

text \<open>\<^verbatim>\<open>LIMIT 1\<close> without an order: the first row in the order of \<open>arank\<close>.\<close>

definition get_by_entity_ref :: "(asset \<Rightarrow> nat) \<Rightarrow> string \<Rightarrow> asset_state \<Rightarrow> asset option" where
  "get_by_entity_ref arank r st =
     (case sort_key arank (filter (\<lambda>a. as_ref a = r) (assets st)) of [] \<Rightarrow> None | a # _ \<Rightarrow> Some a)"

definition asset_key :: "asset \<Rightarrow> string \<times> string" where
  "asset_key a = (as_type a, as_ref a)"

definition get_by_ref :: "(software \<Rightarrow> nat) \<Rightarrow> string \<Rightarrow> string \<Rightarrow> asset_state \<Rightarrow> asset_error + asset_view" where
  "get_by_ref rank t r st = found rank st (row_at asset_key (assets st) (t, r))"

record asset_filter =
  af_q :: string
  af_type :: string
  af_criticality :: string
  af_limit :: int

definition asset_matches :: "(string \<Rightarrow> string \<Rightarrow> bool) \<Rightarrow> asset_filter \<Rightarrow> asset \<Rightarrow> bool" where
  "asset_matches like f a =
     ((af_q f = [] \<or> like (''%'' @ af_q f @ ''%'') (as_name a))
      \<and> (af_type f = [] \<or> as_type a = af_type f) \<and> (af_criticality f = [] \<or> as_criticality a = af_criticality f))"

definition asset_limit :: "int \<Rightarrow> nat" where
  "asset_limit n = (if n \<le> 0 \<or> 1000 < n then 200 else nat n)"

definition list_assets :: "(string \<Rightarrow> string \<Rightarrow> bool) \<Rightarrow> (asset \<Rightarrow> nat) \<Rightarrow> asset_filter \<Rightarrow> asset_state \<Rightarrow> asset list \<times> nat" where
  "list_assets like arank f st =
     (let rows = filter (asset_matches like f) (assets st)
      in (take (asset_limit (af_limit f)) (sort_desc as_last (sort_key as_name (sort_key arank rows))), length rows))"

definition count_assets :: "asset_state \<Rightarrow> nat" where
  "count_assets st = row_count (\<lambda>_. True) (assets st)"

section \<open>Writing\<close>

definition create_asset :: "string \<Rightarrow> int \<Rightarrow> asset \<Rightarrow> asset_state \<Rightarrow> (asset_error + asset) \<times> asset_state" where
  "create_asset uuid now a0 st =
     (case validate_asset a0 of
        Inl e \<Rightarrow> (Inl e, st)
      | Inr a \<Rightarrow>
          let f = (if as_first a = 0 then now else as_first a);
              b = a\<lparr>as_id := ''asset-'' @ uuid,
                    as_created_by := (if as_created_by a = [] then ''analyst'' else as_created_by a),
                    as_first := f, as_last := (if as_last a = 0 then f else as_last a), as_updated := now\<rparr>
          in if taken as_id (as_id b) (assets st) \<or> taken asset_key (asset_key b) (assets st)
             then (Inl (AssetExists (as_ref b)), st)
             else (Inr b, st\<lparr>assets := assets st @ [b]\<rparr>))"

definition draft_of :: "string \<Rightarrow> string \<Rightarrow> string \<Rightarrow> string \<Rightarrow> int \<Rightarrow> asset" where
  "draft_of t r name os when =
     \<lparr>as_id = [], as_type = t, as_ref = r, as_name = name, as_os = os, as_os_version = [], as_environment = [],
      as_criticality = ''medium'', as_owner = [], as_unit = [], as_location = [], as_classification = [],
      as_exposed = False, as_tags = [''draft'', ''criticality-suggested:'' @ suggest_criticality t name],
      as_first = when, as_last = when, as_created_by = ''observed'', as_updated = 0\<rparr>"

text \<open>\<^verbatim>\<open>Observe\<close>: an asset that is known is returned as it was before its last_seen is written.\<close>

definition observe_asset :: "string \<Rightarrow> int \<Rightarrow> string \<Rightarrow> string \<Rightarrow> string \<Rightarrow> string \<Rightarrow> int \<Rightarrow> asset_state
    \<Rightarrow> (asset_error + asset \<times> bool) \<times> asset_state" where
  "observe_asset uuid now t r name os at0 st =
     (let when = (if at0 = 0 then now else at0)
      in case row_at asset_key (assets st) (t, r) of
           Some a \<Rightarrow>
             (Inr (a, False), st\<lparr>assets := update_rows (\<lambda>x. as_id x = as_id a) (\<lambda>x. x\<lparr>as_last := when\<rparr>) (assets st)\<rparr>)
         | None \<Rightarrow>
             (case create_asset uuid now (draft_of t r name os when) st of
                (Inl e, st') \<Rightarrow> (Inl e, st')
              | (Inr a, st') \<Rightarrow> (Inr (a, True), st')))"

record asset_patch =
  ap_name :: "string option"
  ap_os :: "string option"
  ap_os_version :: "string option"
  ap_environment :: "string option"
  ap_criticality :: "string option"
  ap_owner :: "string option"
  ap_unit :: "string option"
  ap_location :: "string option"
  ap_classification :: "string option"
  ap_exposed :: "bool option"
  ap_tags :: "string list option"

definition is_draft_tag :: "string \<Rightarrow> bool" where
  "is_draft_tag t = (t = ''draft'' \<or> prefix ''criticality-suggested:'' t)"

definition strip_draft_tags :: "string list \<Rightarrow> string list" where
  "strip_draft_tags ts = filter (\<lambda>t. \<not> is_draft_tag t) ts"

definition dedup_tags :: "string list \<Rightarrow> string list" where
  "dedup_tags ts = firsts_by (\<lambda>t. t) [] ts"

text \<open>Confirming a criticality drops the draft tags, unless the patch has tags of its own.\<close>

definition patch_tags :: "asset_patch \<Rightarrow> asset \<Rightarrow> string list option" where
  "patch_tags p a =
     (case ap_tags p of
        Some ts \<Rightarrow> Some ts
      | None \<Rightarrow> if ap_criticality p = None then None else Some (dedup_tags (strip_draft_tags (as_tags a))))"

definition set_field :: "'a option \<Rightarrow> 'a \<Rightarrow> 'a" where
  "set_field new old = (case new of None \<Rightarrow> old | Some v \<Rightarrow> v)"

definition apply_patch :: "int \<Rightarrow> asset_patch \<Rightarrow> string list option \<Rightarrow> asset \<Rightarrow> asset" where
  "apply_patch now p ts a =
     a\<lparr>as_name := set_field (ap_name p) (as_name a), as_os := set_field (ap_os p) (as_os a),
       as_os_version := set_field (ap_os_version p) (as_os_version a),
       as_environment := set_field (ap_environment p) (as_environment a),
       as_criticality := set_field (ap_criticality p) (as_criticality a), as_owner := set_field (ap_owner p) (as_owner a),
       as_unit := set_field (ap_unit p) (as_unit a), as_location := set_field (ap_location p) (as_location a),
       as_classification := set_field (ap_classification p) (as_classification a),
       as_exposed := set_field (ap_exposed p) (as_exposed a), as_tags := set_field ts (as_tags a), as_updated := now\<rparr>"

definition patch_empty :: "asset_patch \<Rightarrow> bool" where
  "patch_empty p =
     (list_all (\<lambda>f. f p = None) [ap_name, ap_os, ap_os_version, ap_environment, ap_criticality, ap_owner, ap_unit,
        ap_location, ap_classification] \<and> ap_exposed p = None \<and> ap_tags p = None)"

definition update_asset :: "(software \<Rightarrow> nat) \<Rightarrow> int \<Rightarrow> string \<Rightarrow> asset_patch \<Rightarrow> asset_state
    \<Rightarrow> (asset_error + asset_view) \<times> asset_state" where
  "update_asset rank now i p st =
     (case get_asset rank i st of
        Inl e \<Rightarrow> (Inl e, st)
      | Inr v \<Rightarrow>
          if (case ap_name p of Some n \<Rightarrow> trim_space n = [] | None \<Rightarrow> False) then (Inl MissingName, st)
          else if (case ap_criticality p of Some c \<Rightarrow> c \<notin> set criticalities | None \<Rightarrow> False)
          then (Inl (InvalidCriticality (the (ap_criticality p))), st)
          else if patch_empty p then (Inr v, st)
          else let st' = st\<lparr>assets := update_rows (\<lambda>a. as_id a = i) (apply_patch now p (patch_tags p (av_asset v))) (assets st)\<rparr>
               in (get_asset rank i st', st'))"

definition delete_asset :: "string \<Rightarrow> asset_state \<Rightarrow> (asset_error + unit) \<times> asset_state" where
  "delete_asset i st =
     (if row_count (\<lambda>a. as_id a = i) (assets st) = 0 then (Inl AssetNotFound, st)
      else (Inr (), \<lparr>assets = delete_rows (\<lambda>a. as_id a = i) (assets st),
                     asset_aliases = delete_rows (\<lambda>x. aa_asset x = i) (asset_aliases st),
                     asset_software = delete_rows (\<lambda>x. so_asset x = i) (asset_software st),
                     asset_vulns = delete_rows (\<lambda>x. vu_asset x = i) (asset_vulns st)\<rparr>))"

definition add_asset_alias :: "string \<Rightarrow> string \<Rightarrow> string \<Rightarrow> asset_state \<Rightarrow> (asset_error + unit) \<times> asset_state" where
  "add_asset_alias i t v st =
     (let x = \<lparr>aa_asset = i, aa_type = t, aa_value = v\<rparr>
      in if x \<in> set (asset_aliases st) then (Inr (), st)
         else if \<not> taken as_id i (assets st) then (Inl AssetWrite, st)
         else (Inr (), st\<lparr>asset_aliases := asset_aliases st @ [x]\<rparr>))"

definition keep_text :: "string \<Rightarrow> string \<Rightarrow> string" where
  "keep_text new old = (if new = [] then old else new)"

definition software_key :: "software \<Rightarrow> string \<times> string \<times> string" where
  "software_key x = (so_asset x, so_name x, so_version x)"

definition merge_software :: "software \<Rightarrow> software \<Rightarrow> software" where
  "merge_software x old =
     old\<lparr>so_vendor := keep_text (so_vendor x) (so_vendor old), so_cpe := keep_text (so_cpe x) (so_cpe old),
         so_last := so_last x, so_source := keep_text (so_source x) (so_source old)\<rparr>"

definition software_times :: "int \<Rightarrow> software \<Rightarrow> software" where
  "software_times now x =
     (let f = (if so_first x = 0 then now else so_first x)
      in x\<lparr>so_first := f, so_last := (if so_last x = 0 then f else so_last x)\<rparr>)"

text \<open>The version is written as NULL when it is empty, which its column refuses.\<close>

definition upsert_software :: "int \<Rightarrow> software \<Rightarrow> asset_state \<Rightarrow> (asset_error + unit) \<times> asset_state" where
  "upsert_software now x0 st =
     (let x = software_times now x0
      in if so_version x = [] then (Inl AssetWrite, st)
         else if \<not> taken as_id (so_asset x) (assets st) then (Inl AssetWrite, st)
         else (Inr (), st\<lparr>asset_software := upsert_row software_key merge_software x (asset_software st)\<rparr>))"

definition vuln_key :: "vulnerability \<Rightarrow> string \<times> string" where
  "vuln_key v = (vu_asset v, vu_cve v)"

definition keep_value :: "'a option \<Rightarrow> 'a option \<Rightarrow> 'a option" where
  "keep_value new old = (case new of None \<Rightarrow> old | Some v \<Rightarrow> Some v)"

definition merge_vuln :: "vulnerability \<Rightarrow> vulnerability \<Rightarrow> vulnerability" where
  "merge_vuln v old =
     old\<lparr>vu_severity := keep_text (vu_severity v) (vu_severity old), vu_cvss := keep_value (vu_cvss v) (vu_cvss old),
         vu_epss := keep_value (vu_epss v) (vu_epss old), vu_exploit := keep_text (vu_exploit v) (vu_exploit old),
         vu_evidence := keep_text (vu_evidence v) (vu_evidence old), vu_last := vu_last v\<rparr>"

definition vuln_times :: "int \<Rightarrow> vulnerability \<Rightarrow> vulnerability" where
  "vuln_times now v =
     (let f = (if vu_first v = 0 then now else vu_first v)
      in v\<lparr>vu_first := f, vu_last := (if vu_last v = 0 then f else vu_last v)\<rparr>)"

definition upsert_vulnerability :: "int \<Rightarrow> vulnerability \<Rightarrow> asset_state \<Rightarrow> (asset_error + unit) \<times> asset_state" where
  "upsert_vulnerability now v0 st =
     (let v = vuln_times now v0
      in if (vu_exploit v \<noteq> [] \<and> vu_exploit v \<notin> set exploit_availability) \<or> \<not> taken as_id (vu_asset v) (assets st)
         then (Inl AssetWrite, st)
         else (Inr (), st\<lparr>asset_vulns := upsert_row vuln_key merge_vuln v (asset_vulns st)\<rparr>))"

definition vulnerabilities :: "(vulnerability \<Rightarrow> nat) \<Rightarrow> string \<Rightarrow> asset_state \<Rightarrow> vulnerability list" where
  "vulnerabilities rank i st = sort_desc vu_last (sort_key rank (filter (\<lambda>v. vu_asset v = i) (asset_vulns st)))"

section \<open>The tables stay well formed\<close>

interpretation software_table: upsert_table software_key merge_software
  by unfold_locales (simp add: software_key_def merge_software_def)

interpretation vuln_table: upsert_table vuln_key merge_vuln
  by unfold_locales (simp add: vuln_key_def merge_vuln_def)

definition owned :: "('r \<Rightarrow> string) \<Rightarrow> asset_state \<Rightarrow> 'r list \<Rightarrow> bool" where
  "owned ref st rows = (ref ` set rows \<subseteq> as_id ` set (assets st))"

definition asset_ok :: "asset \<Rightarrow> bool" where
  "asset_ok a = (as_type a \<in> set entity_types \<and> as_ref a \<noteq> [] \<and> trim_space (as_name a) \<noteq> []
     \<and> as_criticality a \<in> set criticalities)"

definition asset_inv :: "asset_state \<Rightarrow> bool" where
  "asset_inv st =
     (unique_by as_id (assets st) \<and> unique_by asset_key (assets st) \<and> list_all asset_ok (assets st)
      \<and> owned aa_asset st (asset_aliases st) \<and> owned so_asset st (asset_software st) \<and> owned vu_asset st (asset_vulns st)
      \<and> distinct (asset_aliases st) \<and> unique_by software_key (asset_software st) \<and> unique_by vuln_key (asset_vulns st))"

inductive asset_step :: "asset_state \<Rightarrow> asset_state \<Rightarrow> bool" where
  created: "asset_step st (snd (create_asset uuid now a st))"
| observed: "asset_step st (snd (observe_asset uuid now t r name os when st))"
| updated: "asset_step st (snd (update_asset rank now i p st))"
| deleted: "asset_step st (snd (delete_asset i st))"
| aliased: "asset_step st (snd (add_asset_alias i t v st))"
| installed: "asset_step st (snd (upsert_software now x st))"
| exposed: "asset_step st (snd (upsert_vulnerability now v st))"

definition no_assets :: asset_state where
  "no_assets = \<lparr>assets = [], asset_aliases = [], asset_software = [], asset_vulns = []\<rparr>"

definition assets_reachable :: "asset_state \<Rightarrow> bool" where
  "assets_reachable st = asset_step\<^sup>*\<^sup>* no_assets st"

lemma validate_ok: "validate_asset a = Inr b \<Longrightarrow> asset_ok b"
  by (auto simp: validate_asset_def asset_ok_def Let_def criticalities_def split: if_splits)

lemma asset_ok_fields [simp]:
  "asset_ok (a\<lparr>as_id := i\<rparr>) = asset_ok a" "asset_ok (a\<lparr>as_created_by := c\<rparr>) = asset_ok a"
  "asset_ok (a\<lparr>as_first := f\<rparr>) = asset_ok a" "asset_ok (a\<lparr>as_last := l\<rparr>) = asset_ok a"
  "asset_ok (a\<lparr>as_updated := u\<rparr>) = asset_ok a"
  by (simp_all add: asset_ok_def)

lemma inv_snoc:
  assumes "asset_inv st" and "asset_ok b" and "\<not> taken as_id (as_id b) (assets st)"
    and "\<not> taken asset_key (asset_key b) (assets st)"
  shows "asset_inv (st\<lparr>assets := assets st @ [b]\<rparr>)"
  using assms by (auto simp: asset_inv_def table_simps owned_def)

lemma create_asset_inv: "asset_inv st \<Longrightarrow> asset_inv (snd (create_asset uuid now a st))"
  by (auto simp: create_asset_def Let_def intro!: inv_snoc dest: validate_ok split: sum.splits)

lemma inv_update:
  assumes "asset_inv st" and "\<And>a. asset_key (f a) = asset_key a" and "\<And>a. as_id (f a) = as_id a"
    and "\<And>a. a \<in> set (assets st) \<Longrightarrow> asset_ok a \<Longrightarrow> asset_ok (f a)"
  shows "asset_inv (st\<lparr>assets := update_rows p f (assets st)\<rparr>)"
proof -
  have ids: "as_id ` set (update_rows p f (assets st)) = as_id ` set (assets st)"
    using arg_cong [OF map_update_rows [of p as_id f "assets st"], of set] by (simp add: assms(3))
  then have own: "owned ref (st\<lparr>assets := update_rows p f (assets st)\<rparr>) rows = owned ref st rows"
    for ref :: "'a \<Rightarrow> string" and rows by (simp add: owned_def)
  have "list_all asset_ok (update_rows p f (assets st))"
    using assms(1,4) by (auto simp: asset_inv_def list_all_iff set_update_rows)
  then show ?thesis
    using assms(1-3) unfolding asset_inv_def own by (simp add: own unique_by_update)
qed

lemma observe_asset_inv: "asset_inv st \<Longrightarrow> asset_inv (snd (observe_asset uuid now t r name os when st))"
  using create_asset_inv [of st uuid now]
  by (auto simp: observe_asset_def Let_def asset_key_def intro!: inv_update split: option.splits sum.splits prod.splits)
    (metis snd_conv)+

lemma apply_patch_key [simp]:
  "asset_key (apply_patch now p ts a) = asset_key a" "as_id (apply_patch now p ts a) = as_id a"
  by (simp_all add: apply_patch_def asset_key_def)

lemma update_asset_inv:
  assumes "asset_inv st"
  shows "asset_inv (snd (update_asset rank now i p st))"
proof -
  have "asset_ok (apply_patch now p ts a)"
    if "asset_ok a" and "\<not> (case ap_name p of Some n \<Rightarrow> trim_space n = [] | None \<Rightarrow> False)"
      and "\<not> (case ap_criticality p of Some c \<Rightarrow> c \<notin> set criticalities | None \<Rightarrow> False)" for ts a
    using that by (auto simp: apply_patch_def asset_ok_def set_field_def split: option.splits)
  then show ?thesis
    using assms by (auto simp: update_asset_def Let_def split: sum.split intro!: inv_update)
qed

lemma owned_delete: "owned ref st rows \<Longrightarrow> ref ` set (delete_rows (\<lambda>x. ref x = i) rows)
    \<subseteq> as_id ` set (delete_rows (\<lambda>a. as_id a = i) (assets st))"
  by (auto simp: owned_def delete_rows_def)

lemma delete_asset_inv: "asset_inv st \<Longrightarrow> asset_inv (snd (delete_asset i st))"
  using owned_delete [of aa_asset st "asset_aliases st" i] owned_delete [of so_asset st "asset_software st" i]
    owned_delete [of vu_asset st "asset_vulns st" i]
  by (auto simp: delete_asset_def asset_inv_def unique_by_delete owned_def list_all_iff delete_rows_def
      intro: unique_by_delete [unfolded delete_rows_def])

lemma add_alias_inv: "asset_inv st \<Longrightarrow> asset_inv (snd (add_asset_alias i t v st))"
  by (auto simp: add_asset_alias_def asset_inv_def Let_def owned_def taken_iff)

lemma owned_upsert:
  assumes "owned ref st rows" and "taken as_id (ref x) (assets st)" and "\<And>y. ref (merge x y) = ref y"
  shows "owned ref st (upsert_row key merge x rows)"
  using assms by (auto simp: owned_def upsert_row_def set_update_rows taken_iff split: if_splits)

lemma owned_fields [simp]:
  "owned ref (st\<lparr>asset_software := s\<rparr>) rows = owned ref st rows" "owned ref (st\<lparr>asset_vulns := v\<rparr>) rows = owned ref st rows"
  by (simp_all add: owned_def)

lemma upsert_software_inv: "asset_inv st \<Longrightarrow> asset_inv (snd (upsert_software now x st))"
  unfolding upsert_software_def Let_def
  by (auto simp: asset_inv_def software_table.unique_upsert merge_software_def intro!: owned_upsert)

lemma upsert_vulnerability_inv: "asset_inv st \<Longrightarrow> asset_inv (snd (upsert_vulnerability now v st))"
  unfolding upsert_vulnerability_def Let_def
  by (auto simp: asset_inv_def vuln_table.unique_upsert merge_vuln_def intro!: owned_upsert)

lemmas asset_invs = create_asset_inv observe_asset_inv update_asset_inv delete_asset_inv add_alias_inv upsert_software_inv
  upsert_vulnerability_inv

lemma asset_step_inv: "asset_step st st' \<Longrightarrow> asset_inv st \<Longrightarrow> asset_inv st'"
  by (induction rule: asset_step.induct) (auto intro: asset_invs)

lemma no_assets_inv: "asset_inv no_assets"
  by (simp add: asset_inv_def no_assets_def owned_def unique_by_def)

text \<open>In every state the inventory reaches there is one asset per identifier and per entity, each with a valid type,
  name and criticality, and no alias, software or vulnerability row of an asset that is gone.\<close>

theorem assets_reachable_inv:
  assumes "assets_reachable st"
  shows "asset_inv st"
  using assms unfolding assets_reachable_def
  by (induction rule: rtranclp_induct) (auto intro: no_assets_inv asset_step_inv)

definition sample_assets :: asset_state where
  "sample_assets = snd (observe_asset ''1'' 9 ''host'' ''host:web'' ''web'' [] 5 no_assets)"

theorem assets_reachable_inv_witness: "asset_inv sample_assets \<and> map as_tags (assets sample_assets) = [[''draft'', ''criticality-suggested:medium'']]"
proof
  have "assets_reachable sample_assets"
    unfolding assets_reachable_def sample_assets_def by (rule r_into_rtranclp) (rule asset_step.observed)
  then show "asset_inv sample_assets" by (rule assets_reachable_inv)
  show "map as_tags (assets sample_assets) = [[''draft'', ''criticality-suggested:medium'']]" by code_simp
qed

section \<open>Drafts\<close>

definition is_draft :: "asset \<Rightarrow> bool" where
  "is_draft a = list_ex is_draft_tag (as_tags a)"

lemma set_dedup_tags: "set (dedup_tags ts) = set ts"
  unfolding dedup_tags_def using firsts_by_keys [of "\<lambda>t. t" "[]" ts] by simp

lemma patched_tags_clean: "ap_tags p = None \<Longrightarrow> ap_criticality p \<noteq> None \<Longrightarrow> patch_tags p a = Some ts \<Longrightarrow> \<not> list_ex is_draft_tag ts"
  by (auto simp: patch_tags_def set_dedup_tags strip_draft_tags_def list_ex_iff)

lemma observe_new_is_draft:
  "observe_asset uuid now t r name os when st = (Inr (a, True), st') \<Longrightarrow>
     is_draft a \<and> as_criticality a = ''medium'' \<and> asset_key a = (t, r) \<and> assets st' = assets st @ [a]"
  by (auto simp: observe_asset_def create_asset_def validate_asset_def draft_of_def is_draft_def is_draft_tag_def asset_key_def Let_def
      split: option.splits sum.splits if_splits)

end
