(* ===== verification/RiskStore.thy ===== *)
theory RiskStore
  imports AssetStore EntityStore FindingStore
begin

text \<open>
  Entity risk, \<^verbatim>\<open>internal/risk\<close>: the log of contributions, the accumulated row of each entity and the
  scorer that runs on every stored event. A score is the exact value of its float; \<open>fadd\<close> is the
  rounded addition of the database. The tables are created on first use, which has no other effect.
\<close>

section \<open>State\<close>

record risk_entry =
  rc_id :: string
  rc_node :: node_ref
  rc_source_type :: string
  rc_source_id :: string
  rc_description :: string
  rc_points :: rat
  rc_event :: string
  rc_created :: int

record entity_risk =
  rk_node :: node_ref
  rk_score :: rat
  rk_count :: int
  rk_updated :: int

record risk_state =
  risk_rows :: "entity_risk list"
  risk_log :: "risk_entry list"

datatype risk_error = MissingEntity | RiskWrite | UnsupportedEntityType string

section \<open>Recording\<close>

definition contribution_defaults :: "string \<Rightarrow> int \<Rightarrow> risk_entry \<Rightarrow> risk_entry" where
  "contribution_defaults uuid now c =
     c\<lparr>rc_id := (if rc_id c = [] then uuid else rc_id c),
       rc_source_type := (if rc_source_type c = [] then ''event'' else rc_source_type c), rc_created := now\<rparr>"

definition risk_row :: "risk_entry \<Rightarrow> entity_risk" where
  "risk_row c = \<lparr>rk_node = rc_node c, rk_score = rc_points c, rk_count = 1, rk_updated = rc_created c\<rparr>"

definition merge_risk :: "(rat \<Rightarrow> rat \<Rightarrow> rat) \<Rightarrow> entity_risk \<Rightarrow> entity_risk \<Rightarrow> entity_risk" where
  "merge_risk fadd new old =
     old\<lparr>rk_score := fadd (rk_score old) (rk_score new), rk_count := rk_count old + 1, rk_updated := rk_updated new\<rparr>"

text \<open>One transaction: a contribution whose identifier is taken rolls both statements back.\<close>

definition record_risk :: "(rat \<Rightarrow> rat \<Rightarrow> rat) \<Rightarrow> string \<Rightarrow> int \<Rightarrow> risk_entry \<Rightarrow> risk_state \<Rightarrow> (risk_error + unit) \<times> risk_state" where
  "record_risk fadd uuid now c0 st =
     (if fst (rc_node c0) = [] \<or> snd (rc_node c0) = [] then (Inl MissingEntity, st)
      else let c = contribution_defaults uuid now c0
           in if taken rc_id (rc_id c) (risk_log st) then (Inl RiskWrite, st)
              else (Inr (), \<lparr>risk_rows = upsert_row rk_node (merge_risk fadd) (risk_row c) (risk_rows st),
                             risk_log = risk_log st @ [c]\<rparr>))"

section \<open>Reading\<close>

definition get_risk :: "node_ref \<Rightarrow> risk_state \<Rightarrow> entity_risk option" where
  "get_risk n st = row_at rk_node (risk_rows st) n"

definition safe_entity_column :: "string \<Rightarrow> (finding \<Rightarrow> string) option" where
  "safe_entity_column t =
     (if t = ''user'' then Some f_user else if t = ''host'' then Some f_host else if t = ''ip'' then Some f_source_ip else None)"

definition top_limit :: "int \<Rightarrow> nat" where
  "top_limit n = (if n \<le> 0 \<or> 100 < n then 20 else nat n)"

text \<open>The open findings are counted by the column of the type; the count replaces the number of contributions.\<close>

definition open_findings :: "(finding \<Rightarrow> string) \<Rightarrow> string \<Rightarrow> finding_state \<Rightarrow> int" where
  "open_findings col v fs = int (row_count (\<lambda>f. col f = v \<and> is_open f) (findings fs))"

definition top_risk :: "(entity_risk \<Rightarrow> nat) \<Rightarrow> string \<Rightarrow> int \<Rightarrow> finding_state \<Rightarrow> risk_state \<Rightarrow> risk_error + entity_risk list" where
  "top_risk rank t limit fs st =
     (case safe_entity_column t of
        None \<Rightarrow> Inl (UnsupportedEntityType t)
      | Some col \<Rightarrow>
          Inr (map (\<lambda>r. r\<lparr>rk_count := open_findings col (snd (rk_node r)) fs\<rparr>)
            (take (top_limit limit) (sort_desc rk_score (sort_key rank (filter (\<lambda>r. fst (rk_node r) = t) (risk_rows st)))))))"

definition contributed_findings :: "node_ref \<Rightarrow> finding_state \<Rightarrow> int" where
  "contributed_findings n fs =
     (case safe_entity_column (fst n) of None \<Rightarrow> 0 | Some col \<Rightarrow> open_findings col (snd n) fs)"

definition contributions_limit :: "int \<Rightarrow> nat" where
  "contributions_limit n = (if n \<le> 0 \<or> 500 < n then 100 else nat n)"

definition contributions :: "(risk_entry \<Rightarrow> nat) \<Rightarrow> node_ref \<Rightarrow> int \<Rightarrow> risk_state \<Rightarrow> risk_entry list" where
  "contributions rank n limit st =
     take (contributions_limit limit) (sort_desc rc_created (sort_key rank (filter (\<lambda>c. rc_node c = n) (risk_log st))))"

definition at_risk :: "string \<Rightarrow> risk_state \<Rightarrow> nat" where
  "at_risk t st = row_count (\<lambda>r. fst (rk_node r) = t \<and> 0 < rk_score r) (risk_rows st)"

section \<open>Scoring an event\<close>

definition severity_base :: "string \<Rightarrow> rat" where
  "severity_base s0 =
     (let s = to_lower (trim_space s0)
      in if s \<in> {''emergency'', ''critical''} then 50 else if s = ''alert'' then 45
         else if s \<in> {''err'', ''error''} then 35 else if s \<in> {''warning'', ''warn''} then 20
         else if s = ''notice'' then 10 else if s = ''info'' then 5 else 0)"

text \<open>The asset store of a scorer may be absent, and the entity store too.\<close>

definition asset_points :: "(asset \<Rightarrow> nat) \<Rightarrow> asset_state option \<Rightarrow> string \<Rightarrow> rat \<times> string" where
  "asset_points arank oa host =
     (case oa of
        None \<Rightarrow> (0, [])
      | Some as \<Rightarrow>
          if host = [] then (0, [])
          else case get_by_entity_ref arank (''host:'' @ host) as of
                 None \<Rightarrow> (0, [])
               | Some a \<Rightarrow>
                   if as_criticality a = ''critical'' then (10, ''critical asset '' @ as_name a)
                   else if as_criticality a = ''high'' then (6, ''high-criticality asset '' @ as_name a)
                   else if as_criticality a = ''medium'' then (3, ''medium-criticality asset '' @ as_name a)
                   else if as_criticality a = ''low'' then (1, ''low-criticality asset '' @ as_name a)
                   else (0, []))"

definition user_points :: "entity_store option \<Rightarrow> string \<Rightarrow> rat \<times> string" where
  "user_points oe user =
     (case oe of
        None \<Rightarrow> (0, [])
      | Some es \<Rightarrow>
          if user = [] then (0, [])
          else case get_meta (''user'', user) es of
                 None \<Rightarrow> (0, [])
               | Some m \<Rightarrow>
                   if mt_privilege m = ''admin'' then (10, ''privileged identity '' @ user @ '' (admin)'')
                   else if mt_privilege m = ''privileged'' then (5, ''privileged identity '' @ user)
                   else (0, []))"

definition scored :: "event \<Rightarrow> string \<Rightarrow> string \<Rightarrow> rat \<times> string \<Rightarrow> risk_entry list" where
  "scored ev t v = (\<lambda>(points, reason).
     (if points = 0 \<or> v = [] then []
      else [\<lparr>rc_id = [], rc_node = (t, v), rc_source_type = ''event'', rc_source_id = ''event-scorer'',
             rc_description = reason, rc_points = points, rc_event = ev_id ev, rc_created = 0\<rparr>]))"

definition event_contributions :: "(asset \<Rightarrow> nat) \<Rightarrow> asset_state option \<Rightarrow> entity_store option \<Rightarrow> event \<Rightarrow> risk_entry list" where
  "event_contributions arank oa oe ev =
     scored ev ''host'' (ev_host ev) (severity_base (ev_severity ev), ''severity base '' @ ev_severity ev)
     @ scored ev ''host'' (ev_host ev) (asset_points arank oa (ev_host ev))
     @ scored ev ''user'' (ev_user ev) (user_points oe (ev_user ev))"

text \<open>The \<open>i\<close>-th contribution has its own identifier and clock reading; the first failure ends the run.\<close>

fun record_all :: "(rat \<Rightarrow> rat \<Rightarrow> rat) \<Rightarrow> (nat \<Rightarrow> string \<times> int) \<Rightarrow> nat \<Rightarrow> risk_entry list \<Rightarrow> risk_state
    \<Rightarrow> risk_error option \<times> risk_state" where
  "record_all fadd supply i [] st = (None, st)"
| "record_all fadd supply i (c # cs) st =
     (case record_risk fadd (fst (supply i)) (snd (supply i)) c st of
        (Inl e, st') \<Rightarrow> (Some e, st')
      | (Inr _, st') \<Rightarrow> record_all fadd supply (Suc i) cs st')"

definition score_event :: "(rat \<Rightarrow> rat \<Rightarrow> rat) \<Rightarrow> (nat \<Rightarrow> string \<times> int) \<Rightarrow> (asset \<Rightarrow> nat) \<Rightarrow> asset_state option \<Rightarrow> entity_store option
    \<Rightarrow> event \<Rightarrow> risk_state \<Rightarrow> (risk_error option \<times> risk_entry list) \<times> risk_state" where
  "score_event fadd supply arank oa oe ev st =
     (let cs = event_contributions arank oa oe ev; (err, st') = record_all fadd supply 0 cs st in ((err, cs), st'))"

section \<open>Every number is its contributions\<close>

text \<open>The score an entity should have: the points of its contributions, added in their order.\<close>

definition total_points :: "(rat \<Rightarrow> rat \<Rightarrow> rat) \<Rightarrow> rat list \<Rightarrow> rat option" where
  "total_points fadd ps = (case ps of [] \<Rightarrow> None | p # qs \<Rightarrow> Some (foldl fadd p qs))"

definition points_of :: "node_ref \<Rightarrow> risk_entry list \<Rightarrow> rat list" where
  "points_of n cs = map rc_points (filter (\<lambda>c. rc_node c = n) cs)"

text \<open>The abstract risk of an entity is a function of the log alone.\<close>

definition explained :: "(rat \<Rightarrow> rat \<Rightarrow> rat) \<Rightarrow> risk_entry list \<Rightarrow> node_ref \<Rightarrow> (rat \<times> int) option" where
  "explained fadd cs n = map_option (\<lambda>t. (t, int (length (points_of n cs)))) (total_points fadd (points_of n cs))"

definition stored_risk :: "risk_state \<Rightarrow> node_ref \<Rightarrow> (rat \<times> int) option" where
  "stored_risk st n = map_option (\<lambda>r. (rk_score r, rk_count r)) (get_risk n st)"

definition risk_explained :: "(rat \<Rightarrow> rat \<Rightarrow> rat) \<Rightarrow> risk_state \<Rightarrow> bool" where
  "risk_explained fadd st = (stored_risk st = explained fadd (risk_log st))"

interpretation risk_table: upsert_table rk_node "merge_risk fadd" for fadd
  by unfold_locales (simp add: merge_risk_def)

lemma total_points_snoc:
  "total_points fadd (ps @ [p]) = Some (case total_points fadd ps of None \<Rightarrow> p | Some t \<Rightarrow> fadd t p)"
  by (cases ps) (simp_all add: total_points_def)

lemma points_of_snoc: "points_of n (cs @ [c]) = points_of n cs @ (if rc_node c = n then [rc_points c] else [])"
  by (simp add: points_of_def)

lemma total_points_Nil [simp]: "total_points fadd [] = None"
  by (simp add: total_points_def)

lemma total_points_length: "total_points fadd ps = None \<longleftrightarrow> ps = []"
  by (cases ps) (simp_all add: total_points_def)

lemma explained_snoc:
  "explained fadd (cs @ [c]) = (explained fadd cs) (rc_node c \<mapsto>
     (case explained fadd cs (rc_node c) of None \<Rightarrow> (rc_points c, 1) | Some (t, k) \<Rightarrow> (fadd t (rc_points c), k + 1)))"
  by (auto simp: explained_def fun_eq_iff points_of_snoc total_points_snoc total_points_length split: option.splits)

lemma stored_upsert:
  "stored_risk \<lparr>risk_rows = upsert_row rk_node (merge_risk fadd) (risk_row c) rows, risk_log = l\<rparr> =
     (stored_risk \<lparr>risk_rows = rows, risk_log = l'\<rparr>) (rc_node c \<mapsto>
       (case stored_risk \<lparr>risk_rows = rows, risk_log = l'\<rparr> (rc_node c) of
          None \<Rightarrow> (rc_points c, 1) | Some (t, k) \<Rightarrow> (fadd t (rc_points c), k + 1)))"
  by (auto simp: stored_risk_def get_risk_def risk_table.row_at_upsert risk_row_def merge_risk_def fun_eq_iff split: option.splits)

lemma record_risk_explained:
  assumes "risk_explained fadd st"
  shows "risk_explained fadd (snd (record_risk fadd uuid now c st))"
proof (cases "fst (record_risk fadd uuid now c st)")
  case (Inl e)
  then show ?thesis using assms by (auto simp: record_risk_def Let_def split: if_splits)
next
  case (Inr u)
  define d where "d = contribution_defaults uuid now c"
  have st': "snd (record_risk fadd uuid now c st) =
      \<lparr>risk_rows = upsert_row rk_node (merge_risk fadd) (risk_row d) (risk_rows st), risk_log = risk_log st @ [d]\<rparr>"
    using Inr by (simp add: record_risk_def d_def Let_def split: if_splits)
  have same: "stored_risk \<lparr>risk_rows = risk_rows st, risk_log = risk_log st\<rparr> = explained fadd (risk_log st)"
    using assms by (simp add: risk_explained_def stored_risk_def get_risk_def fun_eq_iff)
  show ?thesis
    unfolding risk_explained_def st' stored_upsert [where l' = "risk_log st"] same by (simp add: explained_snoc)
qed

lemma record_all_explained: "risk_explained fadd st \<Longrightarrow> risk_explained fadd (snd (record_all fadd supply i cs st))"
proof (induction cs arbitrary: i st)
  case (Cons c cs)
  then show ?case using record_risk_explained [of fadd st "fst (supply i)" "snd (supply i)" c]
    by (auto split: prod.splits sum.splits)
qed simp

inductive risk_step :: "(rat \<Rightarrow> rat \<Rightarrow> rat) \<Rightarrow> risk_state \<Rightarrow> risk_state \<Rightarrow> bool" for fadd where
  recorded: "risk_step fadd st (snd (record_risk fadd uuid now c st))"
| event_scored: "risk_step fadd st (snd (score_event fadd supply arank oa oe ev st))"

definition no_risk :: risk_state where
  "no_risk = \<lparr>risk_rows = [], risk_log = []\<rparr>"

lemma risk_step_explained: "risk_step fadd st st' \<Longrightarrow> risk_explained fadd st \<Longrightarrow> risk_explained fadd st'"
  by (induction rule: risk_step.induct)
    (auto simp: score_event_def Let_def record_risk_explained case_prod_beta intro: record_all_explained)

text \<open>C6. Refinement of the log: in every state the store reaches, the score and the count of each entity are those
  computed from its contributions alone, and an entity has a row exactly when it has a contribution.\<close>

theorem risk_is_its_contributions:
  assumes "(risk_step fadd)\<^sup>*\<^sup>* no_risk st"
  shows "stored_risk st = explained fadd (risk_log st)"
proof -
  have "risk_explained fadd no_risk"
    by (simp add: risk_explained_def no_risk_def stored_risk_def get_risk_def explained_def points_of_def total_points_def fun_eq_iff)
  with assms have "risk_explained fadd st"
    by (induction rule: rtranclp_induct) (auto intro: risk_step_explained)
  then show ?thesis by (simp add: risk_explained_def)
qed

definition sample_contribution :: risk_entry where
  "sample_contribution = \<lparr>rc_id = [], rc_node = (''host'', ''web''), rc_source_type = [], rc_source_id = [],
     rc_description = [], rc_points = 20, rc_event = [], rc_created = 0\<rparr>"

definition sample_risk :: risk_state where
  "sample_risk = snd (record_risk (+) ''2'' 5 sample_contribution (snd (record_risk (+) ''1'' 4 sample_contribution no_risk)))"

theorem risk_is_its_contributions_witness:
  "stored_risk sample_risk = explained (+) (risk_log sample_risk) \<and> stored_risk sample_risk (''host'', ''web'') = Some (40, 2)"
proof
  have "(risk_step (+))\<^sup>*\<^sup>* no_risk sample_risk"
    unfolding sample_risk_def by (rule rtranclp.rtrancl_into_rtrancl, rule r_into_rtranclp) (rule risk_step.recorded)+
  then show "stored_risk sample_risk = explained (+) (risk_log sample_risk)" by (rule risk_is_its_contributions)
  show "stored_risk sample_risk (''host'', ''web'') = Some (40, 2)" by code_simp
qed

section \<open>Drafts are scored\<close>

lemma observe_new_state:
  "observe_asset uuid now t r name os when st = (Inr (a, True), st') \<Longrightarrow> as_name a = name \<and> trim_space name \<noteq> []"
  by (auto simp: observe_asset_def create_asset_def validate_asset_def draft_of_def Let_def split: option.splits sum.splits if_splits)

text \<open>The draft that the first event of a host creates adds the three points of a medium asset to the risk of that host
  in the scoring of the same event, although no analyst has confirmed a criticality.\<close>

theorem draft_asset_is_scored:
  assumes new: "observe_asset uuid now ''host'' (''host:'' @ ev_host ev) (ev_host ev) os when st = (Inr (a, True), st')"
    and alone: "\<not> taken as_ref (''host:'' @ ev_host ev) (assets st)"
  shows "is_draft a \<and> asset_points arank (Some st') (ev_host ev) = (3, ''medium-criticality asset '' @ ev_host ev)"
proof -
  have a: "is_draft a" "as_criticality a = ''medium''" "as_ref a = ''host:'' @ ev_host ev" "assets st' = assets st @ [a]"
    using observe_new_is_draft [OF new] by (auto simp: asset_key_def)
  have name: "as_name a = ev_host ev" "ev_host ev \<noteq> []" using observe_new_state [OF new] by auto
  have "filter (\<lambda>x. as_ref x = ''host:'' @ ev_host ev) (assets st) = []"
    using alone by (auto simp: taken_def list_ex_iff filter_empty_conv)
  then have "get_by_entity_ref arank (''host:'' @ ev_host ev) st' = Some a"
    unfolding get_by_entity_ref_def a(4) using a(3) by simp
  then show ?thesis unfolding asset_points_def using a name by simp
qed

theorem draft_asset_is_scored_witness:
  "let r = observe_asset ''1'' 9 ''host'' ''host:web'' ''web'' [] 5 no_assets; a = fst (projr (fst r))
   in is_draft a \<and> asset_points (\<lambda>_. 0) (Some (snd r)) ''web'' = (3, ''medium-criticality asset web'')"
proof -
  let ?r = "observe_asset ''1'' 9 ''host'' ''host:web'' ''web'' [] 5 no_assets"
  define ev where "ev = blank_event\<lparr>ev_host := ''web''\<rparr>"
  have h: "ev_host ev = ''web''" by (simp add: ev_def)
  have "?r = (Inr (fst (projr (fst ?r)), True), snd ?r)" by code_simp
  moreover have "\<not> taken as_ref ''host:web'' (assets no_assets)" by (simp add: no_assets_def taken_def)
  ultimately show ?thesis
    using draft_asset_is_scored [of "''1''" 9 ev "[]" 5 no_assets "fst (projr (fst ?r))" "snd ?r" "\<lambda>_. 0"] h
    by (simp add: Let_def)
qed

lemma severity_base_of_finding_levels:
  "map severity_base [''critical'', ''high'', ''medium'', ''low''] = [50, 0, 0, 0]"
  by code_simp

end
