(* ===== verification/DetectionStore.thy ===== *)
theory DetectionStore
  imports GoText Rows Complex_Main
begin

text \<open>
  Detection rules and their table: \<^verbatim>\<open>internal/detections/detection.go\<close> (the store) and
  \<^verbatim>\<open>catalog.go\<close>. A JSON list column is the list, a nil and an empty slice are one value and
  the zero time is 0. \<open>affinity\<close> is what SQLite stores for a text in a column declared INTEGER, read
  back as a text.
\<close>

section \<open>Rules and rows\<close>

record det_rule =
  d_id :: string
  d_name :: string
  d_description :: string
  d_query :: string
  d_severity :: string
  d_enabled :: bool
  d_threshold :: "(int \<times> string) option"
  d_group_by :: "string list"
  d_risk :: rat
  d_tags :: "string list"
  d_tactic :: string
  d_technique :: string
  d_schedule :: int
  d_created_by :: string
  d_sources :: "string list"
  d_created :: int
  d_updated :: int
  d_kind :: string
  d_confidence :: rat
  d_techniques :: "string list"
  d_tactic_ids :: "string list"
  d_required :: "string list"
  d_fp_notes :: string
  d_references :: "string list"
  d_actions :: "string list"
  d_definition :: string
  d_version :: int
  d_test_events :: "string list"
  d_last_run :: int
  d_suppressed :: bool
  d_suppressed_by :: string
  d_suppress_reason :: string

text \<open>
  A row: the columns that hold a field as it is are those of \<open>rw_rule\<close>, whose threshold and grouping are in the
  three columns of their own.
\<close>

record rule_row =
  rw_rule :: det_rule
  rw_count :: int
  rw_window :: string
  rw_group :: string

datatype rule_error = NilRule | EmptyRuleId | RuleNotFound string | NoReason | RuleWrite

definition row_key :: "rule_row \<Rightarrow> string" where
  "row_key r = d_id (rw_rule r)"

definition kind_of :: "string \<Rightarrow> string" where
  "kind_of k = (let t = trim_space k in if t = [] then ''threshold'' else t)"

definition version_of :: "int \<Rightarrow> int" where
  "version_of v = (if v \<le> 0 then 1 else v)"

text \<open>The arguments of the INSERT and of the UPDATE; they differ in what a missing threshold writes.\<close>

definition rule_columns :: "(string \<Rightarrow> string) \<Rightarrow> int \<times> string \<Rightarrow> det_rule \<Rightarrow> rule_row" where
  "rule_columns affinity missing r =
     (let (n, w) = (case d_threshold r of Some t \<Rightarrow> t | None \<Rightarrow> missing)
      in \<lparr>rw_rule = r\<lparr>d_threshold := None, d_group_by := [], d_kind := kind_of (d_kind r), d_version := version_of (d_version r)\<rparr>,
          rw_count = n, rw_window = affinity w, rw_group = join '','' (d_group_by r)\<rparr>)"

definition scan_rule :: "rule_row \<Rightarrow> det_rule" where
  "scan_rule row =
     (rw_rule row)\<lparr>d_threshold := (if 0 < rw_count row then Some (rw_count row, rw_window row) else None),
        d_group_by := (if rw_group row = [] then [] else split_text '','' (rw_group row)),
        d_kind := (if d_kind (rw_rule row) = [] then ''threshold'' else d_kind (rw_rule row)),
        d_version := version_of (d_version (rw_rule row))\<rparr>"

section \<open>Operations\<close>

definition create_rule :: "(string \<Rightarrow> string) \<Rightarrow> string \<Rightarrow> int \<Rightarrow> int \<Rightarrow> det_rule option \<Rightarrow> rule_row list
    \<Rightarrow> (rule_error + det_rule) \<times> rule_row list" where
  "create_rule affinity uuid now1 now2 orule rows =
     (case orule of
        None \<Rightarrow> (Inl NilRule, rows)
      | Some r0 \<Rightarrow>
          let r = r0\<lparr>d_id := (if d_id r0 = [] then uuid else d_id r0), d_created := now1, d_updated := now2\<rparr>;
              row = rule_columns affinity (0, []) r
          in if taken row_key (row_key row) rows then (Inl RuleWrite, rows)
             else (Inr (r\<lparr>d_kind := kind_of (d_kind r), d_version := version_of (d_version r)\<rparr>),
                   rows @ [row\<lparr>rw_rule := (rw_rule row)\<lparr>d_last_run := 0\<rparr>\<rparr>]))"

definition get_rule :: "string \<Rightarrow> rule_row list \<Rightarrow> rule_error + det_rule" where
  "get_rule i rows =
     (if i = [] then Inl EmptyRuleId
      else case row_at row_key rows i of None \<Rightarrow> Inl (RuleNotFound i) | Some row \<Rightarrow> Inr (scan_rule row))"

definition list_rules :: "(rule_row \<Rightarrow> nat) \<Rightarrow> rule_row list \<Rightarrow> det_rule list" where
  "list_rules rank rows = map scan_rule (sort_key (\<lambda>r. d_name (rw_rule r)) (sort_key rank rows))"

text \<open>\<^verbatim>\<open>Update\<close> writes every column but the identifier, the creation time and the time of the last run.\<close>

definition update_rule :: "(string \<Rightarrow> string) \<Rightarrow> int \<Rightarrow> det_rule option \<Rightarrow> rule_row list \<Rightarrow> (rule_error + det_rule) \<times> rule_row list" where
  "update_rule affinity now orule rows =
     (case orule of
        None \<Rightarrow> (Inl NilRule, rows)
      | Some r0 \<Rightarrow>
          if d_id r0 = [] then (Inl EmptyRuleId, rows)
          else let r = r0\<lparr>d_updated := now, d_version := version_of (d_version r0)\<rparr>;
                   new = rule_columns affinity (1, ''300s'') r
               in (Inr r, update_rows (\<lambda>x. row_key x = d_id r)
                    (\<lambda>old. new\<lparr>rw_rule := (rw_rule new)\<lparr>d_id := d_id (rw_rule old), d_created := d_created (rw_rule old),
                                                        d_last_run := d_last_run (rw_rule old)\<rparr>\<rparr>) rows))"

definition write_rule :: "string \<Rightarrow> (det_rule \<Rightarrow> det_rule) \<Rightarrow> rule_row list \<Rightarrow> (rule_error + unit) \<times> rule_row list" where
  "write_rule i f rows =
     (if i = [] then (Inl EmptyRuleId, rows)
      else (Inr (), update_rows (\<lambda>x. row_key x = i) (\<lambda>x. x\<lparr>rw_rule := f (rw_rule x)\<rparr>) rows))"

definition suppress_rule :: "int \<Rightarrow> string \<Rightarrow> string \<Rightarrow> string \<Rightarrow> rule_row list \<Rightarrow> (rule_error + unit) \<times> rule_row list" where
  "suppress_rule now i analyst reason rows =
     (if i = [] then (Inl EmptyRuleId, rows)
      else if trim_space reason = [] then (Inl NoReason, rows)
      else write_rule i (\<lambda>r. r\<lparr>d_suppressed := True, d_suppressed_by := analyst, d_suppress_reason := reason, d_updated := now\<rparr>) rows)"

definition unsuppress_rule :: "int \<Rightarrow> string \<Rightarrow> rule_row list \<Rightarrow> (rule_error + unit) \<times> rule_row list" where
  "unsuppress_rule now i =
     write_rule i (\<lambda>r. r\<lparr>d_suppressed := False, d_suppressed_by := [], d_suppress_reason := [], d_updated := now\<rparr>)"

definition mark_run :: "string \<Rightarrow> int \<Rightarrow> rule_row list \<Rightarrow> (rule_error + unit) \<times> rule_row list" where
  "mark_run i ts = write_rule i (\<lambda>r. r\<lparr>d_last_run := ts\<rparr>)"

definition delete_rule :: "string \<Rightarrow> rule_row list \<Rightarrow> (rule_error + unit) \<times> rule_row list" where
  "delete_rule i rows =
     (if i = [] then (Inl EmptyRuleId, rows) else (Inr (), delete_rows (\<lambda>x. row_key x = i) rows))"

definition set_rule_enabled :: "int \<Rightarrow> string \<Rightarrow> bool \<Rightarrow> rule_row list \<Rightarrow> (rule_error + unit) \<times> rule_row list" where
  "set_rule_enabled now i b = write_rule i (\<lambda>r. r\<lparr>d_enabled := b, d_updated := now\<rparr>)"

section \<open>The catalog\<close>

record catalog_entry =
  cg_name :: string
  cg_title :: string
  cg_category :: string
  cg_version :: int
  cg_severity :: string
  cg_description :: string
  cg_hunting :: bool
  cg_tags :: "string list"
  cg_tactics :: "string list"
  cg_techniques :: "string list"
  cg_sources :: "string list"
  cg_fp_notes :: string
  cg_references :: "string list"
  cg_kind :: string
  cg_query :: string
  cg_threshold :: "(int \<times> string) option"
  cg_group_by :: "string list"
  cg_test_events :: "string list"

text \<open>What \<^verbatim>\<open>ListCatalog\<close> makes of the parsed files: pairs of a file name and its entry.\<close>

definition file_suffix :: string where
  "file_suffix = ''.yaml''"

definition trim_suffix :: "string \<Rightarrow> string \<Rightarrow> string" where
  "trim_suffix suf s = (if prefix (rev suf) (rev s) then take (length s - length suf) s else s)"

definition catalog_defaults :: "string \<times> catalog_entry \<Rightarrow> catalog_entry" where
  "catalog_defaults = (\<lambda>(file, e).
     e\<lparr>cg_name := (if cg_name e = [] then trim_suffix file_suffix file else cg_name e),
       cg_version := version_of (cg_version e),
       cg_category := (if cg_category e = [] then (if cg_hunting e then ''hunting'' else ''detection'') else cg_category e)\<rparr>)"

definition list_catalog :: "(string \<times> catalog_entry) list \<Rightarrow> catalog_entry list" where
  "list_catalog files =
     sort_key cg_name (map catalog_defaults (filter (\<lambda>f. prefix (rev file_suffix) (rev (fst f))) files))"

definition catalog_entry_by_name :: "(string \<times> catalog_entry) list \<Rightarrow> string \<Rightarrow> catalog_entry option" where
  "catalog_entry_by_name files name = find (\<lambda>e. cg_name e = name) (list_catalog files)"

definition first_or_empty :: "string list \<Rightarrow> string" where
  "first_or_empty xs = (case xs of [] \<Rightarrow> [] | x # _ \<Rightarrow> x)"

definition to_rule :: "catalog_entry \<Rightarrow> det_rule" where
  "to_rule e =
     \<lparr>d_id = [], d_name = cg_title e, d_description = cg_description e, d_query = cg_query e, d_severity = cg_severity e,
      d_enabled = True, d_threshold = cg_threshold e, d_group_by = cg_group_by e, d_risk = 0,
      d_tags = cg_tags e @ [''catalog:'' @ cg_name e], d_tactic = first_or_empty (cg_tactics e),
      d_technique = first_or_empty (cg_techniques e), d_schedule = 0, d_created_by = [], d_sources = cg_sources e,
      d_created = 0, d_updated = 0, d_kind = (let k = trim_space (cg_kind e) in if k = [] then ''spl'' else k),
      d_confidence = 0, d_techniques = cg_techniques e, d_tactic_ids = cg_tactics e, d_required = [],
      d_fp_notes = cg_fp_notes e, d_references = cg_references e, d_actions = [], d_definition = [],
      d_version = cg_version e, d_test_events = cg_test_events e, d_last_run = 0, d_suppressed = False,
      d_suppressed_by = [], d_suppress_reason = []\<rparr>"

definition find_by_name :: "(rule_row \<Rightarrow> nat) \<Rightarrow> string \<Rightarrow> rule_row list \<Rightarrow> det_rule option" where
  "find_by_name rank name rows = find (\<lambda>r. d_name r = name) (list_rules rank rows)"

definition keep_analyst_state :: "det_rule \<Rightarrow> det_rule \<Rightarrow> det_rule" where
  "keep_analyst_state old r =
     r\<lparr>d_id := d_id old, d_suppressed := d_suppressed old, d_suppressed_by := d_suppressed_by old,
       d_suppress_reason := d_suppress_reason old,
       d_schedule := (if 0 < d_schedule old then d_schedule old else d_schedule r),
       d_created_by := (if d_created_by old = [] then d_created_by r else d_created_by old)\<rparr>"

definition install_catalog :: "(string \<Rightarrow> string) \<Rightarrow> (rule_row \<Rightarrow> nat) \<Rightarrow> string \<Rightarrow> int \<Rightarrow> int \<Rightarrow> catalog_entry \<Rightarrow> rule_row list
    \<Rightarrow> (rule_error + det_rule) \<times> rule_row list" where
  "install_catalog affinity rank uuid now1 now2 e rows =
     (case find_by_name rank (cg_title e) rows of
        Some old \<Rightarrow> update_rule affinity now1 (Some (keep_analyst_state old (to_rule e))) rows
      | None \<Rightarrow> create_rule affinity uuid now1 now2 (Some (to_rule e)) rows)"

section \<open>Reading back what was written\<close>

text \<open>The rules whose threshold and grouping the columns can hold.\<close>

definition storable :: "(string \<Rightarrow> string) \<Rightarrow> det_rule \<Rightarrow> bool" where
  "storable affinity r =
     ((case d_threshold r of None \<Rightarrow> True | Some (n, w) \<Rightarrow> 0 < n \<and> affinity w = w)
      \<and> d_group_by r \<noteq> [[]] \<and> list_all (\<lambda>f. CHR '','' \<notin> set f) (d_group_by r))"

definition settled :: "det_rule \<Rightarrow> det_rule" where
  "settled r = r\<lparr>d_kind := kind_of (d_kind r), d_version := version_of (d_version r)\<rparr>"

lemma kind_of_facts [simp]: "kind_of k \<noteq> []" "(if kind_of k = [] then t else kind_of k) = kind_of k"
  by (simp_all add: kind_of_def Let_def)

lemma version_of_idem [simp]: "version_of (version_of v) = version_of v"
  by (simp add: version_of_def)

lemma join_comma_empty: "join '','' fs = [] \<longleftrightarrow> fs = [] \<or> fs = [[]]"
proof (cases fs)
  case (Cons f gs)
  then show ?thesis by (cases gs) simp_all
qed simp

lemma group_reads_back:
  assumes "fs \<noteq> [[]]" and "list_all (\<lambda>f. CHR '','' \<notin> set f) fs"
  shows "(if join '','' fs = [] then [] else split_text '','' (join '','' fs)) = fs"
proof (cases "fs = []")
  case False
  then show ?thesis using assms split_join [of fs "CHR '',''"] by (simp add: join_comma_empty)
qed simp

lemma scan_columns:
  "scan_rule (rule_columns affinity (0, w) r) = settled r" if "storable affinity r"
proof -
  have g: "(if join '','' (d_group_by r) = [] then [] else split_text '','' (join '','' (d_group_by r))) = d_group_by r"
    using that by (intro group_reads_back) (auto simp: storable_def)
  show ?thesis
    using that g by (cases "d_threshold r")
      (auto simp: storable_def scan_rule_def rule_columns_def settled_def Let_def split: prod.splits)
qed

lemma scan_last_run: "scan_rule (row\<lparr>rw_rule := (rw_rule row)\<lparr>d_last_run := t\<rparr>\<rparr>) = (scan_rule row)\<lparr>d_last_run := t\<rparr>"
  by (cases row; cases "rw_rule row") (simp add: scan_rule_def)

lemma get_rule_snoc:
  "\<not> taken row_key (row_key row) rows \<Longrightarrow> row_key row \<noteq> [] \<Longrightarrow> get_rule (row_key row) (rows @ [row]) = Inr (scan_rule row)"
  by (auto simp: get_rule_def row_at_snoc)

text \<open>
  C30. Round trip of a rule: what \<^verbatim>\<open>Create\<close> returns for a rule that the columns can hold is what \<^verbatim>\<open>GetByID\<close>
  reads back, but for the time of the last run: the INSERT does not write the column, so a rule that is
  created with such a time reads back with none (zero).
\<close>

theorem created_rule_reads_back:
  assumes made: "create_rule affinity uuid now1 now2 (Some r) rows = (Inr r', rows')"
    and fits: "storable affinity r" and ident: "uuid \<noteq> []"
  shows "get_rule (d_id r') rows' = Inr (r'\<lparr>d_last_run := 0\<rparr>)"
proof -
  define r1 where "r1 = r\<lparr>d_id := (if d_id r = [] then uuid else d_id r), d_created := now1, d_updated := now2\<rparr>"
  define row where "row = rule_columns affinity (0, []) r1"
  define row' where "row' = row\<lparr>rw_rule := (rw_rule row)\<lparr>d_last_run := 0\<rparr>\<rparr>"
  have key: "row_key row = d_id r1" "row_key row' = d_id r1"
    by (simp_all add: row'_def row_def rule_columns_def row_key_def split: prod.splits)
  have out: "\<not> taken row_key (row_key row) rows" "r' = settled r1" "rows' = rows @ [row']"
    using made unfolding create_rule_def row'_def row_def r1_def settled_def by (auto simp: Let_def split: if_splits)
  have "scan_rule row = settled r1"
    unfolding row_def by (rule scan_columns) (use fits in \<open>simp add: storable_def r1_def\<close>)
  then have "scan_rule row' = (settled r1)\<lparr>d_last_run := 0\<rparr>"
    unfolding row'_def scan_last_run by simp
  moreover have "d_id r' = row_key row'" using out key by (simp add: settled_def)
  ultimately show ?thesis
    using get_rule_snoc [of row' rows] out key ident by (simp add: r1_def)
qed

definition sample_entry :: catalog_entry where
  "sample_entry =
     \<lparr>cg_name = ''brute_force_login'', cg_title = ''Brute Force Login Attempt'', cg_category = ''detection'', cg_version = 2,
      cg_severity = ''high'', cg_description = [], cg_hunting = False, cg_tags = [''credential-access''],
      cg_tactics = [''TA0006''], cg_techniques = [''T1110''], cg_sources = [''authentication''], cg_fp_notes = [],
      cg_references = [], cg_kind = ''threshold'',
      cg_query = ''event_type='' @ [dquote] @ ''authentication'' @ [dquote] @ '' outcome='' @ [dquote] @ ''failure'' @ [dquote],
      cg_threshold = Some (5, ''5m''), cg_group_by = [''source_ip'', ''user''], cg_test_events = []\<rparr>"

definition catalog_rule :: det_rule where
  "catalog_rule = to_rule sample_entry"

theorem created_rule_reads_back_witness:
  "let c = create_rule id ''r1'' 1 2 (Some catalog_rule) [] in get_rule ''r1'' (snd c) = Inr ((projr (fst c))\<lparr>d_last_run := 0\<rparr>)"
proof -
  let ?c = "create_rule id ''r1'' 1 2 (Some catalog_rule) []"
  have "?c = (Inr (projr (fst ?c)), snd ?c)" by code_simp
  moreover have "storable id catalog_rule" by code_simp
  ultimately have "get_rule (d_id (projr (fst ?c))) (snd ?c) = Inr ((projr (fst ?c))\<lparr>d_last_run := 0\<rparr>)"
    by (rule created_rule_reads_back) simp
  moreover have "d_id (projr (fst ?c)) = ''r1''" by code_simp
  ultimately show ?thesis unfolding Let_def by simp
qed

section \<open>Upgrading a catalog rule\<close>

lemma update_rule_reads:
  assumes "update_rule affinity now (Some r) rows = (Inr r', rows')" and "row_at row_key rows (d_id r) = Some old"
  shows "get_rule (d_id r) rows' = Inr (scan_rule ((rule_columns affinity (1, ''300s'') r')
           \<lparr>rw_rule := (rw_rule (rule_columns affinity (1, ''300s'') r'))
             \<lparr>d_id := d_id (rw_rule old), d_created := d_created (rw_rule old), d_last_run := d_last_run (rw_rule old)\<rparr>\<rparr>))"
proof -
  let ?new = "rule_columns affinity (1, ''300s'') r'"
  let ?f = "\<lambda>old. ?new\<lparr>rw_rule := (rw_rule ?new)\<lparr>d_id := d_id (rw_rule old), d_created := d_created (rw_rule old),
                                                        d_last_run := d_last_run (rw_rule old)\<rparr>\<rparr>"
  have key: "row_key (?f y) = row_key y" for y by (simp add: row_key_def)
  have out: "d_id r \<noteq> []" "d_id r' = d_id r" "rows' = update_rows (\<lambda>x. row_key x = d_id r) ?f rows"
    using assms(1) by (auto simp: update_rule_def Let_def split: if_splits)
  then show ?thesis
    using assms(2) row_at_update_key [of row_key ?f "d_id r" rows] key by (simp add: get_rule_def)
qed

text \<open>\<^verbatim>\<open>Update\<close> of a rule without a threshold makes one: the rule reads back with a threshold of one match in
  300 seconds, which \<^verbatim>\<open>Create\<close> does not do.\<close>

theorem update_adds_a_threshold:
  assumes "update_rule affinity now (Some r) rows = (Inr r', rows')" and "row_at row_key rows (d_id r) = Some old"
    and "d_threshold r = None"
  shows "(case get_rule (d_id r) rows' of Inl _ \<Rightarrow> None | Inr x \<Rightarrow> d_threshold x) = Some (1, affinity ''300s'')"
proof -
  have "d_threshold r' = None" using assms(1,3) by (auto simp: update_rule_def Let_def split: if_splits)
  then show ?thesis
    using update_rule_reads [OF assms(1,2)] by (simp add: scan_rule_def rule_columns_def)
qed

theorem update_adds_a_threshold_witness:
  "let r = catalog_rule\<lparr>d_id := ''r1'', d_threshold := None\<rparr>; rows = snd (create_rule id ''r1'' 1 2 (Some r) []);
       rows' = snd (update_rule id 3 (Some r) rows)
   in map_sum (\<lambda>_. ()) d_threshold (get_rule ''r1'' rows) = Inr None
      \<and> (case get_rule ''r1'' rows' of Inl _ \<Rightarrow> None | Inr x \<Rightarrow> d_threshold x) = Some (1, ''300s'')"
proof -
  define r where "r = catalog_rule\<lparr>d_id := ''r1'', d_threshold := None\<rparr>"
  define rows where "rows = snd (create_rule id ''r1'' 1 2 (Some r) [])"
  define out where "out = update_rule id 3 (Some r) rows"
  have o: "out = (Inr (projr (fst out)), snd out)" unfolding out_def rows_def r_def by code_simp
  have "row_at row_key rows (d_id r) = Some (the (row_at row_key rows (d_id r)))" unfolding rows_def r_def by code_simp
  with o have "(case get_rule (d_id r) (snd out) of Inl _ \<Rightarrow> None | Inr x \<Rightarrow> d_threshold x) = Some (1, id ''300s'')"
    unfolding out_def by (rule update_adds_a_threshold) (simp add: r_def)
  moreover have "map_sum (\<lambda>_. ()) d_threshold (get_rule ''r1'' rows) = Inr None" unfolding rows_def r_def by code_simp
  moreover have "d_id r = ''r1''" by (simp add: r_def)
  ultimately show ?thesis unfolding Let_def r_def [symmetric] rows_def [symmetric] out_def [symmetric] by simp
qed

text \<open>Upgrading a catalog rule keeps its suppression, whoever set it, and its schedule, but a rule that an
  analyst has disabled is enabled again.\<close>

theorem catalog_upgrade_state:
  assumes known: "find_by_name rank (cg_title e) rows = Some old" and ident: "d_id old \<noteq> []"
    and row: "row_at row_key rows (d_id old) = Some row"
  shows "case get_rule (d_id old) (snd (install_catalog affinity rank uuid now1 now2 e rows)) of
           Inl _ \<Rightarrow> False
         | Inr r \<Rightarrow> d_suppressed r = d_suppressed old \<and> d_suppress_reason r = d_suppress_reason old
             \<and> d_schedule r = max 0 (d_schedule old) \<and> d_enabled r"
proof -
  define r0 where "r0 = keep_analyst_state old (to_rule e)"
  have id0: "d_id r0 = d_id old" by (simp add: r0_def keep_analyst_state_def)
  obtain r' rows' where u: "update_rule affinity now1 (Some r0) rows = (Inr r', rows')"
    using ident id0 by (auto simp: update_rule_def Let_def)
  have r': "d_suppressed r' = d_suppressed r0" "d_suppress_reason r' = d_suppress_reason r0" "d_schedule r' = d_schedule r0"
      "d_enabled r' = d_enabled r0"
    using u by (auto simp: update_rule_def Let_def split: if_splits)
  have "snd (install_catalog affinity rank uuid now1 now2 e rows) = rows'"
    by (simp add: install_catalog_def known r0_def [symmetric] u)
  then show ?thesis
    using update_rule_reads [OF u] row id0 r'
    by (auto simp: scan_rule_def rule_columns_def r0_def keep_analyst_state_def to_rule_def split: prod.splits)
qed

theorem catalog_upgrade_state_witness:
  "let rows = snd (set_rule_enabled 3 ''r1'' False (snd (install_catalog id (\<lambda>_. 0) ''r1'' 1 2 sample_entry [])));
       rows' = snd (install_catalog id (\<lambda>_. 0) ''r2'' 4 5 sample_entry rows)
   in map_sum (\<lambda>_. ()) d_enabled (get_rule ''r1'' rows) = Inr False
      \<and> (case get_rule ''r1'' rows' of Inl _ \<Rightarrow> False | Inr r \<Rightarrow> d_enabled r)"
proof -
  define rows where "rows = snd (set_rule_enabled 3 ''r1'' False (snd (install_catalog id (\<lambda>_. 0) ''r1'' 1 2 sample_entry [])))"
  define old where "old = the (find_by_name (\<lambda>_. 0) (cg_title sample_entry) rows)"
  have k: "find_by_name (\<lambda>_. 0) (cg_title sample_entry) rows = Some old" unfolding old_def rows_def by code_simp
  have i: "d_id old = ''r1''" unfolding old_def rows_def by code_simp
  have r: "row_at row_key rows ''r1'' = Some (the (row_at row_key rows ''r1''))" unfolding rows_def by code_simp
  have off: "map_sum (\<lambda>_. ()) d_enabled (get_rule ''r1'' rows) = Inr False" unfolding rows_def by code_simp
  show ?thesis
    using catalog_upgrade_state [OF k, unfolded i, OF _ r, of id "''r2''" 4 5] off
    unfolding Let_def rows_def [symmetric] by (auto split: sum.splits)
qed

end
