(* ===== verification/DetectionRuns.thy ===== *)
theory DetectionRuns
  imports DetectionStore EventStore RiskStore CorrelationEngine SplExecutor
begin

text \<open>
  Runs of detection rules: \<^verbatim>\<open>internal/detections/detection.go\<close> (the threshold engine) and
  \<^verbatim>\<open>spl_rule.go\<close>. A run composes the rule table, the event store, the SPL executor, the
  findings queue and the risk store. Times are nanoseconds. Clock readings, fresh identifiers, \<^verbatim>\<open>ParseDuration\<close>,
  the JSON text of rows and the order in which a Go map is iterated are fields of the environment.
\<close>

section \<open>Reading a query\<close>

definition second :: int where "second = 1000000000"

definition parse_detection_window :: "(string \<Rightarrow> int option) \<Rightarrow> string \<Rightarrow> int option" where
  "parse_detection_window duration v0 =
     (let v = trim_space v0
      in if v = [] then None
         else case atoi v of
                Some n \<Rightarrow> if n < 0 then None else Some (wrap64 (n * second))
              | None \<Rightarrow> (case duration v of None \<Rightarrow> None | Some d \<Rightarrow> if d < 0 then None else Some d))"

definition set_query_field :: "string \<Rightarrow> string \<Rightarrow> event_query \<Rightarrow> event_query" where
  "set_query_field k v q =
     (if k = ''source'' then q\<lparr>eq_source := v\<rparr>
      else if k \<in> {''event_type'', ''eventtype'', ''sourcetype''} then q\<lparr>eq_event_type := v\<rparr>
      else if k = ''host'' then q\<lparr>eq_host := v\<rparr>
      else if k = ''service'' then q\<lparr>eq_service := v\<rparr>
      else if k \<in> {''severity'', ''sev''} then q\<lparr>eq_severity := v\<rparr>
      else if k = ''category'' then q\<lparr>eq_category := v\<rparr>
      else if k = ''action'' then q\<lparr>eq_action := v\<rparr>
      else if k = ''outcome'' then q\<lparr>eq_outcome := v\<rparr>
      else if k = ''user'' then q\<lparr>eq_user := v\<rparr>
      else q\<lparr>eq_attributes := put k v (eq_attributes q)\<rparr>)"

definition query_part :: "string \<Rightarrow> event_query \<Rightarrow> event_query" where
  "query_part part q =
     (if equal_fold part ''AND'' \<or> equal_fold part ''OR'' then q
      else case cut CHR ''='' part of
             Some (k, v) \<Rightarrow>
               if k \<noteq> [] then set_query_field (to_lower (trim_space k)) (trim_space v) q
               else q\<lparr>eq_text := (if eq_text q = [] then part else eq_text q @ '' '' @ part)\<rparr>
           | None \<Rightarrow> q\<lparr>eq_text := (if eq_text q = [] then part else eq_text q @ '' '' @ part)\<rparr>)"

definition parse_single_query :: "string \<Rightarrow> event_query \<Rightarrow> event_query" where
  "parse_single_query s q = fold query_part (GoText.fields s) q"

text \<open>The values of each field, over the parts of an OR.\<close>

definition push_value :: "string \<times> string \<Rightarrow> (string \<times> string list) list \<Rightarrow> (string \<times> string list) list" where
  "push_value = (\<lambda>(k, v) m. put k ((case map_of m k of None \<Rightarrow> [] | Some vs \<Rightarrow> vs) @ [v]) m)"

definition query_values :: "event_query \<Rightarrow> (string \<times> string) list" where
  "query_values q =
     map (Pair ''__text__'') (GoText.fields (eq_text q))
     @ filter (\<lambda>p. snd p \<noteq> [])
         [(''source'', eq_source q), (''event_type'', eq_event_type q), (''host'', eq_host q), (''service'', eq_service q),
          (''severity'', eq_severity q), (''category'', eq_category q), (''action'', eq_action q),
          (''outcome'', eq_outcome q), (''user'', eq_user q)]
     @ eq_attributes q"

definition or_values :: "string list \<Rightarrow> (string \<times> string list) list" where
  "or_values parts = fold push_value (concat (map (\<lambda>p. query_values (parse_single_query p new_query)) parts)) []"

definition parse_base_query :: "string \<Rightarrow> event_query" where
  "parse_base_query s =
     (let parts = split_text '' OR '' s
      in if length parts = 1 then parse_single_query s new_query
         else new_query\<lparr>eq_attributes :=
                map (\<lambda>(k, vs). (''__or_'' @ k @ ''__'', join '','' vs)) (filter (\<lambda>(k, vs). 1 < length vs) (or_values parts))\<rparr>)"

datatype detection_error =
    NoQuery
  | BadWindow string
  | EventsFailed event_error
  | FindingFailed finding_error
  | SplFailed exec_error

definition skew :: int where "skew = 120 * second"

definition parse_detection_query :: "(string \<Rightarrow> int option) \<Rightarrow> int \<Rightarrow> det_rule \<Rightarrow> detection_error + event_query" where
  "parse_detection_query duration now r =
     (if d_query r = [] then Inl NoQuery
      else let q = parse_base_query (trim_space (takeWhile (\<lambda>c. c \<noteq> CHR ''|'') (d_query r)))
           in case d_threshold r of
                None \<Rightarrow> Inr q
              | Some (n, w) \<Rightarrow>
                  if w = [] then Inr q
                  else case parse_detection_window duration w of
                         None \<Rightarrow> Inl (BadWindow w)
                       | Some d \<Rightarrow>
                           let start = now - d; inc = d_last_run r - (d + skew)
                           in Inr (q\<lparr>eq_end := now, eq_start := (if d_last_run r \<noteq> 0 \<and> inc < start then inc else start)\<rparr>))"

definition group_field :: "event \<Rightarrow> string \<Rightarrow> string" where
  "group_field ev f0 =
     (let f = to_lower f0
      in if f = ''source_ip'' then ev_source_ip ev else if f = ''destination_ip'' then ev_destination_ip ev
         else if f = ''host'' then ev_host ev else if f = ''user'' then ev_user ev
         else if f = ''source'' then ev_source ev else if f = ''service'' then ev_service ev
         else if f = ''severity'' then ev_severity ev else if f = ''event_type'' then ev_event_type ev
         else case map_of (ev_attributes ev) f of Some v \<Rightarrow> v | None \<Rightarrow> ''<nil>'')"

definition event_group_key :: "string list \<Rightarrow> event \<Rightarrow> string" where
  "event_group_key fs ev = join ''|'' (map (group_field ev) fs)"

definition group_keys :: "string list \<Rightarrow> event list \<Rightarrow> string list" where
  "group_keys fs evs = remdups (map (event_group_key fs) evs)"

definition group_of :: "string list \<Rightarrow> event list \<Rightarrow> string \<Rightarrow> event list" where
  "group_of fs evs k = filter (\<lambda>ev. event_group_key fs ev = k) evs"

text \<open>The count a group has to reach; 0 is no threshold.\<close>

definition threshold_of :: "det_rule \<Rightarrow> int" where
  "threshold_of r = (case d_threshold r of Some (n, w) \<Rightarrow> max 0 n | None \<Rightarrow> 0)"

definition reaches :: "det_rule \<Rightarrow> event list \<Rightarrow> bool" where
  "reaches r evs = (threshold_of r \<le> int (length evs))"

definition count_grouped :: "det_rule \<Rightarrow> event list \<Rightarrow> int" where
  "count_grouped r evs =
     (if threshold_of r = 0 then int (length evs)
      else sum_list (map (\<lambda>k. int (length (group_of (d_group_by r) evs k)))
        (filter (\<lambda>k. reaches r (group_of (d_group_by r) evs k)) (group_keys (d_group_by r) evs))))"

section \<open>State and environment\<close>

record 'f detection_env =
  de_exec :: "'f exec_env"
  de_events :: "'f event_db"
  de_duration :: "string \<Rightarrow> int option"
  de_rows_json :: "'f row list \<Rightarrow> string option"
  de_two_decimals :: "rat \<Rightarrow> string"
  de_entity_order :: "string list \<Rightarrow> string list"
  de_group_rank :: "string \<Rightarrow> nat"
  de_now :: int
  de_mark :: int
  de_finding :: "nat \<Rightarrow> string \<times> int \<times> int \<times> int"
  de_risk_id :: "nat \<Rightarrow> nat \<Rightarrow> string \<times> int"
  de_fadd :: "rat \<Rightarrow> rat \<Rightarrow> rat"
  de_has_risk :: bool

record detection_state =
  ds_rules :: "rule_row list"
  ds_findings :: finding_state
  ds_risk :: risk_state
  ds_states :: "state_row list"
  ds_notified :: "string list"

record run_result =
  rr_matched :: int
  rr_total :: int
  rr_findings :: "string list"
  rr_created :: int

definition empty_run :: "int \<Rightarrow> run_result" where
  "empty_run n = \<lparr>rr_matched = 0, rr_total = n, rr_findings = [], rr_created = 0\<rparr>"

section \<open>One finding\<close>

definition entry_of :: "CorrelationEngine.contribution \<Rightarrow> risk_entry" where
  "entry_of c =
     \<lparr>rc_id = [], rc_node = (ct_type c, ct_value c), rc_source_type = ct_source_type c, rc_source_id = ct_finding c,
      rc_description = ct_description c, rc_points = ct_points c, rc_event = [], rc_created = 0\<rparr>"

definition record_entries :: "'f detection_env \<Rightarrow> nat \<Rightarrow> finding \<Rightarrow> risk_state \<Rightarrow> risk_state" where
  "record_entries env i f st =
     fold (\<lambda>(j, e). snd \<circ> record_risk (de_fadd env) (fst (de_risk_id env i j)) (snd (de_risk_id env i j)) e)
       (enumerate 0 (map entry_of (finding_risk f))) st"

definition upsert_detection :: "'f detection_env \<Rightarrow> nat \<Rightarrow> detection_args \<Rightarrow> detection_state
    \<Rightarrow> (detection_error + finding \<times> bool) \<times> detection_state" where
  "upsert_detection env i a st =
     (let (fid, now1, now2, now3) = de_finding env i
      in case create_or_update (de_entity_order env) fid now1 now2 now3 a (ds_findings st) of
           (Inl e, fs) \<Rightarrow> (Inl (FindingFailed e), st\<lparr>ds_findings := fs\<rparr>)
         | (Inr (f, new), fs) \<Rightarrow>
             (Inr (f, new),
              st\<lparr>ds_findings := fs,
                 ds_notified := ds_notified st @ (if new then [f_id f] else []),
                 ds_risk := (if new \<and> de_has_risk env \<and> 0 < f_risk f then record_entries env i f (ds_risk st) else ds_risk st)\<rparr>))"

definition detection_args_of :: "det_rule \<Rightarrow> string \<Rightarrow> string \<Rightarrow> int \<Rightarrow> event list \<Rightarrow> string list \<Rightarrow> detection_args" where
  "detection_args_of r key desc matched evs ents =
     \<lparr>da_rule_id = d_id r, da_rule_name = d_name r, da_group_key = key, da_title = d_name r, da_description = desc,
      da_severity = d_severity r, da_risk = d_risk r, da_data_source = first_or_empty (d_sources r),
      da_tactic = d_tactic r, da_technique = d_technique r, da_tags = d_tags r, da_matched = matched,
      da_events = map Some evs, da_entities = ents\<rparr>"

text \<open>The groups in turn, each with its arguments and what it adds to the matched events; the first error ends the run.\<close>

fun raise_findings :: "'f detection_env \<Rightarrow> nat \<Rightarrow> (detection_args \<times> int) list \<Rightarrow> run_result \<Rightarrow> detection_state
    \<Rightarrow> (detection_error + run_result) \<times> detection_state" where
  "raise_findings env i [] res st = (Inr res, st)"
| "raise_findings env i ((a, n) # as) res st =
     (case upsert_detection env i a st of
        (Inl e, st') \<Rightarrow> (Inl e, st')
      | (Inr (f, new), st') \<Rightarrow>
          raise_findings env (Suc i) as
            (res\<lparr>rr_matched := rr_matched res + n, rr_findings := rr_findings res @ [f_id f],
                 rr_created := rr_created res + (if new then 1 else 0)\<rparr>) st')"

section \<open>SPL rules\<close>

definition numeric :: "('f, 'z) exec_env_scheme \<Rightarrow> 'f val \<Rightarrow> 'f option" where
  "numeric env v =
     (case v of VInt n \<Rightarrow> Some (fl_of_int env n) | VFloat x \<Rightarrow> Some x | VStr s \<Rightarrow> fl_parse env s | _ \<Rightarrow> None)"

definition spl_entity_columns :: "(string \<times> string) list" where
  "spl_entity_columns =
     [(''user'', ''user''), (''host'', ''host''), (''source_ip'', ''ip''), (''src_ip'', ''ip''), (''destination_ip'', ''ip''),
      (''dest_ip'', ''ip''), (''process'', ''process''), (''service'', ''service'')]"

text \<open>The columns that group a row, with their printed values.\<close>

definition by_columns :: "('f, 'z) exec_env_scheme \<Rightarrow> string list \<Rightarrow> string \<Rightarrow> 'f row \<Rightarrow> (string \<times> string) list" where
  "by_columns env cols mcol row =
     concat (map (\<lambda>col.
       if col = mcol then []
       else case map_of row col of
              None \<Rightarrow> []
            | Some v \<Rightarrow> if numeric env v \<noteq> None then [] else [(col, show_val env v)]) cols)"

definition spl_key :: "(string \<times> string) list \<Rightarrow> string" where
  "spl_key bys = (if bys = [] then ''global'' else join '','' (sort (map (\<lambda>(c, v). c @ ''='' @ v) bys)))"

definition spl_entities :: "(string \<times> string) list \<Rightarrow> string list" where
  "spl_entities bys =
     sort (remdups (concat (map (\<lambda>(c, v). case map_of spl_entity_columns (to_lower c) of
       None \<Rightarrow> [] | Some t \<Rightarrow> [t @ '':'' @ v]) bys)))"

record 'f spl_group =
  sg_key :: string
  sg_entities :: "string list"
  sg_rows :: "'f row list"

definition add_to_group :: "('f, 'z) exec_env_scheme \<Rightarrow> string list \<Rightarrow> string \<Rightarrow> 'f row \<Rightarrow> 'f spl_group list \<Rightarrow> 'f spl_group list" where
  "add_to_group env cols mcol row gs =
     (let bys = by_columns env cols mcol row
      in upsert_row sg_key (\<lambda>new old. old\<lparr>sg_rows := sg_rows old @ sg_rows new\<rparr>)
           \<lparr>sg_key = spl_key bys, sg_entities = spl_entities bys, sg_rows = [row]\<rparr> gs)"

definition row_reaches :: "('f, 'z) exec_env_scheme \<Rightarrow> string \<Rightarrow> int \<Rightarrow> 'f row \<Rightarrow> bool" where
  "row_reaches env mcol n row =
     (mcol = [] \<or> (case numeric env (get row mcol) of None \<Rightarrow> False | Some x \<Rightarrow> \<not> fl_less env x (fl_of_int env n)))"

definition spl_groups :: "('f, 'z) exec_env_scheme \<Rightarrow> string list \<Rightarrow> string \<Rightarrow> int \<Rightarrow> 'f row list \<Rightarrow> 'f spl_group list" where
  "spl_groups env cols mcol n rows = fold (add_to_group env cols mcol) (filter (row_reaches env mcol n) rows) []"

definition measure_column :: "int \<Rightarrow> string list \<Rightarrow> string" where
  "measure_column n cols = (if 0 < n then first_or_empty cols else [])"

text \<open>The summary of the first five rows, cut at 500 bytes; the mark of the cut is three dots here.\<close>

definition spl_description :: "'f detection_env \<Rightarrow> det_rule \<Rightarrow> 'f spl_group \<Rightarrow> string" where
  "spl_description env r g =
     d_description r
     @ (if sg_rows g = [] then []
        else case de_rows_json env (take 5 (sg_rows g)) of
               None \<Rightarrow> []
             | Some s \<Rightarrow>
                 [CHR 0x0A, CHR 0x0A] @ ''SPL result rows: ''
                 @ (if 500 < length (utf8 s) then text_of (de_exec env) (take 500 (utf8 s)) @ ''...'' else s))
     @ (if 0 < d_confidence r
        then [CHR 0x0A] @ ''(Rule confidence: '' @ de_two_decimals env (d_confidence r) @ '')'' else [])"

definition spl_args :: "'f detection_env \<Rightarrow> det_rule \<Rightarrow> 'f spl_group \<Rightarrow> detection_args \<times> int" where
  "spl_args env r g =
     (let n = int (length (sg_rows g))
      in (detection_args_of r (sg_key g) (spl_description env r g) n [] (sg_entities g), n))"

definition run_time_range :: "(string \<Rightarrow> int option) \<Rightarrow> int \<Rightarrow> det_rule \<Rightarrow> int \<times> int" where
  "run_time_range duration now r =
     (let day = 24 * 3600 * second;
          d = (case d_threshold r of
                 None \<Rightarrow> day
               | Some (n, w) \<Rightarrow>
                   if w = [] then day
                   else (case parse_detection_window duration w of Some x \<Rightarrow> if 0 < x then x else day | None \<Rightarrow> day));
          start = d_last_run r - (d + skew)
      in if d_last_run r = 0 then (now - d, now) else (if now - d < start then now - d else start, now))"

definition run_spl_rule :: "'f detection_env \<Rightarrow> det_rule \<Rightarrow> detection_state
    \<Rightarrow> ((detection_error + run_result) \<times> detection_state) run" where
  "run_spl_rule env r st =
     (let (start, end) = run_time_range (de_duration env) (de_now env) r
      in and_then (run_spl (de_exec env) (d_query r) \<lparr>ro_limit = 1000, ro_offset = 0, ro_earliest = start, ro_latest = end\<rparr>)
        (\<lambda>ans. Done (case ans of
             Inl e \<Rightarrow> (Inl (SplFailed e), st)
           | Inr res \<Rightarrow>
               let n = (case d_threshold r of Some (c, w) \<Rightarrow> c | None \<Rightarrow> 0)
               in if er_rows res = [] then (Inr (empty_run 0), st)
                  else raise_findings env 0
                         (map (spl_args env r)
                           (spl_groups (de_exec env) (er_columns res) (measure_column n (er_columns res)) n (er_rows res)))
                         (empty_run (int (length (er_rows res)))) st)))"

section \<open>Runs\<close>

definition execute_now :: "'f detection_env \<Rightarrow> det_rule \<Rightarrow> detection_error + (int \<times> int)" where
  "execute_now env r =
     (case parse_detection_query (de_duration env) (de_now env) r of
        Inl e \<Rightarrow> Inl e
      | Inr q \<Rightarrow>
          (case count_events (de_events env) q of
             Inl e \<Rightarrow> Inl (EventsFailed e)
           | Inr n \<Rightarrow>
               if threshold_of r = 0 then Inr (n, n)
               else if d_group_by r \<noteq> [] then
                 (case search_events (de_events env) (q\<lparr>eq_limit := min n max_search_limit\<rparr>) of
                    Inl e \<Rightarrow> Inl (EventsFailed e)
                  | Inr evs \<Rightarrow> Inr (count_grouped r evs, n))
               else Inr (if n < threshold_of r then 0 else n, n)))"

definition marked :: "'f detection_env \<Rightarrow> det_rule \<Rightarrow> (detection_error + run_result) \<times> detection_state
    \<Rightarrow> (detection_error + run_result) \<times> detection_state" where
  "marked env r = (\<lambda>(out, st).
     (case out of
        Inl e \<Rightarrow> (Inl e, st)
      | Inr res \<Rightarrow> (Inr res, if d_id r = [] then st else st\<lparr>ds_rules := snd (mark_run (d_id r) (de_mark env) (ds_rules st))\<rparr>)))"

text \<open>The groups of the threshold engine that raise a finding, in the order of the map.\<close>

definition threshold_args :: "'f detection_env \<Rightarrow> det_rule \<Rightarrow> event list \<Rightarrow> (detection_args \<times> int) list" where
  "threshold_args env r evs =
     map (\<lambda>k. let g = group_of (d_group_by r) evs k; n = int (length g) in (detection_args_of r k (d_description r) n g [], n))
       (filter (\<lambda>k. reaches r (group_of (d_group_by r) evs k)) (sort_key (de_group_rank env) (group_keys (d_group_by r) evs)))"

definition run_threshold_rule :: "'f detection_env \<Rightarrow> det_rule \<Rightarrow> detection_state
    \<Rightarrow> (detection_error + run_result) \<times> detection_state" where
  "run_threshold_rule env r st =
     (case parse_detection_query (de_duration env) (de_now env) r of
        Inl e \<Rightarrow> (Inl e, st)
      | Inr q \<Rightarrow>
          (case count_events (de_events env) q of
             Inl e \<Rightarrow> (Inl (EventsFailed e), st)
           | Inr n \<Rightarrow>
               if 0 < threshold_of r \<and> n = 0 then (Inr (empty_run n), st)
               else (case search_events (de_events env) (q\<lparr>eq_limit := min (if n \<le> 0 then 200 else n) max_search_limit\<rparr>) of
                       Inl e \<Rightarrow> (Inl (EventsFailed e), st)
                     | Inr evs \<Rightarrow>
                         if d_group_by r \<noteq> [] then raise_findings env 0 (threshold_args env r evs) (empty_run n) st
                         else if 0 < threshold_of r \<and> n < threshold_of r then (Inr (empty_run n), st)
                         else let sample = take 200 evs
                              in raise_findings env 0
                                   [(detection_args_of r ''global'' (d_description r) (int (length sample)) sample [], n)]
                                   (empty_run n) st)))"

definition current_rule :: "detection_state \<Rightarrow> det_rule \<Rightarrow> det_rule" where
  "current_rule st r = (if d_id r = [] then r else case get_rule (d_id r) (ds_rules st) of Inl _ \<Rightarrow> r | Inr fresh \<Rightarrow> fresh)"

definition run_with_findings :: "'f detection_env \<Rightarrow> det_rule \<Rightarrow> detection_state
    \<Rightarrow> ((detection_error + run_result) \<times> detection_state) run" where
  "run_with_findings env r0 st =
     (let r = current_rule st r0
      in if d_suppressed r then Done (Inr (empty_run 0), st)
         else if equal_fold (d_kind r) ''spl'' then and_then (run_spl_rule env r st) (\<lambda>x. Done (marked env r x))
         else if to_lower (d_kind r) \<in> {''sequence'', ''correlation''} then
           Done (marked env r (Inr (empty_run 0),
             st\<lparr>ds_states := delete_rows (\<lambda>x. sr_rule x = d_id r \<and> sr_expires x < de_now env) (ds_states st)\<rparr>))
         else Done (marked env r (run_threshold_rule env r st)))"

section \<open>Suppression\<close>

lemma scan_suppressed: "d_suppressed (scan_rule row) = d_suppressed (rw_rule row)" "d_id (scan_rule row) = d_id (rw_rule row)"
  by (simp_all add: scan_rule_def)

text \<open>C12. Suppression is total: once \<^verbatim>\<open>Suppress\<close> has written the row of a rule, no run of that rule, whatever copy
  of it the caller holds, changes the rules, the findings, the risk or the correlation states.\<close>

theorem suppressed_rule_changes_nothing:
  assumes "suppress_rule now (d_id r) analyst reason rows = (Inr u, ds_rules st)" and "row_at row_key rows (d_id r) = Some row"
  shows "run_with_findings env r st = Done (Inr (empty_run 0), st)"
proof -
  let ?f = "\<lambda>x. x\<lparr>rw_rule := (rw_rule x)\<lparr>d_suppressed := True, d_suppressed_by := analyst, d_suppress_reason := reason, d_updated := now\<rparr>\<rparr>"
  have key: "row_key (?f y) = row_key y" for y by (simp add: row_key_def)
  have "d_id r \<noteq> []" "ds_rules st = update_rows (\<lambda>x. row_key x = d_id r) ?f rows"
    using assms(1) by (auto simp: suppress_rule_def write_rule_def split: if_splits)
  then have "get_rule (d_id r) (ds_rules st) = Inr (scan_rule (?f row))"
    using assms(2) row_at_update_key [of row_key ?f "d_id r" rows] key by (simp add: get_rule_def)
  then show ?thesis
    using \<open>d_id r \<noteq> []\<close> by (simp add: run_with_findings_def current_rule_def Let_def scan_suppressed)
qed

section \<open>Which findings a run raises\<close>

definition finding_keys :: "finding_state \<Rightarrow> string set" where
  "finding_keys fs = f_dedup ` set (findings fs)"

lemma update_keys: "(\<And>f. f_dedup (g f) = f_dedup f) \<Longrightarrow> f_dedup ` set (update_rows p g fs) = f_dedup ` set fs"
  using map_update_rows [of p f_dedup g fs] by (metis list.set_map)

lemma create_or_update_keys:
  assumes "create_or_update ord fid n1 n2 n3 a fs = (Inr (f, new), fs')"
  shows "finding_keys fs' = insert (dedup_key a) (finding_keys fs)" and "new \<longleftrightarrow> dedup_key a \<notin> finding_keys fs"
proof -
  have known: "by_dedup_key (dedup_key a) fs \<noteq> None \<longleftrightarrow> dedup_key a \<in> finding_keys fs"
    by (auto simp: by_dedup_key_def finding_keys_def select_row_None image_iff dest: sym)
  have dedup: "f_dedup (with_defaults fid n3 n3 (new_finding ord n1 n2 a)) = dedup_key a"
    by (simp add: with_defaults_def new_finding_def Let_def split: prod.splits)
  have upd: "finding_keys fs' = finding_keys fs" if "update_finding n3 g fs = (Inr f, fs')" for g
  proof -
    have "fs' = fs\<lparr>findings := update_rows (\<lambda>x. f_id x = f_id g)
        (\<lambda>x. g\<lparr>f_updated := n3, f_id := f_id x, f_dedup := f_dedup x, f_created := f_created x\<rparr>) (findings fs)\<rparr>"
      using that by (auto simp: update_finding_def Let_def split: if_splits)
    then show ?thesis unfolding finding_keys_def by (simp add: update_keys)
  qed
  have ins: "finding_keys fs' = insert (dedup_key a) (finding_keys fs)"
    if "create_finding fid n3 n3 (new_finding ord n1 n2 a) fs = (Inr f, fs')"
    using that dedup by (auto simp: create_finding_def Let_def finding_keys_def split: if_splits)
  show "finding_keys fs' = insert (dedup_key a) (finding_keys fs)"
    using assms known upd ins unfolding create_or_update_def
    by (auto split: if_splits option.splits prod.splits sum.splits)
  show "new \<longleftrightarrow> dedup_key a \<notin> finding_keys fs"
    using assms known unfolding create_or_update_def by (auto split: if_splits option.splits prod.splits sum.splits)
qed

lemma upsert_detection_keys:
  assumes "upsert_detection env i a st = (Inr (f, new), st')"
  shows "finding_keys (ds_findings st') = insert (dedup_key a) (finding_keys (ds_findings st))"
    and "new \<longleftrightarrow> dedup_key a \<notin> finding_keys (ds_findings st)" and "ds_rules st' = ds_rules st"
proof -
  obtain fid n1 n2 n3 where fnd: "de_finding env i = (fid, n1, n2, n3)" by (cases "de_finding env i")
  have c: "create_or_update (de_entity_order env) fid n1 n2 n3 a (ds_findings st) = (Inr (f, new), ds_findings st')"
    using assms by (auto simp: upsert_detection_def fnd split: prod.splits sum.splits)
  show "finding_keys (ds_findings st') = insert (dedup_key a) (finding_keys (ds_findings st))"
    and "new \<longleftrightarrow> dedup_key a \<notin> finding_keys (ds_findings st)"
    using create_or_update_keys [OF c] by simp_all
  show "ds_rules st' = ds_rules st" using assms by (auto simp: upsert_detection_def fnd split: prod.splits sum.splits)
qed

lemma raise_findings_spec:
  assumes "raise_findings env i as res st = (Inr res', st')" and "distinct (map (\<lambda>p. dedup_key (fst p)) as)"
  shows "finding_keys (ds_findings st') = finding_keys (ds_findings st) \<union> (\<lambda>p. dedup_key (fst p)) ` set as
    \<and> rr_created res' = rr_created res + int (length (filter (\<lambda>p. dedup_key (fst p) \<notin> finding_keys (ds_findings st)) as))
    \<and> rr_matched res' = rr_matched res + sum_list (map snd as) \<and> rr_total res' = rr_total res"
  using assms
proof (induction as arbitrary: i res st)
  case (Cons p as)
  obtain a n where p: "p = (a, n)" by (cases p)
  obtain f new st1 where u: "upsert_detection env i a st = (Inr (f, new), st1)"
    and rest: "raise_findings env (Suc i) as (res\<lparr>rr_matched := rr_matched res + n, rr_findings := rr_findings res @ [f_id f],
                 rr_created := rr_created res + (if new then 1 else 0)\<rparr>) st1 = (Inr res', st')"
    using Cons.prems(1) by (auto simp: p split: prod.splits sum.splits)
  have other: "dedup_key (fst q) \<noteq> dedup_key a" if "q \<in> set as" for q
  proof
    assume "dedup_key (fst q) = dedup_key a"
    then have "dedup_key a \<in> (\<lambda>p. dedup_key (fst p)) ` set as" using that by (metis imageI)
    then show False using Cons.prems(2) by (simp add: p)
  qed
  have "filter (\<lambda>p. dedup_key (fst p) \<notin> finding_keys (ds_findings st1)) as
      = filter (\<lambda>p. dedup_key (fst p) \<notin> finding_keys (ds_findings st)) as"
    using upsert_detection_keys(1) [OF u] other by (intro filter_cong) auto
  then show ?case
    using Cons.IH [OF rest] Cons.prems(2) upsert_detection_keys [OF u] by (simp add: p)
qed simp

text \<open>The events a run of the threshold engine reads.\<close>

definition run_events :: "'f detection_env \<Rightarrow> det_rule \<Rightarrow> event list" where
  "run_events env r =
     (case parse_detection_query (de_duration env) (de_now env) r of
        Inl _ \<Rightarrow> []
      | Inr q \<Rightarrow>
          (case count_events (de_events env) q of
             Inl _ \<Rightarrow> []
           | Inr n \<Rightarrow>
               if 0 < threshold_of r \<and> n = 0 then []
               else (case search_events (de_events env) (q\<lparr>eq_limit := min (if n \<le> 0 then 200 else n) max_search_limit\<rparr>) of
                       Inl _ \<Rightarrow> [] | Inr evs \<Rightarrow> evs)))"

definition reaching :: "det_rule \<Rightarrow> event list \<Rightarrow> string list" where
  "reaching r evs = filter (\<lambda>k. reaches r (group_of (d_group_by r) evs k)) (group_keys (d_group_by r) evs)"

lemma dedup_key_args: "dedup_key (detection_args_of r k desc n evs ents) = d_id r @ ''|'' @ k"
  by (simp add: dedup_key_def detection_args_of_def)

lemma threshold_args_keys:
  "map (\<lambda>p. dedup_key (fst p)) (threshold_args env r evs) =
     map (\<lambda>k. d_id r @ ''|'' @ k)
       (filter (\<lambda>k. reaches r (group_of (d_group_by r) evs k)) (sort_key (de_group_rank env) (group_keys (d_group_by r) evs)))"
  by (simp add: threshold_args_def dedup_key_args Let_def comp_def)

lemma reaching_sorted:
  "set (filter (\<lambda>k. reaches r (group_of (d_group_by r) evs k)) (sort_key rank (group_keys (d_group_by r) evs))) = set (reaching r evs)"
  by (simp add: reaching_def)

lemma threshold_args_distinct: "distinct (map (\<lambda>p. dedup_key (fst p)) (threshold_args env r evs))"
  unfolding threshold_args_keys by (simp add: distinct_map group_keys_def inj_on_def)

lemma run_threshold_cases:
  assumes "run_threshold_rule env r st = (Inr res, st')"
  obtains (early) n where "0 < threshold_of r" "n = 0" "run_events env r = []" "res = empty_run n" "st' = st"
  | (groups) n where "d_group_by r \<noteq> []"
      "raise_findings env 0 (threshold_args env r (run_events env r)) (empty_run n) st = (Inr res, st')"
  | (few) n where "d_group_by r = []" "0 < threshold_of r" "n < threshold_of r" "res = empty_run n" "st' = st"
  | (one) n where "d_group_by r = []" "\<not> (0 < threshold_of r \<and> n < threshold_of r)"
      "raise_findings env 0 [(detection_args_of r ''global'' (d_description r) (int (length (take 200 (run_events env r))))
         (take 200 (run_events env r)) [], n)] (empty_run n) st = (Inr res, st')"
proof (cases "parse_detection_query (de_duration env) (de_now env) r")
  case (Inl e)
  then show ?thesis using assms by (simp add: run_threshold_rule_def)
next
  case q: (Inr q)
  show ?thesis
  proof (cases "count_events (de_events env) q")
    case (Inl e)
    then show ?thesis using assms q by (simp add: run_threshold_rule_def)
  next
    case n: (Inr n)
    show ?thesis
    proof (cases "0 < threshold_of r \<and> n = 0")
      case True
      then show ?thesis using assms q n early [of n] by (simp add: run_threshold_rule_def run_events_def)
    next
      case False
      note run = assms [unfolded run_threshold_rule_def q n sum.case if_not_P [OF False]]
      show ?thesis
      proof (cases "search_events (de_events env) (q\<lparr>eq_limit := min (if n \<le> 0 then 200 else n) max_search_limit\<rparr>)")
        case (Inl e)
        then show ?thesis using run by simp
      next
        case evs: (Inr evs)
        have "run_events env r = evs" unfolding run_events_def q n sum.case if_not_P [OF False] evs ..
        then show ?thesis using run groups [of n] few [of n] one [of n]
          unfolding evs sum.case Let_def by (simp split: if_splits)
      qed
    qed
  qed
qed

definition rule_key :: "det_rule \<Rightarrow> string \<Rightarrow> string" where
  "rule_key r k = d_id r @ ''|'' @ k"

lemma reaching_empty: "reaching r [] = []"
  by (simp add: reaching_def group_keys_def)

lemma threshold_args_set: "(\<lambda>p. dedup_key (fst p)) ` set (threshold_args env r evs) = rule_key r ` set (reaching r evs)"
  using arg_cong [OF threshold_args_keys [of env r evs], of set]
  by (simp add: rule_key_def reaching_def image_def)

lemma count_new_keys:
  assumes "distinct (map f xs)"
  shows "length (filter (\<lambda>x. f x \<notin> A) xs) = card (f ` set xs - A)"
proof -
  have "distinct (map f (filter (\<lambda>x. f x \<notin> A) xs))" using assms by (simp add: distinct_map inj_on_def)
  then have "length (map f (filter (\<lambda>x. f x \<notin> A) xs)) = card (set (map f (filter (\<lambda>x. f x \<notin> A) xs)))"
    by (rule distinct_card [symmetric])
  moreover have "set (map f (filter (\<lambda>x. f x \<notin> A) xs)) = f ` set xs - A" by auto
  ultimately show ?thesis by simp
qed

text \<open>C7. A run of a grouped threshold rule leaves a finding for exactly the groups of the events it read that reach the
  threshold, besides the findings that were there, and it reports as created exactly those that were not.\<close>

theorem grouped_run_raises_exactly:
  assumes "d_group_by r \<noteq> []" and "run_threshold_rule env r st = (Inr res, st')"
  shows "finding_keys (ds_findings st') = finding_keys (ds_findings st) \<union> rule_key r ` set (reaching r (run_events env r))
    \<and> rr_created res = int (card (rule_key r ` set (reaching r (run_events env r)) - finding_keys (ds_findings st)))"
  using assms(2)
proof (cases rule: run_threshold_cases)
  case (groups n)
  note h = raise_findings_spec [OF groups(2) threshold_args_distinct]
  show ?thesis
    using h count_new_keys [OF threshold_args_distinct [of env r "run_events env r"], of "finding_keys (ds_findings st)"]
    unfolding threshold_args_set by (simp add: empty_run_def)
qed (use assms(1) in \<open>simp_all add: reaching_empty empty_run_def\<close>)

text \<open>A rule without a threshold and without grouping has a finding after every successful run, also when not a
  single event matches its query.\<close>

theorem unconditional_rule_always_raises:
  assumes "d_threshold r = None" and "d_group_by r = []" and "run_threshold_rule env r st = (Inr res, st')"
  shows "rule_key r ''global'' \<in> finding_keys (ds_findings st')
    \<and> rr_created res = (if rule_key r ''global'' \<in> finding_keys (ds_findings st) then 0 else 1)"
  using assms(3)
proof (cases rule: run_threshold_cases)
  case (early n)
  then show ?thesis using assms(1) by (simp add: threshold_of_def)
next
  case (few n)
  then show ?thesis using assms(1) by (simp add: threshold_of_def)
next
  case (one n)
  then show ?thesis
    using raise_findings_spec [OF one(3)] by (simp add: dedup_key_args rule_key_def empty_run_def)
qed (use assms(2) in simp)

section \<open>A small deployment\<close>

definition log_event :: "string \<Rightarrow> string \<Rightarrow> event" where
  "log_event i user = blank_event\<lparr>ev_id := i, ev_user := user\<rparr>"

text \<open>The event store of the deployment answers every query with the given events.\<close>

definition small_env :: "event list \<Rightarrow> rat detection_env" where
  "small_env evs =
     \<lparr>de_exec = sample_exec,
      de_events = \<lparr>ed_or_rank = (\<lambda>_. 0), ed_events = (\<lambda>_ _. Some evs), ed_count = (\<lambda>_ _. Some (int (length evs)))\<rparr>,
      de_duration = (\<lambda>s. if s = ''5m'' then Some (300 * second) else None), de_rows_json = (\<lambda>_. None),
      de_two_decimals = (\<lambda>_. []), de_entity_order = id, de_group_rank = (\<lambda>_. 0), de_now = 1000, de_mark = 1001,
      de_finding = (\<lambda>i. (''f'' @ decimal (int i), 1, 2, 3)), de_risk_id = (\<lambda>i j. (decimal (int (10 * i + j)), 4)),
      de_fadd = (+), de_has_risk = True\<rparr>"

definition empty_detections :: detection_state where
  "empty_detections = \<lparr>ds_rules = [], ds_findings = empty_findings, ds_risk = no_risk, ds_states = [], ds_notified = []\<rparr>"

definition login_rule :: det_rule where
  "login_rule = catalog_rule\<lparr>d_id := ''r1'', d_threshold := Some (2, ''5m''), d_group_by := [''user'']\<rparr>"

definition login_events :: "event list" where
  "login_events = [log_event ''e1'' ''ann'', log_event ''e2'' ''bob'', log_event ''e3'' ''ann'']"

theorem grouped_run_raises_exactly_witness:
  "let out = run_threshold_rule (small_env login_events) login_rule empty_detections
   in finding_keys (ds_findings (snd out)) = {''r1|ann''} \<and> rr_created (projr (fst out)) = 1"
proof -
  define out where "out = run_threshold_rule (small_env login_events) login_rule empty_detections"
  have ok: "isl (fst out) = False" unfolding out_def by code_simp
  then have out: "run_threshold_rule (small_env login_events) login_rule empty_detections = (Inr (projr (fst out)), snd out)"
    unfolding out_def [symmetric] by (cases "fst out") (auto simp: prod_eq_iff)
  have keys: "rule_key login_rule ` set (reaching login_rule (run_events (small_env login_events) login_rule)) = {''r1|ann''}"
    by code_simp
  have grouped: "d_group_by login_rule \<noteq> []" by code_simp
  have none: "finding_keys (ds_findings empty_detections) = {}" by code_simp
  show ?thesis
    using grouped_run_raises_exactly [OF grouped out] unfolding keys none Let_def out_def [symmetric] by simp
qed

theorem unconditional_rule_always_raises_witness:
  "let out = run_threshold_rule (small_env []) (login_rule\<lparr>d_threshold := None, d_group_by := []\<rparr>) empty_detections
   in ''r1|global'' \<in> finding_keys (ds_findings (snd out)) \<and> rr_created (projr (fst out)) = 1 \<and> rr_total (projr (fst out)) = 0"
proof -
  let ?r = "login_rule\<lparr>d_threshold := None, d_group_by := []\<rparr>"
  define out where "out = run_threshold_rule (small_env []) ?r empty_detections"
  have ok: "isl (fst out) = False" unfolding out_def by code_simp
  then have out: "run_threshold_rule (small_env []) ?r empty_detections = (Inr (projr (fst out)), snd out)"
    unfolding out_def [symmetric] by (cases "fst out") (auto simp: prod_eq_iff)
  have facts: "rule_key ?r ''global'' = ''r1|global''" "finding_keys (ds_findings empty_detections) = {}" by code_simp+
  have unmatched: "rr_total (projr (fst out)) = 0" unfolding out_def by code_simp
  have "rule_key ?r ''global'' \<in> finding_keys (ds_findings (snd out))
      \<and> rr_created (projr (fst out)) = (if rule_key ?r ''global'' \<in> finding_keys (ds_findings empty_detections) then 0 else 1)"
    by (rule unconditional_rule_always_raises [OF _ _ out]) simp_all
  then have "''r1|global'' \<in> finding_keys (ds_findings (snd out)) \<and> rr_created (projr (fst out)) = 1"
    unfolding facts by (simp only: empty_iff if_False)
  with unmatched show ?thesis unfolding Let_def out_def by blast
qed

theorem suppressed_rule_changes_nothing_witness:
  "let rows = snd (create_rule id ''r1'' 1 2 (Some catalog_rule) []);
       st = empty_detections\<lparr>ds_rules := snd (suppress_rule 3 ''r1'' ''qa'' ''noise'' rows)\<rparr>
   in run_with_findings (small_env login_events) login_rule st = Done (Inr (empty_run 0), st)"
proof -
  define rows where "rows = snd (create_rule id ''r1'' 1 2 (Some catalog_rule) [])"
  define rows' where "rows' = snd (suppress_rule 3 ''r1'' ''qa'' ''noise'' rows)"
  have i: "d_id login_rule = ''r1''" by code_simp
  have s: "suppress_rule 3 ''r1'' ''qa'' ''noise'' rows = (Inr (), rows')"
    unfolding rows'_def rows_def by code_simp
  have r: "row_at row_key rows ''r1'' = Some (the (row_at row_key rows ''r1''))" unfolding rows_def by code_simp
  show ?thesis
    using suppressed_rule_changes_nothing [of 3 login_rule "''qa''" "''noise''" rows "()" "empty_detections\<lparr>ds_rules := rows'\<rparr>"] i s r
    unfolding Let_def rows_def [symmetric] rows'_def [symmetric] by simp
qed

section \<open>What a query selects\<close>

lemma no_or_fields: "fold (add_or_field []) xs st = st"
  by (induction xs) (auto simp: add_or_field_def)

lemmas query_text_simps = build_event_query_def clamp_query_def new_query_def query_filters_def query_start_def string_filters_def
  add_filter_def add_range_def add_cond_def max_search_limit_def no_or_fields Let_def

lemma sorts_by_time: "to_lower ''timestamp'' \<in> set sort_columns"
  by code_simp

lemma new_query_unfiltered: "build_event_query rank new_query True = Inr (''SELECT COUNT(*) FROM events'', [])"
  using sorts_by_time by (simp add: query_text_simps)

text \<open>An OR in which no field has two values loses every filter: the run counts all events.\<close>

theorem or_of_single_values_selects_all:
  assumes "1 < length (split_text '' OR '' s)" and "list_all (\<lambda>(k, vs). length vs \<le> 1) (or_values (split_text '' OR '' s))"
  shows "build_event_query rank (parse_base_query s) True = Inr (''SELECT COUNT(*) FROM events'', [] :: rat arg list)"
proof -
  have "filter (\<lambda>(k, vs). 1 < length vs) (or_values (split_text '' OR '' s)) = []"
    using assms(2) by (auto simp: filter_empty_conv list_all_iff)
  then have "parse_base_query s = new_query"
    using assms(1) by (simp add: parse_base_query_def new_query_def)
  moreover have "build_event_query rank new_query True = Inr (''SELECT COUNT(*) FROM events'', [] :: rat arg list)"
    by (rule new_query_unfiltered)
  ultimately show ?thesis by simp
qed

theorem or_of_single_values_selects_all_witness:
  "build_event_query (\<lambda>_. 0) (parse_base_query ''source=auth OR user=root'') True
     = Inr (''SELECT COUNT(*) FROM events'', [] :: rat arg list)"
  by (rule or_of_single_values_selects_all) code_simp+

text \<open>The query of the catalog's brute force rule keeps the quotes it is written with: it compares the type and
  the outcome of an event with texts that begin and end with a quote.\<close>

theorem brute_force_query_keeps_quotes:
  "build_event_query rank (parse_base_query (cg_query sample_entry)) True =
     Inr (''SELECT COUNT(*) FROM events WHERE event_type = ? AND outcome = ?'',
          [AText ([dquote] @ ''authentication'' @ [dquote]), AText ([dquote] @ ''failure'' @ [dquote])])"
proof -
  have "parse_base_query (cg_query sample_entry) =
      new_query\<lparr>eq_event_type := [dquote] @ ''authentication'' @ [dquote], eq_outcome := [dquote] @ ''failure'' @ [dquote]\<rparr>"
    by code_simp
  then show ?thesis using sorts_by_time by (simp add: query_text_simps)
qed

section \<open>SPL rules\<close>

lemma first_column_decides:
  assumes "0 < n" and "cols \<noteq> []" and "hd cols \<noteq> []" and "list_all (\<lambda>r. numeric env (get r (hd cols)) = None) rows"
  shows "spl_groups env cols (measure_column n cols) n rows = []"
proof -
  have "measure_column n cols = hd cols" using assms(1,2) by (cases cols) (simp_all add: measure_column_def first_or_empty_def)
  then have "filter (row_reaches env (measure_column n cols) n) rows = []"
    using assms(3,4) by (auto simp: row_reaches_def filter_empty_conv list_all_iff)
  then show ?thesis by (simp add: spl_groups_def)
qed

text \<open>The threshold of an SPL rule is compared with the first result column, whatever it is: when no row has a number
  there, as in the result of a search without an aggregation, whose first column is the identifier of the event, the
  run succeeds and raises nothing, however many rows matched.\<close>

theorem spl_threshold_on_text_raises_nothing:
  assumes answer: "run_spl (de_exec env) (d_query r)
        \<lparr>ro_limit = 1000, ro_offset = 0, ro_earliest = fst period, ro_latest = snd period\<rparr> = Done (Inr res)"
    and period: "period = run_time_range (de_duration env) (de_now env) r"
    and limit: "d_threshold r = Some (n, w)" "0 < n"
    and words: "er_columns res \<noteq> []" "hd (er_columns res) \<noteq> []"
      "list_all (\<lambda>row. numeric (de_exec env) (get row (hd (er_columns res))) = None) (er_rows res)"
  shows "run_spl_rule env r st = Done (Inr (empty_run (int (length (er_rows res)))), st)"
proof -
  obtain start end' where "run_time_range (de_duration env) (de_now env) r = (start, end')" by fastforce
  then show ?thesis
    using answer period limit(1) first_column_decides [OF limit(2) words]
    by (cases "er_rows res = []") (simp_all add: run_spl_rule_def Let_def)
qed

definition cron_rule :: det_rule where
  "cron_rule = catalog_rule\<lparr>d_id := ''r2'', d_kind := ''spl'', d_query := ''search user=bob'', d_threshold := Some (1, ''5m'')\<rparr>"

theorem spl_threshold_on_text_raises_nothing_witness:
  "run_spl_rule (small_env []) cron_rule empty_detections = Done (Inr (empty_run 3), empty_detections)"
proof -
  let ?env = "small_env []" and ?range = "run_time_range (de_duration (small_env [])) (de_now (small_env [])) cron_rule"
  define ans where "ans = run_spl (de_exec ?env) (d_query cron_rule)
        \<lparr>ro_limit = 1000, ro_offset = 0, ro_earliest = fst ?range, ro_latest = snd ?range\<rparr>"
  have "case ans of Done (Inr res) \<Rightarrow> length (er_rows res) = 3 \<and> er_columns res \<noteq> [] \<and> hd (er_columns res) = ''id''
        \<and> list_all (\<lambda>row. numeric (de_exec ?env) (get row ''id'') = None) (er_rows res) | _ \<Rightarrow> False"
    unfolding ans_def by code_simp
  then obtain res where res: "ans = Done (Inr res)" "length (er_rows res) = 3" "hd (er_columns res) = ''id''" "er_columns res \<noteq> []"
      "list_all (\<lambda>row. numeric (de_exec ?env) (get row ''id'') = None) (er_rows res)"
    by (auto split: run.splits sum.splits)
  have "run_spl_rule ?env cron_rule empty_detections = Done (Inr (empty_run (int (length (er_rows res)))), empty_detections)"
    by (rule spl_threshold_on_text_raises_nothing [of ?env cron_rule ?range res 1 "''5m''"])
      (use res in \<open>simp_all add: ans_def cron_rule_def\<close>)
  then show ?thesis using res(2) by simp
qed

end
