(* ===== verification/RowLaws.thy ===== *)
theory RowLaws
  imports Rows
begin

text \<open>Further laws of tables: a row just inserted is found, and a write that keeps the key keeps what is taken.\<close>

lemma select_fresh: "\<not> taken key (key t) rows \<Longrightarrow> select_row (\<lambda>x. key x = key t) (rows @ [t]) = Some t"
proof -
  assume "\<not> taken key (key t) rows"
  then have "select_row (\<lambda>x. key x = key t) rows = None" by (auto simp: table_simps taken_def list_ex_iff)
  then show ?thesis by (simp add: select_snoc)
qed

lemma taken_keys: "taken key k rows \<longleftrightarrow> k \<in> set (map key rows)"
  by (simp add: taken_iff)

lemma taken_after_update:
  "(\<And>r. p r \<Longrightarrow> key (f r) = key r) \<Longrightarrow> taken key k (update_rows p f rows) = taken key k rows"
  by (simp only: taken_keys map_update_rows)

lemma taken_after_snoc: "taken key k (rows @ [r]) \<longleftrightarrow> taken key k rows \<or> k = key r"
  by (auto simp: taken_def)

lemma all_update:
  "list_all P rows \<Longrightarrow> (\<And>r. r \<in> set rows \<Longrightarrow> p r \<Longrightarrow> P (f r)) \<Longrightarrow> list_all P (update_rows p f rows)"
  by (auto simp: list_all_iff set_update_rows)

lemma all_delete: "list_all P rows \<Longrightarrow> list_all P (delete_rows p rows)"
  by (simp add: list_all_iff delete_rows_def)

lemma select_update_hit:
  "(\<And>r. key (f r) = key r) \<Longrightarrow> select_row (\<lambda>x. key x = k) (update_rows (\<lambda>x. key x = k) f rows)
     = map_option f (select_row (\<lambda>x. key x = k) rows)"
  by (induction rows) (simp_all add: select_row_def update_rows_def)

lemma row_count_pos: "row_count p rows \<noteq> 0 \<longleftrightarrow> list_ex p rows"
  by (induction rows) (auto simp: row_count_def)

end
