(* ===== verification/IngestTokens.thy ===== *)
theory IngestTokens
  imports Prelude RowLaws
begin

text \<open>
  Ingest tokens, \<^verbatim>\<open>internal/auth/event_tokens.go\<close>: shareable keys that may only post events. A row holds
  the hash of the token, by which it is validated, and the token encrypted under a machine key, from
  which an administrator can read it again. SHA-256 and AES-GCM are fields of the environment; random bytes,
  nonces and clock readings are arguments. Bytes are characters, and the table is created on first use,
  which has no other effect.
\<close>

section \<open>State\<close>

record ingest_token =
  xt_id :: string
  xt_name :: string
  xt_tag :: string
  xt_group :: string
  xt_hash :: string
  xt_enc :: string
  xt_prefix :: string
  xt_enabled :: bool
  xt_created_by :: string
  xt_created :: int
  xt_updated :: int

datatype ingest_error =
    KeyUnreadable
  | KeyLength nat
  | CipherTooShort
  | CipherBroken
  | InsertRefused
  | EventTokenNotFound

text \<open>\<^verbatim>\<open>NonceSize\<close>, \<^verbatim>\<open>Seal\<close> and \<^verbatim>\<open>Open\<close> of the GCM of a key.\<close>

record ingest_env =
  xe_sha :: "string \<Rightarrow> string"
  xe_nonce_size :: nat
  xe_seal :: "string \<Rightarrow> string \<Rightarrow> string \<Rightarrow> string"
  xe_open :: "string \<Rightarrow> string \<Rightarrow> string \<Rightarrow> string option"

section \<open>The machine key\<close>

datatype key_file = KeyFile string | NoKeyFile | BadKeyFile

text \<open>The key and what the file holds afterwards.\<close>

definition load_or_create_key :: "string \<Rightarrow> key_file \<Rightarrow> (ingest_error + string) \<times> key_file" where
  "load_or_create_key random file =
     (case file of
        BadKeyFile \<Rightarrow> (Inl KeyUnreadable, file)
      | KeyFile data \<Rightarrow> if length data = 32 then (Inr data, file) else (Inr random, KeyFile random)
      | NoKeyFile \<Rightarrow> (Inr random, KeyFile random))"

definition load_key :: "key_file \<Rightarrow> ingest_error + string" where
  "load_key file =
     (case file of
        KeyFile data \<Rightarrow> if length data = 32 then Inr data else Inl (KeyLength (length data))
      | _ \<Rightarrow> Inl KeyUnreadable)"

definition aes_key :: "string \<Rightarrow> bool" where
  "aes_key key = (length key \<in> {16, 24, 32})"

definition encrypt_token :: "ingest_env \<Rightarrow> string \<Rightarrow> string \<Rightarrow> string \<Rightarrow> ingest_error + string" where
  "encrypt_token env key nonce plain =
     (if \<not> aes_key key then Inl (KeyLength (length key)) else Inr (nonce @ xe_seal env key nonce plain))"

definition decrypt_token :: "ingest_env \<Rightarrow> string \<Rightarrow> string \<Rightarrow> ingest_error + string" where
  "decrypt_token env key enc =
     (if \<not> aes_key key then Inl (KeyLength (length key))
      else if length enc < xe_nonce_size env then Inl CipherTooShort
      else case xe_open env key (take (xe_nonce_size env) enc) (drop (xe_nonce_size env) enc) of
             None \<Rightarrow> Inl CipherBroken
           | Some plain \<Rightarrow> Inr plain)"

section \<open>Operations\<close>

definition hex_digit :: "nat \<Rightarrow> char" where
  "hex_digit n = ''0123456789abcdef'' ! n"

definition hex_encode :: "string \<Rightarrow> string" where
  "hex_encode bytes = concat (map (\<lambda>c. [hex_digit (code c div 16), hex_digit (code c mod 16)]) bytes)"

definition ingest_secret :: "string \<Rightarrow> string" where
  "ingest_secret random = ''qev_'' @ hex_encode random"

text \<open>
  \<open>random\<close> are the 32 bytes of the secret, \<open>idr\<close> the 16 bytes of the identifier. The result is the row and
  the secret, which is shown once.
\<close>

definition create_ingest_token :: "ingest_env \<Rightarrow> string \<Rightarrow> string \<Rightarrow> string \<Rightarrow> string \<Rightarrow> int \<Rightarrow> string \<Rightarrow> string \<Rightarrow> string \<Rightarrow> string
    \<Rightarrow> ingest_token list \<Rightarrow> (ingest_error + ingest_token \<times> string) \<times> ingest_token list" where
  "create_ingest_token env key random nonce idr now name0 tag grp by rows =
     (let name = (if name0 = [] then ''event token'' else name0); secret = ingest_secret random
      in case encrypt_token env key nonce secret of
           Inl e \<Rightarrow> (Inl e, rows)
         | Inr enc \<Rightarrow>
             let t = \<lparr>xt_id = ''evt-'' @ hex_encode idr, xt_name = name, xt_tag = tag, xt_group = grp,
                      xt_hash = xe_sha env secret, xt_enc = enc, xt_prefix = take 12 secret, xt_enabled = True,
                      xt_created_by = by, xt_created = now, xt_updated = now\<rparr>
             in if taken xt_id (xt_id t) rows \<or> taken xt_hash (xt_hash t) rows then (Inl InsertRefused, rows)
                else (Inr (t, secret), rows @ [t]))"

text \<open>The masked view: neither the hash nor the encrypted text.\<close>

definition masked :: "ingest_token \<Rightarrow> ingest_token" where
  "masked t = t\<lparr>xt_hash := [], xt_enc := []\<rparr>"

definition list_ingest_tokens :: "ingest_token list \<Rightarrow> ingest_token list" where
  "list_ingest_tokens rows = map masked (sort_desc xt_created rows)"

definition reveal :: "ingest_env \<Rightarrow> string \<Rightarrow> string \<Rightarrow> ingest_token list \<Rightarrow> ingest_error + string" where
  "reveal env key i rows =
     (case select_row (\<lambda>t. xt_id t = i) rows of
        None \<Rightarrow> Inl EventTokenNotFound
      | Some t \<Rightarrow> decrypt_token env key (xt_enc t))"

definition affected :: "string \<Rightarrow> ingest_token list \<Rightarrow> ingest_token list
    \<Rightarrow> (ingest_error + unit) \<times> ingest_token list" where
  "affected i rows rows' =
     (if row_count (\<lambda>t. xt_id t = i) rows = 0 then (Inl EventTokenNotFound, rows') else (Inr (), rows'))"

definition update_name_tags :: "int \<Rightarrow> string \<Rightarrow> string \<Rightarrow> string \<Rightarrow> string \<Rightarrow> ingest_token list
    \<Rightarrow> (ingest_error + unit) \<times> ingest_token list" where
  "update_name_tags now i name tag grp rows =
     affected i rows (update_rows (\<lambda>t. xt_id t = i)
       (\<lambda>t. t\<lparr>xt_name := name, xt_tag := tag, xt_group := grp, xt_updated := now\<rparr>) rows)"

definition expire_token :: "int \<Rightarrow> string \<Rightarrow> ingest_token list \<Rightarrow> (ingest_error + unit) \<times> ingest_token list" where
  "expire_token now i rows =
     affected i rows (update_rows (\<lambda>t. xt_id t = i) (\<lambda>t. t\<lparr>xt_enabled := False, xt_updated := now\<rparr>) rows)"

definition delete_token :: "string \<Rightarrow> ingest_token list \<Rightarrow> (ingest_error + unit) \<times> ingest_token list" where
  "delete_token i rows = affected i rows (delete_rows (\<lambda>t. xt_id t = i) rows)"

definition accepts :: "ingest_env \<Rightarrow> ingest_token list \<Rightarrow> string \<Rightarrow> bool" where
  "accepts env rows token =
     (case select_row (\<lambda>t. xt_hash t = xe_sha env token) rows of None \<Rightarrow> False | Some t \<Rightarrow> xt_enabled t)"

section \<open>Runs\<close>

text \<open>
  A run keeps, beside the rows, the hashes issued so far. The premise of a creation is what
  \<^verbatim>\<open>crypto/rand\<close> and SHA-256 are trusted for: a new secret has a hash that was never issued.
\<close>

record ingest_run =
  ir_rows :: "ingest_token list"
  ir_issued :: "string list"

inductive ingest_step :: "ingest_env \<Rightarrow> string \<Rightarrow> ingest_run \<Rightarrow> ingest_run \<Rightarrow> bool" for env key where
  issued: "xe_sha env (ingest_secret random) \<notin> set (ir_issued s) \<Longrightarrow>
    ingest_step env key s
      \<lparr>ir_rows = snd (create_ingest_token env key random nonce idr now name tag grp by (ir_rows s)),
       ir_issued = xe_sha env (ingest_secret random) # ir_issued s\<rparr>"
| renamed: "ingest_step env key s (s\<lparr>ir_rows := snd (update_name_tags now i name tag grp (ir_rows s))\<rparr>)"
| expired: "ingest_step env key s (s\<lparr>ir_rows := snd (expire_token now i (ir_rows s))\<rparr>)"
| deleted: "ingest_step env key s (s\<lparr>ir_rows := snd (delete_token i (ir_rows s))\<rparr>)"

definition ingest_inv :: "ingest_run \<Rightarrow> bool" where
  "ingest_inv s =
     (unique_by xt_id (ir_rows s) \<and> unique_by xt_hash (ir_rows s)
      \<and> list_all (\<lambda>t. xt_hash t \<in> set (ir_issued s)) (ir_rows s))"

definition hash_known :: "ingest_run \<Rightarrow> string \<Rightarrow> bool" where
  "hash_known s h = (h \<in> set (ir_issued s))"

definition hash_live :: "ingest_run \<Rightarrow> string \<Rightarrow> bool" where
  "hash_live s h = list_ex (\<lambda>t. xt_hash t = h \<and> xt_enabled t) (ir_rows s)"

lemma snd_affected [simp]: "snd (affected i rows rows') = rows'"
  by (simp add: affected_def)

lemma created_rows:
  "snd (create_ingest_token env key random nonce idr now name tag grp by rows) = rows
   \<or> (\<exists>t. snd (create_ingest_token env key random nonce idr now name tag grp by rows) = rows @ [t]
        \<and> xt_hash t = xe_sha env (ingest_secret random) \<and> \<not> taken xt_id (xt_id t) rows \<and> \<not> taken xt_hash (xt_hash t) rows)"
  by (auto simp: create_ingest_token_def Let_def split: sum.split)

lemma ingest_step_inv: "ingest_step env key s s' \<Longrightarrow> ingest_inv s \<Longrightarrow> ingest_inv s'"
proof (induction rule: ingest_step.induct)
  case (issued random s nonce idr now name tag grp b)
  show ?case
    using created_rows [of env key random nonce idr now name tag grp b "ir_rows s"] issued
    by (elim disjE exE) (auto simp: ingest_inv_def table_simps list_all_iff)
next
  case (renamed s now i name tag grp)
  then show ?case
    by (auto simp: ingest_inv_def update_name_tags_def unique_by_update set_update_rows list_all_iff)
next
  case (expired s now i)
  then show ?case
    by (auto simp: ingest_inv_def expire_token_def unique_by_update set_update_rows list_all_iff)
next
  case (deleted s i)
  then show ?case
    by (auto simp: ingest_inv_def delete_token_def unique_by_delete list_all_iff)
      (auto simp: delete_rows_def)
qed

interpretation ingest_keys: revocable hash_known hash_live "ingest_step env key"
proof
  show "ingest_step env key s s' \<Longrightarrow> hash_known s k \<Longrightarrow> hash_known s' k" for s s' k
    by (induction rule: ingest_step.induct) (auto simp: hash_known_def)
  show "ingest_step env key s s' \<Longrightarrow> hash_known s k \<Longrightarrow> hash_live s' k \<Longrightarrow> hash_live s k" for s s' k
  proof (induction rule: ingest_step.induct)
    case (issued random s nonce idr now name tag grp b)
    then show ?case
      using created_rows [of env key random nonce idr now name tag grp b "ir_rows s"]
      by (auto simp: hash_known_def hash_live_def)
  qed (auto simp: hash_live_def list_ex_iff update_name_tags_def expire_token_def delete_token_def delete_rows_def
      set_update_rows split: if_splits)
qed

section \<open>A revoked token stays revoked\<close>

lemma accepts_live: "accepts env (ir_rows s) token \<Longrightarrow> hash_live s (xe_sha env token)"
  by (auto simp: accepts_def hash_live_def list_ex_iff dest!: select_row_Some split: option.splits)

lemma reachable_ingest_inv:
  "(ingest_step env key)\<^sup>*\<^sup>* \<lparr>ir_rows = [], ir_issued = []\<rparr> s \<Longrightarrow> ingest_inv s"
proof (induction rule: rtranclp_induct)
  case base
  then show ?case by (simp add: ingest_inv_def unique_by_def)
next
  case (step y z)
  then show ?case using ingest_step_inv by blast
qed

lemma expired_not_live:
  assumes "ingest_inv s" and "t \<in> set (ir_rows s)" and "xt_id t = i"
  shows "\<not> hash_live (s\<lparr>ir_rows := snd (expire_token now i (ir_rows s))\<rparr>) (xt_hash t)"
    and "\<not> hash_live (s\<lparr>ir_rows := snd (delete_token i (ir_rows s))\<rparr>) (xt_hash t)"
  using assms unique_byD [of xt_hash "ir_rows s" _ t]
  by (auto simp: hash_live_def list_ex_iff expire_token_def delete_token_def delete_rows_def set_update_rows
      ingest_inv_def split: if_splits)

text \<open>
  An expired or deleted ingest token stays refused: in a run from the empty table, once \<^verbatim>\<open>Expire\<close> or
  \<^verbatim>\<open>Delete\<close> has been called for a stored token, no later operation makes \<^verbatim>\<open>Validate\<close> accept its secret, also
  when the row is gone and other tokens are issued.
\<close>

theorem expired_ingest_token_refused:
  assumes reach: "(ingest_step env key)\<^sup>*\<^sup>* \<lparr>ir_rows = [], ir_issued = []\<rparr> s"
    and stored: "t \<in> set (ir_rows s)" "xt_hash t = xe_sha env secret"
    and rows: "rows \<in> {snd (expire_token now (xt_id t) (ir_rows s)), snd (delete_token (xt_id t) (ir_rows s))}"
    and later: "(ingest_step env key)\<^sup>*\<^sup>* (s\<lparr>ir_rows := rows\<rparr>) s'"
  shows "\<not> accepts env (ir_rows s') secret"
proof -
  note inv = reachable_ingest_inv [OF reach]
  have "\<not> hash_live (s\<lparr>ir_rows := rows\<rparr>) (xt_hash t)"
    using rows expired_not_live [OF inv stored(1) refl] by auto
  moreover have "hash_known (s\<lparr>ir_rows := rows\<rparr>) (xt_hash t)"
    using inv stored(1) by (auto simp: ingest_inv_def hash_known_def list_all_iff)
  ultimately have "\<not> hash_live s' (xt_hash t)"
    using ingest_keys.revoked_forever [OF later] by blast
  then show ?thesis using accepts_live [of env s' secret] stored(2) by auto
qed

definition sample_ingest :: ingest_env where
  "sample_ingest = \<lparr>xe_sha = rev, xe_nonce_size = 2, xe_seal = (\<lambda>key nonce p. p @ nonce),
     xe_open = (\<lambda>key nonce c. Some (take (length c - length nonce) c))\<rparr>"

definition sample_key :: string where
  "sample_key = replicate 32 CHR ''k''"

definition one_ingest_token :: ingest_run where
  "one_ingest_token =
     \<lparr>ir_rows = snd (create_ingest_token sample_ingest sample_key ''ab'' ''nn'' ''1'' 5 [] ''web'' [] ''root'' []),
      ir_issued = [xe_sha sample_ingest (ingest_secret ''ab'')]\<rparr>"

definition expired_run :: ingest_run where
  "expired_run = one_ingest_token\<lparr>ir_rows := snd (expire_token 7 ''evt-31'' (ir_rows one_ingest_token))\<rparr>"

definition deleted_run :: ingest_run where
  "deleted_run = expired_run\<lparr>ir_rows := snd (delete_token ''evt-31'' (ir_rows expired_run))\<rparr>"

theorem expired_ingest_token_refused_witness:
  "accepts sample_ingest (ir_rows one_ingest_token) ''qev_6162''
   \<and> ir_rows deleted_run = [] \<and> \<not> accepts sample_ingest (ir_rows deleted_run) ''qev_6162''"
proof -
  let ?t = "hd (ir_rows one_ingest_token)"
  have reach: "(ingest_step sample_ingest sample_key)\<^sup>*\<^sup>* \<lparr>ir_rows = [], ir_issued = []\<rparr> one_ingest_token"
    using ingest_step.issued [of sample_ingest "''ab''" "\<lparr>ir_rows = [], ir_issued = []\<rparr>" sample_key "''nn''" "''1''" 5 "[]" "''web''" "[]" "''root''"]
    by (simp add: one_ingest_token_def r_into_rtranclp)
  have stored: "?t \<in> set (ir_rows one_ingest_token)" "xt_hash ?t = xe_sha sample_ingest ''qev_6162''" "xt_id ?t = ''evt-31''"
    by code_simp+
  have later: "(ingest_step sample_ingest sample_key)\<^sup>*\<^sup>*
      (one_ingest_token\<lparr>ir_rows := snd (expire_token 7 ''evt-31'' (ir_rows one_ingest_token))\<rparr>) deleted_run"
    unfolding deleted_run_def expired_run_def [symmetric] by (rule r_into_rtranclp) (rule ingest_step.deleted)
  have "\<not> accepts sample_ingest (ir_rows deleted_run) ''qev_6162''"
    by (rule expired_ingest_token_refused [where now = 7, OF reach stored(1,2) _ later]) (simp add: stored(3))
  moreover have "accepts sample_ingest (ir_rows one_ingest_token) ''qev_6162''" by code_simp
  moreover have "ir_rows deleted_run = []" by code_simp
  ultimately show ?thesis by blast
qed

section \<open>What is revealed\<close>

definition aead :: "ingest_env \<Rightarrow> bool" where
  "aead env = (\<forall>key nonce plain. length nonce = xe_nonce_size env \<longrightarrow>
     xe_open env key nonce (xe_seal env key nonce plain) = Some plain)"

lemma decrypt_encrypt:
  "aead env \<Longrightarrow> length nonce = xe_nonce_size env \<Longrightarrow> encrypt_token env key nonce plain = Inr enc \<Longrightarrow>
   decrypt_token env key enc = Inr plain"
  by (auto simp: encrypt_token_def decrypt_token_def aead_def split: if_splits)

text \<open>
  A created token can be read again under the same key, it is accepted at once, and the list of tokens does not
  show it: no row of the list holds its hash or its encrypted text.
\<close>

theorem created_ingest_token_is_revealed:
  assumes made: "create_ingest_token env key random nonce idr now name tag grp by rows = (Inr (t, secret), rows')"
    and gcm: "aead env" "length nonce = xe_nonce_size env"
  shows "reveal env key (xt_id t) rows' = Inr secret \<and> accepts env rows' secret
    \<and> list_all (\<lambda>x. xt_hash x = [] \<and> xt_enc x = []) (list_ingest_tokens rows')"
proof -
  obtain enc where enc: "encrypt_token env key nonce secret = Inr enc" "xt_enc t = enc" "rows' = rows @ [t]"
    "xt_hash t = xe_sha env secret" "xt_enabled t" "\<not> taken xt_id (xt_id t) rows" "\<not> taken xt_hash (xt_hash t) rows"
    using made by (auto simp: create_ingest_token_def Let_def split: sum.splits if_splits)
  have "select_row (\<lambda>x. xt_id x = xt_id t) rows' = Some t" "select_row (\<lambda>x. xt_hash x = xt_hash t) rows' = Some t"
    using select_fresh [OF enc(6)] select_fresh [OF enc(7)] enc(3) by simp_all
  then show ?thesis
    using enc decrypt_encrypt [OF gcm enc(1)]
    by (simp add: reveal_def accepts_def list_ingest_tokens_def list_all_iff masked_def)
qed

text \<open>
  A key file of the wrong length is replaced without an error: the tokens encrypted under the old key cannot be
  read again, although \<^verbatim>\<open>LoadEncryptionKey\<close> reports such a file.
\<close>

theorem damaged_key_file_is_replaced:
  assumes "length data \<noteq> 32"
  shows "load_or_create_key random (KeyFile data) = (Inr random, KeyFile random)
    \<and> load_key (KeyFile data) = Inl (KeyLength (length data))"
  using assms by (simp add: load_or_create_key_def load_key_def)

end
