(* ===== verification/CaseStore.thy ===== *)
theory CaseStore
  imports GoText RowLaws FindingStore
begin

text \<open>
  The cases of an analyst: incidents with comments (\<^verbatim>\<open>internal/incidents/incident.go\<close>) and investigations
  with notes (\<^verbatim>\<open>internal/investigations/investigations.go\<close>). A list is stored as the JSON text that
  \<^verbatim>\<open>encoding/json\<close> reads back, so a row holds the list itself. Fresh identifiers and clock readings
  are arguments; where a statement leaves the order of rows open, a rank gives it.
\<close>

datatype case_error =
    NilCase
  | EmptyCaseId
  | CaseNotFound string
  | EmptyStatusText
  | BadStatus string
  | TitleRequired
  | EmptyBody
  | BodyTooLong
  | EmptyQuery
  | EntityRequired
  | EntityLimit
  | UnsupportedColumn
  | CaseWrite

section \<open>Incidents\<close>

record incident =
  ic_id :: string
  ic_title :: string
  ic_severity :: string
  ic_status :: string
  ic_created :: int
  ic_updated :: int
  ic_assignee :: string
  ic_description :: string
  ic_alerts :: "string list"
  ic_events :: "string list"
  ic_entities :: "string list"

record comment =
  co_id :: string
  co_incident :: string
  co_author :: string
  co_body :: string
  co_created :: int

record incident_state =
  incidents :: "incident list"
  comments :: "comment list"

definition incident_statuses :: "string list" where
  "incident_statuses = [''new'', ''acknowledged'', ''in_progress'', ''solved'', ''cancelled'', ''closed'']"

definition valid_incident_status :: "string \<Rightarrow> bool" where
  "valid_incident_status s = (s \<in> set incident_statuses)"

definition incident_defaults :: "string \<Rightarrow> int \<Rightarrow> int \<Rightarrow> incident \<Rightarrow> incident" where
  "incident_defaults uuid now1 now2 x =
     x\<lparr>ic_id := (if ic_id x = [] then uuid else ic_id x),
       ic_severity := (if ic_severity x = [] then ''medium'' else ic_severity x),
       ic_status := (if ic_status x = [] then ''open'' else ic_status x),
       ic_created := now1, ic_updated := now2\<rparr>"

definition create_incident :: "string \<Rightarrow> int \<Rightarrow> int \<Rightarrow> incident option \<Rightarrow> incident_state
    \<Rightarrow> (case_error + incident) \<times> incident_state" where
  "create_incident uuid now1 now2 x0 st =
     (case x0 of
        None \<Rightarrow> (Inl NilCase, st)
      | Some y \<Rightarrow>
          let x = incident_defaults uuid now1 now2 y
          in if taken ic_id (ic_id x) (incidents st) then (Inl CaseWrite, st)
             else (Inr x, st\<lparr>incidents := incidents st @ [x]\<rparr>))"

definition get_incident :: "string \<Rightarrow> incident_state \<Rightarrow> case_error + incident" where
  "get_incident i st =
     (if i = [] then Inl EmptyCaseId
      else case select_row (\<lambda>x. ic_id x = i) (incidents st) of
             None \<Rightarrow> Inl (CaseNotFound i)
           | Some x \<Rightarrow> Inr x)"

record incident_filter =
  if_severity :: string
  if_status :: string
  if_limit :: int
  if_offset :: int

definition list_incidents :: "(incident \<Rightarrow> nat) \<Rightarrow> incident_filter \<Rightarrow> incident_state \<Rightarrow> incident list" where
  "list_incidents rank f st =
     (let limit = (if if_limit f \<le> 0 then 100 else if_limit f); offset = (if if_offset f < 0 then 0 else if_offset f)
      in take (nat limit) (drop (nat offset)
           (sort_desc (\<lambda>x. (ic_created x, rank x))
             (filter (\<lambda>x. (if_severity f = [] \<or> ic_severity x = if_severity f) \<and> (if_status f = [] \<or> ic_status x = if_status f))
               (incidents st)))))"

definition write_incident :: "string \<Rightarrow> (incident \<Rightarrow> incident) \<Rightarrow> incident_state \<Rightarrow> incident_state" where
  "write_incident i f st = st\<lparr>incidents := update_rows (\<lambda>x. ic_id x = i) f (incidents st)\<rparr>"

definition set_incident_status :: "int \<Rightarrow> string \<Rightarrow> string \<Rightarrow> incident_state \<Rightarrow> (case_error + unit) \<times> incident_state" where
  "set_incident_status now i status st =
     (if i = [] then (Inl EmptyCaseId, st)
      else if status = [] then (Inl EmptyStatusText, st)
      else (Inr (), write_incident i (\<lambda>x. x\<lparr>ic_status := status, ic_updated := now\<rparr>) st))"

definition add_alerts :: "int \<Rightarrow> string \<Rightarrow> string list \<Rightarrow> incident_state \<Rightarrow> (case_error + unit) \<times> incident_state" where
  "add_alerts now i ids st =
     (if i = [] then (Inl EmptyCaseId, st)
      else case get_incident i st of
             Inl e \<Rightarrow> (Inl e, st)
           | Inr x \<Rightarrow> (Inr (), write_incident i
               (\<lambda>y. y\<lparr>ic_alerts := dedup_onto (ic_alerts x) ids, ic_updated := now\<rparr>) st))"

definition add_incident_events :: "int \<Rightarrow> string \<Rightarrow> string list \<Rightarrow> incident_state \<Rightarrow> (case_error + unit) \<times> incident_state" where
  "add_incident_events now i ids st =
     (if i = [] then (Inl EmptyCaseId, st)
      else case get_incident i st of
             Inl e \<Rightarrow> (Inl e, st)
           | Inr x \<Rightarrow> (Inr (), write_incident i
               (\<lambda>y. y\<lparr>ic_events := dedup_onto (ic_events x) ids, ic_updated := now\<rparr>) st))"

definition update_incident :: "int \<Rightarrow> incident option \<Rightarrow> incident_state \<Rightarrow> (case_error + unit) \<times> incident_state" where
  "update_incident now x0 st =
     (case x0 of
        None \<Rightarrow> (Inl NilCase, st)
      | Some x \<Rightarrow>
          if ic_id x = [] then (Inl EmptyCaseId, st)
          else (Inr (), write_incident (ic_id x)
            (\<lambda>y. x\<lparr>ic_id := ic_id y, ic_created := ic_created y, ic_updated := now\<rparr>) st))"

definition add_comment :: "string \<Rightarrow> int \<Rightarrow> string \<Rightarrow> string \<Rightarrow> string \<Rightarrow> incident_state
    \<Rightarrow> (case_error + comment) \<times> incident_state" where
  "add_comment uuid now i author body st =
     (if i = [] then (Inl EmptyCaseId, st)
      else if trim_space body = [] then (Inl EmptyBody, st)
      else let c = \<lparr>co_id = uuid, co_incident = i, co_author = author, co_body = body, co_created = now\<rparr>
           in if taken co_id uuid (comments st) \<or> \<not> taken ic_id i (incidents st) then (Inl CaseWrite, st)
              else (Inr c, st\<lparr>comments := comments st @ [c]\<rparr>))"

definition list_comments :: "string \<Rightarrow> incident_state \<Rightarrow> case_error + comment list" where
  "list_comments i st =
     (if i = [] then Inl EmptyCaseId
      else Inr (sort_key (\<lambda>c. (co_created c, co_id c)) (filter (\<lambda>c. co_incident c = i) (comments st))))"

inductive incident_step :: "incident_state \<Rightarrow> incident_state \<Rightarrow> bool" where
  opened: "incident_step st (snd (create_incident uuid now1 now2 x st))"
| moved: "incident_step st (snd (set_incident_status now i status st))"
| alerts_added: "incident_step st (snd (add_alerts now i ids st))"
| events_added: "incident_step st (snd (add_incident_events now i ids st))"
| rewritten: "incident_step st (snd (update_incident now x st))"
| commented: "incident_step st (snd (add_comment uuid now i author body st))"

section \<open>Investigations\<close>

type_synonym entity_name = "string \<times> string"

record investigation =
  iv_id :: string
  iv_title :: string
  iv_description :: string
  iv_severity :: string
  iv_status :: string
  iv_assignee :: string
  iv_findings :: "string list"
  iv_events :: "string list"
  iv_entities :: "entity_name list"
  iv_queries :: "string list"
  iv_techniques :: "string list"
  iv_created :: int
  iv_updated :: int

record case_note =
  cn_id :: string
  cn_case :: string
  cn_author :: string
  cn_body :: string
  cn_created :: int

record case_state =
  investigations :: "investigation list"
  case_notes :: "case_note list"

definition case_statuses :: "string list" where
  "case_statuses = [''new'', ''in_progress'', ''contained'', ''resolved'', ''false_positive'', ''cancelled'']"

definition valid_case_status :: "string \<Rightarrow> bool" where
  "valid_case_status s = (s \<in> set case_statuses)"

definition case_defaults :: "string \<Rightarrow> int \<Rightarrow> investigation \<Rightarrow> investigation" where
  "case_defaults uuid now x =
     x\<lparr>iv_id := (if iv_id x = [] then uuid else iv_id x), iv_status := (if iv_status x = [] then ''new'' else iv_status x),
       iv_created := now, iv_updated := now\<rparr>"

definition create_case :: "string \<Rightarrow> int \<Rightarrow> investigation option \<Rightarrow> case_state \<Rightarrow> (case_error + investigation) \<times> case_state" where
  "create_case uuid now x0 st =
     (case x0 of
        None \<Rightarrow> (Inl TitleRequired, st)
      | Some y \<Rightarrow>
          if iv_title y = [] then (Inl TitleRequired, st)
          else let x = case_defaults uuid now y
               in if taken iv_id (iv_id x) (investigations st) then (Inl CaseWrite, st)
                  else (Inr x, st\<lparr>investigations := investigations st @ [x]\<rparr>))"

definition list_case_notes :: "string \<Rightarrow> case_state \<Rightarrow> case_note list" where
  "list_case_notes i st = sort_key (\<lambda>n. (cn_created n, cn_id n)) (filter (\<lambda>n. cn_case n = i) (case_notes st))"

definition get_case :: "string \<Rightarrow> case_state \<Rightarrow> case_error + investigation \<times> case_note list" where
  "get_case i st =
     (if i = [] then Inl EmptyCaseId
      else case select_row (\<lambda>x. iv_id x = i) (investigations st) of
             None \<Rightarrow> Inl (CaseNotFound i)
           | Some x \<Rightarrow> Inr (x, list_case_notes i st))"

record case_filter =
  cf_severity :: string
  cf_status :: string
  cf_assignee :: string
  cf_limit :: int
  cf_offset :: int

definition case_matches :: "case_filter \<Rightarrow> investigation \<Rightarrow> bool" where
  "case_matches f x =
     ((cf_severity f = [] \<or> iv_severity x = cf_severity f) \<and> (cf_status f = [] \<or> iv_status x = cf_status f)
      \<and> (cf_assignee f = [] \<or> iv_assignee x = cf_assignee f))"

definition list_cases :: "(investigation \<Rightarrow> nat) \<Rightarrow> case_filter \<Rightarrow> case_state \<Rightarrow> investigation list \<times> nat" where
  "list_cases rank f st =
     (let limit = (if cf_limit f \<le> 0 \<or> 500 < cf_limit f then 100 else cf_limit f);
          offset = (if cf_offset f < 0 then 0 else cf_offset f);
          hits = filter (case_matches f) (investigations st)
      in (take (nat limit) (drop (nat offset) (sort_desc (\<lambda>x. (iv_updated x, rank x)) hits)), length hits))"

definition update_case :: "int \<Rightarrow> investigation option \<Rightarrow> case_state \<Rightarrow> (case_error + unit) \<times> case_state" where
  "update_case now x0 st =
     (case x0 of
        None \<Rightarrow> (Inl EmptyCaseId, st)
      | Some x \<Rightarrow>
          if iv_id x = [] then (Inl EmptyCaseId, st)
          else (Inr (), st\<lparr>investigations := update_rows (\<lambda>y. iv_id y = iv_id x)
            (\<lambda>y. x\<lparr>iv_id := iv_id y, iv_created := iv_created y, iv_updated := now\<rparr>) (investigations st)\<rparr>))"

definition set_case_status :: "int \<Rightarrow> string \<Rightarrow> string \<Rightarrow> case_state \<Rightarrow> (case_error + unit) \<times> case_state" where
  "set_case_status now i status st =
     (if \<not> valid_case_status status then (Inl (BadStatus status), st)
      else if row_count (\<lambda>x. iv_id x = i) (investigations st) = 0 then (Inl (CaseNotFound i), st)
      else (Inr (), st\<lparr>investigations := update_rows (\<lambda>x. iv_id x = i)
             (\<lambda>x. x\<lparr>iv_status := status, iv_updated := now\<rparr>) (investigations st)\<rparr>))"

text \<open>The columns that \<^verbatim>\<open>mergeStringList\<close> names.\<close>

definition read_column :: "string \<Rightarrow> investigation \<Rightarrow> string list option" where
  "read_column col x =
     (if col = ''event_ids'' then Some (iv_events x)
      else if col = ''finding_ids'' then Some (iv_findings x)
      else if col = ''queries'' then Some (iv_queries x)
      else if col = ''techniques'' then Some (iv_techniques x) else None)"

definition write_column :: "string \<Rightarrow> string list \<Rightarrow> investigation \<Rightarrow> investigation" where
  "write_column col vs x =
     (if col = ''event_ids'' then x\<lparr>iv_events := vs\<rparr>
      else if col = ''finding_ids'' then x\<lparr>iv_findings := vs\<rparr>
      else if col = ''queries'' then x\<lparr>iv_queries := vs\<rparr>
      else if col = ''techniques'' then x\<lparr>iv_techniques := vs\<rparr> else x)"

definition merge_string_list :: "int \<Rightarrow> string \<Rightarrow> string \<Rightarrow> string list \<Rightarrow> int \<Rightarrow> case_state \<Rightarrow> (case_error + unit) \<times> case_state" where
  "merge_string_list now i col add cap st =
     (case get_case i st of
        Inl e \<Rightarrow> (Inl e, st)
      | Inr (x, ns) \<Rightarrow>
          (case read_column col x of
             None \<Rightarrow> (Inl UnsupportedColumn, st)
           | Some cur \<Rightarrow> update_case now (Some (write_column col (add_capped cap cur add) x)) st))"

definition add_case_events :: "int \<Rightarrow> string \<Rightarrow> string list \<Rightarrow> case_state \<Rightarrow> (case_error + unit) \<times> case_state" where
  "add_case_events now i ids st = merge_string_list now i ''event_ids'' ids 500 st"

definition add_case_findings :: "int \<Rightarrow> string \<Rightarrow> string list \<Rightarrow> case_state \<Rightarrow> (case_error + unit) \<times> case_state" where
  "add_case_findings now i ids st = merge_string_list now i ''finding_ids'' ids 200 st"

definition add_case_query :: "int \<Rightarrow> string \<Rightarrow> string \<Rightarrow> case_state \<Rightarrow> (case_error + unit) \<times> case_state" where
  "add_case_query now i query st =
     (if trim_space query = [] then (Inl EmptyQuery, st) else merge_string_list now i ''queries'' [query] 100 st)"

definition add_case_technique :: "int \<Rightarrow> string \<Rightarrow> string \<Rightarrow> case_state \<Rightarrow> (case_error + unit) \<times> case_state" where
  "add_case_technique now i technique st = merge_string_list now i ''techniques'' [technique] 50 st"

definition add_case_entity :: "int \<Rightarrow> string \<Rightarrow> entity_name \<Rightarrow> case_state \<Rightarrow> (case_error + unit) \<times> case_state" where
  "add_case_entity now i e st =
     (if fst e = [] \<or> snd e = [] then (Inl EntityRequired, st)
      else case get_case i st of
             Inl err \<Rightarrow> (Inl err, st)
           | Inr (x, ns) \<Rightarrow>
               if e \<in> set (iv_entities x) then (Inr (), st)
               else if 200 \<le> length (iv_entities x) then (Inl EntityLimit, st)
               else update_case now (Some (x\<lparr>iv_entities := iv_entities x @ [e]\<rparr>)) st)"

definition add_case_note :: "string \<Rightarrow> int \<Rightarrow> case_note option \<Rightarrow> case_state \<Rightarrow> (case_error + case_note) \<times> case_state" where
  "add_case_note uuid now n0 st =
     (case n0 of
        None \<Rightarrow> (Inl NilCase, st)
      | Some m \<Rightarrow>
          if cn_case m = [] then (Inl EmptyCaseId, st)
          else if trim_space (cn_body m) = [] then (Inl EmptyBody, st)
          else if 4000 < length (utf8 (cn_body m)) then (Inl BodyTooLong, st)
          else let n = m\<lparr>cn_id := (if cn_id m = [] then uuid else cn_id m), cn_created := now\<rparr>
               in if taken cn_id (cn_id n) (case_notes st) \<or> \<not> taken iv_id (cn_case n) (investigations st)
                  then (Inl CaseWrite, st)
                  else (Inr n, st\<lparr>case_notes := case_notes st @ [n]\<rparr>))"

section \<open>Incidents, lemmas\<close>

definition incident_inv :: "incident_state \<Rightarrow> bool" where
  "incident_inv st =
     (unique_by ic_id (incidents st) \<and> unique_by co_id (comments st)
      \<and> list_all (\<lambda>c. taken ic_id (co_incident c) (incidents st) \<and> trim_space (co_body c) \<noteq> []) (comments st))"

lemma taken_write: "(\<And>x. ic_id x = i \<Longrightarrow> ic_id (f x) = i) \<Longrightarrow> taken ic_id k (incidents (write_incident i f st)) = taken ic_id k (incidents st)"
  by (simp add: write_incident_def taken_after_update)

lemma write_incident_inv:
  "(\<And>x. ic_id x = i \<Longrightarrow> ic_id (f x) = i) \<Longrightarrow> incident_inv st \<Longrightarrow> incident_inv (write_incident i f st)"
  using taken_write [of i f _ st]
  by (simp add: incident_inv_def) (simp add: write_incident_def unique_by_update)

lemma incident_step_inv: "incident_step st st' \<Longrightarrow> incident_inv st \<Longrightarrow> incident_inv st'"
proof (induction rule: incident_step.induct)
  case (opened st uuid now1 now2 x)
  then show ?case
    by (auto simp: create_incident_def Let_def incident_inv_def table_simps list_all_iff taken_iff split: option.splits)
next
  case (moved st now i status)
  then show ?case by (auto simp: set_incident_status_def intro: write_incident_inv)
next
  case (alerts_added st now i ids)
  then show ?case by (auto simp: add_alerts_def intro: write_incident_inv split: sum.splits)
next
  case (events_added st now i ids)
  then show ?case by (auto simp: add_incident_events_def intro: write_incident_inv split: sum.splits)
next
  case (rewritten st now x)
  then show ?case by (auto simp: update_incident_def intro: write_incident_inv split: option.splits)
next
  case (commented st uuid now i author body)
  then show ?case by (auto simp: add_comment_def Let_def incident_inv_def table_simps)
qed

text \<open>
  In every state the incident store reaches, incidents and comments are unique by identifier, and every comment
  has a text and belongs to a stored incident.
\<close>

theorem incidents_reachable_inv:
  assumes "incident_step\<^sup>*\<^sup>* \<lparr>incidents = [], comments = []\<rparr> st"
  shows "incident_inv st"
  using assms
proof (induction rule: rtranclp_induct)
  case base
  then show ?case by (simp add: incident_inv_def unique_by_def)
next
  case (step y z)
  then show ?case using incident_step_inv by blast
qed

text \<open>
  An incident created without a status is stored with one that is not in the lifecycle: \<^verbatim>\<open>ValidStatus\<close> refuses
  it, and a list of the incidents of any valid status does not show it.
\<close>

theorem default_status_is_invalid:
  assumes "create_incident uuid now1 now2 (Some x) st = (Inr y, st')" and "ic_status x = []"
  shows "y \<in> set (incidents st') \<and> \<not> valid_incident_status (ic_status y)
    \<and> (valid_incident_status s \<longrightarrow> y \<notin> set (list_incidents rank \<lparr>if_severity = [], if_status = s, if_limit = n, if_offset = k\<rparr> st'))"
proof -
  have y: "y = incident_defaults uuid now1 now2 x" "y \<in> set (incidents st')"
    using assms(1) by (auto simp: create_incident_def Let_def split: if_splits)
  then have s: "ic_status y = ''open''" using assms(2) by (simp add: incident_defaults_def)
  have "y \<notin> set (list_incidents rank \<lparr>if_severity = [], if_status = s, if_limit = n, if_offset = k\<rparr> st')" if v: "valid_incident_status s"
  proof
    assume "y \<in> set (list_incidents rank \<lparr>if_severity = [], if_status = s, if_limit = n, if_offset = k\<rparr> st')"
    then have "s = [] \<or> ic_status y = s"
      by (auto simp: list_incidents_def Let_def dest!: in_set_takeD in_set_dropD)
    then show False using v s by (auto simp: valid_incident_status_def incident_statuses_def)
  qed
  then show ?thesis using y s by (simp add: valid_incident_status_def incident_statuses_def)
qed

section \<open>Investigations, lemmas\<close>

text \<open>The operations that \<^verbatim>\<open>Update\<close> is not: a new investigation is empty or made from a finding.\<close>

definition modest :: "investigation \<Rightarrow> bool" where
  "modest x =
     (length (iv_events x) \<le> 500 \<and> length (iv_findings x) \<le> 200 \<and> length (iv_queries x) \<le> 100
      \<and> length (iv_techniques x) \<le> 50 \<and> length (iv_entities x) \<le> 200
      \<and> distinct (iv_events x) \<and> distinct (iv_findings x) \<and> distinct (iv_queries x)
      \<and> distinct (iv_techniques x) \<and> distinct (iv_entities x))"

inductive case_step :: "case_state \<Rightarrow> case_state \<Rightarrow> bool" where
  case_opened: "modest x \<Longrightarrow> case_step st (snd (create_case uuid now (Some x) st))"
| case_moved: "case_step st (snd (set_case_status now i status st))"
| case_events: "case_step st (snd (add_case_events now i ids st))"
| case_findings: "case_step st (snd (add_case_findings now i ids st))"
| case_query: "case_step st (snd (add_case_query now i query st))"
| case_technique: "case_step st (snd (add_case_technique now i technique st))"
| case_entity: "case_step st (snd (add_case_entity now i e st))"
| case_noted: "case_step st (snd (add_case_note uuid now n st))"

definition case_inv :: "case_state \<Rightarrow> bool" where
  "case_inv st =
     (unique_by iv_id (investigations st) \<and> list_all modest (investigations st) \<and> unique_by cn_id (case_notes st)
      \<and> list_all (\<lambda>n. taken iv_id (cn_case n) (investigations st) \<and> length (utf8 (cn_body n)) \<le> 4000) (case_notes st))"

lemma add_capped_bound:
  "length out \<le> nat cap \<Longrightarrow> distinct out \<Longrightarrow> length (add_capped cap out vs) \<le> nat cap \<and> distinct (add_capped cap out vs)"
  by (auto simp: add_capped_take distinct_dedup_onto)

lemma update_case_inv:
  assumes "case_inv st" and "modest x"
  shows "case_inv (snd (update_case now (Some x) st))"
proof -
  let ?f = "\<lambda>y. x\<lparr>iv_id := iv_id y, iv_created := iv_created y, iv_updated := now\<rparr>"
  have "modest (?f y)" for y using assms(2) by (simp add: modest_def)
  with assms(1) show ?thesis
    by (auto simp: update_case_def case_inv_def unique_by_update taken_after_update intro!: all_update)
qed

lemma get_case_modest: "case_inv st \<Longrightarrow> get_case i st = Inr (x, ns) \<Longrightarrow> modest x \<and> x \<in> set (investigations st)"
  by (auto simp: get_case_def case_inv_def list_all_iff split: if_splits option.splits dest!: select_row_Some)

lemma merge_string_list_inv:
  assumes inv: "case_inv st" and col: "(col, cap) \<in> {(''event_ids'', 500), (''finding_ids'', 200), (''queries'', 100), (''techniques'', 50)}"
  shows "case_inv (snd (merge_string_list now i col add cap st))"
proof (cases "get_case i st")
  case (Inl e)
  then show ?thesis using inv by (simp add: merge_string_list_def)
next
  case (Inr r)
  obtain x ns where r: "r = (x, ns)" by (cases r)
  have m: "modest x" using get_case_modest [OF inv] Inr r by blast
  obtain cur where cur: "read_column col x = Some cur" using col by (auto simp: read_column_def)
  have "length cur \<le> nat cap \<and> distinct cur" using m cur col by (auto simp: modest_def read_column_def)
  then have "length (add_capped cap cur add) \<le> nat cap \<and> distinct (add_capped cap cur add)"
    by (intro add_capped_bound) simp_all
  then have "modest (write_column col (add_capped cap cur add) x)"
    using m col unfolding modest_def write_column_def by (elim insertE emptyE) simp_all
  then show ?thesis using inv Inr r cur update_case_inv by (simp add: merge_string_list_def)
qed

lemma case_step_inv: "case_step st st' \<Longrightarrow> case_inv st \<Longrightarrow> case_inv st'"
proof (induction rule: case_step.induct)
  case (case_opened x st uuid now)
  moreover have "modest (case_defaults uuid now x)" using case_opened(1) by (simp add: modest_def case_defaults_def)
  ultimately show ?case
    by (auto simp: create_case_def Let_def case_inv_def table_simps list_all_iff taken_iff)
next
  case (case_moved st now i status)
  have "modest (x\<lparr>iv_status := status, iv_updated := now\<rparr>) = modest x" for x by (simp add: modest_def)
  then have "list_all modest (investigations st) \<Longrightarrow> list_all modest (update_rows (\<lambda>x. iv_id x = i)
      (\<lambda>x. x\<lparr>iv_status := status, iv_updated := now\<rparr>) (investigations st))"
    by (intro all_update) (simp_all add: list_all_iff)
  then show ?case
    using case_moved by (simp add: set_case_status_def case_inv_def unique_by_update taken_after_update)
next
  case (case_entity st now i e)
  show ?case
  proof (cases "get_case i st")
    case (Inl err)
    then show ?thesis using case_entity by (simp add: add_case_entity_def)
  next
    case (Inr r)
    obtain x ns where r: "r = (x, ns)" by (cases r)
    have m: "modest x" using get_case_modest [OF case_entity] Inr r by blast
    then have "modest (x\<lparr>iv_entities := iv_entities x @ [e]\<rparr>)"
      if "e \<notin> set (iv_entities x)" "\<not> 200 \<le> length (iv_entities x)"
      using that by (simp add: modest_def)
    then show ?thesis using case_entity Inr r update_case_inv by (simp add: add_case_entity_def)
  qed
next
  case (case_noted st uuid now n)
  then show ?case
    by (auto simp: add_case_note_def Let_def case_inv_def table_simps list_all_iff split: option.splits)
qed (auto simp: add_case_events_def add_case_findings_def add_case_query_def add_case_technique_def
    intro: merge_string_list_inv)

text \<open>
  An investigation stays within its bounds: in every state that is reached without \<^verbatim>\<open>Update\<close> it has at most 500 events,
  200 findings, 100 queries, 50 techniques and 200 entities, each of them once, and every note has at most 4000
  bytes and belongs to a stored investigation.
\<close>

theorem investigations_stay_bounded:
  assumes "case_step\<^sup>*\<^sup>* \<lparr>investigations = [], case_notes = []\<rparr> st"
  shows "case_inv st"
  using assms
proof (induction rule: rtranclp_induct)
  case base
  then show ?case by (simp add: case_inv_def unique_by_def)
next
  case (step y z)
  then show ?case using case_step_inv by blast
qed

end
