(* ===== verification/NetAddr.thy ===== *)
theory NetAddr
  imports GoText "HOL-Library.Char_ord"
begin

text \<open>
  \<^verbatim>\<open>net.ParseIP\<close> and the classes of addresses that the code asks for. An address is the list of its
  bytes, four for a dotted address and sixteen for one with colons; an IPv4-mapped address is classified as
  the IPv4 address it holds, as \<^verbatim>\<open>To4\<close> does.
\<close>

section \<open>Parsing\<close>

text \<open>A decimal field: at most 255, without a leading zero.\<close>

definition parse_field4 :: "string \<Rightarrow> int option" where
  "parse_field4 s =
     (if s = [] \<or> \<not> list_all is_digit s \<or> 3 < length s \<or> (1 < length s \<and> hd s = CHR ''0'') \<or> 255 < digits_val s then None
      else Some (int (digits_val s)))"

fun all_present :: "'a option list \<Rightarrow> 'a list option" where
  "all_present [] = Some []"
| "all_present (None # xs) = None"
| "all_present (Some x # xs) = (case all_present xs of None \<Rightarrow> None | Some ys \<Rightarrow> Some (x # ys))"

definition parse_ipv4 :: "string \<Rightarrow> int list option" where
  "parse_ipv4 s =
     (let fs = split_text ''.'' s in if length fs \<noteq> 4 then None else all_present (map parse_field4 fs))"

definition hex_val :: "char \<Rightarrow> int option" where
  "hex_val c =
     map_of (zip ''0123456789abcdefABCDEF'' [0, 1, 2, 3, 4, 5, 6, 7, 8, 9, 10, 11, 12, 13, 14, 15, 10, 11, 12, 13, 14, 15]) c"

definition hex_run :: "string \<Rightarrow> string" where
  "hex_run s = takeWhile (\<lambda>c. hex_val c \<noteq> None) s"

definition hex_number :: "string \<Rightarrow> int" where
  "hex_number s = foldl (\<lambda>n c. 16 * n + the (hex_val c)) 0 s"

text \<open>
  The loop over the groups: the bytes read so far, where the ellipsis is, and the rest of the text. A group
  has at most four digits, the last one may be a dotted address, and at most one ellipsis is allowed.
\<close>

datatype group_step =
    Stop "(int list \<times> nat option) option"
  | More "int list" "nat option" string

definition after_group :: "int list \<Rightarrow> nat option \<Rightarrow> string \<Rightarrow> group_step" where
  "after_group bs gap r =
     (if r = [] then Stop (Some (bs, gap))
      else if hd r \<noteq> CHR '':'' \<or> tl r = [] then Stop None
      else if hd (tl r) \<noteq> CHR '':'' then More bs gap (tl r)
      else if gap \<noteq> None then Stop None
      else if tl (tl r) = [] then Stop (Some (bs, Some (length bs)))
      else More bs (Some (length bs)) (tl (tl r)))"

definition one_group :: "int list \<Rightarrow> nat option \<Rightarrow> string \<Rightarrow> group_step" where
  "one_group bs gap s =
     (let h = hex_run s; r = drop (length h) s
      in if h = [] \<or> 4 < length h then Stop None
         else if r \<noteq> [] \<and> hd r = CHR ''.'' then
           (if (gap = None \<and> length bs \<noteq> 12) \<or> 16 < length bs + 4 then Stop None
            else Stop (case parse_ipv4 s of None \<Rightarrow> None | Some q \<Rightarrow> Some (bs @ q, gap)))
         else after_group (bs @ [hex_number h div 256, hex_number h mod 256]) gap r)"

lemma one_group_More: "one_group bs gap s = More bs' gap' s' \<Longrightarrow> length bs' = length bs + 2"
  by (auto simp: one_group_def after_group_def Let_def split: if_splits)

function groups6 :: "int list \<Rightarrow> nat option \<Rightarrow> string \<Rightarrow> (int list \<times> nat option) option" where
  "groups6 bs gap s =
     (if 16 \<le> length bs then (if s = [] then Some (bs, gap) else None)
      else case one_group bs gap s of
             Stop r \<Rightarrow> r
           | More bs' gap' s' \<Rightarrow> groups6 bs' gap' s')"
  by pat_completeness auto
termination
  by (relation "measure (\<lambda>(bs, gap, s). 16 - length bs)") (auto dest!: one_group_More)

declare groups6.simps [simp del]

definition fill_gap :: "int list \<times> nat option \<Rightarrow> int list option" where
  "fill_gap = (\<lambda>(bs, gap).
     if length bs = 16 then (if gap = None then Some bs else None)
     else case gap of
            None \<Rightarrow> None
          | Some k \<Rightarrow> Some (take k bs @ replicate (16 - length bs) 0 @ drop k bs))"

definition parse_ipv6 :: "string \<Rightarrow> int list option" where
  "parse_ipv6 s =
     (if prefix ''::'' s then
        (if drop 2 s = [] then Some (replicate 16 0)
         else case groups6 [] (Some 0) (drop 2 s) of None \<Rightarrow> None | Some g \<Rightarrow> fill_gap g)
      else case groups6 [] None s of None \<Rightarrow> None | Some g \<Rightarrow> fill_gap g)"

text \<open>The first dot or colon decides; a zone is refused.\<close>

definition parse_ip :: "string \<Rightarrow> int list option" where
  "parse_ip s =
     (case dropWhile (\<lambda>c. c \<noteq> CHR ''.'' \<and> c \<noteq> CHR '':'') s of
        [] \<Rightarrow> None
      | c # cs \<Rightarrow> if c = CHR ''.'' then parse_ipv4 s else parse_ipv6 s)"

section \<open>Classes\<close>

definition to4 :: "int list \<Rightarrow> int list option" where
  "to4 ip =
     (if length ip = 4 then Some ip
      else if length ip = 16 \<and> take 10 ip = replicate 10 0 \<and> take 2 (drop 10 ip) = [255, 255] then Some (drop 12 ip)
      else None)"

definition is_loopback :: "int list \<Rightarrow> bool" where
  "is_loopback ip = (case to4 ip of Some q \<Rightarrow> hd q = 127 | None \<Rightarrow> ip = replicate 15 0 @ [1])"

definition is_private :: "int list \<Rightarrow> bool" where
  "is_private ip =
     (case to4 ip of
        Some q \<Rightarrow> q ! 0 = 10 \<or> (q ! 0 = 172 \<and> q ! 1 div 16 = 1) \<or> (q ! 0 = 192 \<and> q ! 1 = 168)
      | None \<Rightarrow> length ip = 16 \<and> ip ! 0 div 2 = 126)"

definition is_link_local :: "int list \<Rightarrow> bool" where
  "is_link_local ip =
     (case to4 ip of
        Some q \<Rightarrow> q ! 0 = 169 \<and> q ! 1 = 254
      | None \<Rightarrow> length ip = 16 \<and> ip ! 0 = 254 \<and> ip ! 1 div 64 = 2)"

definition is_unspecified :: "int list \<Rightarrow> bool" where
  "is_unspecified ip = (to4 ip = Some [0, 0, 0, 0] \<or> ip = replicate 16 0)"

section \<open>Lemmas\<close>

lemma all_present_length: "all_present xs = Some ys \<Longrightarrow> length ys = length xs"
  by (induction xs arbitrary: ys rule: all_present.induct) (auto split: option.splits)

lemma parse_ipv4_length: "parse_ipv4 s = Some ip \<Longrightarrow> length ip = 4"
  by (auto simp: parse_ipv4_def Let_def dest: all_present_length split: if_splits)

lemma fill_gap_length: "fill_gap g = Some ip \<Longrightarrow> length (fst g) \<le> 16 \<Longrightarrow> length ip = 16"
  by (cases g) (auto simp: fill_gap_def min_def split: if_splits option.splits)

lemma one_group_Stop:
  "one_group bs gap s = Stop (Some g) \<Longrightarrow> length bs < 16 \<Longrightarrow> even (length bs) \<Longrightarrow> length (fst g) \<le> 16"
  by (auto simp: one_group_def after_group_def Let_def dest: parse_ipv4_length split: if_splits option.splits; presburger)

lemma groups6_length:
  "groups6 bs gap s = Some g \<Longrightarrow> length bs \<le> 16 \<Longrightarrow> even (length bs) \<Longrightarrow> length (fst g) \<le> 16"
proof (induction bs gap s arbitrary: g rule: groups6.induct)
  case (1 bs gap s)
  note unfold = 1(2) [unfolded groups6.simps [of bs gap s]]
  show ?case
  proof (cases "16 \<le> length bs")
    case True
    then show ?thesis using unfold 1(3) by (auto split: if_splits)
  next
    case False
    show ?thesis
    proof (cases "one_group bs gap s")
      fix r
      assume stop: "one_group bs gap s = Stop r"
      then have "r = Some g" using unfold False by simp
      then show ?thesis using one_group_Stop [of bs gap s g] stop False 1(4) by simp
    next
      fix bs' gap' s'
      assume more: "one_group bs gap s = More bs' gap' s'"
      then have g: "groups6 bs' gap' s' = Some g" using unfold False by simp
      have "length bs' = length bs + 2" using one_group_More [OF more] .
      then have "length bs' \<le> 16" "even (length bs')" using False 1(4) by presburger+
      then show ?thesis using 1(1) [OF False more] g by blast
    qed
  qed
qed

lemma parse_ipv6_length: "parse_ipv6 s = Some ip \<Longrightarrow> length ip = 16"
  by (auto simp: parse_ipv6_def dest!: groups6_length intro: fill_gap_length split: if_splits option.splits)

lemma parse_ip_length: "parse_ip s = Some ip \<Longrightarrow> length ip = 4 \<or> length ip = 16"
  by (auto simp: parse_ip_def dest: parse_ipv4_length parse_ipv6_length split: list.splits if_splits)

lemma sample_addresses:
  "parse_ip ''10.0.0.1'' = Some [10, 0, 0, 1]" "parse_ip ''010.0.0.1'' = None" "parse_ip ''1.2.3'' = None"
  "parse_ip ''::1'' = Some (replicate 15 0 @ [1])" "parse_ip ''fe80::1:2'' = Some ([254, 128] @ replicate 11 0 @ [1, 0, 2])"
  "parse_ip ''::ffff:127.0.0.1'' = Some (replicate 10 0 @ [255, 255, 127, 0, 0, 1])"
  "parse_ip ''1:2:3:4:5:6:7:8:9'' = None" "parse_ip ''::'' = Some (replicate 16 0)" "parse_ip ''host'' = None"
  by code_simp+

end
