(* ===== verification/ResponseActions.thy ===== *)
theory ResponseActions
  imports NetAddr CaseStore RiskStore
begin

text \<open>
  The actions an analyst runs on a finding, \<^verbatim>\<open>internal/response/response.go\<close>, with the guard on outbound
  addresses and the ledger of executed actions. The URL parser, the HTTP client, the JSON text of the
  details, \<^verbatim>\<open>strconv.Quote\<close> and the text of an error are fields of the environment, as are fresh identifiers
  and the clock.
\<close>

section \<open>State\<close>

record action =
  ac_name :: string
  ac_key :: string
  ac_description :: string
  ac_sensitive :: bool
  ac_params :: "string list"

record execution =
  lg_id :: string
  lg_name :: string
  lg_action :: string
  lg_target :: string
  lg_details :: string
  lg_user :: string
  lg_status :: string
  lg_created :: int

record action_request =
  xr_action :: string
  xr_target :: string
  xr_owner :: string
  xr_tag :: string
  xr_points :: rat
  xr_title :: string
  xr_query :: string
  xr_url :: string
  xr_event :: string
  xr_payload :: string
  xr_user :: string

datatype detail = DText string | DNumber rat | DList "string list"

datatype response_error =
    UnknownAction string
  | NoFindingStore
  | Required string
  | PointsNotPositive
  | FindingError finding_error
  | CaseError case_error
  | InvalidUrl
  | SchemeRefused
  | HostMissing
  | Restricted string
  | RequestInvalid
  | DeliveryFailed
  | Unhandled string

record response_state =
  rp_findings :: finding_state
  rp_cases :: case_state
  rp_risk :: risk_state
  rp_ledger :: "execution list"
  rp_sent :: "(string \<times> string) list"

text \<open>Which stores were given, then what the code calls.\<close>

record response_env =
  re_findings :: bool
  re_cases :: bool
  re_risk :: bool
  re_now :: int
  re_fresh :: "nat \<Rightarrow> string"
  re_add :: "rat \<Rightarrow> rat \<Rightarrow> rat"
  re_url :: "string \<Rightarrow> (string \<times> string) option"
  re_request :: "string \<Rightarrow> bool"
  re_http :: "string \<Rightarrow> string \<Rightarrow> (string \<times> int \<times> string) option"
  re_json :: "(string \<times> detail) list \<Rightarrow> string"
  re_time :: "int \<Rightarrow> string"
  re_quote :: "string \<Rightarrow> string"
  re_error :: "response_error \<Rightarrow> string"

type_synonym details = "(string \<times> detail) list"

type_synonym 'a response = "(response_error + 'a) \<times> response_state"

section \<open>The registry\<close>

definition builtin_actions :: "action list" where
  "builtin_actions =
     [\<lparr>ac_name = ''Mark False Positive'', ac_key = ''finding.mark_false_positive'',
        ac_description = ''Close a finding as a false positive'', ac_sensitive = True, ac_params = [''finding_id'']\<rparr>,
      \<lparr>ac_name = ''Assign Analyst'', ac_key = ''finding.assign'',
        ac_description = ''Assign a finding to an analyst'', ac_sensitive = False, ac_params = [''finding_id'', ''owner'']\<rparr>,
      \<lparr>ac_name = ''Add Tag'', ac_key = ''finding.add_tag'',
        ac_description = ''Add a tag to a finding'', ac_sensitive = False, ac_params = [''finding_id'', ''tag'']\<rparr>,
      \<lparr>ac_name = ''Increase Risk'', ac_key = ''finding.increase_risk'',
        ac_description = ''Add risk points to the finding'' @ [CHR 0x27] @ ''s primary entities'', ac_sensitive = True, ac_params = [''finding_id'', ''points'']\<rparr>,
      \<lparr>ac_name = ''Create Investigation'', ac_key = ''investigation.create'',
        ac_description = ''Open a new investigation from a finding'', ac_sensitive = True, ac_params = [''finding_id'', ''title'']\<rparr>,
      \<lparr>ac_name = ''Run Search'', ac_key = ''search.run'',
        ac_description = ''Run a search query (executed in the UI)'', ac_sensitive = False, ac_params = [''query'']\<rparr>,
      \<lparr>ac_name = ''Open URL'', ac_key = ''url.open'',
        ac_description = ''Open an external URL in a new tab'', ac_sensitive = False, ac_params = [''url'']\<rparr>,
      \<lparr>ac_name = ''Execute Webhook'', ac_key = ''webhook.execute'',
        ac_description = ''POST a signed payload to an external webhook (public URLs only)'', ac_sensitive = True, ac_params = [''url'', ''event'', ''payload'']\<rparr>]"

definition lookup_action :: "string \<Rightarrow> action option" where
  "lookup_action key = find (\<lambda>a. ac_key a = key) builtin_actions"

section \<open>Outbound addresses\<close>

definition validate_outbound :: "response_env \<Rightarrow> string \<Rightarrow> response_error + string" where
  "validate_outbound env raw =
     (case re_url env (trim_space raw) of
        None \<Rightarrow> Inl InvalidUrl
      | Some (scheme, host) \<Rightarrow>
          if scheme \<noteq> ''http'' \<and> scheme \<noteq> ''https'' then Inl SchemeRefused
          else if host = [] then Inl HostMissing else Inr host)"

definition restricted_ip :: "int list \<Rightarrow> bool" where
  "restricted_ip ip = (is_loopback ip \<or> is_private ip \<or> is_link_local ip \<or> is_unspecified ip)"

definition deny_restricted_host :: "string \<Rightarrow> response_error option" where
  "deny_restricted_host host =
     (case parse_ip host of
        Some ip \<Rightarrow> if restricted_ip ip then Some (Restricted host) else None
      | None \<Rightarrow>
          if to_lower host \<in> {''localhost'', ''metadata.google.internal'', ''169.254.169.254''} then Some (Restricted host)
          else None)"

section \<open>The actions\<close>

definition mark_false_positive :: "response_env \<Rightarrow> action_request \<Rightarrow> response_state \<Rightarrow> details response" where
  "mark_false_positive env r st =
     (if xr_target r = [] then (Inl (Required ''finding_id''), st)
      else case update_status (re_now env) (xr_target r) ''false_positive'' (rp_findings st) of
             (Inl e, fs) \<Rightarrow> (Inl (FindingError e), st\<lparr>rp_findings := fs\<rparr>)
           | (Inr u, fs) \<Rightarrow> (Inr [(''finding_id'', DText (xr_target r)), (''status'', DText ''false_positive'')], st\<lparr>rp_findings := fs\<rparr>))"

definition assign_finding :: "response_env \<Rightarrow> action_request \<Rightarrow> response_state \<Rightarrow> details response" where
  "assign_finding env r st =
     (if xr_target r = [] \<or> xr_owner r = [] then (Inl (Required ''finding_id and owner''), st)
      else case assign (re_now env) (xr_target r) (xr_owner r) (rp_findings st) of
             (Inl e, fs) \<Rightarrow> (Inl (FindingError e), st\<lparr>rp_findings := fs\<rparr>)
           | (Inr u, fs) \<Rightarrow> (Inr [(''finding_id'', DText (xr_target r)), (''owner'', DText (xr_owner r))], st\<lparr>rp_findings := fs\<rparr>))"

definition add_tag :: "response_env \<Rightarrow> action_request \<Rightarrow> response_state \<Rightarrow> details response" where
  "add_tag env r st =
     (if xr_target r = [] \<or> xr_tag r = [] then (Inl (Required ''finding_id and tag''), st)
      else case get_finding (xr_target r) (rp_findings st) of
             Inl e \<Rightarrow> (Inl (FindingError e), st)
           | Inr f \<Rightarrow>
               if list_ex (\<lambda>t. equal_fold t (xr_tag r)) (f_tags f)
               then (Inr [(''finding_id'', DText (xr_target r)), (''tags'', DList (f_tags f))], st)
               else (case update_finding (re_now env) (f\<lparr>f_tags := f_tags f @ [xr_tag r]\<rparr>) (rp_findings st) of
                       (Inl e, fs) \<Rightarrow> (Inl (FindingError e), st\<lparr>rp_findings := fs\<rparr>)
                     | (Inr g, fs) \<Rightarrow> (Inr [(''finding_id'', DText (xr_target r)), (''tags'', DList (f_tags g))], st\<lparr>rp_findings := fs\<rparr>)))"

text \<open>References of the form type:value with a value; a reference without a colon is dropped.\<close>

definition split_entities :: "string list \<Rightarrow> node_ref list" where
  "split_entities es =
     List.map_filter (\<lambda>e. case cut CHR '':'' e of Some (t, v) \<Rightarrow> if v \<noteq> [] then Some (t, v) else None | None \<Rightarrow> None) es"

definition manual_contribution :: "response_env \<Rightarrow> finding \<Rightarrow> rat \<Rightarrow> node_ref \<Rightarrow> risk_entry" where
  "manual_contribution env f points n =
     \<lparr>rc_id = [], rc_node = n, rc_source_type = ''action'', rc_source_id = f_id f,
      rc_description = ''Manual risk increase on finding '' @ re_quote env (f_title f), rc_points = points,
      rc_event = [], rc_created = 0\<rparr>"

fun record_each :: "response_env \<Rightarrow> nat \<Rightarrow> risk_entry list \<Rightarrow> risk_state \<Rightarrow> risk_state" where
  "record_each env i [] rs = rs"
| "record_each env i (c # cs) rs = record_each env (Suc i) cs (snd (record_risk (re_add env) (re_fresh env i) (re_now env) c rs))"

definition increase_risk :: "response_env \<Rightarrow> action_request \<Rightarrow> response_state \<Rightarrow> details response" where
  "increase_risk env r st =
     (if xr_target r = [] then (Inl (Required ''finding_id''), st)
      else if xr_points r \<le> 0 then (Inl PointsNotPositive, st)
      else case get_finding (xr_target r) (rp_findings st) of
             Inl e \<Rightarrow> (Inl (FindingError e), st)
           | Inr f \<Rightarrow>
               (case update_finding (re_now env) (f\<lparr>f_risk := re_add env (f_risk f) (xr_points r)\<rparr>) (rp_findings st) of
                  (Inl e, fs) \<Rightarrow> (Inl (FindingError e), st\<lparr>rp_findings := fs\<rparr>)
                | (Inr g, fs) \<Rightarrow>
                    (Inr [(''finding_id'', DText (xr_target r)), (''risk_score'', DNumber (f_risk g))],
                     st\<lparr>rp_findings := fs,
                        rp_risk := (if re_risk env
                          then record_each env 2 (map (manual_contribution env f (xr_points r)) (split_entities (f_entities f))) (rp_risk st)
                          else rp_risk st)\<rparr>)))"

definition nonempty_text :: "string \<Rightarrow> string list" where
  "nonempty_text s = (if s = [] then [] else [s])"

definition case_of_finding :: "string \<Rightarrow> finding \<Rightarrow> investigation" where
  "case_of_finding title f =
     \<lparr>iv_id = [], iv_title = title, iv_description = [], iv_severity = f_severity f, iv_status = ''in_progress'',
      iv_assignee = f_owner f, iv_findings = [f_id f], iv_events = [], iv_entities = split_entities (f_entities f),
      iv_queries = [], iv_techniques = nonempty_text (f_technique f), iv_created = 0, iv_updated = 0\<rparr>"

definition open_investigation :: "response_env \<Rightarrow> action_request \<Rightarrow> response_state \<Rightarrow> details response" where
  "open_investigation env r st =
     (if \<not> re_cases env \<or> xr_target r = [] then (Inl (Required ''finding_id''), st)
      else case get_finding (xr_target r) (rp_findings st) of
             Inl e \<Rightarrow> (Inl (FindingError e), st)
           | Inr f \<Rightarrow>
               let title = (if trim_space (xr_title r) = [] then ''Investigation: '' @ f_title f else trim_space (xr_title r))
               in (case create_case (re_fresh env 1) (re_now env) (Some (case_of_finding title f)) (rp_cases st) of
                     (Inl e, cs) \<Rightarrow> (Inl (CaseError e), st\<lparr>rp_cases := cs\<rparr>)
                   | (Inr c, cs) \<Rightarrow>
                       (Inr [(''investigation_id'', DText (iv_id c)), (''finding_id'', DText (f_id f))], st\<lparr>rp_cases := cs\<rparr>)))"

definition run_search :: "action_request \<Rightarrow> response_state \<Rightarrow> details response" where
  "run_search r st =
     (if trim_space (xr_query r) = [] then (Inl (Required ''query''), st) else (Inr [(''query'', DText (xr_query r))], st))"

definition open_url :: "response_env \<Rightarrow> action_request \<Rightarrow> response_state \<Rightarrow> details response" where
  "open_url env r st =
     (case validate_outbound env (xr_url r) of Inl e \<Rightarrow> (Inl e, st) | Inr u \<Rightarrow> (Inr [(''url'', DText u)], st))"

definition webhook_payload :: "response_env \<Rightarrow> action_request \<Rightarrow> string" where
  "webhook_payload env r =
     (if xr_payload r \<noteq> [] then xr_payload r
      else re_json env [(''event'', DText (xr_event r)), (''target'', DText (xr_target r)), (''user'', DText (xr_user r)),
             (''time'', DText (re_time env (re_now env)))])"

definition execute_webhook :: "response_env \<Rightarrow> action_request \<Rightarrow> response_state \<Rightarrow> details response" where
  "execute_webhook env r st =
     (case validate_outbound env (xr_url r) of
        Inl e \<Rightarrow> (Inl e, st)
      | Inr host \<Rightarrow>
          (case deny_restricted_host host of
             Some e \<Rightarrow> (Inl e, st)
           | None \<Rightarrow>
               if \<not> re_request env (xr_url r) then (Inl RequestInvalid, st)
               else let st' = st\<lparr>rp_sent := rp_sent st @ [(xr_url r, webhook_payload env r)]\<rparr>
                    in (case re_http env (xr_url r) (webhook_payload env r) of
                          None \<Rightarrow> (Inl DeliveryFailed, st')
                        | Some (status, scode, body) \<Rightarrow>
                            (Inr [(''url'', DText (xr_url r)), (''status'', DText status), (''status_code'', DNumber (of_int scode)),
                                  (''response'', DText (trim_space (take 4096 body)))], st'))))"

definition run_action :: "response_env \<Rightarrow> action_request \<Rightarrow> response_state \<Rightarrow> details response" where
  "run_action env r st =
     (let k = xr_action r
      in if \<not> re_findings env then (Inl NoFindingStore, st)
         else if k = ''finding.mark_false_positive'' then mark_false_positive env r st
         else if k = ''finding.assign'' then assign_finding env r st
         else if k = ''finding.add_tag'' then add_tag env r st
         else if k = ''finding.increase_risk'' then increase_risk env r st
         else if k = ''investigation.create'' then open_investigation env r st
         else if k = ''search.run'' then run_search r st
         else if k = ''url.open'' then open_url env r st
         else if k = ''webhook.execute'' then execute_webhook env r st
         else (Inl (Unhandled k), st))"

definition log_action :: "response_env \<Rightarrow> action_request \<Rightarrow> string \<Rightarrow> string \<Rightarrow> string \<Rightarrow> response_state \<Rightarrow> response_state" where
  "log_action env r name status text st =
     (if taken lg_id (re_fresh env 0) (rp_ledger st) then st
      else st\<lparr>rp_ledger := rp_ledger st @
             [\<lparr>lg_id = re_fresh env 0, lg_name = name, lg_action = xr_action r, lg_target = xr_target r, lg_details = text,
               lg_user = xr_user r, lg_status = status, lg_created = re_now env\<rparr>]\<rparr>)"

definition summarize :: "response_env \<Rightarrow> details \<Rightarrow> string" where
  "summarize env ds = take 300 (re_json env ds)"

definition execute_action :: "response_env \<Rightarrow> action_request \<Rightarrow> response_state \<Rightarrow> details response" where
  "execute_action env r st =
     (case lookup_action (xr_action r) of
        None \<Rightarrow> (Inl (UnknownAction (xr_action r)), st)
      | Some a \<Rightarrow>
          (case run_action env r st of
             (Inl e, st') \<Rightarrow> (Inl e, log_action env r (ac_name a) ''error'' (re_error env e) st')
           | (Inr ds, st') \<Rightarrow> (Inr ds, log_action env r (ac_name a) ''ok'' (summarize env ds) st')))"

definition history :: "(execution \<Rightarrow> nat) \<Rightarrow> int \<Rightarrow> response_state \<Rightarrow> execution list" where
  "history rank limit st =
     take (if limit \<le> 0 \<or> 200 < limit then 50 else nat limit) (sort_desc (\<lambda>x. (lg_created x, rank x)) (rp_ledger st))"

section \<open>The ledger\<close>

lemma write_one_error: "write_one i f fs = (Inl e, fs') \<Longrightarrow> fs' = fs"
proof -
  assume w: "write_one i f fs = (Inl e, fs')"
  then have z: "row_count (\<lambda>x. f_id x = i) (findings fs) = 0" by (auto simp: write_one_def Let_def split: if_splits)
  then have "update_rows (\<lambda>x. f_id x = i) f (findings fs) = findings fs"
    by (simp add: row_count_def update_rows_def filter_empty_conv map_idI)
  with w z show "fs' = fs" by (simp add: write_one_def Let_def)
qed

lemma status_error: "update_status now i s fs = (Inl e, fs') \<Longrightarrow> fs' = fs"
  by (auto simp: update_status_def dest: write_one_error split: if_splits)

lemma assign_error: "assign now i s fs = (Inl e, fs') \<Longrightarrow> fs' = fs"
  by (auto simp: assign_def dest: write_one_error)

lemma update_error: "update_finding now f fs = (Inl e, fs') \<Longrightarrow> fs' = fs"
  by (auto simp: update_finding_def Let_def split: if_splits)

lemma case_error: "create_case u now x cs = (Inl e, cs') \<Longrightarrow> cs' = cs"
  by (auto simp: create_case_def Let_def split: option.splits if_splits)

text \<open>An action leaves the ledger alone and, when it fails, the stores.\<close>

definition honest :: "response_state \<Rightarrow> details response \<Rightarrow> bool" where
  "honest st res =
     (rp_ledger (snd res) = rp_ledger st
      \<and> (isl (fst res) \<longrightarrow> rp_findings (snd res) = rp_findings st \<and> rp_cases (snd res) = rp_cases st \<and> rp_risk (snd res) = rp_risk st))"

named_theorems honest_actions \<open>which actions are honest\<close>

lemma honest_same [honest_actions]: "honest st (x, st)"
  by (simp add: honest_def)

lemma honest_mark [honest_actions]: "honest st (mark_false_positive env r st)"
  by (auto simp: honest_def mark_false_positive_def dest: status_error split: prod.split sum.split)

lemma honest_assign [honest_actions]: "honest st (assign_finding env r st)"
  by (auto simp: honest_def assign_finding_def dest: assign_error split: prod.split sum.split)

lemma honest_tag [honest_actions]: "honest st (add_tag env r st)"
  by (auto simp: honest_def add_tag_def dest: update_error split: prod.split sum.split)

lemma honest_risk [honest_actions]: "honest st (increase_risk env r st)"
  by (auto simp: honest_def increase_risk_def dest: update_error split: prod.split sum.split)

lemma honest_case [honest_actions]: "honest st (open_investigation env r st)"
  by (auto simp: honest_def open_investigation_def Let_def dest: case_error split: prod.split sum.split)

lemma honest_search [honest_actions]: "honest st (run_search r st)"
  by (simp add: honest_def run_search_def)

lemma honest_open [honest_actions]: "honest st (open_url env r st)"
  by (simp add: honest_def open_url_def split: sum.split)

lemma honest_webhook [honest_actions]: "honest st (execute_webhook env r st)"
  by (simp add: honest_def execute_webhook_def Let_def split: sum.split option.split)

lemma honest_run: "honest st (run_action env r st)"
  by (simp add: run_action_def Let_def honest_actions)

lemma ledger_untouched: "rp_ledger (snd (run_action env r st)) = rp_ledger st"
  using honest_run [of st env r] by (simp add: honest_def)

lemma failed_run:
  "run_action env r st = (Inl e, st') \<Longrightarrow> rp_findings st' = rp_findings st \<and> rp_cases st' = rp_cases st \<and> rp_risk st' = rp_risk st"
  using honest_run [of st env r] by (simp add: honest_def)







text \<open>
  Every execution of a known action is in the ledger, once, with its outcome; an unknown action changes nothing;
  and an action that fails has changed neither a finding nor an investigation nor a risk.
\<close>

theorem executions_are_logged:
  assumes "\<not> taken lg_id (re_fresh env 0) (rp_ledger st)"
  shows "case lookup_action (xr_action r) of
     None \<Rightarrow> execute_action env r st = (Inl (UnknownAction (xr_action r)), st)
   | Some a \<Rightarrow>
       (\<exists>x. rp_ledger (snd (execute_action env r st)) = rp_ledger st @ [x]
          \<and> lg_action x = xr_action r \<and> lg_user x = xr_user r \<and> lg_target x = xr_target r
          \<and> (lg_status x = ''ok'') = (\<not> isl (fst (execute_action env r st))))
       \<and> (isl (fst (execute_action env r st)) \<longrightarrow>
            rp_findings (snd (execute_action env r st)) = rp_findings st
            \<and> rp_cases (snd (execute_action env r st)) = rp_cases st \<and> rp_risk (snd (execute_action env r st)) = rp_risk st)"
proof (cases "lookup_action (xr_action r)")
  case None
  then show ?thesis by (simp add: execute_action_def)
next
  case (Some a)
  obtain res st' where run: "run_action env r st = (res, st')" by fastforce
  have led: "rp_ledger st' = rp_ledger st" using ledger_untouched [of env r st] run by simp
  show ?thesis
  proof (cases res)
    case (Inl e)
    then show ?thesis
      using Some run led assms failed_run [of env r st e st'] by (simp add: execute_action_def log_action_def)
  next
    case (Inr ds)
    then show ?thesis using Some run led assms by (simp add: execute_action_def log_action_def)
  qed
qed

section \<open>The guard\<close>























text \<open>
  The guard looks at the text of the host: a name with a trailing dot, an address with a zone and the short forms
  of an address pass, although they reach the same machine.
\<close>

theorem guard_misses_spellings:
  "deny_restricted_host ''localhost.'' = None \<and> deny_restricted_host ''fe80::1%eth0'' = None
   \<and> deny_restricted_host ''127.1'' = None \<and> deny_restricted_host ''LocalHost'' = Some (Restricted ''LocalHost'')
   \<and> deny_restricted_host ''::ffff:10.0.0.1'' = Some (Restricted ''::ffff:10.0.0.1'')"
  by code_simp

text \<open>The action that opens a URL answers the host of the URL instead of the URL: the path and the query are lost.\<close>

theorem open_url_answers_host:
  assumes "re_url env (trim_space url) = Some (''https'', host)" and "host \<noteq> []"
  shows "fst (open_url env (r\<lparr>xr_url := url\<rparr>) st) = Inr [(''url'', DText host)]"
  using assms by (simp add: open_url_def validate_outbound_def)

end
