(* ===== verification/CoverageStore.thy ===== *)
theory CoverageStore
  imports AssetStore RowLaws EventModel SplEval
begin

text \<open>
  Telemetry coverage, \<^verbatim>\<open>internal/coverage/coverage.go\<close>, over the taxonomy of \<^verbatim>\<open>internal/normalization/classes.go\<close>:
  which source classes an asset emits, how fresh they are, and which expected ones are absent. A
  weight is the value of its float and \<open>rnd\<close> the rounding of an arithmetic operation; the order in which a Go
  map is ranged and the ties of a query are given by ranks.
\<close>

section \<open>The taxonomy\<close>

definition generic_class :: string where "generic_class = ''generic''"

definition all_classes :: "string list" where
  "all_classes =
     [''os.windows.security'', ''os.windows.sysmon'', ''os.windows.powershell'', ''os.windows.defender'', ''os.windows.dns'',
      ''os.windows.rdp'', ''os.windows.kerberos'', ''os.macos.unified'', ''os.macos.launchd'', ''os.macos.endpoint'',
      ''os.linux.auditd'', ''os.linux.auth'', ''os.linux.sshd'', ''os.linux.sudo'', ''os.linux.journal'', ''os.linux.syslog'',
      ''os.solaris.audit'', ''os.generic'', ''web.access'', ''web.error'', ''db.log'', ''identity.log'', ''application.generic'',
      ''net.firewall'', ''net.ids'', ''net.dns'', ''net.dhcp'', ''net.flow'', ''net.vpn'', ''net.proxy'', ''cloud.audit'',
      ''cloud.flow'', ''cloud.iam'', ''container.runtime'', ''k8s.audit'', ''mainframe.smf'', ''mainframe.racf'', ''generic'']"

definition is_known_class :: "string \<Rightarrow> bool" where
  "is_known_class c = (c \<in> set all_classes)"

definition class_for :: "string \<Rightarrow> string" where
  "class_for s = (if is_known_class s then s else generic_class)"

definition event_class :: "event \<Rightarrow> string" where
  "event_class ev = (case map_of (ev_attributes ev) ''source_class'' of Some c \<Rightarrow> class_for c | None \<Rightarrow> generic_class)"

section \<open>The table\<close>

record class_row =
  cr_asset :: string
  cr_class :: string
  cr_available :: bool
  cr_last :: "int option"
  cr_count :: int
  cr_expected :: bool
  cr_collector :: string

datatype coverage_error = CoverageWrite | CoverageAsset asset_error

definition class_key :: "class_row \<Rightarrow> string \<times> string" where
  "class_key r = (cr_asset r, cr_class r)"

definition later_time :: "int option \<Rightarrow> int option \<Rightarrow> int option" where
  "later_time new old =
     (case new of None \<Rightarrow> old | Some a \<Rightarrow> (case old of None \<Rightarrow> Some a | Some b \<Rightarrow> if a < b then Some b else Some a))"

definition merge_class :: "class_row \<Rightarrow> class_row \<Rightarrow> class_row" where
  "merge_class new old =
     old\<lparr>cr_available := cr_available new, cr_last := later_time (cr_last new) (cr_last old), cr_count := cr_count new,
         cr_expected := (cr_expected new \<or> cr_expected old),
         cr_collector := (if cr_collector new \<noteq> [] then cr_collector new else cr_collector old)\<rparr>"

definition expect_class :: "class_row \<Rightarrow> class_row \<Rightarrow> class_row" where
  "expect_class new old = old\<lparr>cr_expected := True\<rparr>"

text \<open>The asset has to exist, by the foreign key.\<close>

definition upsert_class :: "asset_state \<Rightarrow> class_row \<Rightarrow> class_row list \<Rightarrow> (coverage_error + unit) \<times> class_row list" where
  "upsert_class ast r rows =
     (if \<not> taken as_id (cr_asset r) (assets ast) then (Inl CoverageWrite, rows)
      else (Inr (), upsert_row class_key merge_class r rows))"

definition class_rows :: "string \<Rightarrow> class_row list \<Rightarrow> class_row list" where
  "class_rows i rows = sort_key cr_class (filter (\<lambda>r. cr_asset r = i) rows)"

definition mark_class_expected :: "asset_state \<Rightarrow> string \<Rightarrow> string \<Rightarrow> class_row list \<Rightarrow> (coverage_error + unit) \<times> class_row list" where
  "mark_class_expected ast i c rows =
     (if \<not> taken as_id i (assets ast) then (Inl CoverageWrite, rows)
      else (Inr (), upsert_row class_key expect_class
             \<lparr>cr_asset = i, cr_class = c, cr_available = False, cr_last = None, cr_count = 0, cr_expected = True, cr_collector = []\<rparr>
             rows))"

interpretation class_table: upsert_table class_key merge_class
  by unfold_locales (simp add: class_key_def merge_class_def)

interpretation expected_table: upsert_table class_key expect_class
  by unfold_locales (simp add: class_key_def expect_class_def)

section \<open>Weights\<close>

definition contains :: "string \<Rightarrow> string \<Rightarrow> bool" where
  "contains part s = sublist part s"

definition platform_of :: "string \<Rightarrow> string \<Rightarrow> string" where
  "platform_of t os =
     (let p = (if contains ''windows'' (to_lower os) then ''windows''
               else if t = ''network'' then ''network''
               else if t \<in> {''database'', ''application''} then ''linux'' else []);
          q = (if p = [] \<and> contains ''linux'' (to_lower os) then ''linux'' else p)
      in if q = [] \<and> t \<in> {''host'', ''server'', ''workstation'', ''container''} then ''linux'' else q)"

definition weights_for :: "string \<Rightarrow> string \<Rightarrow> (string \<times> rat) list" where
  "weights_for t os =
     (let p = platform_of t os
      in if p = ''windows'' then
           [(''os.windows.security'', 28/100), (''os.windows.sysmon'', 27/100), (''os.windows.powershell'', 17/100),
            (''os.windows.defender'', 11/100), (''os.windows.dns'', 5/100), (''net.flow'', 12/100)]
         else if p = ''linux'' then
           [(''os.linux.auditd'', 30/100), (''os.linux.sshd'', 15/100), (''os.linux.sudo'', 10/100),
            (''os.linux.journal'', 15/100), (''net.flow'', 15/100), (''net.dns'', 15/100)]
         else if p = ''network'' then
           [(''net.firewall'', 40/100), (''net.dns'', 20/100), (''net.flow'', 20/100), (''net.ids'', 20/100)]
         else [])"

section \<open>Observation\<close>

definition max_events_per_asset :: nat where "max_events_per_asset = 20000"

definition coverage_window :: int where "coverage_window = 30 * 24 * 3600 * 1000000000"

text \<open>The last event time and the count of a class.\<close>

definition note_class :: "event \<Rightarrow> (string \<times> int \<times> int) list \<Rightarrow> (string \<times> int \<times> int) list" where
  "note_class ev m =
     (let c = event_class ev; t = ev_received_at ev
      in if c = generic_class then m
         else case map_of m c of
                None \<Rightarrow> put c (t, 1) m
              | Some (t0, n) \<Rightarrow> put c (if t0 = 0 \<or> t0 < t then t else t0, n + 1) m)"

definition observe_classes :: "(event \<Rightarrow> nat) \<Rightarrow> int \<Rightarrow> event list \<Rightarrow> string \<Rightarrow> (string \<times> int \<times> int) list" where
  "observe_classes rank now evs ref =
     (case cut CHR '':'' ref of
        None \<Rightarrow> []
      | Some (t, host) \<Rightarrow>
          if t \<noteq> ''host'' then []
          else fold note_class
                 (take max_events_per_asset
                   (sort_desc ev_received_at (sort_key rank
                     (filter (\<lambda>ev. ev_host ev = host \<and> now - coverage_window \<le> ev_received_at ev) evs)))) [])"

section \<open>Coverage on demand\<close>

record coverage_report =
  cv_asset :: string
  cv_name :: string
  cv_type :: string
  cv_os :: string
  cv_pct :: rat
  cv_weighted :: nat
  cv_available :: "string list"
  cv_missing :: "string list"
  cv_stale :: "string list"
  cv_unexpected :: "string list"

definition round2 :: "(rat \<Rightarrow> rat) \<Rightarrow> rat \<Rightarrow> rat" where
  "round2 rnd f = (let x = rnd (rnd (f * 100) + 1/2) in rnd (of_int (if 0 \<le> x then \<lfloor>x\<rfloor> else \<lceil>x\<rceil>) / 100))"

definition float_sum :: "(rat \<Rightarrow> rat) \<Rightarrow> rat list \<Rightarrow> rat" where
  "float_sum rnd xs = foldl (\<lambda>a x. rnd (a + x)) 0 xs"

record coverage_env =
  cx_rnd :: "rat \<Rightarrow> rat"
  cx_now :: int
  cx_freshness :: int
  cx_event_rank :: "event \<Rightarrow> nat"
  cx_class_rank :: "string \<Rightarrow> nat"
  cx_software_rank :: "software \<Rightarrow> nat"
  cx_asset_rank :: "asset \<Rightarrow> nat"
  cx_like :: "string \<Rightarrow> string \<Rightarrow> bool"

definition seen_class :: "(string \<times> int \<times> int) list \<Rightarrow> string \<Rightarrow> bool" where
  "seen_class obs c = (case map_of obs c of Some (t0, n) \<Rightarrow> 0 < t0 | None \<Rightarrow> False)"

definition coverage_of :: "coverage_env \<Rightarrow> event list \<Rightarrow> asset \<Rightarrow> coverage_report" where
  "coverage_of env evs a =
     (let ws = weights_for (as_type a) (as_os a);
          obs = observe_classes (cx_event_rank env) (cx_now env) evs (as_ref a);
          order = sort_key (\<lambda>p. cx_class_rank env (fst p)) ws;
          have_it = filter (\<lambda>p. seen_class obs (fst p)) order;
          full = float_sum (cx_rnd env) (map snd order); got = float_sum (cx_rnd env) (map snd have_it);
          base = \<lparr>cv_asset = as_id a, cv_name = as_name a, cv_type = as_type a, cv_os = as_os a, cv_pct = 0, cv_weighted = length ws,
                  cv_available = [], cv_missing = [], cv_stale = [], cv_unexpected = []\<rparr>
      in if ws = [] then base
         else base\<lparr>cv_available := map fst have_it,
                cv_missing := map fst (filter (\<lambda>p. \<not> seen_class obs (fst p)) order),
                cv_stale := filter (\<lambda>c. case map_of obs c of Some (t0, n) \<Rightarrow> cx_freshness env < cx_now env - t0 | None \<Rightarrow> False) (map fst have_it),
                cv_unexpected := sort_key (cx_class_rank env) (filter (\<lambda>c. c \<notin> fst ` set ws) (map fst obs)),
                cv_pct := (if 0 < full then round2 (cx_rnd env) (cx_rnd env (cx_rnd env (got / full) * 100)) else 0)\<rparr>)"

definition coverage_for :: "coverage_env \<Rightarrow> event list \<Rightarrow> string \<Rightarrow> asset_state \<Rightarrow> coverage_error + coverage_report" where
  "coverage_for env evs i ast =
     (case get_asset (cx_software_rank env) i ast of
        Inl e \<Rightarrow> Inl (CoverageAsset e)
      | Inr v \<Rightarrow> Inr (coverage_of env evs (av_asset v)))"

section \<open>The recompute\<close>

definition observed_row :: "asset \<Rightarrow> string \<times> int \<times> int \<Rightarrow> class_row" where
  "observed_row a = (\<lambda>(c, t0, n).
     \<lparr>cr_asset = as_id a, cr_class = c, cr_available = True, cr_last = Some t0, cr_count = n, cr_expected = False, cr_collector = []\<rparr>)"

fun persist_rows :: "asset_state \<Rightarrow> class_row list \<Rightarrow> class_row list \<Rightarrow> (coverage_error + unit) \<times> class_row list" where
  "persist_rows ast [] rows = (Inr (), rows)"
| "persist_rows ast (r # rs) rows =
     (case upsert_class ast r rows of (Inl e, rows') \<Rightarrow> (Inl e, rows') | (Inr u, rows') \<Rightarrow> persist_rows ast rs rows')"

definition persist_asset :: "coverage_env \<Rightarrow> event list \<Rightarrow> asset_state \<Rightarrow> asset \<Rightarrow> class_row list \<Rightarrow> (coverage_error + unit) \<times> class_row list" where
  "persist_asset env evs ast a rows =
     persist_rows ast
       (map (observed_row a) (sort_key (\<lambda>p. cx_class_rank env (fst p)) (observe_classes (cx_event_rank env) (cx_now env) evs (as_ref a)))) rows"

definition listed_assets :: "coverage_env \<Rightarrow> asset_state \<Rightarrow> asset list" where
  "listed_assets env ast =
     fst (list_assets (cx_like env) (cx_asset_rank env) \<lparr>af_q = [], af_type = [], af_criticality = [], af_limit = 0\<rparr> ast)"

definition compute_all :: "coverage_env \<Rightarrow> event list \<Rightarrow> asset_state \<Rightarrow> class_row list \<Rightarrow> nat \<times> class_row list" where
  "compute_all env evs ast rows =
     (length (listed_assets env ast), fold (\<lambda>a rs. snd (persist_asset env evs ast a rs)) (listed_assets env ast) rows)"

section \<open>What the recompute keeps\<close>

text \<open>The class is recorded as available for the asset.\<close>

definition available :: "class_row list \<Rightarrow> string \<Rightarrow> string \<Rightarrow> bool" where
  "available rows i c = (case row_at class_key rows (i, c) of Some r \<Rightarrow> cr_available r | None \<Rightarrow> False)"

inductive coverage_step :: "class_row list \<Rightarrow> class_row list \<Rightarrow> bool" where
  recomputed: "coverage_step rows (snd (compute_all env evs ast rows))"
| declared: "coverage_step rows (snd (mark_class_expected ast i c rows))"

lemma persist_rows_available:
  "list_all cr_available rs \<Longrightarrow> available rows i c \<Longrightarrow> available (snd (persist_rows ast rs rows)) i c"
proof (induction rs arbitrary: rows)
  case (Cons r rs)
  have "available (upsert_row class_key merge_class r rows) i c"
    using Cons.prems by (auto simp: available_def class_table.row_at_upsert merge_class_def split: option.splits)
  then show ?case using Cons by (simp add: upsert_class_def)
qed simp

lemma persist_asset_available: "available rows i c \<Longrightarrow> available (snd (persist_asset env evs ast a rows)) i c"
  unfolding persist_asset_def
  by (rule persist_rows_available) (simp_all add: observed_row_def list_all_iff split: prod.split)

lemma fold_persist_available:
  "available rows i c \<Longrightarrow> available (fold (\<lambda>a rs. snd (persist_asset env evs ast a rs)) as rows) i c"
  by (induction as arbitrary: rows) (simp_all add: persist_asset_available)

text \<open>
  Availability is never withdrawn: once a class is recorded as available for an asset, it stays recorded as available
  after every later recompute and declaration, also when no event of the class, or none of the asset,
  is left in the window. Absence of telemetry is then read as evidence of absence.
\<close>

theorem availability_never_withdrawn:
  assumes "coverage_step\<^sup>*\<^sup>* rows rows'" and "available rows i c"
  shows "available rows' i c"
  using assms
proof (induction rule: rtranclp_induct)
  case (step y z)
  from step.hyps(2) step.IH [OF step.prems] show ?case
  proof (induction rule: coverage_step.induct)
    case (recomputed rows env evs ast)
    then show ?case by (simp add: compute_all_def fold_persist_available)
  next
    case (declared rows ast j d)
    then show ?case
      by (auto simp: mark_class_expected_def available_def expected_table.row_at_upsert expect_class_def class_key_def split: option.splits)
  qed
qed

lemma persist_rows_others:
  "list_all (\<lambda>r. cr_asset r \<noteq> i) rs \<Longrightarrow> row_at class_key (snd (persist_rows ast rs rows)) (i, c) = row_at class_key rows (i, c)"
proof (induction rs arbitrary: rows)
  case (Cons r rs)
  have "(i, c) \<noteq> class_key r" using Cons.prems by (auto simp: class_key_def)
  then have "row_at class_key (upsert_row class_key merge_class r rows) (i, c) = row_at class_key rows (i, c)"
    by (simp only: class_table.row_at_upsert fun_upd_apply if_False)
  then show ?case using Cons by (simp add: upsert_class_def)
qed simp

lemma fold_persist_others:
  "list_all (\<lambda>a. as_id a \<noteq> i) as \<Longrightarrow>
   row_at class_key (fold (\<lambda>a rs. snd (persist_asset env evs ast a rs)) as rows) (i, c) = row_at class_key rows (i, c)"
proof (induction as arbitrary: rows)
  case (Cons a as)
  have "row_at class_key (snd (persist_asset env evs ast a rows)) (i, c) = row_at class_key rows (i, c)"
    unfolding persist_asset_def using Cons.prems
    by (intro persist_rows_others) (simp add: list_all_iff observed_row_def split: prod.split)
  then show ?case using Cons by simp
qed simp

text \<open>
  The recompute is not for every asset: it lists the inventory with the default page, so at most 200 assets are
  recomputed, and the rows of the others stay as they are.
\<close>

theorem recompute_stops_at_a_page:
  "fst (compute_all env evs ast rows) \<le> 200
   \<and> (i \<notin> as_id ` set (listed_assets env ast) \<longrightarrow>
        row_at class_key (snd (compute_all env evs ast rows)) (i, c) = row_at class_key rows (i, c))"
proof -
  have "length (listed_assets env ast) \<le> 200"
    by (simp add: listed_assets_def list_assets_def Let_def asset_limit_def)
  moreover have "i \<notin> as_id ` set (listed_assets env ast) \<Longrightarrow> list_all (\<lambda>a. as_id a \<noteq> i) (listed_assets env ast)"
    by (auto simp: list_all_iff)
  ultimately show ?thesis by (simp add: compute_all_def fold_persist_others)
qed

text \<open>Each class that counts is reported as available or as missing, and none as both.\<close>

theorem report_partitions_classes:
  assumes "weights_for (as_type a) (as_os a) \<noteq> []"
  shows "set (cv_available (coverage_of env evs a)) \<union> set (cv_missing (coverage_of env evs a)) = fst ` set (weights_for (as_type a) (as_os a))
    \<and> set (cv_available (coverage_of env evs a)) \<inter> set (cv_missing (coverage_of env evs a)) = {}
    \<and> set (cv_stale (coverage_of env evs a)) \<subseteq> set (cv_available (coverage_of env evs a))"
  using assms by (auto simp: coverage_of_def Let_def)

end
