(* ===== verification/Scenarios.thy ===== *)
theory Scenarios
  imports CoverageStore FindingStore
begin

text \<open>
  Threat scenarios, \<^verbatim>\<open>internal/detections/scenario.go\<close>: an attack chain is opened as a run when its trigger technique
  is seen on a host, and the status of each of its techniques follows the events and the telemetry coverage of the
  host. The JSON text of a definition and of a list of identifiers, the text \<^verbatim>\<open>json_extract\<close> answers for the technique
  mapping, the parser of times and the rounding of floats are fields of the environment, as are
  fresh identifiers and the order a statement leaves open. The query of the events of a step, which the code answers with
  unknown when it fails, succeeds.
\<close>

section \<open>SQLite's LIKE\<close>

text \<open>Case is ignored for ASCII letters only.\<close>

definition ascii_fold :: "char \<Rightarrow> char" where
  "ascii_fold c = (if code c < 128 then lower_rune c else c)"

fun sql_like :: "string \<Rightarrow> string \<Rightarrow> bool" where
  "sql_like [] s = (s = [])"
| "sql_like (p # ps) [] = (p = CHR ''%'' \<and> sql_like ps [])"
| "sql_like (p # ps) (c # cs) =
     (if p = CHR ''%'' then sql_like ps (c # cs) \<or> sql_like (p # ps) cs
      else (p = CHR ''_'' \<or> ascii_fold p = ascii_fold c) \<and> sql_like ps cs)"

section \<open>State\<close>

record scenario_def =
  sd_name :: string
  sd_title :: string
  sd_description :: string
  sd_risk :: string
  sd_severity :: string
  sd_trigger :: string
  sd_prerequisites :: "string list"
  sd_techniques :: "string list"
  sd_sources :: "string list"

record scenario_run =
  sn_id :: string
  sn_definition :: string
  sn_scope :: string
  sn_status :: string
  sn_confidence :: rat
  sn_risk :: rat
  sn_opened :: int
  sn_closed :: "int option"

record scenario_step =
  ss_run :: string
  ss_step :: string
  ss_technique :: string
  ss_status :: string
  ss_evidence :: string
  ss_confidence :: rat

record scenario_state =
  sc_runs :: "scenario_run list"
  sc_steps :: "scenario_step list"
  sc_findings :: finding_state

text \<open>The stores that are read, and the environment.\<close>

record scenario_world =
  sw_events :: "event list"
  sw_assets :: "asset_state option"
  sw_coverage :: "class_row list option"

record scenario_env =
  se_now :: int
  se_json :: "scenario_def \<Rightarrow> string"
  se_read :: "string \<Rightarrow> scenario_def option"
  se_ids :: "string list \<Rightarrow> string"
  se_read_ids :: "string \<Rightarrow> string list option"
  se_attack :: "event \<Rightarrow> string option"
  se_time_text :: "int \<Rightarrow> string"
  se_parse :: "string \<Rightarrow> string \<Rightarrow> int option"
  se_rnd :: "rat \<Rightarrow> rat"
  se_host_rank :: "string \<Rightarrow> nat"
  se_event_rank :: "event \<Rightarrow> nat"
  se_asset_rank :: "asset \<Rightarrow> nat"
  se_finding_order :: "string list \<Rightarrow> string list"
  se_fresh :: "string \<Rightarrow> string"

section \<open>Definitions of scenarios\<close>

text \<open>A file: its name and what the YAML decoder answers; the first error stops the listing.\<close>

definition trim_yaml :: "string \<Rightarrow> string" where
  "trim_yaml s = (if 5 \<le> length s \<and> drop (length s - 5) s = ''.yaml'' then take (length s - 5) s else s)"

fun list_scenarios :: "(string \<times> scenario_def option) list \<Rightarrow> string + scenario_def list" where
  "list_scenarios [] = Inr []"
| "list_scenarios ((f, None) # fs) = Inl f"
| "list_scenarios ((f, Some d) # fs) =
     (case list_scenarios fs of
        Inl e \<Rightarrow> Inl e
      | Inr ds \<Rightarrow> Inr ((if sd_name d = [] then d\<lparr>sd_name := trim_yaml f\<rparr> else d) # ds))"

section \<open>The status of a step\<close>

definition scenario_hour :: int where "scenario_hour = 3600 * 1000000000"

definition attack_pattern :: "string \<Rightarrow> string" where
  "attack_pattern t = ''%'' @ [CHR 34] @ t @ [CHR 34] @ ''%''"

definition carries :: "scenario_env \<Rightarrow> string \<Rightarrow> event \<Rightarrow> bool" where
  "carries env t ev = (case se_attack env ev of None \<Rightarrow> False | Some s \<Rightarrow> sql_like (attack_pattern t) s)"

definition step_events :: "scenario_env \<Rightarrow> event list \<Rightarrow> string \<Rightarrow> string \<Rightarrow> int \<Rightarrow> event list" where
  "step_events env evs t host opened =
     sort_key (se_event_rank env)
       (filter (\<lambda>ev. ev_host ev = host \<and> opened \<le> ev_timestamp ev \<and> ev_timestamp ev \<le> se_now env \<and> carries env t ev) evs)"

definition is_blocked :: "event \<Rightarrow> bool" where
  "is_blocked ev = (to_lower (ev_outcome ev) \<in> {''failure'', ''blocked'', ''denied''})"

definition confidence_for :: "(rat \<Rightarrow> rat) \<Rightarrow> nat \<Rightarrow> rat" where
  "confidence_for rnd n =
     (if n \<le> 1 then rnd (6/10)
      else let c = rnd (rnd (6/10) + rnd (rnd (1/10) * of_nat (n - 1))) in if rnd (95/100) < c then rnd (95/100) else c)"

definition telemetry_covers :: "scenario_def \<Rightarrow> string list \<Rightarrow> bool" where
  "telemetry_covers d avail = (sd_sources d = [] \<or> list_ex (\<lambda>s. s \<in> set avail) (sd_sources d))"

definition step_status :: "scenario_env \<Rightarrow> event list \<Rightarrow> scenario_def \<Rightarrow> string \<Rightarrow> string \<Rightarrow> int \<Rightarrow> string list \<Rightarrow> string \<times> string \<times> rat" where
  "step_status env evs d t host opened avail =
     (let es = step_events env evs t host opened;
          got = map ev_id (filter (\<lambda>e. \<not> is_blocked e) es); blocked = map ev_id (filter is_blocked es)
      in if got \<noteq> [] then (''observed'', se_ids env got, confidence_for (se_rnd env) (length got))
         else if blocked \<noteq> [] then (''blocked'', se_ids env blocked, confidence_for (se_rnd env) (length blocked))
         else if \<not> telemetry_covers d avail then
           (''unknown'', ''telemetry insufficient to determine whether '' @ t @ '' occurred'', 0)
         else if se_now env - opened < 2 * scenario_hour then (''expected'', [], 0)
         else (''missing'', ''no evidence within telemetry bounds'', se_rnd env (6/10)))"

definition available_sources :: "scenario_env \<Rightarrow> scenario_world \<Rightarrow> string \<Rightarrow> string list" where
  "available_sources env w host =
     (case (sw_assets w, sw_coverage w) of
        (Some ast, Some rows) \<Rightarrow>
          if host = [] then []
          else (case get_by_entity_ref (se_asset_rank env) (''host:'' @ host) ast of
                  None \<Rightarrow> []
                | Some a \<Rightarrow> map cr_class (filter cr_available (class_rows (as_id a) rows)))
      | _ \<Rightarrow> [])"

section \<open>Advancing a run\<close>

definition step_key :: "scenario_step \<Rightarrow> string \<times> string" where
  "step_key s = (ss_run s, ss_step s)"

definition merge_step :: "scenario_step \<Rightarrow> scenario_step \<Rightarrow> scenario_step" where
  "merge_step new old = old\<lparr>ss_status := ss_status new, ss_evidence := ss_evidence new, ss_confidence := ss_confidence new\<rparr>"

interpretation step_table: upsert_table step_key merge_step
  by unfold_locales (simp add: step_key_def merge_step_def)

definition status_of :: "scenario_step list \<Rightarrow> string \<Rightarrow> string \<Rightarrow> string option" where
  "status_of steps run t = map_option ss_status (row_at step_key steps (run, t))"

text \<open>The loop over the techniques: the steps and how many changed their status.\<close>

fun advance_steps :: "scenario_env \<Rightarrow> event list \<Rightarrow> scenario_def \<Rightarrow> string \<Rightarrow> string \<Rightarrow> int \<Rightarrow> string list \<Rightarrow> string list
    \<Rightarrow> scenario_step list \<Rightarrow> nat \<times> scenario_step list" where
  "advance_steps env evs d run host opened avail [] steps = (0, steps)"
| "advance_steps env evs d run host opened avail (t # ts) steps =
     (case step_status env evs d t host opened avail of
        (status, evidence, conf) \<Rightarrow>
          let old = status_of steps run t;
              x = \<lparr>ss_run = run, ss_step = t, ss_technique = t, ss_status = status, ss_evidence = evidence, ss_confidence = conf\<rparr>;
              r = advance_steps env evs d run host opened avail ts (upsert_row step_key merge_step x steps)
          in ((if old = Some status then 0 else 1) + fst r, snd r))"

definition observed_count :: "scenario_def \<Rightarrow> string \<Rightarrow> scenario_step list \<Rightarrow> nat" where
  "observed_count d run steps = length (filter (\<lambda>t. status_of steps run t = Some ''observed'') (sd_techniques d))"

definition ratio :: "(rat \<Rightarrow> rat) \<Rightarrow> nat \<Rightarrow> nat \<Rightarrow> rat" where
  "ratio rnd a b = rnd (of_nat a / of_nat b)"

definition run_risk :: "scenario_env \<Rightarrow> scenario_def \<Rightarrow> nat \<Rightarrow> string list \<Rightarrow> rat" where
  "run_risk env d n avail =
     (let base = (if sd_risk d = ''medium'' then 20 else 40);
          frac = (if sd_techniques d = [] then 0 else ratio (se_rnd env) n (length (sd_techniques d)));
          cov = (if sd_sources d = [] then 1
                 else ratio (se_rnd env) (length (filter (\<lambda>s. s \<in> set avail) (sd_sources d))) (length (sd_sources d)))
      in se_rnd env (se_rnd env (base * frac) * cov))"

definition run_confidence :: "scenario_env \<Rightarrow> scenario_def \<Rightarrow> nat \<Rightarrow> rat" where
  "run_confidence env d n =
     (let c = se_rnd env (1/2 * (if sd_techniques d = [] then 0 else ratio (se_rnd env) n (length (sd_techniques d))))
      in if se_rnd env (9/10) < c then se_rnd env (9/10) else c)"

text \<open>Events by identifier, each once and at most \<open>limit\<close> of them.\<close>

fun events_by_ids :: "event list \<Rightarrow> nat \<Rightarrow> string list \<Rightarrow> string list \<Rightarrow> event list \<Rightarrow> event list" where
  "events_by_ids evs limit [] got out = out"
| "events_by_ids evs limit (i # ids) got out =
     (if i \<in> set got \<or> limit \<le> length out then events_by_ids evs limit ids got out
      else case find (\<lambda>e. ev_id e = i) evs of
             Some e \<Rightarrow> events_by_ids evs limit ids (i # got) (if i = [] then out else out @ [e])
           | None \<Rightarrow> events_by_ids evs limit ids (i # got) out)"

definition scenario_args :: "scenario_env \<Rightarrow> event list \<Rightarrow> scenario_def \<Rightarrow> string \<Rightarrow> string \<Rightarrow> scenario_step list \<Rightarrow> detection_args" where
  "scenario_args env evs d run host steps =
     (let ids = concat (List.map_filter (\<lambda>s. se_read_ids env (ss_evidence s))
                  (filter (\<lambda>s. ss_run s = run \<and> ss_status s = ''observed'') steps))
      in \<lparr>da_rule_id = ''scenario:'' @ sd_name d, da_rule_name = sd_title d,
          da_group_key = ''scenario|'' @ sd_name d @ ''|'' @ host, da_title = sd_title d @ dash @ host,
          da_description = sd_description d @ '' (scenario '' @ sd_name d @ '', run '' @ run @ ''; all ''
            @ decimal (int (length (sd_techniques d))) @ '' techniques observed)'',
          da_severity = sd_severity d, da_risk = 0, da_data_source = ''scenario'', da_tactic = [], da_technique = [],
          da_tags = [''scenario''], da_matched = int (length ids),
          da_events = map Some (events_by_ids evs 50 ids [] []), da_entities = []\<rparr>)"

definition emit_finding :: "scenario_env \<Rightarrow> event list \<Rightarrow> scenario_def \<Rightarrow> string \<Rightarrow> string \<Rightarrow> scenario_state \<Rightarrow> scenario_state" where
  "emit_finding env evs d run host st =
     st\<lparr>sc_findings := snd (create_or_update (se_finding_order env) (se_fresh env run) (se_now env) (se_now env) (se_now env)
          (scenario_args env evs d run host (sc_steps st)) (sc_findings st))\<rparr>"

definition trim_host :: "string \<Rightarrow> string" where
  "trim_host scope = trim_prefix ''host:'' scope"

text \<open>The new status of a run: completed when every technique is observed, stale after 48 hours.\<close>

definition run_status :: "scenario_env \<Rightarrow> scenario_def \<Rightarrow> nat \<Rightarrow> int \<Rightarrow> string" where
  "run_status env d n opened =
     (if n = length (sd_techniques d) \<and> sd_techniques d \<noteq> [] then ''completed''
      else if 48 * scenario_hour < se_now env - opened then ''stale'' else ''active'')"

definition write_run :: "scenario_env \<Rightarrow> scenario_def \<Rightarrow> nat \<Rightarrow> string list \<Rightarrow> int \<Rightarrow> scenario_run \<Rightarrow> scenario_run" where
  "write_run env d n avail opened x =
     (let status = run_status env d n opened
      in x\<lparr>sn_status := status, sn_confidence := run_confidence env d n, sn_risk := run_risk env d n avail,
           sn_closed := (if status = ''active'' then None else Some (se_now env)), sn_definition := se_json env d\<rparr>)"

definition advance_run :: "scenario_env \<Rightarrow> scenario_world \<Rightarrow> string \<Rightarrow> scenario_def \<Rightarrow> scenario_state
    \<Rightarrow> nat option \<times> scenario_state" where
  "advance_run env w run d st =
     (case select_row (\<lambda>r. sn_id r = run) (sc_runs st) of
        None \<Rightarrow> (None, st)
      | Some r \<Rightarrow>
          let host = trim_host (sn_scope r); avail = available_sources env w host;
              (changed, steps) = advance_steps env (sw_events w) d run host (sn_opened r) avail (sd_techniques d) (sc_steps st);
              n = observed_count d run steps;
              st1 = st\<lparr>sc_steps := steps\<rparr>;
              st2 = (if run_status env d n (sn_opened r) = ''completed'' then emit_finding env (sw_events w) d run host st1 else st1)
          in (Some changed,
              st2\<lparr>sc_runs := update_rows (\<lambda>x. sn_id x = run)
                (write_run env d n avail (sn_opened r))
                (sc_runs st2)\<rparr>))"

section \<open>Opening runs\<close>

definition time_formats :: "string list" where
  "time_formats =
     [''2006-01-02 15:04:05.999999999-07:00'', ''2006-01-02T15:04:05.999999999Z07:00'', ''2006-01-02 15:04:05.999999999'',
      ''2006-01-02 15:04:05'']"

definition parse_event_time :: "scenario_env \<Rightarrow> string \<Rightarrow> int \<Rightarrow> int" where
  "parse_event_time env s fallback =
     (case List.map_filter (\<lambda>f. se_parse env f s) time_formats of [] \<Rightarrow> fallback | t # ts \<Rightarrow> t)"

text \<open>The hosts on which the trigger was seen in the last six hours, with the time of the first such event.\<close>

definition trigger_hosts :: "scenario_env \<Rightarrow> event list \<Rightarrow> scenario_def \<Rightarrow> (string \<times> int) list" where
  "trigger_hosts env evs d =
     (let hits = filter (\<lambda>ev. ev_host ev \<noteq> [] \<and> se_now env - 6 * scenario_hour \<le> ev_timestamp ev \<and> carries env (sd_trigger d) ev) evs
      in map (\<lambda>h. (h, parse_event_time env (se_time_text env (Min (set (map ev_timestamp (filter (\<lambda>ev. ev_host ev = h) hits)))))
                       (se_now env)))
           (sort_key (se_host_rank env) (remdups (map ev_host hits))))"

text \<open>The test whether the scenario has an active run in the scope.\<close>

definition name_pattern :: "scenario_def \<Rightarrow> string" where
  "name_pattern d = ''%'' @ [CHR 34] @ ''name'' @ [CHR 34] @ '':'' @ [CHR 34] @ sd_name d"

definition active_runs :: "scenario_def \<Rightarrow> string \<Rightarrow> scenario_state \<Rightarrow> nat" where
  "active_runs d scope st =
     row_count (\<lambda>r. sql_like (name_pattern d) (sn_definition r) \<and> sn_scope r = scope \<and> sn_status r = ''active'') (sc_runs st)"

definition new_run :: "scenario_env \<Rightarrow> string \<Rightarrow> scenario_def \<Rightarrow> string \<Rightarrow> int \<Rightarrow> scenario_run" where
  "new_run env i d scope t =
     \<lparr>sn_id = i, sn_definition = se_json env d, sn_scope = scope, sn_status = ''active'', sn_confidence = 0, sn_risk = 0,
      sn_opened = (if t = 0 then se_now env else t), sn_closed = None\<rparr>"

text \<open>The loop over the triggers, with the identifiers of the runs it opens; a refused insert stops it.\<close>

fun open_runs :: "scenario_env \<Rightarrow> scenario_world \<Rightarrow> scenario_def \<Rightarrow> (string \<times> int) list \<Rightarrow> string list \<Rightarrow> scenario_state \<Rightarrow> bool \<times> scenario_state" where
  "open_runs env w d ((h, t) # ts) (i # ids) st =
     (if 0 < active_runs d (''host:'' @ h) st then open_runs env w d ts (i # ids) st
      else if taken sn_id i (sc_runs st) then (False, st)
      else let st1 = st\<lparr>sc_runs := sc_runs st @ [new_run env i d (''host:'' @ h) t]\<rparr>
           in open_runs env w d ts ids (snd (advance_run env w i d st1)))"
| "open_runs env w d ts ids st = (True, st)"

definition evaluate_one :: "scenario_env \<Rightarrow> scenario_world \<Rightarrow> scenario_def \<Rightarrow> string list \<Rightarrow> scenario_state \<Rightarrow> bool \<times> scenario_state" where
  "evaluate_one env w d ids st = open_runs env w d (trigger_hosts env (sw_events w) d) ids st"

fun advance_all :: "scenario_env \<Rightarrow> scenario_world \<Rightarrow> (string \<times> scenario_def) list \<Rightarrow> scenario_state \<Rightarrow> nat \<times> scenario_state" where
  "advance_all env w [] st = (0, st)"
| "advance_all env w ((i, d) # rs) st =
     (let (n, st1) = advance_run env w i d st; (m, st2) = advance_all env w rs st1
      in ((case n of None \<Rightarrow> 0 | Some k \<Rightarrow> k) + m, st2))"

definition advance_active_runs :: "scenario_env \<Rightarrow> scenario_world \<Rightarrow> scenario_state \<Rightarrow> nat \<times> scenario_state" where
  "advance_active_runs env w st =
     advance_all env w
       (List.map_filter (\<lambda>r. map_option (Pair (sn_id r)) (se_read env (sn_definition r)))
         (filter (\<lambda>r. sn_status r = ''active'') (sc_runs st))) st"

text \<open>A tick; each definition comes with the identifiers its new runs get.\<close>

definition evaluate_scenarios :: "scenario_env \<Rightarrow> scenario_world \<Rightarrow> (scenario_def \<times> string list) list \<Rightarrow> scenario_state \<Rightarrow> nat \<times> scenario_state" where
  "evaluate_scenarios env w ds st = advance_active_runs env w (fold (\<lambda>(d, ids) s. snd (evaluate_one env w d ids s)) ds st)"

section \<open>Reading\<close>

definition active_runs_by_host :: "(scenario_run \<Rightarrow> nat) \<Rightarrow> string \<Rightarrow> scenario_state \<Rightarrow> scenario_run list" where
  "active_runs_by_host rank host st =
     (if host = [] then []
      else take 5 (sort_desc (\<lambda>r. (sn_opened r, rank r)) (filter (\<lambda>r. sn_status r = ''active'' \<and> sn_scope r = ''host:'' @ host) (sc_runs st))))"

definition list_runs :: "(scenario_run \<Rightarrow> nat) \<Rightarrow> int \<Rightarrow> scenario_state \<Rightarrow> scenario_run list" where
  "list_runs rank limit st =
     take (if limit \<le> 0 \<or> 200 < limit then 50 else nat limit) (sort_desc (\<lambda>r. (sn_opened r, rank r)) (sc_runs st))"

definition run_steps :: "string \<Rightarrow> scenario_state \<Rightarrow> scenario_step list" where
  "run_steps run st = sort_key ss_step (filter (\<lambda>s. ss_run s = run) (sc_steps st))"

definition get_run :: "string \<Rightarrow> scenario_state \<Rightarrow> (scenario_run \<times> scenario_step list \<times> scenario_step list \<times> scenario_step list) option" where
  "get_run i st =
     map_option (\<lambda>r. (r, run_steps i st, filter (\<lambda>s. ss_status s = ''expected'') (run_steps i st),
                      filter (\<lambda>s. ss_status s = ''unknown'') (run_steps i st)))
       (select_row (\<lambda>r. sn_id r = i) (sc_runs st))"

section \<open>No claim without telemetry\<close>

lemma step_status_without_telemetry:
  "\<not> telemetry_covers d avail \<Longrightarrow> fst (step_status env evs d t host opened avail) \<in> {''observed'', ''blocked'', ''unknown''}"
  by (simp add: step_status_def Let_def)

lemma status_upsert:
  "status_of (upsert_row step_key merge_step x steps) run t =
     (if (ss_run x, ss_step x) = (run, t) then Some (ss_status x) else status_of steps run t)"
  by (auto simp: status_of_def step_table.row_at_upsert step_key_def merge_step_def split: option.split)

lemma advance_steps_status:
  "status_of (snd (advance_steps env evs d run host opened avail ts steps)) run t =
     (if t \<in> set ts then Some (fst (step_status env evs d t host opened avail)) else status_of steps run t)"
  by (induction ts arbitrary: steps) (auto simp: Let_def status_upsert split: prod.split)

lemma steps_of_run: "sc_steps (emit_finding env evs d run host st) = sc_steps st"
  by (simp add: emit_finding_def)

text \<open>
  C38. Absence is not evidence without telemetry: when the scenario has required sources and none of them is available for the host,
  an advance of the run leaves each of its techniques observed, blocked or unknown, never missing and never
  expected, however old the run is.
\<close>

theorem unknown_without_telemetry:
  assumes run: "select_row (\<lambda>r. sn_id r = i) (sc_runs st) = Some r"
    and blind: "\<not> telemetry_covers d (available_sources env w (trim_host (sn_scope r)))"
  shows "list_all (\<lambda>t. status_of (sc_steps (snd (advance_run env w i d st))) i t \<in> {Some ''observed'', Some ''blocked'', Some ''unknown''})
     (sd_techniques d)"
proof -
  obtain n steps where a: "advance_steps env (sw_events w) d i (trim_host (sn_scope r)) (sn_opened r)
      (available_sources env w (trim_host (sn_scope r))) (sd_techniques d) (sc_steps st) = (n, steps)" by fastforce
  have "sc_steps (snd (advance_run env w i d st)) = steps"
    by (simp add: advance_run_def run a Let_def steps_of_run)
  moreover have "status_of steps i t \<in> {Some ''observed'', Some ''blocked'', Some ''unknown''}" if "t \<in> set (sd_techniques d)" for t
    using advance_steps_status [of env "sw_events w" d i "trim_host (sn_scope r)" "sn_opened r"
        "available_sources env w (trim_host (sn_scope r))" "sd_techniques d" "sc_steps st" t] a that
      step_status_without_telemetry [OF blind, of env "sw_events w" t "trim_host (sn_scope r)" "sn_opened r"]
    by auto
  ultimately show ?thesis by (simp add: list_all_iff)
qed

section \<open>The check for an active run\<close>

lemma like_last:
  "sql_like p s \<Longrightarrow> p \<noteq> [] \<Longrightarrow> last p \<notin> {CHR ''%'', CHR ''_''} \<Longrightarrow> s \<noteq> [] \<and> ascii_fold (last p) = ascii_fold (last s)"
proof (induction p s rule: sql_like.induct)
  case (2 p ps)
  then show ?case by (cases "ps = []") auto
next
  case (3 p ps c cs)
  show ?case
  proof (cases "p = CHR ''%''")
    case True
    then have ne: "ps \<noteq> []" using 3(6) by auto
    then show ?thesis using 3 True by (auto split: if_splits)
  next
    case False
    then have "sql_like ps cs" using 3(4) by simp
    moreover have "ps \<noteq> [] \<Longrightarrow> sql_like ps cs \<Longrightarrow> cs \<noteq> [] \<and> ascii_fold (last ps) = ascii_fold (last cs)"
      using 3(3) [OF False] 3(6) by auto
    ultimately show ?thesis using 3 False by (cases "ps = []") (auto simp: sql_like.simps)
  qed
qed simp

definition closed_object :: "scenario_env \<Rightarrow> bool" where
  "closed_object env = (\<forall>d. se_json env d \<noteq> [] \<and> last (se_json env d) = CHR ''}'')"

definition plain_name :: "scenario_def \<Rightarrow> bool" where
  "plain_name d = (sd_name d \<noteq> [] \<and> last (sd_name d) \<notin> {CHR ''%'', CHR ''_''} \<and> ascii_fold (last (sd_name d)) \<noteq> ascii_fold (CHR ''}''))"

definition closed_definitions :: "scenario_state \<Rightarrow> bool" where
  "closed_definitions st = list_all (\<lambda>r. sn_definition r \<noteq> [] \<and> last (sn_definition r) = CHR ''}'') (sc_runs st)"

lemma no_active_run_found: "closed_definitions st \<Longrightarrow> plain_name d \<Longrightarrow> active_runs d scope st = 0"
proof -
  assume c: "closed_definitions st" and p: "plain_name d"
  have "\<not> sql_like (name_pattern d) (sn_definition r)" if "r \<in> set (sc_runs st)" for r
  proof
    assume "sql_like (name_pattern d) (sn_definition r)"
    moreover have "name_pattern d \<noteq> []" "last (name_pattern d) = last (sd_name d)"
      using p by (simp_all add: name_pattern_def plain_name_def)
    ultimately have "ascii_fold (last (sd_name d)) = ascii_fold (last (sn_definition r))"
      using like_last [of "name_pattern d" "sn_definition r"] p by (simp add: plain_name_def)
    then show False using c p that by (simp add: closed_definitions_def list_all_iff plain_name_def)
  qed
  then show "active_runs d scope st = 0" by (simp add: active_runs_def row_count_def filter_empty_conv)
qed

lemma advance_run_runs:
  "sc_runs (snd (advance_run env w i d st)) = sc_runs st
   \<or> (\<exists>f. sc_runs (snd (advance_run env w i d st)) = update_rows (\<lambda>x. sn_id x = i) f (sc_runs st)
        \<and> (\<forall>x. sn_id (f x) = sn_id x \<and> sn_definition (f x) = se_json env d))"
proof (cases "select_row (\<lambda>r. sn_id r = i) (sc_runs st)")
  case (Some r)
  obtain n steps where a: "advance_steps env (sw_events w) d i (trim_host (sn_scope r)) (sn_opened r)
      (available_sources env w (trim_host (sn_scope r))) (sd_techniques d) (sc_steps st) = (n, steps)" by fastforce
  show ?thesis
    by (rule disjI2, rule exI [of _ "write_run env d (observed_count d i steps)
          (available_sources env w (trim_host (sn_scope r))) (sn_opened r)"])
      (simp add: advance_run_def Some a Let_def emit_finding_def write_run_def)
qed (simp add: advance_run_def)

lemma advance_run_keeps:
  assumes "closed_object env" and "closed_definitions st"
  shows "closed_definitions (snd (advance_run env w i d st))"
    and "map sn_id (sc_runs (snd (advance_run env w i d st))) = map sn_id (sc_runs st)"
  using advance_run_runs [of env w i d st] assms
  by (auto simp: closed_definitions_def closed_object_def list_all_iff set_update_rows map_update_rows)

lemma open_runs_ids:
  assumes json: "closed_object env" and name: "plain_name d"
  shows "length ids = length ts \<Longrightarrow> distinct ids \<Longrightarrow> set ids \<inter> set (map sn_id (sc_runs st)) = {} \<Longrightarrow> closed_definitions st \<Longrightarrow>
    map sn_id (sc_runs (snd (open_runs env w d ts ids st))) = map sn_id (sc_runs st) @ ids"
proof (induction ts arbitrary: ids st)
  case (Cons x ts)
  obtain h t where x: "x = (h, t)" by (cases x)
  obtain i is' where ids: "ids = i # is'" using Cons.prems(1) by (cases ids) auto
  let ?st1 = "st\<lparr>sc_runs := sc_runs st @ [new_run env i d (''host:'' @ h) t]\<rparr>"
  let ?st2 = "snd (advance_run env w i d ?st1)"
  have c1: "closed_definitions ?st1"
    using Cons.prems(4) json by (simp add: closed_definitions_def closed_object_def new_run_def)
  note k = advance_run_keeps [OF json c1, of w i d]
  have id2: "map sn_id (sc_runs ?st2) = map sn_id (sc_runs st) @ [i]" using k(2) by (simp add: new_run_def)
  have "\<not> taken sn_id i (sc_runs st)" using Cons.prems(3) ids by (auto simp: taken_iff)
  then have "open_runs env w d (x # ts) ids st = open_runs env w d ts is' ?st2"
    using no_active_run_found [OF Cons.prems(4) name] x ids by (simp add: Let_def)
  moreover have "map sn_id (sc_runs (snd (open_runs env w d ts is' ?st2))) = map sn_id (sc_runs ?st2) @ is'"
    using Cons.prems ids id2 k(1) by (intro Cons.IH) auto
  ultimately show ?case using id2 ids by simp
qed simp

text \<open>
  C40. The check for an active run finds none: the pattern ends with the name of the scenario, and the stored definition is a
  JSON object, so it never matches. Each tick opens one more run for every host that showed the trigger in the
  last six hours, whatever runs are active or completed.
\<close>

theorem every_tick_opens_runs_again:
  assumes json: "closed_object env" and stored: "closed_definitions st" and name: "plain_name d"
    and fresh: "length ids = length (trigger_hosts env (sw_events w) d)" "distinct ids"
      "set ids \<inter> set (map sn_id (sc_runs st)) = {}"
  shows "map sn_id (sc_runs (snd (evaluate_one env w d ids st))) = map sn_id (sc_runs st) @ ids"
  unfolding evaluate_one_def by (rule open_runs_ids [OF json name fresh stored])

definition sample_scenario_env :: scenario_env where
  "sample_scenario_env =
     \<lparr>se_now = 100, se_json = (\<lambda>d. CHR ''{'' # sd_name d @ ''}''), se_read = (\<lambda>s. None), se_ids = concat,
      se_read_ids = (\<lambda>s. Some [s]), se_attack = (\<lambda>ev. map_of (ev_attributes ev) ''attack''), se_time_text = (\<lambda>t. []),
      se_parse = (\<lambda>f s. Some 10), se_rnd = id, se_host_rank = (\<lambda>h. 0), se_event_rank = (\<lambda>e. 0), se_asset_rank = (\<lambda>a. 0),
      se_finding_order = id, se_fresh = id\<rparr>"

definition theft :: scenario_def where
  "theft =
     \<lparr>sd_name = ''theft'', sd_title = ''Theft'', sd_description = [], sd_risk = ''high'', sd_severity = ''high'', sd_trigger = ''T1'',
      sd_prerequisites = [], sd_techniques = [''T1'', ''T2''], sd_sources = [''net.dns'']\<rparr>"

definition theft_world :: scenario_world where
  "theft_world =
     \<lparr>sw_events = [blank_event\<lparr>ev_id := ''e1'', ev_host := ''h'', ev_timestamp := 10, ev_attributes := [(''attack'', [CHR 34] @ ''T1'' @ [CHR 34])]\<rparr>],
      sw_assets = None, sw_coverage = None\<rparr>"

definition no_scenarios :: scenario_state where
  "no_scenarios = \<lparr>sc_runs = [], sc_steps = [], sc_findings = empty_findings\<rparr>"

definition first_tick :: scenario_state where
  "first_tick = snd (evaluate_one sample_scenario_env theft_world theft [''r1''] no_scenarios)"

theorem every_tick_opens_runs_again_witness:
  "map (\<lambda>r. (sn_id r, sn_scope r, sn_status r)) (sc_runs first_tick) = [(''r1'', ''host:h'', ''active'')]
   \<and> map sn_id (sc_runs (snd (evaluate_one sample_scenario_env theft_world theft [''r2''] first_tick))) = [''r1'', ''r2'']"
proof -
  have json: "closed_object sample_scenario_env" by (simp add: closed_object_def sample_scenario_env_def)
  have stored: "closed_definitions first_tick" "map sn_id (sc_runs first_tick) = [''r1'']" by code_simp+
  have name: "plain_name theft" by code_simp
  have one: "length (trigger_hosts sample_scenario_env (sw_events theft_world) theft) = 1" by code_simp
  have "map sn_id (sc_runs (snd (evaluate_one sample_scenario_env theft_world theft [''r2''] first_tick)))
      = map sn_id (sc_runs first_tick) @ [''r2'']"
    by (rule every_tick_opens_runs_again [OF json stored(1) name]) (simp_all add: one stored(2))
  moreover have "map (\<lambda>r. (sn_id r, sn_scope r, sn_status r)) (sc_runs first_tick) = [(''r1'', ''host:h'', ''active'')]"
    by code_simp
  ultimately show ?thesis using stored(2) by simp
qed

theorem unknown_without_telemetry_witness:
  "list_all (\<lambda>t. status_of (sc_steps (snd (advance_run sample_scenario_env theft_world ''r1'' theft first_tick))) ''r1'' t
       \<in> {Some ''observed'', Some ''blocked'', Some ''unknown''}) (sd_techniques theft)
   \<and> status_of (sc_steps first_tick) ''r1'' ''T1'' = Some ''observed'' \<and> status_of (sc_steps first_tick) ''r1'' ''T2'' = Some ''unknown''"
proof -
  have run: "select_row (\<lambda>r. sn_id r = ''r1'') (sc_runs first_tick) = Some (hd (sc_runs first_tick))" by code_simp
  have blind: "\<not> telemetry_covers theft
      (available_sources sample_scenario_env theft_world (trim_host (sn_scope (hd (sc_runs first_tick)))))" by code_simp
  have "status_of (sc_steps first_tick) ''r1'' ''T1'' = Some ''observed''" "status_of (sc_steps first_tick) ''r1'' ''T2'' = Some ''unknown''"
    by code_simp+
  with unknown_without_telemetry [OF run blind] show ?thesis by blast
qed

end
