(* ===== verification/Behavioral.thy ===== *)
theory Behavioral
  imports Scenarios DetectionStore RiskStore CorrelationEngine
begin

text \<open>
  Statistical and behavioral detection, \<^verbatim>\<open>internal/detections/behavioral.go\<close>: the hourly baselines of each entity,
  the deviation of the current hour from them, first-seen entities and impossible travel. A float is the
  exact value it has, and \<open>rnd\<close> rounds the result of an operation; the square root and the trigonometric
  functions, the typed attributes of an event, the text of an hour and the JSON of a rule's definition are fields of the
  environment. A handler reads the clock once.
\<close>

section \<open>Statistics\<close>

definition mean_of :: "(rat \<Rightarrow> rat) \<Rightarrow> rat list \<Rightarrow> rat" where
  "mean_of rnd v = (if v = [] then 0 else rnd (float_sum rnd v / of_nat (length v)))"

definition std_of :: "(rat \<Rightarrow> rat) \<Rightarrow> (rat \<Rightarrow> rat) \<Rightarrow> rat list \<Rightarrow> rat" where
  "std_of rnd sqr v =
     (if length v < 2 then 0
      else let m = mean_of rnd v; s = float_sum rnd (map (\<lambda>x. let e = rnd (x - m) in rnd (e * e)) v)
           in sqr (rnd (s / of_nat (length v - 1))))"

text \<open>The inner loop of the exchange sort: the least element comes to the front, each larger one moves back.\<close>

fun exchange :: "'a::linorder \<Rightarrow> 'a list \<Rightarrow> 'a \<times> 'a list" where
  "exchange x [] = (x, [])"
| "exchange x (y # ys) =
     (if y < x then (let (m, r) = exchange y ys in (m, x # r)) else (let (m, r) = exchange x ys in (m, y # r)))"

lemma length_exchange: "length (snd (exchange x ys)) = length ys"
  by (induction x ys rule: exchange.induct) (auto split: prod.splits)

function exchange_sort :: "'a::linorder list \<Rightarrow> 'a list" where
  "exchange_sort [] = []"
| "exchange_sort (x # xs) = fst (exchange x xs) # exchange_sort (snd (exchange x xs))"
  by pat_completeness auto
termination
  by (relation "measure length") (auto simp: length_exchange)

definition p95_index :: "(rat \<Rightarrow> rat) \<Rightarrow> nat \<Rightarrow> nat" where
  "p95_index rnd n =
     (let i = \<lceil>rnd (rnd (95/100) * of_nat n)\<rceil> - 1 in if i < 0 then 0 else if int n \<le> i then n - 1 else nat i)"

definition p95_of :: "(rat \<Rightarrow> rat) \<Rightarrow> rat list \<Rightarrow> rat" where
  "p95_of rnd v = (if v = [] then 0 else exchange_sort v ! p95_index rnd (length v))"

definition z_points :: "rat \<Rightarrow> rat" where
  "z_points z = (if 4 \<le> z then 15 else if 3 \<le> z then 10 else if 2 \<le> z then 5 else 0)"

definition deviation_z :: "(rat \<Rightarrow> rat) \<Rightarrow> rat \<Rightarrow> rat \<Rightarrow> rat \<Rightarrow> rat" where
  "deviation_z rnd observed0 mean std =
     (let observed = (if observed0 < mean then mean else observed0); eps = rnd (1 / 1000000000)
      in if std < eps then (if rnd (mean + eps) < observed then 4 else 0) else rnd (rnd (observed - mean) / std))"

section \<open>State\<close>

record baseline =
  bl_type :: string
  bl_value :: string
  bl_feature :: string
  bl_window :: int
  bl_mean :: rat
  bl_std :: rat
  bl_p95 :: rat
  bl_count :: int
  bl_updated :: int

record anomaly =
  an_id :: string
  an_type :: string
  an_value :: string
  an_feature :: string
  an_observed :: rat
  an_mean :: "rat option"
  an_z :: rat
  an_detected :: int
  an_detection :: string
  an_reason :: string

record behavior_state =
  bs_baselines :: "baseline list"
  bs_anomalies :: "anomaly list"
  bs_findings :: finding_state
  bs_risk :: "risk_state option"

record behavioral_def =
  bd_feature :: string
  bd_entity :: string
  bd_pattern :: string

datatype attr_value = AttrNumber rat | AttrText string | AttrBool bool | AttrOther

type_synonym typed_attrs = "(string \<times> attr_value) list"

record behavior_env =
  bv_now :: int
  bv_rnd :: "rat \<Rightarrow> rat"
  bv_root :: "rat \<Rightarrow> rat"
  bv_sin :: "rat \<Rightarrow> rat"
  bv_cos :: "rat \<Rightarrow> rat"
  bv_asin :: "rat \<Rightarrow> rat"
  bv_pi :: rat
  bv_scan :: "string \<Rightarrow> rat option"
  bv_def :: "string \<Rightarrow> behavioral_def option"
  bv_attrs :: "event \<Rightarrow> typed_attrs"
  bv_stored :: "event \<Rightarrow> typed_attrs option"
  bv_bytes :: "event \<Rightarrow> (int \<times> rat) option"
  bv_hour :: "int \<Rightarrow> string"
  bv_hour_rank :: "string \<Rightarrow> nat"
  bv_value_rank :: "string \<Rightarrow> nat"
  bv_event_rank :: "event \<Rightarrow> nat"
  bv_anomaly_rank :: "anomaly \<Rightarrow> nat"
  bv_one_decimal :: "rat \<Rightarrow> string"
  bv_order :: "string list \<Rightarrow> string list"
  bv_fresh :: "string \<Rightarrow> string"

section \<open>Baselines\<close>

definition day :: int where "day = 24 * 3600 * 1000000000"
definition min_samples :: int where "min_samples = 20"
definition min_window_days :: int where "min_window_days = 14"
definition default_window :: int where "default_window = 30"
definition novelty_points :: rat where "novelty_points = 5"
definition travel_speed :: rat where "travel_speed = 900"

definition is_trusted :: "baseline \<Rightarrow> bool" where
  "is_trusted b = (min_samples \<le> bl_count b \<and> min_window_days \<le> bl_window b)"

definition baseline_key :: "baseline \<Rightarrow> string \<times> string \<times> string \<times> int" where
  "baseline_key b = (bl_type b, bl_value b, bl_feature b, bl_window b)"

definition merge_baseline :: "baseline \<Rightarrow> baseline \<Rightarrow> baseline" where
  "merge_baseline new old =
     old\<lparr>bl_mean := bl_mean new, bl_std := bl_std new, bl_p95 := bl_p95 new, bl_count := bl_count new, bl_updated := bl_updated new\<rparr>"

interpretation baseline_table: upsert_table baseline_key merge_baseline
  by unfold_locales (simp add: baseline_key_def merge_baseline_def)

definition active_values :: "behavior_env \<Rightarrow> (event \<Rightarrow> string) \<Rightarrow> event list \<Rightarrow> string list" where
  "active_values env field evs =
     sort_key (bv_value_rank env) (remdups (map field (filter (\<lambda>ev. field ev \<noteq> [] \<and> bv_now env - 7 * day \<le> ev_timestamp ev) evs)))"

text \<open>The events of the window in groups, one for each hour that has an event.\<close>

definition hourly :: "behavior_env \<Rightarrow> (event \<Rightarrow> bool) \<Rightarrow> event list \<Rightarrow> event list list" where
  "hourly env p evs =
     (let hits = filter (\<lambda>ev. p ev \<and> bv_now env - default_window * day \<le> ev_timestamp ev \<and> ev_timestamp ev \<le> bv_now env) evs
      in map (\<lambda>h. filter (\<lambda>ev. bv_hour env (ev_timestamp ev) = h) hits)
           (sort_key (bv_hour_rank env) (remdups (map (\<lambda>ev. bv_hour env (ev_timestamp ev)) hits))))"

definition login_samples :: "behavior_env \<Rightarrow> string \<Rightarrow> event list \<Rightarrow> rat list" where
  "login_samples env u evs =
     map (\<lambda>g. of_nat (length g)) (hourly env (\<lambda>ev. ev_user ev = u \<and> ev_event_type ev = ''authentication'') evs)"

definition bytes_samples :: "behavior_env \<Rightarrow> string \<Rightarrow> event list \<Rightarrow> rat list" where
  "bytes_samples env h evs =
     map (\<lambda>g. bv_rnd env (of_int (sum_list (map (\<lambda>ev. case bv_bytes env ev of Some (i, r) \<Rightarrow> i | None \<Rightarrow> 0) g))))
       (hourly env (\<lambda>ev. ev_host ev = h \<and> bv_bytes env ev \<noteq> None) evs)"

definition baseline_of :: "behavior_env \<Rightarrow> string \<Rightarrow> string \<Rightarrow> string \<Rightarrow> rat list \<Rightarrow> baseline" where
  "baseline_of env t v feature samples =
     \<lparr>bl_type = t, bl_value = v, bl_feature = feature, bl_window = default_window, bl_mean = mean_of (bv_rnd env) samples,
      bl_std = std_of (bv_rnd env) (bv_root env) samples, bl_p95 = p95_of (bv_rnd env) samples,
      bl_count = int (length samples), bl_updated = bv_now env\<rparr>"

definition upsert_baseline :: "baseline \<Rightarrow> baseline list \<Rightarrow> baseline list" where
  "upsert_baseline b rows = upsert_row baseline_key merge_baseline b rows"

definition update_feature :: "behavior_env \<Rightarrow> string \<Rightarrow> string \<Rightarrow> (string \<Rightarrow> rat list) \<Rightarrow> string list \<Rightarrow> baseline list \<Rightarrow> baseline list" where
  "update_feature env t feature samples vs rows =
     fold (\<lambda>v rs. if samples v = [] then rs else upsert_baseline (baseline_of env t v feature (samples v)) rs) vs rows"

definition update_logins :: "behavior_env \<Rightarrow> event list \<Rightarrow> baseline list \<Rightarrow> baseline list" where
  "update_logins env evs rows =
     update_feature env ''user'' ''login_count_per_hour'' (\<lambda>u. login_samples env u evs) (active_values env ev_user evs) rows"

definition update_bytes :: "behavior_env \<Rightarrow> event list \<Rightarrow> baseline list \<Rightarrow> baseline list" where
  "update_bytes env evs rows =
     update_feature env ''host'' ''bytes_per_hour'' (\<lambda>h. bytes_samples env h evs) (active_values env ev_host evs) rows"

definition update_all :: "behavior_env \<Rightarrow> event list \<Rightarrow> behavior_state \<Rightarrow> behavior_state" where
  "update_all env evs st = st\<lparr>bs_baselines := update_bytes env evs (update_logins env evs (bs_baselines st))\<rparr>"

section \<open>Risk and findings of an anomaly\<close>

definition anomaly_description :: "behavior_env \<Rightarrow> string \<Rightarrow> rat \<Rightarrow> string \<Rightarrow> string" where
  "anomaly_description env feature z suppressed =
     ''behavioral_anomaly '' @ feature @ '' (z='' @ bv_one_decimal env z @ '')''
       @ (if suppressed = [] then [] else '' (suppressed: '' @ suppressed @ '')'')"

definition record_anomaly_risk :: "behavior_env \<Rightarrow> string \<Rightarrow> string \<Rightarrow> string \<Rightarrow> rat \<Rightarrow> rat \<Rightarrow> string \<Rightarrow> string \<Rightarrow> behavior_state \<Rightarrow> behavior_state" where
  "record_anomaly_risk env t v feature z points aid suppressed st =
     (case bs_risk st of
        None \<Rightarrow> st
      | Some rs \<Rightarrow>
          st\<lparr>bs_risk := Some (snd (record_risk (\<lambda>a b. bv_rnd env (a + b)) (bv_fresh env (aid @ ''-risk'')) (bv_now env)
            \<lparr>rc_id = [], rc_node = (t, v), rc_source_type = ''anomaly'', rc_source_id = aid,
             rc_description = anomaly_description env feature z suppressed, rc_points = points, rc_event = [], rc_created = 0\<rparr> rs))\<rparr>)"

definition anomaly_args :: "behavior_env \<Rightarrow> det_rule \<Rightarrow> string \<Rightarrow> string \<Rightarrow> string \<Rightarrow> rat \<Rightarrow> rat \<Rightarrow> rat \<Rightarrow> event \<Rightarrow> detection_args" where
  "anomaly_args env r t v feature z observed mean ev =
     \<lparr>da_rule_id = d_id r, da_rule_name = d_name r, da_group_key = t @ '':'' @ v @ ''|'' @ feature, da_title = d_name r,
      da_description = d_name r @ dash @ feature @ '': observed '' @ bv_one_decimal env observed @ '' (baseline mean ''
        @ bv_one_decimal env mean @ '', z='' @ bv_one_decimal env z @ '')'',
      da_severity = d_severity r, da_risk = d_risk r, da_data_source = first_of (d_sources r), da_tactic = d_tactic r,
      da_technique = first_of (d_techniques r), da_tags = d_tags r, da_matched = 1, da_events = [Some ev], da_entities = []\<rparr>"

definition emit_anomaly_finding :: "behavior_env \<Rightarrow> det_rule \<Rightarrow> string \<Rightarrow> string \<Rightarrow> string \<Rightarrow> rat \<Rightarrow> rat \<Rightarrow> rat \<Rightarrow> event \<Rightarrow> string
    \<Rightarrow> behavior_state \<Rightarrow> behavior_state" where
  "emit_anomaly_finding env r t v feature z observed mean ev aid st =
     st\<lparr>bs_findings := snd (create_or_update (bv_order env) (bv_fresh env (aid @ ''-finding'')) (bv_now env) (bv_now env) (bv_now env)
          (anomaly_args env r t v feature z observed mean ev) (bs_findings st))\<rparr>"

text \<open>The insert is refused when the identifier is taken.\<close>

definition insert_anomaly :: "anomaly \<Rightarrow> behavior_state \<Rightarrow> behavior_state option" where
  "insert_anomaly a st =
     (if taken an_id (an_id a) (bs_anomalies st) then None else Some (st\<lparr>bs_anomalies := bs_anomalies st @ [a]\<rparr>))"

definition in_top_features :: "behavior_env \<Rightarrow> string \<Rightarrow> string \<Rightarrow> string \<Rightarrow> behavior_state \<Rightarrow> bool" where
  "in_top_features env t v i st =
     (i \<in> set (map an_id (take 3
        (sort_desc (\<lambda>a. (an_z a, an_detected a, bv_anomaly_rank env a))
          (filter (\<lambda>a. an_type a = t \<and> an_value a = v \<and> bv_now env - day \<le> an_detected a) (bs_anomalies st))))))"

section \<open>Statistical rules\<close>

definition entity_for_feature :: "behavioral_def \<Rightarrow> event \<Rightarrow> (string \<times> string) option" where
  "entity_for_feature d ev =
     (if to_lower (bd_entity d) = ''host'' then (if ev_host ev \<noteq> [] then Some (''host'', ev_host ev) else None)
      else if ev_user ev \<noteq> [] then Some (''user'', ev_user ev) else None)"

definition entity_field :: "string \<Rightarrow> event \<Rightarrow> string" where
  "entity_field t = (if t = ''host'' then ev_host else ev_user)"

definition this_hour :: "behavior_env \<Rightarrow> string \<Rightarrow> string \<Rightarrow> int \<Rightarrow> event list \<Rightarrow> event list" where
  "this_hour env t v ts evs =
     filter (\<lambda>ev. entity_field t ev = v \<and> ts - ts mod (3600 * 1000000000) \<le> ev_timestamp ev \<and> ev_timestamp ev \<le> bv_now env) evs"

definition current_count :: "behavior_env \<Rightarrow> string \<Rightarrow> string \<Rightarrow> int \<Rightarrow> event list \<Rightarrow> rat" where
  "current_count env t v ts evs = of_nat (length (filter (\<lambda>ev. ev_event_type ev = ''authentication'') (this_hour env t v ts evs)))"

definition current_bytes :: "behavior_env \<Rightarrow> string \<Rightarrow> string \<Rightarrow> int \<Rightarrow> event list \<Rightarrow> rat" where
  "current_bytes env t v ts evs =
     float_sum (bv_rnd env) (map (\<lambda>ev. case bv_bytes env ev of Some (i, r) \<Rightarrow> r | None \<Rightarrow> 0)
       (filter (\<lambda>ev. bv_bytes env ev \<noteq> None) (sort_key (bv_event_rank env) (this_hour env t v ts evs))))"

definition observed_value :: "behavior_env \<Rightarrow> string \<Rightarrow> string \<Rightarrow> string \<Rightarrow> int \<Rightarrow> event list \<Rightarrow> rat option" where
  "observed_value env feature t v ts evs =
     (if feature = ''login_count_per_hour'' then Some (current_count env t v ts evs)
      else if feature = ''bytes_per_hour'' then Some (current_bytes env t v ts evs) else None)"

definition score_anomaly :: "behavior_env \<Rightarrow> det_rule \<Rightarrow> string \<Rightarrow> string \<Rightarrow> string \<Rightarrow> rat \<Rightarrow> baseline \<Rightarrow> event \<Rightarrow> string \<Rightarrow> behavior_state \<Rightarrow> behavior_state" where
  "score_anomaly env r t v feature observed b ev aid st =
     (let z = deviation_z (bv_rnd env) observed (bl_mean b) (bl_std b); points = z_points z;
          a = \<lparr>an_id = aid, an_type = t, an_value = v, an_feature = feature, an_observed = observed, an_mean = Some (bl_mean b),
               an_z = z, an_detected = bv_now env, an_detection = d_id r, an_reason = []\<rparr>
      in if points \<le> 0 then st
         else case insert_anomaly a st of
                None \<Rightarrow> st
              | Some st1 \<Rightarrow>
                  if \<not> in_top_features env t v aid st1 then st1
                  else emit_anomaly_finding env r t v feature z observed (bl_mean b) ev aid
                         (record_anomaly_risk env t v feature z points aid [] st1))"

definition eval_statistical :: "behavior_env \<Rightarrow> event list \<Rightarrow> det_rule \<Rightarrow> event \<Rightarrow> string \<Rightarrow> behavior_state \<Rightarrow> behavior_state" where
  "eval_statistical env evs r ev aid st =
     (case bv_def env (d_definition r) of
        None \<Rightarrow> st
      | Some d \<Rightarrow>
          if bd_feature d = [] then st
          else case entity_for_feature d ev of
                 None \<Rightarrow> st
               | Some (t, v) \<Rightarrow>
                   (case observed_value env (bd_feature d) t v (ev_timestamp ev) evs of
                      None \<Rightarrow> st
                    | Some observed \<Rightarrow>
                        (case row_at baseline_key (bs_baselines st) (t, v, bd_feature d, default_window) of
                           None \<Rightarrow> st
                         | Some b \<Rightarrow> if \<not> is_trusted b then st else score_anomaly env r t v (bd_feature d) observed b ev aid st)))"

section \<open>Behavioral rules\<close>

definition novelty :: "behavior_env \<Rightarrow> graph_state \<Rightarrow> det_rule \<Rightarrow> event \<Rightarrow> node_ref \<Rightarrow> node_ref \<Rightarrow> string \<Rightarrow> string \<Rightarrow> behavior_state \<Rightarrow> behavior_state" where
  "novelty env g r ev key ent feature aid st =
     (if snd key = [] \<or> snd ent = [] then st
      else if row_count (\<lambda>a. an_type a = fst key \<and> an_value a = snd key \<and> sql_like (feature @ ''%'') (an_feature a)
                         \<and> bv_now env - day \<le> an_detected a) (bs_anomalies st) > 0 then st
      else case row_at en_node (entities g) ent of
             None \<Rightarrow> st
           | Some e \<Rightarrow>
               if day < bv_now env - en_first e then st
               else (case insert_anomaly
                            \<lparr>an_id = aid, an_type = fst key, an_value = snd key, an_feature = feature @ '':'' @ snd ent, an_observed = 1,
                             an_mean = None, an_z = 0, an_detected = bv_now env, an_detection = d_id r, an_reason = []\<rparr> st of
                       None \<Rightarrow> st
                     | Some st1 \<Rightarrow>
                         emit_anomaly_finding env r (fst key) (snd key) (feature @ '':'' @ snd ent) 0 1 0 ev aid
                           (record_anomaly_risk env (fst key) (snd key) feature 0 novelty_points aid [] st1)))"

definition float_attr :: "behavior_env \<Rightarrow> typed_attrs \<Rightarrow> string \<Rightarrow> rat option" where
  "float_attr env attrs k =
     (case map_of attrs k of Some (AttrNumber x) \<Rightarrow> Some x | Some (AttrText s) \<Rightarrow> bv_scan env s | _ \<Rightarrow> None)"

definition geo_of :: "behavior_env \<Rightarrow> typed_attrs \<Rightarrow> (rat \<times> rat) option" where
  "geo_of env attrs =
     (case (float_attr env attrs ''geo.latitude'', float_attr env attrs ''geo.longitude'') of
        (Some a, Some b) \<Rightarrow> Some (a, b)
      | _ \<Rightarrow> None)"

definition vpn_tagged :: "typed_attrs \<Rightarrow> bool" where
  "vpn_tagged attrs = list_ex (\<lambda>k. map_of attrs k \<noteq> None \<and> map_of attrs k \<noteq> Some (AttrBool False)) [''network.vpn'', ''network.proxy'']"

definition haversine_km :: "behavior_env \<Rightarrow> rat \<times> rat \<Rightarrow> rat \<times> rat \<Rightarrow> rat" where
  "haversine_km env p q =
     (let rnd = bv_rnd env; rad = (\<lambda>x. rnd (rnd (x * bv_pi env) / 180));
          la = rad (rnd (fst q - fst p)); lo = rad (rnd (snd q - snd p));
          sla = bv_sin env (rnd (la / 2)); slo = bv_sin env (rnd (lo / 2));
          a = rnd (rnd (sla * sla) + rnd (rnd (rnd (bv_cos env (rad (fst p)) * bv_cos env (rad (fst q))) * slo) * slo))
      in rnd (rnd (2 * 6371) * bv_asin env (bv_root env a)))"

text \<open>The previous login of the user.\<close>

definition prev_login :: "behavior_env \<Rightarrow> string \<Rightarrow> int \<Rightarrow> event list \<Rightarrow> event option" where
  "prev_login env u before evs =
     (case sort_desc (\<lambda>ev. (ev_timestamp ev, bv_event_rank env ev))
             (filter (\<lambda>ev. ev_user ev = u \<and> ev_event_type ev = ''authentication'' \<and> ev_timestamp ev < before) evs) of
        [] \<Rightarrow> None
      | ev # _ \<Rightarrow> Some ev)"

definition travel_anomaly :: "behavior_env \<Rightarrow> det_rule \<Rightarrow> event \<Rightarrow> rat \<Rightarrow> bool \<Rightarrow> string \<Rightarrow> behavior_state \<Rightarrow> behavior_state" where
  "travel_anomaly env r ev speed suppressed aid st =
     (let points = (if suppressed then 0 else z_points 4); reason = (if suppressed then ''vpn'' else [])
      in case insert_anomaly
                \<lparr>an_id = aid, an_type = ''user'', an_value = ev_user ev, an_feature = ''impossible_travel'', an_observed = speed,
                 an_mean = None, an_z = 4, an_detected = bv_now env, an_detection = d_id r, an_reason = reason\<rparr> st of
           None \<Rightarrow> st
         | Some st1 \<Rightarrow>
             let st2 = record_anomaly_risk env ''user'' (ev_user ev) ''impossible_travel'' 4 points aid reason st1
             in if suppressed then st2
                else emit_anomaly_finding env r ''user'' (ev_user ev) ''impossible_travel'' 4 speed 0 ev aid st2)"

definition impossible_travel :: "behavior_env \<Rightarrow> event list \<Rightarrow> det_rule \<Rightarrow> event \<Rightarrow> string \<Rightarrow> behavior_state \<Rightarrow> behavior_state" where
  "impossible_travel env evs r ev aid st =
     (if ev_user ev = [] \<or> ev_event_type ev \<noteq> ''authentication'' then st
      else case (geo_of env (bv_attrs env ev), prev_login env (ev_user ev) (ev_timestamp ev) evs) of
             (Some here, Some prev) \<Rightarrow>
               (case bv_stored env prev of
                  None \<Rightarrow> st
                | Some attrs \<Rightarrow>
                    (case geo_of env attrs of
                       None \<Rightarrow> st
                     | Some there \<Rightarrow>
                         let hours = bv_rnd env (of_int (ev_timestamp ev - ev_timestamp prev) / (3600 * 1000000000))
                         in if hours \<le> 0 then st
                            else let speed = bv_rnd env (haversine_km env here there / hours)
                                 in if speed \<le> travel_speed then st
                                    else travel_anomaly env r ev speed (vpn_tagged (bv_attrs env ev) \<or> vpn_tagged attrs) aid st))
           | _ \<Rightarrow> st)"

definition eval_behavioral :: "behavior_env \<Rightarrow> event list \<Rightarrow> graph_state \<Rightarrow> det_rule \<Rightarrow> event \<Rightarrow> string \<Rightarrow> behavior_state \<Rightarrow> behavior_state" where
  "eval_behavioral env evs g r ev aid st =
     (case bv_def env (d_definition r) of
        None \<Rightarrow> st
      | Some d \<Rightarrow>
          if bd_pattern d = ''first-seen-destination''
          then novelty env g r ev (''user'', ev_user ev) (''ip'', ev_destination_ip ev) ''first_seen_destination'' aid st
          else if bd_pattern d = ''rare-process''
          then novelty env g r ev (''host'', ev_host ev) (''process'', ev_process ev) ''rare_process'' aid st
          else if bd_pattern d = ''impossible-travel'' then impossible_travel env evs r ev aid st
          else st)"

section \<open>The engine\<close>

definition live_behavior :: "det_rule \<Rightarrow> bool" where
  "live_behavior r =
     (d_enabled r \<and> \<not> d_suppressed r \<and> to_lower (d_kind r) \<in> {''statistical'', ''behavioral''} \<and> d_definition r \<noteq> [])"

text \<open>The cached rules with the time they were read.\<close>

definition live_behavior_rules :: "int \<Rightarrow> int \<Rightarrow> det_rule list option \<Rightarrow> det_rule list \<times> int \<Rightarrow> det_rule list \<times> det_rule list \<times> int" where
  "live_behavior_rules now now2 listed cache =
     (if now - snd cache < rule_cache_ttl then (fst cache, cache)
      else case listed of
             None \<Rightarrow> ([], cache)
           | Some rs \<Rightarrow> (filter live_behavior rs, filter live_behavior rs, now2))"

fun process_event :: "behavior_env \<Rightarrow> event list \<Rightarrow> graph_state \<Rightarrow> (det_rule \<times> string) list \<Rightarrow> event \<Rightarrow> behavior_state \<Rightarrow> behavior_state" where
  "process_event env evs g [] ev st = st"
| "process_event env evs g ((r, aid) # rs) ev st =
     process_event env evs g rs ev
       (if to_lower (d_kind r) = ''statistical'' then eval_statistical env evs r ev aid st
        else if to_lower (d_kind r) = ''behavioral'' then eval_behavioral env evs g r ev aid st else st)"

definition enqueue_behavior :: "event option \<Rightarrow> event list \<Rightarrow> event list" where
  "enqueue_behavior e q = (case e of None \<Rightarrow> q | Some ev \<Rightarrow> if length q < 4096 then q @ [ev] else q)"

section \<open>The percentile\<close>

lemma exchange_least: "exchange x ys = (m, r) \<Longrightarrow> mset (m # r) = mset (x # ys) \<and> m \<le> x \<and> (\<forall>y \<in> set r. m \<le> y)"
proof (induction x ys arbitrary: m r rule: exchange.induct)
  case (2 x y ys)
  show ?case
  proof (cases "y < x")
    case True
    then obtain r' where r: "exchange y ys = (m, r')" "r = x # r'" using "2.prems" by (auto split: prod.splits)
    with "2.IH"(1) [OF True r(1)] True show ?thesis by auto
  next
    case False
    then obtain r' where r: "exchange x ys = (m, r')" "r = y # r'" using "2.prems" by (auto split: prod.splits)
    with "2.IH"(2) [OF False r(1)] False show ?thesis by auto
  qed
qed simp

lemma exchange_sort_sorts: "mset (exchange_sort xs) = mset xs \<and> sorted (exchange_sort xs)"
proof (induction xs rule: exchange_sort.induct)
  case (2 x xs)
  obtain m r where e: "exchange x xs = (m, r)" by fastforce
  from exchange_least [OF e] have l: "mset (m # r) = mset (x # xs)" "\<forall>y \<in> set r. m \<le> y" by auto
  have "set (exchange_sort r) = set r" using 2 e by (metis mset_eq_setD snd_conv)
  then show ?case using 2 e l by auto
qed simp

text \<open>The two nested loops of the percentile are a sort.\<close>

theorem exchange_sort_is_sort: "exchange_sort xs = sort xs"
  using exchange_sort_sorts [of xs] properties_for_sort [of "exchange_sort xs" xs] by simp

text \<open>The percentile is one of the samples.\<close>

lemma p95_is_a_sample: "v \<noteq> [] \<Longrightarrow> p95_of rnd v \<in> set v"
proof -
  assume "v \<noteq> []"
  moreover from this have "p95_index rnd (length v) < length v"
    by (auto simp: p95_index_def Let_def nat_less_iff)
  ultimately show ?thesis
    unfolding p95_of_def exchange_sort_is_sort using nth_mem [of "p95_index rnd (length v)" "sort v"] by simp
qed

section \<open>Trust\<close>

text \<open>A baseline with fewer than 20 samples never scores: the rule changes nothing.\<close>

theorem untrusted_baseline_scores_nothing:
  assumes "case bv_def env (d_definition r) of
     Some d \<Rightarrow> (case entity_for_feature d ev of
        Some (t, v) \<Rightarrow> (case row_at baseline_key (bs_baselines st) (t, v, bd_feature d, default_window) of
           Some b \<Rightarrow> bl_count b < 20 | None \<Rightarrow> True) | None \<Rightarrow> True) | None \<Rightarrow> True"
  shows "eval_statistical env evs r ev aid st = st"
  using assms by (auto simp: eval_statistical_def is_trusted_def min_samples_def split: option.splits)

definition baselines_from_updates :: "baseline list \<Rightarrow> bool" where
  "baselines_from_updates rows =
     list_all (\<lambda>b. bl_window b = 30 \<and> (bl_type b, bl_feature b) \<in> {(''user'', ''login_count_per_hour''), (''host'', ''bytes_per_hour'')}) rows"

lemma update_feature_rows:
  "(t, feature) \<in> {(''user'', ''login_count_per_hour''), (''host'', ''bytes_per_hour'')} \<Longrightarrow> baselines_from_updates rows \<Longrightarrow>
   baselines_from_updates (update_feature env t feature samples vs rows)"
proof (induction vs arbitrary: rows)
  case (Cons v vs)
  have "baselines_from_updates (upsert_baseline (baseline_of env t v feature (samples v)) rows)"
    using Cons.prems by (auto simp: baselines_from_updates_def upsert_baseline_def upsert_row_def baseline_of_def
        default_window_def merge_baseline_def set_update_rows list_all_iff)
  then show ?case using Cons by (simp add: update_feature_def)
qed (simp add: update_feature_def)

lemma update_all_rows: "baselines_from_updates (bs_baselines st) \<Longrightarrow> baselines_from_updates (bs_baselines (update_all env evs st))"
  by (simp add: update_all_def update_logins_def update_bytes_def update_feature_rows)

text \<open>
  The two guards on history are one: every baseline the updater writes is stored with a window of 30 days, so the
  minimum of 14 days never refuses one, and 20 hours of a single day are trusted.
\<close>

theorem window_guard_is_void:
  assumes "baselines_from_updates (bs_baselines st)" and "b \<in> set (bs_baselines (update_all env evs st))"
  shows "is_trusted b \<longleftrightarrow> 20 \<le> bl_count b"
  using update_all_rows [OF assms(1)] assms(2)
  by (auto simp: baselines_from_updates_def list_all_iff is_trusted_def min_samples_def min_window_days_def)

lemma entity_for_feature_type:
  "entity_for_feature d ev = Some e \<Longrightarrow> fst e = ''host'' \<longleftrightarrow> to_lower (bd_entity d) = ''host''"
  by (auto simp: entity_for_feature_def split: if_splits)

text \<open>A rule on the logins of a host, or on the bytes of a user, has no baseline and never changes anything.\<close>

theorem mixed_dimension_is_dead:
  assumes "baselines_from_updates (bs_baselines st)" and "bv_def env (d_definition r) = Some d"
    and "(bd_feature d = ''login_count_per_hour'' \<and> to_lower (bd_entity d) = ''host'')
       \<or> (bd_feature d = ''bytes_per_hour'' \<and> to_lower (bd_entity d) \<noteq> ''host'')"
  shows "eval_statistical env evs r ev aid st = st"
proof (cases "entity_for_feature d ev")
  case (Some e)
  have "row_at baseline_key (bs_baselines st) (fst e, snd e, bd_feature d, default_window) = None"
  proof (rule ccontr)
    assume "\<not> ?thesis"
    then obtain b where "row_at baseline_key (bs_baselines st) (fst e, snd e, bd_feature d, default_window) = Some b" by blast
    then have "b \<in> set (bs_baselines st)" "bl_type b = fst e" "bl_feature b = bd_feature d"
      by (auto dest: row_at_Some simp: baseline_key_def)
    moreover from this(1) have "(bl_type b, bl_feature b) \<in> {(''user'', ''login_count_per_hour''), (''host'', ''bytes_per_hour'')}"
      using assms(1) by (simp add: baselines_from_updates_def list_all_iff)
    moreover have "fst e = ''host'' \<longleftrightarrow> to_lower (bd_entity d) = ''host''" using entity_for_feature_type [of d ev] Some by simp
    ultimately show False using assms(3) by auto
  qed
  then show ?thesis using assms(2) Some by (auto simp: eval_statistical_def split: prod.split option.split)
qed (use assms(2) in \<open>simp add: eval_statistical_def split: option.split\<close>)

section \<open>Travel and novelty\<close>

text \<open>
  A suppressed travel raises no finding and adds no points: when either login is tagged as VPN or proxy, the
  findings stay, and the only thing recorded is an anomaly with its reason and a contribution of zero points.
\<close>

theorem vpn_travel_is_suppressed:
  assumes "vpn_tagged (bv_attrs env ev)"
  shows "bs_findings (impossible_travel env evs r ev aid st) = bs_findings st
    \<and> list_all (\<lambda>a. an_reason a = ''vpn'') (drop (length (bs_anomalies st)) (bs_anomalies (impossible_travel env evs r ev aid st)))
    \<and> (case (bs_risk st, bs_risk (impossible_travel env evs r ev aid st)) of
         (Some rs, Some rs') \<Rightarrow> list_all (\<lambda>c. rc_points c = 0) (drop (length (risk_log rs)) (risk_log rs'))
       | (None, rs') \<Rightarrow> rs' = None
       | _ \<Rightarrow> False)"
proof -
  let ?t = "\<lambda>speed. travel_anomaly env r ev speed True aid st"
  have travel: "bs_findings (?t speed) = bs_findings st
    \<and> list_all (\<lambda>a. an_reason a = ''vpn'') (drop (length (bs_anomalies st)) (bs_anomalies (?t speed)))
    \<and> (case (bs_risk st, bs_risk (?t speed)) of
         (Some rs, Some rs') \<Rightarrow> list_all (\<lambda>c. rc_points c = 0) (drop (length (risk_log rs)) (risk_log rs'))
       | (None, rs') \<Rightarrow> rs' = None
       | _ \<Rightarrow> False)" for speed
    by (auto simp: travel_anomaly_def insert_anomaly_def record_anomaly_risk_def record_risk_def contribution_defaults_def Let_def
        split: option.split)
  have "impossible_travel env evs r ev aid st = st \<or> (\<exists>speed. impossible_travel env evs r ev aid st = ?t speed)"
    using assms by (auto simp: impossible_travel_def Let_def split: option.split)
  then show ?thesis
  proof
    assume "\<exists>speed. impossible_travel env evs r ev aid st = ?t speed"
    then show ?thesis using travel by metis
  qed (simp split: option.split)
qed

lemma like_prefix: "sql_like (p @ ''%'') (p @ s)"
proof (induction p)
  case Nil
  have "sql_like ''%'' s" by (induction s) simp_all
  then show ?case by simp
next
  case (Cons c p)
  have weaker: "sql_like ps cs \<Longrightarrow> sql_like (CHR ''%'' # ps) cs" for ps cs by (cases cs) simp_all
  show ?case using Cons weaker [of "p @ ''%''" "p @ s"] by simp
qed

text \<open>
  A novelty is scored once a day for the observing entity, whatever it meets: after one new destination of a user no other
  destination of that user raises anything for 24 hours.
\<close>

theorem second_novelty_is_dropped:
  assumes "a \<in> set (bs_anomalies st)" and "an_type a = fst key" "an_value a = snd key" "an_feature a = feature @ '':'' @ other"
    and "bv_now env - day \<le> an_detected a"
  shows "novelty env g r ev key ent feature aid st = st"
proof -
  have "sql_like (feature @ ''%'') (an_feature a)" using assms(4) like_prefix by simp
  then have "a \<in> set (filter (\<lambda>a. an_type a = fst key \<and> an_value a = snd key \<and> sql_like (feature @ ''%'') (an_feature a)
      \<and> bv_now env - day \<le> an_detected a) (bs_anomalies st))" using assms by simp
  then have "row_count (\<lambda>a. an_type a = fst key \<and> an_value a = snd key \<and> sql_like (feature @ ''%'') (an_feature a)
      \<and> bv_now env - day \<le> an_detected a) (bs_anomalies st) > 0"
    unfolding row_count_def by (rule length_pos_if_in_set)
  then show ?thesis by (simp add: novelty_def)
qed

end
