(* ===== verification/AlertStore.thy ===== *)
theory AlertStore
  imports Complex_Main RowLaws EventModel "HOL-Library.AList" "HOL-Library.Multiset"
begin

text \<open>
  Alerts, their notes and the webhooks they are sent to: \<^verbatim>\<open>internal/alerts/alert.go\<close> and \<^verbatim>\<open>webhook.go\<close>.
  The JSON texts, HMAC-SHA256, the HTTP client and the clock are fields of the environment; an answer of the
  client is the status of the response, or nothing when the request fails. The retry delays are not modelled.
\<close>

section \<open>State\<close>

record alert_note =
  an_note_id :: string
  an_alert :: string
  an_created :: int
  an_content :: string
  an_author :: string

record alert =
  al_id :: string
  al_time :: int
  al_detection :: string
  al_severity :: string
  al_status :: string
  al_title :: string
  al_description :: string
  al_risk :: rat
  al_entities :: string
  al_events :: string
  al_metadata :: string
  al_notes :: "alert_note list"

text \<open>The columns that may be NULL.\<close>

record alert_row =
  aw_id :: string
  aw_time :: int
  aw_detection :: string
  aw_severity :: string
  aw_status :: string
  aw_title :: string
  aw_description :: "string option"
  aw_risk :: "rat option"
  aw_entities :: "string option"
  aw_events :: "string option"
  aw_metadata :: "string option"

datatype alert_error =
    NilAlert
  | AlertWrite
  | EmptyAlertId
  | AlertMissing string
  | EmptyAlertStatus
  | NilNote
  | NoteWithoutAlert
  | RequestNotMade
  | RequestFailed
  | UnexpectedStatus int
  | UrlRequired
  | UrlTooShort
  | TimeoutNotPositive
  | NegativeDelay

record webhook_config =
  wc_url :: string
  wc_secret :: string
  wc_enabled :: bool
  wc_content_type :: string
  wc_headers :: "(string \<times> string) list"
  wc_retries :: int
  wc_delay :: int
  wc_timeout :: int
  wc_methods :: "string list"

record notifier =
  nf_config :: webhook_config
  nf_failures :: int
  nf_last_fail :: int

record webhook_request =
  wr_url :: string
  wr_headers :: "(string \<times> string) list"
  wr_body :: string

record alert_env =
  ae_now :: int
  ae_payload :: "(string \<times> string) list \<Rightarrow> string"
  ae_rfc3339 :: "int \<Rightarrow> string"
  ae_hmac :: "string \<Rightarrow> string \<Rightarrow> string"
  ae_request :: "string \<Rightarrow> bool"
  ae_http :: "webhook_request \<Rightarrow> nat \<Rightarrow> int option"

record alert_state =
  as_alerts :: "alert_row list"
  as_notes :: "alert_note list"
  as_notifiers :: "notifier list"

section \<open>Webhooks\<close>

definition webhook_second :: int where "webhook_second = 1000000000"

definition default_webhook_config :: webhook_config where
  "default_webhook_config =
     \<lparr>wc_url = [], wc_secret = [], wc_enabled = True, wc_content_type = ''application/json'', wc_headers = [], wc_retries = 3,
      wc_delay = 2 * webhook_second, wc_timeout = 10 * webhook_second, wc_methods = [''alert.created'', ''alert.updated'', ''alert.resolved'']\<rparr>"

definition new_notifier :: "webhook_config \<Rightarrow> notifier" where
  "new_notifier c =
     \<lparr>nf_config = c\<lparr>wc_content_type := (if wc_content_type c = [] then ''application/json'' else wc_content_type c),
        wc_retries := (if wc_retries c = 0 then 3 else wc_retries c),
        wc_delay := (if wc_delay c = 0 then 2 * webhook_second else wc_delay c),
        wc_timeout := (if wc_timeout c = 0 then 10 * webhook_second else wc_timeout c)\<rparr>,
      nf_failures = 0, nf_last_fail = 0\<rparr>"

definition validate_webhook :: "webhook_config \<Rightarrow> alert_error option" where
  "validate_webhook c =
     (if wc_url c = [] then Some UrlRequired
      else if length (utf8 (wc_url c)) \<le> 8 then Some UrlTooShort
      else if wc_timeout c \<le> 0 then Some TimeoutNotPositive
      else if wc_delay c < 0 then Some NegativeDelay
      else None)"

definition sign :: "alert_env \<Rightarrow> webhook_config \<Rightarrow> string \<Rightarrow> string" where
  "sign env c payload = (if wc_secret c = [] then [] else ''sha256='' @ ae_hmac env (wc_secret c) payload)"

definition record_failure :: "int \<Rightarrow> notifier \<Rightarrow> notifier" where
  "record_failure now n = n\<lparr>nf_failures := nf_failures n + 1, nf_last_fail := now\<rparr>"

definition method_allowed :: "webhook_config \<Rightarrow> string \<Rightarrow> bool" where
  "method_allowed c e = (wc_methods c = [] \<or> e \<in> set (wc_methods c))"

definition reset_failures :: "notifier \<Rightarrow> notifier" where
  "reset_failures n = n\<lparr>nf_failures := 0, nf_last_fail := 0\<rparr>"

definition webhook_body :: "alert_env \<Rightarrow> alert \<Rightarrow> string \<Rightarrow> string" where
  "webhook_body env a e =
     ae_payload env [(''alert_id'', al_id a), (''event'', e), (''severity'', al_severity a), (''status'', al_status a),
       (''timestamp'', ae_rfc3339 env (ae_now env)), (''title'', al_title a)]"

text \<open>Setting a header replaces the value it has; the configured headers come last.\<close>

definition new_request :: "alert_env \<Rightarrow> webhook_config \<Rightarrow> string \<Rightarrow> string \<Rightarrow> webhook_request" where
  "new_request env c e body =
     \<lparr>wr_url = wc_url c,
      wr_headers = fold (\<lambda>(k, v). AList.update k v) (wc_headers c)
        [(''Content-Type'', wc_content_type c), (''X-Quetzalog-Signature'', sign env c body), (''X-Quetzalog-Event'', e)],
      wr_body = body\<rparr>"

text \<open>
  The loop over the attempts: \<open>i\<close> is the number of the attempt and \<open>k\<close> the number of attempts left. The answer holds
  the error, the notifier and the number of requests sent.
\<close>

fun send_attempts :: "alert_env \<Rightarrow> webhook_request \<Rightarrow> nat \<Rightarrow> nat \<Rightarrow> notifier \<Rightarrow> alert_error option \<times> notifier \<times> nat" where
  "send_attempts env r i 0 n = (None, n, 0)"
| "send_attempts env r i (Suc k) n =
     (if \<not> ae_request env (wr_url r) then (Some RequestNotMade, n, 0)
      else case ae_http env r i of
             None \<Rightarrow>
               let n' = record_failure (ae_now env) n
               in if k = 0 then (Some RequestFailed, n', 1)
                  else (case send_attempts env r (i + 1) k n' of (e, n'', sent) \<Rightarrow> (e, n'', sent + 1))
           | Some s \<Rightarrow>
               if 200 \<le> s \<and> s < 300 then (None, n, 1)
               else if 500 \<le> s \<and> k \<noteq> 0 then
                 (case send_attempts env r (i + 1) k n of (e, n'', sent) \<Rightarrow> (e, n'', sent + 1))
               else (Some (UnexpectedStatus s), n, 1))"

definition notify :: "alert_env \<Rightarrow> alert \<Rightarrow> string \<Rightarrow> notifier \<Rightarrow> alert_error option \<times> notifier \<times> nat" where
  "notify env a e n =
     (let c = nf_config n; body = webhook_body env a e
      in if \<not> wc_enabled c \<or> \<not> method_allowed c e then (None, n, 0)
         else send_attempts env (new_request env c e body) 0 (nat (wc_retries c + 1)) n)"

section \<open>Operations of the store\<close>

definition notify_webhooks :: "alert_env \<Rightarrow> alert \<Rightarrow> string \<Rightarrow> alert_state \<Rightarrow> alert_state" where
  "notify_webhooks env a e st = st\<lparr>as_notifiers := map (\<lambda>n. fst (snd (notify env a e n))) (as_notifiers st)\<rparr>"

definition alert_defaults :: "string \<Rightarrow> int \<Rightarrow> alert \<Rightarrow> alert" where
  "alert_defaults uuid now a =
     a\<lparr>al_id := (if al_id a = [] then uuid else al_id a),
       al_status := (if al_status a = [] then ''new'' else al_status a),
       al_severity := (if al_severity a = [] then ''medium'' else al_severity a),
       al_entities := (if al_entities a = [] then ''[]'' else al_entities a),
       al_events := (if al_events a = [] then ''[]'' else al_events a),
       al_metadata := (if al_metadata a = [] then ''{}'' else al_metadata a),
       al_time := now\<rparr>"

definition row_of_alert :: "alert \<Rightarrow> alert_row" where
  "row_of_alert a =
     \<lparr>aw_id = al_id a, aw_time = al_time a, aw_detection = al_detection a, aw_severity = al_severity a, aw_status = al_status a,
      aw_title = al_title a, aw_description = Some (al_description a), aw_risk = Some (al_risk a),
      aw_entities = Some (al_entities a), aw_events = Some (al_events a), aw_metadata = Some (al_metadata a)\<rparr>"

definition create_alert :: "alert_env \<Rightarrow> string \<Rightarrow> alert option \<Rightarrow> alert_state \<Rightarrow> (alert_error + alert) \<times> alert_state" where
  "create_alert env uuid a0 st =
     (case a0 of
        None \<Rightarrow> (Inl NilAlert, st)
      | Some b \<Rightarrow>
          let a = alert_defaults uuid (ae_now env) b
          in if taken aw_id (al_id a) (as_alerts st) then (Inl AlertWrite, st)
             else (Inr a, notify_webhooks env a ''alert.created'' (st\<lparr>as_alerts := as_alerts st @ [row_of_alert a]\<rparr>)))"

definition or_text :: "string \<Rightarrow> string option \<Rightarrow> string" where
  "or_text d v = (case v of None \<Rightarrow> d | Some s \<Rightarrow> if s = [] then d else s)"

definition alert_of_row :: "alert_row \<Rightarrow> alert" where
  "alert_of_row r =
     \<lparr>al_id = aw_id r, al_time = aw_time r, al_detection = aw_detection r, al_severity = aw_severity r, al_status = aw_status r,
      al_title = aw_title r, al_description = or_text [] (aw_description r),
      al_risk = (case aw_risk r of None \<Rightarrow> 0 | Some x \<Rightarrow> x), al_entities = or_text ''[]'' (aw_entities r),
      al_events = or_text ''[]'' (aw_events r), al_metadata = or_text ''{}'' (aw_metadata r), al_notes = []\<rparr>"

definition alert_notes :: "(alert_note \<Rightarrow> nat) \<Rightarrow> string \<Rightarrow> alert_state \<Rightarrow> alert_error + alert_note list" where
  "alert_notes rank i st =
     (if i = [] then Inl EmptyAlertId
      else Inr (sort_key (\<lambda>n. (an_created n, rank n)) (filter (\<lambda>n. an_alert n = i) (as_notes st))))"

definition get_alert :: "(alert_note \<Rightarrow> nat) \<Rightarrow> string \<Rightarrow> alert_state \<Rightarrow> alert_error + alert" where
  "get_alert rank i st =
     (if i = [] then Inl EmptyAlertId
      else case select_row (\<lambda>r. aw_id r = i) (as_alerts st) of
             None \<Rightarrow> Inl (AlertMissing i)
           | Some r \<Rightarrow> (case alert_notes rank i st of
                          Inl e \<Rightarrow> Inl e
                        | Inr ns \<Rightarrow> Inr ((alert_of_row r)\<lparr>al_notes := ns\<rparr>)))"

definition notes_per_query :: nat where "notes_per_query = 500"

function chunks :: "nat \<Rightarrow> 'a list \<Rightarrow> 'a list list" where
  "chunks n xs = (if xs = [] \<or> n = 0 then [] else take n xs # chunks n (drop n xs))"
  by pat_completeness auto
termination
  by (relation "measure (\<lambda>(n, xs). length xs)") auto

declare chunks.simps [simp del]

definition notes_of_chunk :: "(alert_note \<Rightarrow> nat) \<Rightarrow> alert_note list \<Rightarrow> string list \<Rightarrow> (string \<Rightarrow> alert_note list) \<Rightarrow> string \<Rightarrow> alert_note list" where
  "notes_of_chunk rank rows ids m =
     fold (\<lambda>n m. m(an_alert n := m (an_alert n) @ [n]))
       (sort_key (\<lambda>n. (an_alert n, an_created n, rank n)) (filter (\<lambda>n. an_alert n \<in> set ids) rows)) m"

definition notes_by_alert_ids :: "(alert_note \<Rightarrow> nat) \<Rightarrow> string list \<Rightarrow> alert_note list \<Rightarrow> string \<Rightarrow> alert_note list" where
  "notes_by_alert_ids rank ids rows = fold (notes_of_chunk rank rows) (chunks notes_per_query ids) (\<lambda>_. [])"

record alert_filter =
  af_severity :: string
  af_status :: string
  af_limit :: int
  af_offset :: int

definition alert_page :: "(alert_row \<Rightarrow> nat) \<Rightarrow> alert_filter \<Rightarrow> alert_row list \<Rightarrow> alert_row list" where
  "alert_page rank f rows =
     (let limit = (if af_limit f \<le> 0 then 100 else af_limit f); offset = (if af_offset f < 0 then 0 else af_offset f)
      in take (nat limit) (drop (nat offset)
           (sort_desc (\<lambda>r. (aw_time r, rank r))
             (filter (\<lambda>r. (af_severity f = [] \<or> aw_severity r = af_severity f) \<and> (af_status f = [] \<or> aw_status r = af_status f)) rows))))"

definition list_alerts :: "(alert_row \<Rightarrow> nat) \<Rightarrow> (alert_note \<Rightarrow> nat) \<Rightarrow> alert_filter \<Rightarrow> alert_state \<Rightarrow> alert list" where
  "list_alerts rank note_rank f st =
     (let rows = alert_page rank f (as_alerts st); ns = notes_by_alert_ids note_rank (map aw_id rows) (as_notes st)
      in map (\<lambda>r. (alert_of_row r)\<lparr>al_notes := ns (aw_id r)\<rparr>) rows)"

definition blank_alert :: "string \<Rightarrow> string \<Rightarrow> alert" where
  "blank_alert i status =
     \<lparr>al_id = i, al_time = 0, al_detection = [], al_severity = [], al_status = status, al_title = [], al_description = [], al_risk = 0,
      al_entities = [], al_events = [], al_metadata = [], al_notes = []\<rparr>"

definition set_alert_status :: "alert_env \<Rightarrow> string \<Rightarrow> string \<Rightarrow> alert_state \<Rightarrow> (alert_error + unit) \<times> alert_state" where
  "set_alert_status env i status st =
     (if i = [] then (Inl EmptyAlertId, st)
      else if status = [] then (Inl EmptyAlertStatus, st)
      else (Inr (), notify_webhooks env (blank_alert i status) (if status = ''resolved'' then ''alert.resolved'' else ''alert.updated'')
             (st\<lparr>as_alerts := update_rows (\<lambda>r. aw_id r = i) (\<lambda>r. r\<lparr>aw_status := status\<rparr>) (as_alerts st)\<rparr>)))"

definition add_alert_note :: "string \<Rightarrow> int \<Rightarrow> alert_note option \<Rightarrow> alert_state \<Rightarrow> (alert_error + alert_note) \<times> alert_state" where
  "add_alert_note uuid now n0 st =
     (case n0 of
        None \<Rightarrow> (Inl NilNote, st)
      | Some m \<Rightarrow>
          if an_alert m = [] then (Inl NoteWithoutAlert, st)
          else let n = m\<lparr>an_note_id := (if an_note_id m = [] then uuid else an_note_id m), an_created := now\<rparr>
               in if taken an_note_id (an_note_id n) (as_notes st) \<or> \<not> taken aw_id (an_alert n) (as_alerts st) then (Inl AlertWrite, st)
                  else (Inr n, st\<lparr>as_notes := as_notes st @ [n]\<rparr>))"

definition set_notifiers :: "notifier list \<Rightarrow> alert_state \<Rightarrow> alert_state" where
  "set_notifiers ns st = st\<lparr>as_notifiers := ns\<rparr>"

definition new_alert :: "string \<Rightarrow> int \<Rightarrow> alert" where
  "new_alert uuid now = (blank_alert uuid ''new'')\<lparr>al_time := now\<rparr>"

definition entities_from_event :: "((string \<times> string) list list \<Rightarrow> string) \<Rightarrow> event option \<Rightarrow> string" where
  "entities_from_event json ev =
     (case ev of
        None \<Rightarrow> ''[]''
      | Some e \<Rightarrow> json [[(''host'', ev_host e), (''id'', ev_id e), (''ip'', ev_ip e), (''severity'', ev_severity e),
                        (''source'', ev_source e), (''user'', ev_user e)]])"

text \<open>One operation, with a uuid that is never the empty text.\<close>

inductive alert_step :: "alert_state \<Rightarrow> alert_state \<Rightarrow> bool" where
  raised: "uuid \<noteq> [] \<Longrightarrow> alert_step st (snd (create_alert env uuid a st))"
| moved: "alert_step st (snd (set_alert_status env i status st))"
| noted: "uuid \<noteq> [] \<Longrightarrow> alert_step st (snd (add_alert_note uuid now n st))"
| wired: "alert_step st (set_notifiers ns st)"

definition no_alerts :: alert_state where
  "no_alerts = \<lparr>as_alerts = [], as_notes = [], as_notifiers = []\<rparr>"

section \<open>Delivery\<close>

definition transient :: "int option \<Rightarrow> bool" where
  "transient a = (case a of None \<Rightarrow> True | Some s \<Rightarrow> 500 \<le> s)"

definition delivered :: "int option \<Rightarrow> bool" where
  "delivered a = (case a of None \<Rightarrow> False | Some s \<Rightarrow> 200 \<le> s \<and> s < 300)"

definition answers :: "alert_env \<Rightarrow> webhook_request \<Rightarrow> nat \<Rightarrow> nat \<Rightarrow> int option list" where
  "answers env r i n = map (ae_http env r) [i ..< i + n]"

text \<open>What a run of attempts may have met: transient answers, then one that ends it.\<close>

definition attempts_outcome :: "alert_error option \<Rightarrow> int option list \<Rightarrow> nat \<Rightarrow> bool" where
  "attempts_outcome e as k =
     (as \<noteq> [] \<and> length as \<le> k \<and> list_all transient (butlast as)
      \<and> (if e = None then delivered (last as) else \<not> delivered (last as) \<and> (\<not> transient (last as) \<or> length as = k)))"

lemma answers_Suc: "answers env r i (Suc n) = ae_http env r i # answers env r (i + 1) n"
  by (simp add: answers_def upt_rec)

lemma attempts_spec:
  "ae_request env (wr_url r) \<Longrightarrow> k \<noteq> 0 \<Longrightarrow> send_attempts env r i k n = (e, n', sent) \<Longrightarrow>
   attempts_outcome e (answers env r i sent) k
   \<and> nf_failures n' = nf_failures n + int (length (filter (\<lambda>a. a = None) (answers env r i sent)))"
proof (induction env r i k n arbitrary: e n' sent rule: send_attempts.induct)
  case (2 env r i k n)
  show ?case
  proof (cases "k \<noteq> 0 \<and> transient (ae_http env r i)")
    case True
    define m where "m = (case ae_http env r i of None \<Rightarrow> record_failure (ae_now env) n | Some s \<Rightarrow> n)"
    obtain sent' where rest: "send_attempts env r (i + 1) k m = (e, n', sent')" and sent: "sent = Suc sent'"
      using 2(3,5) True by (cases "ae_http env r i") (auto simp: transient_def m_def split: prod.splits if_splits)
    have "attempts_outcome e (answers env r (i + 1) sent') k
      \<and> nf_failures n' = nf_failures m + int (length (filter (\<lambda>a. a = None) (answers env r (i + 1) sent')))"
    proof (cases "ae_http env r i")
      case None
      show ?thesis using 2(3) True None rest by (intro 2(1)) (simp_all add: m_def)
    next
      case (Some s)
      have m: "m = n" by (simp add: m_def Some)
      show ?thesis unfolding m by (rule 2(2) [OF _ Some]) (use 2(3) True Some rest m in \<open>simp_all add: transient_def\<close>)
    qed
    then show ?thesis using True sent
      by (cases "ae_http env r i") (auto simp: attempts_outcome_def answers_Suc m_def record_failure_def split: if_splits)
  next
    case False
    then have "sent = 1" "attempts_outcome e [ae_http env r i] (Suc k)"
      "nf_failures n' = nf_failures n + (if ae_http env r i = None then 1 else 0)"
      using 2(3,5) by (cases "ae_http env r i"; auto simp: attempts_outcome_def transient_def delivered_def record_failure_def split: if_splits)+
    then show ?thesis by (simp add: answers_def)
  qed
qed simp

text \<open>
  C32. A notification is retried exactly while it should be. When an enabled webhook with a non-negative retry count is asked
  to deliver an event it is subscribed to and the request can be made, at least one and at most retries + 1 requests are
  sent, every answer before the last is a transport error or a status from 500, and no error is reported
  exactly when the last answer is a success; an error is reported only after a final answer or with the attempts used up.
\<close>

theorem notify_retries:
  fixes a :: alert
  assumes "wc_enabled (nf_config n)" and "method_allowed (nf_config n) e" and "ae_request env (wc_url (nf_config n))"
    and "0 \<le> wc_retries (nf_config n)"
  defines "r \<equiv> new_request env (nf_config n) e (webhook_body env a e)"
  shows "(case notify env a e n of (err, n', sent) \<Rightarrow>
     attempts_outcome err (answers env r 0 sent) (nat (wc_retries (nf_config n) + 1))
     \<and> nf_failures n' = nf_failures n + int (length (filter (\<lambda>x. x = None) (answers env r 0 sent))))"
proof -
  obtain err n' sent where h: "send_attempts env r 0 (nat (wc_retries (nf_config n) + 1)) n = (err, n', sent)"
    by (cases "send_attempts env r 0 (nat (wc_retries (nf_config n) + 1)) n")
  moreover have "ae_request env (wr_url r)" using assms(3) by (simp add: r_def new_request_def)
  ultimately show ?thesis using attempts_spec [OF _ _ h] assms(1,2,4) by (simp add: notify_def Let_def r_def)
qed

text \<open>A negative retry count, which the validation accepts, sends nothing and reports no error.\<close>

theorem negative_retries_send_nothing:
  "wc_retries (nf_config n) < 0 \<Longrightarrow> notify env a e n = (None, n, 0)"
  by (simp add: notify_def Let_def)

text \<open>The number of consecutive failures counts those since the last reset: a delivery never lowers it.\<close>

lemma attempts_failures: "nf_failures n \<le> nf_failures (fst (snd (send_attempts env r i k n)))"
proof (induction env r i k n rule: send_attempts.induct)
  case (2 env r i k n)
  then show ?case
    by (cases "ae_http env r i") (auto simp: record_failure_def Let_def split: prod.splits intro: order_trans)
qed simp

lemma delivery_keeps_the_count: "nf_failures n \<le> nf_failures (fst (snd (notify env a e n)))"
  by (simp add: notify_def attempts_failures Let_def)

section \<open>The tables\<close>

definition alert_inv :: "alert_state \<Rightarrow> bool" where
  "alert_inv st =
     (unique_by aw_id (as_alerts st) \<and> list_all (\<lambda>r. aw_id r \<noteq> []) (as_alerts st) \<and> unique_by an_note_id (as_notes st)
      \<and> list_all (\<lambda>n. taken aw_id (an_alert n) (as_alerts st)) (as_notes st))"

lemma notify_tables [simp]: "as_alerts (notify_webhooks env a e st) = as_alerts st" "as_notes (notify_webhooks env a e st) = as_notes st"
  by (simp_all add: notify_webhooks_def)

lemma notify_inv [simp]: "alert_inv (notify_webhooks env a e st) = alert_inv st"
  by (simp add: alert_inv_def)

lemma alert_step_inv: "alert_step st st' \<Longrightarrow> alert_inv st \<Longrightarrow> alert_inv st'"
proof (induction rule: alert_step.induct)
  case (raised uuid st env a)
  then show ?case
    by (auto simp: create_alert_def Let_def alert_inv_def table_simps row_of_alert_def alert_defaults_def list_all_iff taken_after_snoc
        split: option.split)
next
  case (moved st env i status)
  then show ?case
    by (auto simp: set_alert_status_def alert_inv_def unique_by_update taken_after_update list_all_iff set_update_rows)
next
  case (noted uuid st now n)
  then show ?case
    by (auto simp: add_alert_note_def Let_def alert_inv_def table_simps list_all_iff split: option.split)
next
  case (wired st ns)
  then show ?case by (simp add: set_notifiers_def alert_inv_def)
qed

lemma alert_reachable: "alert_step\<^sup>*\<^sup>* no_alerts st \<Longrightarrow> alert_inv st"
proof (induction rule: rtranclp_induct)
  case base
  then show ?case by (simp add: alert_inv_def no_alerts_def unique_by_def)
qed (rule alert_step_inv)

section \<open>Notes in chunks\<close>

lemma sort_key_order:
  "(\<And>x y. x \<in> set xs \<Longrightarrow> y \<in> set xs \<Longrightarrow> f x \<le> f y \<longleftrightarrow> g x \<le> g y) \<Longrightarrow> sort_key f xs = sort_key g xs"
proof (induction xs)
  case (Cons x xs)
  have "insort_key f x ys = insort_key g x ys" if "set ys \<subseteq> set xs" for ys
    using that Cons.prems by (induction ys) auto
  then show ?case using Cons by simp
qed simp

lemma fold_group:
  "fold (\<lambda>n m. m(an_alert n := m (an_alert n) @ [n])) ns m i = m i @ filter (\<lambda>n. an_alert n = i) ns"
  by (induction ns arbitrary: m) auto

lemma notes_of_chunk_at:
  "notes_of_chunk rank rows ids m i =
     m i @ (if i \<in> set ids then sort_key (\<lambda>n. (an_created n, rank n)) (filter (\<lambda>n. an_alert n = i) rows) else [])"
proof -
  have "filter (\<lambda>n. an_alert n = i) (filter (\<lambda>n. an_alert n \<in> set ids) rows)
      = (if i \<in> set ids then filter (\<lambda>n. an_alert n = i) rows else [])"
    by (induction rows) auto
  moreover have "sort_key (\<lambda>n. (an_alert n, an_created n, rank n)) (filter (\<lambda>n. an_alert n = i) rows)
      = sort_key (\<lambda>n. (an_created n, rank n)) (filter (\<lambda>n. an_alert n = i) rows)"
    by (rule sort_key_order) (auto simp: less_eq_prod_def)
  ultimately show ?thesis by (simp add: notes_of_chunk_def fold_group filter_sort)
qed

lemma fold_chunks:
  "distinct (concat cs) \<Longrightarrow> fold (notes_of_chunk rank rows) cs m i =
     m i @ (if i \<in> set (concat cs) then sort_key (\<lambda>n. (an_created n, rank n)) (filter (\<lambda>n. an_alert n = i) rows) else [])"
  by (induction cs arbitrary: m) (auto simp: notes_of_chunk_at)

lemma concat_chunks: "n \<noteq> 0 \<Longrightarrow> concat (chunks n xs) = xs"
  by (induction n xs rule: chunks.induct) (subst chunks.simps, auto)

lemma notes_by_alert_ids_at:
  "distinct ids \<Longrightarrow> i \<in> set ids \<Longrightarrow>
   notes_by_alert_ids rank ids rows i = sort_key (\<lambda>n. (an_created n, rank n)) (filter (\<lambda>n. an_alert n = i) rows)"
  by (simp add: notes_by_alert_ids_def fold_chunks concat_chunks notes_per_query_def)

lemma distinct_map_filter_key: "distinct (map key rows) \<Longrightarrow> distinct (map key (filter p rows))"
  by (induction rows) auto

lemma page_ids:
  assumes "unique_by aw_id rows"
  shows "distinct (map aw_id (alert_page rank f rows))" and "set (alert_page rank f rows) \<subseteq> set rows"
proof -
  define p where "p r = ((af_severity f = [] \<or> aw_severity r = af_severity f) \<and> (af_status f = [] \<or> aw_status r = af_status f))" for r :: alert_row
  define ys where "ys = sort_desc (\<lambda>r. (aw_time r, rank r)) (filter p rows)"
  have m: "mset ys = mset (filter p rows)" by (simp add: ys_def sort_desc_def)
  have "distinct (map aw_id (filter p rows))" using assms by (simp add: unique_by_def distinct_map_filter_key)
  then have "distinct (map aw_id ys)" using m by (metis mset_map mset_eq_imp_distinct_iff)
  then show "distinct (map aw_id (alert_page rank f rows))"
    by (simp add: alert_page_def Let_def p_def [abs_def, symmetric] ys_def drop_map [symmetric] take_map [symmetric] distinct_take distinct_drop)
  show "set (alert_page rank f rows) \<subseteq> set rows"
    by (auto simp: alert_page_def Let_def dest!: in_set_takeD in_set_dropD)
qed

text \<open>
  The list of alerts, which loads the notes of a page in chunks of 500 identifiers, shows each alert as a read by its
  identifier does, notes and their order included.
\<close>

theorem listed_alerts_are_read_alerts:
  assumes "alert_step\<^sup>*\<^sup>* no_alerts st"
  shows "list_all (\<lambda>a. get_alert note_rank (al_id a) st = Inr a) (list_alerts rank note_rank f st)"
proof -
  have inv: "alert_inv st" using assms by (rule alert_reachable)
  then have u: "unique_by aw_id (as_alerts st)" by (simp add: alert_inv_def)
  have "get_alert note_rank (aw_id r) st
      = Inr ((alert_of_row r)\<lparr>al_notes := notes_by_alert_ids note_rank (map aw_id (alert_page rank f (as_alerts st))) (as_notes st) (aw_id r)\<rparr>)"
    if r: "r \<in> set (alert_page rank f (as_alerts st))" for r
  proof -
    have "r \<in> set (as_alerts st)" using page_ids(2) [OF u] r by blast
    then have "aw_id r \<noteq> []" "select_row (\<lambda>x. aw_id x = aw_id r) (as_alerts st) = Some r"
      using inv u by (auto simp: alert_inv_def list_all_iff intro: select_row_key)
    then show ?thesis using page_ids(1) [OF u] r by (simp add: get_alert_def alert_notes_def notes_by_alert_ids_at)
  qed
  then show ?thesis by (auto simp: list_all_iff list_alerts_def Let_def alert_of_row_def)
qed

text \<open>A change of status of an alert that does not exist succeeds and is sent to the webhooks.\<close>

lemma unknown_alert_moves:
  "i \<noteq> [] \<Longrightarrow> status \<noteq> [] \<Longrightarrow> fst (set_alert_status env i status st) = Inr ()"
  by (simp add: set_alert_status_def)

section \<open>Examples\<close>

definition sample_alert_env :: alert_env where
  "sample_alert_env =
     \<lparr>ae_now = 5, ae_payload = (\<lambda>ps. concat (map snd ps)), ae_rfc3339 = (\<lambda>t. ''t''), ae_hmac = (\<lambda>k b. k @ b), ae_request = (\<lambda>u. u \<noteq> []),
      ae_http = (\<lambda>r i. if i = 0 then None else if i = 1 then Some 503 else Some 200)\<rparr>"

definition sample_hook :: notifier where
  "sample_hook = new_notifier (default_webhook_config\<lparr>wc_url := ''https://hook''\<rparr>)"

theorem notify_retries_witness:
  "(case notify sample_alert_env (new_alert ''a1'' 5) ''alert.created'' sample_hook of (err, n', sent) \<Rightarrow>
     err = None \<and> nf_failures n' = 1 \<and> sent = 3
     \<and> attempts_outcome err (answers sample_alert_env (new_request sample_alert_env (nf_config sample_hook) ''alert.created''
          (webhook_body sample_alert_env (new_alert ''a1'' 5) ''alert.created'')) 0 sent) (nat (wc_retries (nf_config sample_hook) + 1)))"
proof -
  let ?r = "notify sample_alert_env (new_alert ''a1'' 5) ''alert.created'' sample_hook"
  have "wc_enabled (nf_config sample_hook)" "method_allowed (nf_config sample_hook) ''alert.created''"
    "ae_request sample_alert_env (wc_url (nf_config sample_hook))" "0 \<le> wc_retries (nf_config sample_hook)" by code_simp+
  note h = notify_retries [OF this, of "new_alert ''a1'' 5"]
  have "case ?r of (err, n', sent) \<Rightarrow> err = None \<and> nf_failures n' = 1 \<and> sent = 3" by code_simp
  with h show ?thesis by (auto split: prod.splits)
qed

definition noted_alert :: alert_state where
  "noted_alert = snd (add_alert_note ''n1'' 7 (Some \<lparr>an_note_id = [], an_alert = ''a1'', an_created = 0, an_content = ''seen'', an_author = ''ann''\<rparr>)
     (snd (create_alert sample_alert_env ''u'' (Some (new_alert ''a1'' 5)) no_alerts)))"

theorem listed_alerts_are_read_alerts_witness:
  "list_all (\<lambda>a. get_alert (\<lambda>n. 0) (al_id a) noted_alert = Inr a)
     (list_alerts (\<lambda>r. 0) (\<lambda>n. 0) \<lparr>af_severity = [], af_status = ''new'', af_limit = 0, af_offset = 0\<rparr> noted_alert)
   \<and> map (\<lambda>a. (al_id a, map an_content (al_notes a)))
       (list_alerts (\<lambda>r. 0) (\<lambda>n. 0) \<lparr>af_severity = [], af_status = ''new'', af_limit = 0, af_offset = 0\<rparr> noted_alert) = [(''a1'', [''seen''])]"
proof
  have "alert_step\<^sup>*\<^sup>* no_alerts noted_alert"
    unfolding noted_alert_def
  proof (rule rtranclp_trans [OF r_into_rtranclp r_into_rtranclp])
    show "alert_step no_alerts (snd (create_alert sample_alert_env ''u'' (Some (new_alert ''a1'' 5)) no_alerts))"
      by (rule alert_step.raised) simp
  qed (rule alert_step.noted, simp)
  then show "list_all (\<lambda>a. get_alert (\<lambda>n. 0) (al_id a) noted_alert = Inr a)
     (list_alerts (\<lambda>r. 0) (\<lambda>n. 0) \<lparr>af_severity = [], af_status = ''new'', af_limit = 0, af_offset = 0\<rparr> noted_alert)"
    by (rule listed_alerts_are_read_alerts)
  show "map (\<lambda>a. (al_id a, map an_content (al_notes a)))
       (list_alerts (\<lambda>r. 0) (\<lambda>n. 0) \<lparr>af_severity = [], af_status = ''new'', af_limit = 0, af_offset = 0\<rparr> noted_alert) = [(''a1'', [''seen''])]"
    by code_simp
qed

end
