(* ===== verification/ThreatIntel.thy ===== *)
theory ThreatIntel
  imports NetAddr RowLaws RiskStore SplEval "HOL-Library.AList"
begin

text \<open>
  The threat-intelligence layer, \<^verbatim>\<open>internal/threatintel\<close>: indicators with the sources that report them and a corroborated
  confidence, actors, campaigns and malware families, the providers and the enricher that matches indicators against
  stored events. An empty text stands for a NULL column. A float is the exact value it has and \<open>rnd\<close> rounds the result of
  an operation. The \<^verbatim>\<open>LIKE\<close> of SQLite, \<^verbatim>\<open>json_set\<close>, the text of a confidence, the order a statement leaves open and
  the order in which a map is ranged are fields of the environment; fresh identifiers are arguments.
\<close>

section \<open>State\<close>

record ioc =
  io_id :: string
  io_type :: string
  io_value :: string
  io_norm :: string
  io_severity :: string
  io_description :: string
  io_source :: string
  io_confidence :: rat
  io_first :: int
  io_last :: int
  io_hits :: int

record in_ioc =
  ii_type :: string
  ii_value :: string
  ii_severity :: string
  ii_description :: string
  ii_source :: string
  ii_confidence :: rat
  ii_reliability :: rat
  ii_url :: string
  ii_actor :: string

record ioc_source =
  sr_ioc :: string
  sr_source :: string
  sr_url :: string
  sr_reliability :: rat
  sr_confidence :: rat
  sr_first :: int
  sr_last :: int

record actor =
  ta_id :: string
  ta_name :: string
  ta_aka :: string
  ta_type :: string
  ta_country :: string
  ta_motivation :: string
  ta_description :: string
  ta_first :: int
  ta_last :: int

record campaign =
  ca_id :: string
  ca_name :: string
  ca_actor :: string
  ca_description :: string
  ca_first :: int
  ca_last :: int

record malware =
  mw_id :: string
  mw_family :: string
  mw_description :: string
  mw_first :: int
  mw_last :: int

record provider_state =
  ps_provider :: string
  ps_sync :: int
  ps_status :: string
  ps_error :: string
  ps_count :: int

record ioc_pair =
  cp_from :: string
  cp_to :: string
  cp_event :: string
  cp_at :: int

record ti_state =
  ti_iocs :: "ioc list"
  ti_sources :: "ioc_source list"
  ti_actors :: "actor list"
  ti_links :: "(string \<times> string \<times> string) list"
  ti_pairs :: "ioc_pair list"
  ti_campaigns :: "campaign list"
  ti_malware :: "malware list"
  ti_providers :: "provider_state list"

datatype ti_error =
    BadType string
  | ValueRequired
  | BadSeverity string
  | BadConfidence
  | BadReliability
  | TiWrite
  | TiMissing
  | NameRequired
  | UnknownProvider string
  | SyncFailed string

record ti_env =
  te_rnd :: "rat \<Rightarrow> rat"
  te_now :: int
  te_like :: "string \<Rightarrow> string \<Rightarrow> bool"
  te_strict :: bool
  te_ioc_rank :: "ioc \<Rightarrow> nat"
  te_actor_rank :: "actor \<Rightarrow> nat"
  te_campaign_rank :: "campaign \<Rightarrow> nat"
  te_malware_rank :: "malware \<Rightarrow> nat"
  te_pair_rank :: "ioc_pair \<Rightarrow> nat"
  te_order :: "(string \<times> string) list \<Rightarrow> (string \<times> string) list"
  te_risk_order :: "(node_ref \<times> ioc) list \<Rightarrow> (node_ref \<times> ioc) list"
  te_mark :: "string \<Rightarrow> string list \<Rightarrow> string \<Rightarrow> string"
  te_conf_text :: "rat \<Rightarrow> string"

definition no_intel :: ti_state where
  "no_intel = \<lparr>ti_iocs = [], ti_sources = [], ti_actors = [], ti_links = [], ti_pairs = [], ti_campaigns = [], ti_malware = [],
     ti_providers = []\<rparr>"

section \<open>Normal forms\<close>

definition indicator_types :: "string list" where
  "indicator_types =
     [''ip'', ''domain'', ''url'', ''hash'', ''file'', ''email'', ''user'', ''registry'', ''mutex'', ''port'', ''asn'']"

definition ti_severities :: "string list" where
  "ti_severities = [''low'', ''medium'', ''high'', ''critical'']"

definition attribution_ladder :: "string list" where
  "attribution_ladder = [''associated'', ''consistent'', ''possibly_related'', ''attributed'']"

text \<open>The text of an address: dotted when it is an IPv4 address, else groups with the first longest run of zeros elided.\<close>

definition ip_hex :: "int \<Rightarrow> char" where
  "ip_hex n = ''0123456789abcdef'' ! nat n"

definition hex_text :: "int \<Rightarrow> string" where
  "hex_text n =
     (let ds = map ip_hex [n div 4096 mod 16, n div 256 mod 16, n div 16 mod 16, n mod 16]; t = dropWhile (\<lambda>c. c = CHR ''0'') ds
      in if t = [] then ''0'' else t)"

definition ip_groups :: "int list \<Rightarrow> int list" where
  "ip_groups ip = map (\<lambda>i. 256 * ip ! (2 * i) + ip ! (2 * i + 1)) [0..<8]"

definition zero_run :: "int list \<Rightarrow> nat" where
  "zero_run gs = length (takeWhile (\<lambda>g. g = 0) gs)"

definition longest_run :: "int list \<Rightarrow> nat \<times> nat" where
  "longest_run gs =
     fold (\<lambda>i (s, n). if 2 \<le> zero_run (drop i gs) \<and> n < zero_run (drop i gs) then (i, zero_run (drop i gs)) else (s, n)) [0..<length gs] (0, 0)"

definition ip_text :: "int list \<Rightarrow> string" where
  "ip_text ip =
     (case to4 ip of
        Some q \<Rightarrow> join ''.'' (map decimal q)
      | None \<Rightarrow>
          let gs = ip_groups ip; (s, n) = longest_run gs
          in if n = 0 then join '':'' (map hex_text gs)
             else join '':'' (map hex_text (take s gs)) @ ''::'' @ join '':'' (map hex_text (drop (s + n) gs)))"

fun cut_text :: "string \<Rightarrow> string \<Rightarrow> (string \<times> string) option" where
  "cut_text sep [] = (if sep = [] then Some ([], []) else None)"
| "cut_text sep (c # s) =
     (if prefix sep (c # s) then Some ([], drop (length sep) (c # s))
      else case cut_text sep s of None \<Rightarrow> None | Some (a, b) \<Rightarrow> Some (c # a, b))"

definition cut_suffix :: "string \<Rightarrow> string \<Rightarrow> string" where
  "cut_suffix p s = rev (trim_prefix (rev p) (rev s))"

definition md5_like :: "string \<Rightarrow> bool" where
  "md5_like s = (length (utf8 s) = 3 \<or> s = ''md5'' \<or> s = ''md4'')"

definition sha_like :: "string \<Rightarrow> bool" where
  "sha_like s = (s \<in> {''sha1'', ''sha256'', ''sha512'', ''ssdeep''})"

definition url_norm :: "string \<Rightarrow> string option" where
  "url_norm v =
     (case cut_text ''://'' v of
        None \<Rightarrow> None
      | Some (scheme, rest) \<Rightarrow>
          let host = takeWhile (\<lambda>c. c \<notin> set ''/?#'') rest
          in Some (scheme @ ''://'' @ to_lower host @ drop (length host) rest))"

definition normalize_ioc :: "string \<Rightarrow> string \<Rightarrow> string" where
  "normalize_ioc t value =
     (let v = trim_space value
      in if t = ''ip'' then (case parse_ip v of Some ip \<Rightarrow> ip_text ip | None \<Rightarrow> to_lower v)
         else if t \<in> {''domain'', ''email''} then to_lower (cut_suffix ''.'' (trim_prefix ''.'' v))
         else if t = ''url'' then (case url_norm v of Some u \<Rightarrow> u | None \<Rightarrow> to_lower v)
         else if t = ''hash'' then
           (case cut CHR '':'' v of
              None \<Rightarrow> to_lower v
            | Some (a, b) \<Rightarrow> let alg = to_lower (trim_space a) in if md5_like alg \<or> sha_like alg then to_lower b else to_lower v)
         else to_lower v)"

text \<open>The default severity is set on the copy that is validated, not on the one that is stored.\<close>

definition validate_ioc :: "in_ioc \<Rightarrow> ti_error option" where
  "validate_ioc x =
     (let sev = (if ii_severity x = [] then ''medium'' else ii_severity x)
      in if ii_type x \<notin> set indicator_types then Some (BadType (ii_type x))
         else if trim_space (ii_value x) = [] then Some ValueRequired
         else if sev \<notin> set ti_severities then Some (BadSeverity sev)
         else if ii_confidence x < 0 \<or> 1 < ii_confidence x then Some BadConfidence
         else if ii_reliability x < 0 \<or> 1 < ii_reliability x then Some BadReliability
         else None)"

section \<open>Confidence\<close>

definition effective :: "(rat \<Rightarrow> rat) \<Rightarrow> ioc_source \<Rightarrow> rat" where
  "effective rnd s = rnd (sr_confidence s * sr_reliability s)"

definition aggregate :: "(rat \<Rightarrow> rat) \<Rightarrow> rat list \<Rightarrow> rat" where
  "aggregate rnd effs =
     (let best = fold (\<lambda>e b. if b < e then e else b) effs 0 in if length effs = 1 then rnd (best * rnd (8/10)) else best)"

definition round3 :: "(rat \<Rightarrow> rat) \<Rightarrow> rat \<Rightarrow> rat" where
  "round3 rnd f = (let x = rnd (rnd (f * 1000) + 1/2) in rnd (of_int (if 0 \<le> x then \<lfloor>x\<rfloor> else \<lceil>x\<rceil>) / 1000))"

definition sources_of :: "string \<Rightarrow> ioc_source list \<Rightarrow> ioc_source list" where
  "sources_of i rows = filter (\<lambda>s. sr_ioc s = i) rows"

definition corroborated :: "(rat \<Rightarrow> rat) \<Rightarrow> ioc_source list \<Rightarrow> rat" where
  "corroborated rnd rows = round3 rnd (aggregate rnd (map (effective rnd) rows))"

definition refresh_confidence :: "ti_env \<Rightarrow> string \<Rightarrow> ti_state \<Rightarrow> ti_state" where
  "refresh_confidence env i st =
     st\<lparr>ti_iocs := update_rows (\<lambda>x. io_id x = i)
          (\<lambda>x. x\<lparr>io_confidence := corroborated (te_rnd env) (sources_of i (ti_sources st))\<rparr>) (ti_iocs st)\<rparr>"

section \<open>Reports\<close>

definition source_key :: "ioc_source \<Rightarrow> string \<times> string" where
  "source_key s = (sr_ioc s, sr_source s)"

definition merge_source :: "ioc_source \<Rightarrow> ioc_source \<Rightarrow> ioc_source" where
  "merge_source new old =
     old\<lparr>sr_url := (if sr_url new = [] then sr_url old else sr_url new), sr_reliability := sr_reliability new,
       sr_confidence := sr_confidence new, sr_last := sr_last new\<rparr>"

interpretation source_table: upsert_table source_key merge_source
  by unfold_locales (simp add: source_key_def merge_source_def)

definition in_defaults :: "(rat \<Rightarrow> rat) \<Rightarrow> in_ioc \<Rightarrow> in_ioc" where
  "in_defaults rnd x =
     x\<lparr>ii_source := (if ii_source x = [] then ''analyst'' else ii_source x),
       ii_confidence := (if ii_confidence x = 0 then 1/2 else ii_confidence x),
       ii_reliability := (if ii_reliability x = 0 then rnd (8/10) else ii_reliability x)\<rparr>"

definition ioc_key :: "ioc \<Rightarrow> string \<times> string" where
  "ioc_key x = (io_type x, io_norm x)"

definition touch_ioc :: "int \<Rightarrow> in_ioc \<Rightarrow> ioc \<Rightarrow> ioc" where
  "touch_ioc now x r =
     r\<lparr>io_last := now, io_severity := ii_severity x,
       io_description := (if ii_description x = [] then io_description r else ii_description x)\<rparr>"

definition new_ioc :: "int \<Rightarrow> string \<Rightarrow> in_ioc \<Rightarrow> ioc" where
  "new_ioc now i x =
     \<lparr>io_id = i, io_type = ii_type x, io_value = ii_value x, io_norm = normalize_ioc (ii_type x) (ii_value x),
      io_severity = ii_severity x, io_description = ii_description x, io_source = ii_source x, io_confidence = ii_confidence x,
      io_first = now, io_last = now, io_hits = 0\<rparr>"

text \<open>The identifier of the indicator and the table with it; nothing when the insert is refused.\<close>

definition write_ioc :: "int \<Rightarrow> string \<Rightarrow> in_ioc \<Rightarrow> ioc list \<Rightarrow> (string \<times> ioc list) option" where
  "write_ioc now uuid x rows =
     (case row_at ioc_key rows (ii_type x, normalize_ioc (ii_type x) (ii_value x)) of
        None \<Rightarrow>
          let i = ''ioc-'' @ uuid in if taken io_id i rows then None else Some (i, rows @ [new_ioc now i x])
      | Some r \<Rightarrow> Some (io_id r, update_rows (\<lambda>y. io_id y = io_id r) (touch_ioc now x) rows))"

definition source_of_report :: "int \<Rightarrow> string \<Rightarrow> in_ioc \<Rightarrow> ioc_source" where
  "source_of_report now i x =
     \<lparr>sr_ioc = i, sr_source = ii_source x, sr_url = ii_url x, sr_reliability = ii_reliability x, sr_confidence = ii_confidence x,
      sr_first = now, sr_last = now\<rparr>"

definition blank_actor :: "string \<Rightarrow> string \<Rightarrow> int \<Rightarrow> actor" where
  "blank_actor i name now =
     \<lparr>ta_id = i, ta_name = name, ta_aka = [], ta_type = [], ta_country = [], ta_motivation = [], ta_description = [],
      ta_first = now, ta_last = now\<rparr>"

definition upsert_actor_by_name :: "int \<Rightarrow> string \<Rightarrow> string \<Rightarrow> actor list \<Rightarrow> (string \<times> actor list) option" where
  "upsert_actor_by_name now uuid name0 rows =
     (let name = trim_space name0
      in case row_at ta_name rows name of
           None \<Rightarrow>
             let i = ''actor-'' @ uuid in if taken ta_id i rows then None else Some (i, rows @ [blank_actor i name now])
         | Some a \<Rightarrow> Some (ta_id a, update_rows (\<lambda>y. ta_id y = ta_id a) (\<lambda>y. y\<lparr>ta_last := now\<rparr>) rows))"

definition link_ioc :: "string \<Rightarrow> string \<Rightarrow> (string \<times> string \<times> string) list \<Rightarrow> (string \<times> string \<times> string) list" where
  "link_ioc a i links =
     (if list_ex (\<lambda>l. fst l = a \<and> fst (snd l) = i) links then links else links @ [(a, i, ''associated'')])"

definition get_ioc :: "string \<Rightarrow> ti_state \<Rightarrow> ti_error + ioc" where
  "get_ioc i st = (case select_row (\<lambda>x. io_id x = i) (ti_iocs st) of None \<Rightarrow> Inl TiMissing | Some x \<Rightarrow> Inr x)"

definition upsert_ioc :: "ti_env \<Rightarrow> string \<Rightarrow> string \<Rightarrow> in_ioc \<Rightarrow> ti_state \<Rightarrow> (ti_error + ioc) \<times> ti_state" where
  "upsert_ioc env uuid actor_uuid x0 st =
     (case validate_ioc x0 of
        Some e \<Rightarrow> (Inl e, st)
      | None \<Rightarrow>
          let x = in_defaults (te_rnd env) x0; now = te_now env
          in (case write_ioc now uuid x (ti_iocs st) of
                None \<Rightarrow> (Inl TiWrite, st)
              | Some (i, rows) \<Rightarrow>
                  let st1 = st\<lparr>ti_iocs := rows,
                              ti_sources := upsert_row source_key merge_source (source_of_report now i x) (ti_sources st)\<rparr>
                  in if ii_actor x = [] then (get_ioc i (refresh_confidence env i st1), refresh_confidence env i st1)
                     else (case upsert_actor_by_name now actor_uuid (ii_actor x) (ti_actors st1) of
                             None \<Rightarrow> (Inl TiWrite, st1)
                           | Some (a, actors) \<Rightarrow>
                               let st2 = refresh_confidence env i (st1\<lparr>ti_actors := actors, ti_links := link_ioc a i (ti_links st1)\<rparr>)
                               in (get_ioc i st2, st2))))"

section \<open>Reading\<close>

definition sql_lower :: "string \<Rightarrow> string" where
  "sql_lower s = map (\<lambda>c. case map_of (zip ''ABCDEFGHIJKLMNOPQRSTUVWXYZ'' ''abcdefghijklmnopqrstuvwxyz'') c of None \<Rightarrow> c | Some d \<Rightarrow> d) s"

definition ioc_matches :: "string \<Rightarrow> ioc \<Rightarrow> bool" where
  "ioc_matches v x = (io_value x = v \<or> sql_lower (io_value x) = sql_lower v \<or> io_norm x = sql_lower v)"

definition lookup_iocs :: "ti_env \<Rightarrow> string \<Rightarrow> ti_state \<Rightarrow> ioc list" where
  "lookup_iocs env v st =
     take 50 (sort_desc (\<lambda>x. (io_confidence x, te_ioc_rank env x)) (filter (ioc_matches v) (ti_iocs st)))"

definition lookup_by_type :: "ti_env \<Rightarrow> string \<Rightarrow> string \<Rightarrow> ti_state \<Rightarrow> ioc list" where
  "lookup_by_type env t v st =
     take 50 (sort_desc (\<lambda>x. (io_confidence x, te_ioc_rank env x)) (filter (\<lambda>x. io_type x = t \<and> ioc_matches v x) (ti_iocs st)))"

definition escape_like_ioc :: "string \<Rightarrow> string" where
  "escape_like_ioc s = ''%'' @ concat (map (\<lambda>c. if c \<in> {CHR 92, CHR ''%'', CHR ''_''} then [CHR 92, c] else [c]) s) @ ''%''"

definition list_iocs :: "ti_env \<Rightarrow> string \<Rightarrow> string \<Rightarrow> int \<Rightarrow> ti_state \<Rightarrow> ioc list \<times> nat" where
  "list_iocs env t q limit0 st =
     (let limit = (if limit0 \<le> 0 \<or> 500 < limit0 then 50 else limit0);
          hits = filter (\<lambda>x. (t = [] \<or> io_type x = t)
            \<and> (q = [] \<or> te_like env (escape_like_ioc q) (io_value x) \<or> te_like env (escape_like_ioc q) (io_description x))) (ti_iocs st)
      in (take (nat limit) (sort_desc (\<lambda>x. (io_last x, te_ioc_rank env x)) hits), length hits))"

definition bounded_limit :: "int \<Rightarrow> nat" where
  "bounded_limit n = (if n \<le> 0 \<or> 200 < n then 50 else nat n)"

definition correlated_ids :: "ti_env \<Rightarrow> string \<Rightarrow> int \<Rightarrow> ti_state \<Rightarrow> string list" where
  "correlated_ids env i limit st =
     map (\<lambda>p. if cp_from p = i then cp_to p else cp_from p)
       (take (bounded_limit limit) (sort_desc (\<lambda>p. (cp_at p, te_pair_rank env p)) (filter (\<lambda>p. cp_from p = i \<or> cp_to p = i) (ti_pairs st))))"

definition sources_of_ioc :: "string \<Rightarrow> ti_state \<Rightarrow> ioc_source list" where
  "sources_of_ioc i st = sort_key sr_source (sources_of i (ti_sources st))"

definition actors_of :: "string \<Rightarrow> int \<Rightarrow> ti_state \<Rightarrow> string list" where
  "actors_of i limit st =
     take (if limit \<le> 0 \<or> 20 < limit then 5 else nat limit)
       (sort (concat (map (\<lambda>l. if fst (snd l) = i then map ta_name (filter (\<lambda>a. ta_id a = fst l) (ti_actors st)) else []) (ti_links st))))"

section \<open>Hits\<close>

definition ordered_pair :: "string \<Rightarrow> string \<Rightarrow> string \<times> string" where
  "ordered_pair a b = (if b < a then (b, a) else (a, b))"

definition pair_key :: "ioc_pair \<Rightarrow> string \<times> string \<times> string" where
  "pair_key p = (cp_from p, cp_to p, cp_event p)"

definition note_pair :: "int \<Rightarrow> string \<times> string \<Rightarrow> string \<Rightarrow> ioc_pair list \<Rightarrow> ioc_pair list" where
  "note_pair now ab ev rows =
     (let p = \<lparr>cp_from = fst ab, cp_to = snd ab, cp_event = ev, cp_at = now\<rparr> in if taken pair_key (pair_key p) rows then rows else rows @ [p])"

definition bump_ioc :: "int \<Rightarrow> string \<Rightarrow> ti_state \<Rightarrow> ti_state" where
  "bump_ioc now i st = st\<lparr>ti_iocs := update_rows (\<lambda>x. io_id x = i) (\<lambda>x. x\<lparr>io_hits := io_hits x + 1, io_last := now\<rparr>) (ti_iocs st)\<rparr>"

text \<open>Each identifier is counted; each but the first is paired with the first.\<close>

definition record_hits :: "int \<Rightarrow> string list \<Rightarrow> string \<Rightarrow> ti_state \<Rightarrow> ti_state" where
  "record_hits now ids ev st =
     (case ids of
        [] \<Rightarrow> st
      | i0 # is' \<Rightarrow>
          fold (\<lambda>i s. let s1 = bump_ioc now i s
                     in if ev = [] then s1 else s1\<lparr>ti_pairs := note_pair now (ordered_pair i0 i) ev (ti_pairs s1)\<rparr>) is' (bump_ioc now i0 st))"

section \<open>Actors, campaigns, malware\<close>

text \<open>
  An insert with an upsert on the identifier into a table whose name is unique too. A name that another row has refuses it;
  where the identifier is taken as well, \<open>strict\<close> tells which of the two conflicts the statement meets first.
\<close>

definition upsert_named :: "bool \<Rightarrow> ('r \<Rightarrow> string) \<Rightarrow> ('r \<Rightarrow> string) \<Rightarrow> ('r \<Rightarrow> 'r \<Rightarrow> 'r) \<Rightarrow> 'r \<Rightarrow> 'r list \<Rightarrow> 'r list option" where
  "upsert_named strict ident name merge x rows =
     (if list_ex (\<lambda>y. name y = name x \<and> ident y \<noteq> ident x) rows \<and> (strict \<or> \<not> taken ident (ident x) rows) then None
      else Some (upsert_row ident merge x rows))"

definition merge_actor :: "actor \<Rightarrow> actor \<Rightarrow> actor" where
  "merge_actor new old = new\<lparr>ta_id := ta_id old, ta_name := ta_name old, ta_first := ta_first old\<rparr>"

definition merge_campaign :: "campaign \<Rightarrow> campaign \<Rightarrow> campaign" where
  "merge_campaign new old = new\<lparr>ca_id := ca_id old, ca_name := ca_name old, ca_first := ca_first old\<rparr>"

definition merge_malware :: "malware \<Rightarrow> malware \<Rightarrow> malware" where
  "merge_malware new old = new\<lparr>mw_id := mw_id old, mw_family := mw_family old, mw_first := mw_first old\<rparr>"

interpretation actor_table: upsert_table ta_id merge_actor
  by unfold_locales (simp add: merge_actor_def)

interpretation campaign_table: upsert_table ca_id merge_campaign
  by unfold_locales (simp add: merge_campaign_def)

interpretation malware_table: upsert_table mw_id merge_malware
  by unfold_locales (simp add: merge_malware_def)

definition get_actor :: "ti_env \<Rightarrow> string \<Rightarrow> ti_state \<Rightarrow> ti_error + (actor \<times> ioc list)" where
  "get_actor env i st =
     (case select_row (\<lambda>a. ta_id a = i) (ti_actors st) of
        None \<Rightarrow> Inl TiMissing
      | Some a \<Rightarrow> Inr (a, take 200 (sort_desc (\<lambda>x. (io_last x, te_ioc_rank env x))
          (concat (map (\<lambda>l. if fst l = i then filter (\<lambda>x. io_id x = fst (snd l)) (ti_iocs st) else []) (ti_links st))))))"

definition upsert_actor :: "ti_env \<Rightarrow> string \<Rightarrow> actor \<Rightarrow> ti_state \<Rightarrow> (ti_error + (actor \<times> ioc list)) \<times> ti_state" where
  "upsert_actor env uuid a0 st =
     (if trim_space (ta_name a0) = [] then (Inl NameRequired, st)
      else let a = a0\<lparr>ta_id := (if ta_id a0 = [] then ''actor-'' @ uuid else ta_id a0), ta_first := te_now env, ta_last := te_now env\<rparr>
           in (case upsert_named (te_strict env) ta_id ta_name merge_actor a (ti_actors st) of
                 None \<Rightarrow> (Inl TiWrite, st)
               | Some rows \<Rightarrow> let st' = st\<lparr>ti_actors := rows\<rparr> in (get_actor env (ta_id a) st', st')))"

definition list_actors :: "ti_env \<Rightarrow> int \<Rightarrow> ti_state \<Rightarrow> actor list" where
  "list_actors env limit st = take (bounded_limit limit) (sort_desc (\<lambda>a. (ta_last a, te_actor_rank env a)) (ti_actors st))"

definition upsert_campaign :: "ti_env \<Rightarrow> string \<Rightarrow> campaign \<Rightarrow> ti_state \<Rightarrow> (ti_error + campaign) \<times> ti_state" where
  "upsert_campaign env uuid c0 st =
     (if trim_space (ca_name c0) = [] then (Inl NameRequired, st)
      else let c = c0\<lparr>ca_id := (if ca_id c0 = [] then ''camp-'' @ uuid else ca_id c0), ca_first := te_now env, ca_last := te_now env\<rparr>
           in if ca_actor c \<noteq> [] \<and> \<not> taken ta_id (ca_actor c) (ti_actors st) then (Inl TiWrite, st)
              else (case upsert_named (te_strict env) ca_id ca_name merge_campaign c (ti_campaigns st) of
                      None \<Rightarrow> (Inl TiWrite, st)
                    | Some rows \<Rightarrow> (case row_at ca_id rows (ca_id c) of
                                      None \<Rightarrow> (Inl TiMissing, st\<lparr>ti_campaigns := rows\<rparr>)
                                    | Some r \<Rightarrow> (Inr r, st\<lparr>ti_campaigns := rows\<rparr>))))"

definition list_campaigns :: "ti_env \<Rightarrow> int \<Rightarrow> ti_state \<Rightarrow> campaign list" where
  "list_campaigns env limit st = take (bounded_limit limit) (sort_desc (\<lambda>c. (ca_last c, te_campaign_rank env c)) (ti_campaigns st))"

definition upsert_malware :: "ti_env \<Rightarrow> string \<Rightarrow> malware \<Rightarrow> ti_state \<Rightarrow> (ti_error + malware) \<times> ti_state" where
  "upsert_malware env uuid m0 st =
     (if trim_space (mw_family m0) = [] then (Inl NameRequired, st)
      else let m = m0\<lparr>mw_id := (if mw_id m0 = [] then ''mal-'' @ uuid else mw_id m0), mw_first := te_now env, mw_last := te_now env\<rparr>
           in (case upsert_named (te_strict env) mw_id mw_family merge_malware m (ti_malware st) of
                 None \<Rightarrow> (Inl TiWrite, st)
               | Some rows \<Rightarrow> (case row_at mw_id rows (mw_id m) of
                                 None \<Rightarrow> (Inl TiMissing, st\<lparr>ti_malware := rows\<rparr>)
                               | Some r \<Rightarrow> (Inr r, st\<lparr>ti_malware := rows\<rparr>))))"

definition list_malware :: "ti_env \<Rightarrow> int \<Rightarrow> ti_state \<Rightarrow> malware list" where
  "list_malware env limit st = take (bounded_limit limit) (sort_desc (\<lambda>m. (mw_last m, te_malware_rank env m)) (ti_malware st))"

section \<open>Providers\<close>

definition merge_provider :: "provider_state \<Rightarrow> provider_state \<Rightarrow> provider_state" where
  "merge_provider new old = new\<lparr>ps_provider := ps_provider old\<rparr>"

interpretation provider_table: upsert_table ps_provider merge_provider
  by unfold_locales (simp add: merge_provider_def)

definition set_provider_state :: "int \<Rightarrow> provider_state \<Rightarrow> ti_state \<Rightarrow> ti_state" where
  "set_provider_state now p st =
     st\<lparr>ti_providers := upsert_row ps_provider merge_provider (p\<lparr>ps_sync := (if ps_sync p = 0 then now else ps_sync p)\<rparr>) (ti_providers st)\<rparr>"

definition provider_states :: "ti_state \<Rightarrow> provider_state list" where
  "provider_states st = sort_key ps_provider (ti_providers st)"

text \<open>A provider reads the store and answers indicators or an error.\<close>

record provider =
  pv_name :: string
  pv_sync :: "ti_state \<Rightarrow> string + in_ioc list"

record registry =
  rg_providers :: "(string \<times> provider) list"
  rg_order :: "string list"

definition no_registry :: registry where "no_registry = \<lparr>rg_providers = [], rg_order = []\<rparr>"

definition register_provider :: "provider option \<Rightarrow> registry \<Rightarrow> registry" where
  "register_provider p reg =
     (case p of
        None \<Rightarrow> reg
      | Some q \<Rightarrow> \<lparr>rg_providers = put (pv_name q) q (rg_providers reg),
                  rg_order = (if map_of (rg_providers reg) (pv_name q) = None then rg_order reg @ [pv_name q] else rg_order reg)\<rparr>)"

text \<open>The loop over the indicators of a feed, with the identifiers it may use; a refused item is skipped.\<close>

fun import_iocs :: "ti_env \<Rightarrow> string \<Rightarrow> (nat \<Rightarrow> string \<times> string) \<Rightarrow> nat \<Rightarrow> in_ioc list \<Rightarrow> ti_state \<Rightarrow> nat \<times> ti_state" where
  "import_iocs env name supply k [] st = (0, st)"
| "import_iocs env name supply k (x # xs) st =
     (let y = x\<lparr>ii_source := (if ii_source x = [] then name else ii_source x)\<rparr>
      in if ii_type y = [] \<or> ii_value y = [] then import_iocs env name supply (k + 1) xs st
         else (case upsert_ioc env (fst (supply k)) (snd (supply k)) y st of
                 (Inl e, st1) \<Rightarrow> import_iocs env name supply (k + 1) xs st1
               | (Inr r, st1) \<Rightarrow> (case import_iocs env name supply (k + 1) xs st1 of (n, st2) \<Rightarrow> (n + 1, st2))))"

definition sync_provider :: "ti_env \<Rightarrow> (nat \<Rightarrow> string \<times> string) \<Rightarrow> string \<Rightarrow> registry \<Rightarrow> ti_state \<Rightarrow> (ti_error + nat) \<times> ti_state" where
  "sync_provider env supply name reg st =
     (case map_of (rg_providers reg) name of
        None \<Rightarrow> (Inl (UnknownProvider name), st)
      | Some p \<Rightarrow>
          (case pv_sync p st of
             Inl e \<Rightarrow> (Inl (SyncFailed name),
               set_provider_state (te_now env) \<lparr>ps_provider = name, ps_sync = 0, ps_status = ''error'', ps_error = e, ps_count = 0\<rparr> st)
           | Inr xs \<Rightarrow>
               (case import_iocs env name supply 0 xs st of
                  (n, st') \<Rightarrow> (Inr n, set_provider_state (te_now env)
                     \<lparr>ps_provider = name, ps_sync = 0, ps_status = ''ok'', ps_error = [], ps_count = int n\<rparr> st'))))"

fun sync_names :: "ti_env \<Rightarrow> (string \<Rightarrow> nat \<Rightarrow> string \<times> string) \<Rightarrow> registry \<Rightarrow> string list \<Rightarrow> ti_state \<Rightarrow> (nat \<times> ti_error list) \<times> ti_state" where
  "sync_names env supply reg [] st = ((0, []), st)"
| "sync_names env supply reg (n # ns) st =
     (case sync_provider env (supply n) n reg st of
        (Inl e, st1) \<Rightarrow> (case sync_names env supply reg ns st1 of ((k, es), st2) \<Rightarrow> ((k, e # es), st2))
      | (Inr i, st1) \<Rightarrow> (case sync_names env supply reg ns st1 of ((k, es), st2) \<Rightarrow> ((i + k, es), st2)))"

definition sync_all :: "ti_env \<Rightarrow> (string \<Rightarrow> nat \<Rightarrow> string \<times> string) \<Rightarrow> registry \<Rightarrow> ti_state \<Rightarrow> (nat \<times> ti_error list) \<times> ti_state" where
  "sync_all env supply reg st = sync_names env supply reg (rg_order reg) st"

definition internal_provider :: "ti_env \<Rightarrow> provider" where
  "internal_provider env =
     \<lparr>pv_name = ''internal'',
      pv_sync = (\<lambda>st. Inr (map (\<lambda>x. \<lparr>ii_type = io_type x, ii_value = io_value x, ii_severity = io_severity x, ii_description = io_description x,
          ii_source = io_source x, ii_confidence = io_confidence x, ii_reliability = 0, ii_url = [], ii_actor = []\<rparr>)
        (fst (list_iocs env [] [] 500 st))))\<rparr>"

text \<open>The two feeds of abuse.ch, as fetched and decoded.\<close>

record urlhaus_entry =
  uh_url :: string
  uh_threat :: string

record threatfox_entry =
  tf_name :: string
  tf_type :: string
  tf_threat :: string
  tf_confidence :: int

definition threatfox_type :: "string \<Rightarrow> string option" where
  "threatfox_type t =
     map_of [(''domain'', ''domain''), (''ip'', ''ip''), (''malicious url'', ''url''), (''url'', ''url''), (''email'', ''email''),
       (''md5'', ''hash''), (''sha1'', ''hash''), (''sha256'', ''hash''), (''file'', ''hash'')] (to_lower (trim_space t))"

definition clamp_unit :: "rat \<Rightarrow> rat" where
  "clamp_unit c = (if c < 0 then 0 else if 1 < c then 1 else c)"

definition urlhaus_iocs :: "(rat \<Rightarrow> rat) \<Rightarrow> urlhaus_entry list \<Rightarrow> in_ioc list" where
  "urlhaus_iocs rnd es =
     concat (map (\<lambda>e. let u = trim_space (uh_url e)
       in if \<not> prefix ''http://'' u \<and> \<not> prefix ''https://'' u then []
          else [\<lparr>ii_type = ''url'', ii_value = u, ii_severity = ''medium'', ii_description = ''URLhaus: '' @ trim_space (uh_threat e),
                 ii_source = ''abuse-ch/urlhaus'', ii_confidence = rnd (7/10), ii_reliability = rnd (9/10), ii_url = [], ii_actor = []\<rparr>]) es)"

definition threatfox_iocs :: "(rat \<Rightarrow> rat) \<Rightarrow> threatfox_entry list \<Rightarrow> in_ioc list" where
  "threatfox_iocs rnd es =
     concat (map (\<lambda>e. let n = trim_space (tf_name e)
       in if n = [] then []
          else (case threatfox_type (tf_type e) of
                  None \<Rightarrow> []
                | Some t \<Rightarrow> [\<lparr>ii_type = t, ii_value = n, ii_severity = ''medium'', ii_description = ''ThreatFox: '' @ trim_space (tf_threat e),
                     ii_source = ''abuse-ch/threatfox'', ii_confidence = clamp_unit (rnd (of_int (tf_confidence e) / 100)),
                     ii_reliability = rnd (9/10), ii_url = [], ii_actor = []\<rparr>])) es)"

definition abuse_provider :: "ti_env \<Rightarrow> string + urlhaus_entry list \<Rightarrow> string + threatfox_entry list \<Rightarrow> provider" where
  "abuse_provider env urlhaus fox =
     \<lparr>pv_name = ''abuse-ch'',
      pv_sync = (\<lambda>st. case urlhaus of
                   Inl e \<Rightarrow> Inl (''urlhaus: '' @ e)
                 | Inr us \<Rightarrow> (case fox of
                                Inl e \<Rightarrow> Inl (''threatfox: '' @ e)
                              | Inr fs \<Rightarrow> Inr (urlhaus_iocs (te_rnd env) us @ threatfox_iocs (te_rnd env) fs)))\<rparr>"

section \<open>The enricher\<close>

definition ti_queue_limit :: nat where "ti_queue_limit = 1024"

definition enqueue_ti :: "event option \<Rightarrow> event list \<Rightarrow> event list" where
  "enqueue_ti ev q = (case ev of None \<Rightarrow> q | Some e \<Rightarrow> if length q < ti_queue_limit then q @ [e] else q)"

definition attr_type :: "string \<Rightarrow> string" where
  "attr_type k =
     (if k = ''url'' then ''url'' else if k = ''email'' then ''email'' else if k \<in> {''file_hash'', ''hash''} then ''hash'' else ''domain'')"

definition candidate_values :: "event \<Rightarrow> (string \<times> string) list" where
  "candidate_values ev =
     remdups (filter (\<lambda>c. snd c \<noteq> []) (map (\<lambda>(t, v). (t, trim_space v))
       ([(''ip'', ev_source_ip ev), (''ip'', ev_destination_ip ev), (''ip'', ev_ip ev), (''host'', ev_host ev), (''user'', ev_user ev)]
        @ concat (map (\<lambda>k. case map_of (ev_attributes ev) k of None \<Rightarrow> [] | Some v \<Rightarrow> [(attr_type k, v)])
            [''domain'', ''url'', ''email'', ''file_hash'', ''hash'']))))"

definition ioc_rank :: "string \<Rightarrow> nat" where
  "ioc_rank s =
     (case map_of [(''critical'', 4), (''high'', 3), (''medium'', 2), (''low'', 1)] s of None \<Rightarrow> 0 | Some n \<Rightarrow> n)"

definition add_hit :: "ioc \<Rightarrow> ioc list \<Rightarrow> ioc list" where
  "add_hit h hits = (if list_ex (\<lambda>x. io_id x = io_id h) hits then hits else hits @ [h])"

definition event_hits :: "ti_env \<Rightarrow> event \<Rightarrow> ti_state \<Rightarrow> ioc list" where
  "event_hits env ev st =
     fold add_hit (concat (map (\<lambda>(t, v). lookup_by_type env t v st) (te_order env (candidate_values ev)))) []"

definition top_severity :: "ioc list \<Rightarrow> string" where
  "top_severity hits = fold (\<lambda>h t. if ioc_rank t < ioc_rank (io_severity h) then io_severity h else t) hits []"

definition mark_event :: "ti_env \<Rightarrow> string \<Rightarrow> string list \<Rightarrow> string \<Rightarrow> (string \<times> string option) list \<Rightarrow> (string \<times> string option) list" where
  "mark_event env i ids sev rows =
     update_rows (\<lambda>r. fst r = i) (\<lambda>r. (fst r, Some (te_mark env (case snd r of None \<Rightarrow> ''{}'' | Some a \<Rightarrow> a) ids sev))) rows"

definition ioc_points :: "string \<Rightarrow> rat" where
  "ioc_points s =
     (case map_of [(''critical'', 25), (''high'', 15), (''medium'', 8), (''low'', 4)] s of None \<Rightarrow> 0 | Some n \<Rightarrow> n)"

definition risk_targets :: "event \<Rightarrow> node_ref list" where
  "risk_targets ev =
     filter (\<lambda>c. snd c \<noteq> []) [(''ip'', ev_source_ip ev), (''ip'', ev_ip ev), (''host'', ev_host ev), (''user'', ev_user ev)]"

text \<open>The worst hit of each entity of the event.\<close>

definition worst_hits :: "event \<Rightarrow> ioc list \<Rightarrow> (node_ref \<times> ioc) list" where
  "worst_hits ev hits =
     fold (\<lambda>h m. fold (\<lambda>c m. case map_of m c of
                           None \<Rightarrow> m @ [(c, h)]
                         | Some x \<Rightarrow> if ioc_rank (io_severity x) < ioc_rank (io_severity h) then AList.update c h m else m)
                  (risk_targets ev) m) hits []"

definition hit_contribution :: "ti_env \<Rightarrow> event \<Rightarrow> node_ref \<times> ioc \<Rightarrow> risk_entry" where
  "hit_contribution env ev = (\<lambda>(n, h).
     \<lparr>rc_id = [], rc_node = n, rc_source_type = ''event'', rc_source_id = ''ti-enricher'',
      rc_description = ''TI indicator match '' @ io_type h @ '':'' @ io_value h @ '' ('' @ io_severity h @ '', confidence ''
        @ te_conf_text env (io_confidence h) @ '', source '' @ io_source h @ '')'',
      rc_points = te_rnd env (ioc_points (io_severity h) * io_confidence h), rc_event = ev_id ev, rc_created = 0\<rparr>)"

record enrich_state =
  en_intel :: ti_state
  en_risk :: "risk_state option"
  en_events :: "(string \<times> string option) list"

definition record_ti_risk :: "ti_env \<Rightarrow> (nat \<Rightarrow> string) \<Rightarrow> event \<Rightarrow> ioc list \<Rightarrow> enrich_state \<Rightarrow> enrich_state" where
  "record_ti_risk env uuids ev hits st =
     (case en_risk st of
        None \<Rightarrow> st
      | Some rs \<Rightarrow>
          let ms = te_risk_order env (worst_hits ev hits)
          in st\<lparr>en_risk := Some (fold (\<lambda>(k, m) s. snd (record_risk (\<lambda>a b. te_rnd env (a + b)) (uuids k) (te_now env)
                 (hit_contribution env ev m) s)) (zip [0..<length ms] ms) rs)\<rparr>)"

definition enrich_event :: "ti_env \<Rightarrow> (nat \<Rightarrow> string) \<Rightarrow> event \<Rightarrow> enrich_state \<Rightarrow> enrich_state" where
  "enrich_event env uuids ev st =
     (let hits = event_hits env ev (en_intel st); ids = map io_id hits
      in if hits = [] then st
         else record_ti_risk env uuids ev hits
           (st\<lparr>en_intel := record_hits (te_now env) ids (ev_id ev) (en_intel st),
               en_events := mark_event env (ev_id ev) ids (top_severity hits) (en_events st)\<rparr>))"

section \<open>Reachable stores\<close>

text \<open>One operation, with an actor identifier that is fresh. A synchronization is a sequence of reports.\<close>

inductive ti_step :: "(rat \<Rightarrow> rat) \<Rightarrow> ti_state \<Rightarrow> ti_state \<Rightarrow> bool" for rnd where
  reported: "te_rnd env = rnd \<Longrightarrow> \<not> taken ta_id (''actor-'' @ actor_uuid) (ti_actors st)
     \<Longrightarrow> ti_step rnd st (snd (upsert_ioc env uuid actor_uuid x st))"
| matched: "ti_step rnd st (record_hits now ids ev st)"
| actor_set: "ti_step rnd st (snd (upsert_actor env uuid a st))"
| campaign_set: "ti_step rnd st (snd (upsert_campaign env uuid c st))"
| malware_set: "ti_step rnd st (snd (upsert_malware env uuid m st))"
| synced: "ti_step rnd st (set_provider_state now p st)"

definition unit_source :: "ioc_source \<Rightarrow> bool" where
  "unit_source s = (0 \<le> sr_confidence s \<and> sr_confidence s \<le> 1 \<and> 0 \<le> sr_reliability s \<and> sr_reliability s \<le> 1)"

definition default_fits :: "(rat \<Rightarrow> rat) \<Rightarrow> bool" where
  "default_fits rnd = (0 \<le> rnd (8/10) \<and> rnd (8/10) \<le> 1)"

definition ti_inv :: "(rat \<Rightarrow> rat) \<Rightarrow> ti_state \<Rightarrow> bool" where
  "ti_inv rnd st =
     (list_all (\<lambda>x. io_confidence x = corroborated rnd (sources_of (io_id x) (ti_sources st))) (ti_iocs st)
      \<and> list_all (\<lambda>x. io_type x \<in> set indicator_types) (ti_iocs st)
      \<and> (default_fits rnd \<longrightarrow> list_all unit_source (ti_sources st)))"

lemma sources_of_upsert:
  "sr_ioc x \<noteq> j \<Longrightarrow> sources_of j (upsert_row source_key merge_source x rows) = sources_of j rows"
proof -
  assume j: "sr_ioc x \<noteq> j"
  have "sources_of j (update_rows (\<lambda>y. source_key y = source_key x) (merge_source x) rows) = sources_of j rows"
    using j by (induction rows) (auto simp: sources_of_def update_rows_def source_key_def merge_source_def)
  then show ?thesis using j by (auto simp: upsert_row_def) (simp add: sources_of_def)
qed

lemma write_ioc_rows:
  assumes "write_ioc now uuid x rows = Some (i, rows')"
  shows "list_all (\<lambda>r. io_id r = i \<or> r \<in> set rows) rows'"
    and "list_all (\<lambda>r. io_type r \<in> set indicator_types) rows \<Longrightarrow> ii_type x \<in> set indicator_types
      \<Longrightarrow> list_all (\<lambda>r. io_type r \<in> set indicator_types) rows'"
  using assms
  by (auto simp: write_ioc_def Let_def new_ioc_def touch_ioc_def list_all_iff set_update_rows split: option.splits if_splits)

lemma refresh_inv:
  assumes inv: "ti_inv rnd st" and rnd: "te_rnd env = rnd" and w: "write_ioc now uuid x (ti_iocs st) = Some (i, rows)"
    and t: "ii_type x \<in> set indicator_types" and s: "sr_ioc s = i" "default_fits rnd \<Longrightarrow> unit_source s"
  shows "ti_inv rnd (refresh_confidence env i
     (st\<lparr>ti_iocs := rows, ti_sources := upsert_row source_key merge_source s (ti_sources st), ti_actors := actors, ti_links := links\<rparr>))"
proof -
  let ?src = "upsert_row source_key merge_source s (ti_sources st)"
  have "io_confidence r = corroborated rnd (sources_of (io_id r) ?src)" if "r \<in> set rows" "io_id r \<noteq> i" for r
  proof -
    have "r \<in> set (ti_iocs st)" using write_ioc_rows(1) [OF w] that by (auto simp: list_all_iff)
    then show ?thesis using inv that(2) s(1) by (simp add: ti_inv_def list_all_iff sources_of_upsert)
  qed
  moreover have "list_all (\<lambda>r. io_type r \<in> set indicator_types) rows"
    using write_ioc_rows(2) [OF w _ t] inv by (simp add: ti_inv_def)
  moreover have "list_all unit_source ?src" if "default_fits rnd"
    using inv s(2) [OF that] that by (auto simp: ti_inv_def upsert_row_def list_all_iff set_update_rows unit_source_def merge_source_def)
  ultimately show ?thesis
    using rnd by (auto simp: ti_inv_def refresh_confidence_def list_all_iff set_update_rows)
qed

lemma upsert_ioc_inv:
  assumes inv: "ti_inv rnd st" and rnd: "te_rnd env = rnd" and fresh: "\<not> taken ta_id (''actor-'' @ actor_uuid) (ti_actors st)"
  shows "ti_inv rnd (snd (upsert_ioc env uuid actor_uuid x0 st))"
proof (cases "validate_ioc x0")
  case None
  let ?x = "in_defaults rnd x0"
  have t: "ii_type ?x \<in> set indicator_types" using None by (auto simp: validate_ioc_def in_defaults_def Let_def split: if_splits)
  have u: "unit_source (source_of_report now i ?x)" if "default_fits rnd" for now i
    using None that by (auto simp: validate_ioc_def in_defaults_def default_fits_def unit_source_def source_of_report_def Let_def split: if_splits)
  show ?thesis
  proof (cases "write_ioc (te_now env) uuid ?x (ti_iocs st)")
    case w: (Some w)
    obtain i rows where ir: "w = (i, rows)" by (cases w)
    have keep: "ti_inv rnd (refresh_confidence env i (st\<lparr>ti_iocs := rows,
        ti_sources := upsert_row source_key merge_source (source_of_report (te_now env) i ?x) (ti_sources st),
        ti_actors := actors, ti_links := links\<rparr>))" for actors links
      by (rule refresh_inv [OF inv rnd w [unfolded ir] t _ u]) (simp add: source_of_report_def)
    have name: "upsert_actor_by_name (te_now env) actor_uuid n (ti_actors st) \<noteq> None" for n
      using fresh by (auto simp: upsert_actor_by_name_def Let_def split: option.split)
    show ?thesis
      using keep [where actors = "ti_actors st" and links = "ti_links st"] keep name [of "ii_actor ?x"] None w ir
      rnd by (auto simp: upsert_ioc_def Let_def split: option.split)
  qed (use None inv rnd in \<open>simp add: upsert_ioc_def Let_def\<close>)
qed (use inv in \<open>simp add: upsert_ioc_def\<close>)

lemma bump_inv: "ti_inv rnd st \<Longrightarrow> ti_inv rnd (bump_ioc now i st)"
  by (auto simp: ti_inv_def bump_ioc_def list_all_iff set_update_rows)

lemma record_hits_inv: "ti_inv rnd st \<Longrightarrow> ti_inv rnd (record_hits now ids ev st)"
proof (cases ids)
  case (Cons i0 is')
  have pairs: "ti_inv rnd (s\<lparr>ti_pairs := ps\<rparr>) = ti_inv rnd s" for s ps by (simp add: ti_inv_def)
  have "ti_inv rnd s \<Longrightarrow> ti_inv rnd (fold (\<lambda>i s. let s1 = bump_ioc now i s
      in if ev = [] then s1 else s1\<lparr>ti_pairs := note_pair now (ordered_pair i0 i) ev (ti_pairs s1)\<rparr>) is' s)" for s
    by (induction is' arbitrary: s) (auto simp: Let_def bump_inv pairs)
  moreover assume "ti_inv rnd st"
  ultimately show ?thesis using Cons by (simp add: record_hits_def bump_inv)
qed (simp add: record_hits_def)

lemma ti_step_inv: "ti_step rnd st st' \<Longrightarrow> ti_inv rnd st \<Longrightarrow> ti_inv rnd st'"
proof (induction rule: ti_step.induct)
  case (reported env actor_uuid st uuid x)
  then show ?case by (simp add: upsert_ioc_inv)
next
  case (matched st now ids ev)
  then show ?case by (simp add: record_hits_inv)
qed (auto simp: upsert_actor_def upsert_campaign_def upsert_malware_def set_provider_state_def ti_inv_def Let_def split: option.split)

lemma ti_reachable: "(ti_step rnd)\<^sup>*\<^sup>* no_intel st \<Longrightarrow> ti_inv rnd st"
proof (induction rule: rtranclp_induct)
  case base
  then show ?case by (simp add: ti_inv_def no_intel_def)
qed (rule ti_step_inv)

section \<open>Confidence is corroborated\<close>

text \<open>
  C11. The stored confidence of an indicator refines the table of its sources: in every reachable store it is the rounded
  aggregate of what the sources report now, whatever reports, hits and edits came before.
\<close>

theorem confidence_is_corroborated:
  assumes "(ti_step rnd)\<^sup>*\<^sup>* no_intel st"
  shows "list_all (\<lambda>x. io_confidence x = corroborated rnd (sources_of (io_id x) (ti_sources st))) (ti_iocs st)"
  using ti_reachable [OF assms] by (simp add: ti_inv_def)

lemma truncate_mono: "(x::rat) \<le> y \<Longrightarrow> (if 0 \<le> x then \<lfloor>x\<rfloor> else \<lceil>x\<rceil>) \<le> (if 0 \<le> y then \<lfloor>y\<rfloor> else \<lceil>y\<rceil>)"
  by (auto simp: floor_mono ceiling_mono) (metis ceiling_le_zero le_less_linear less_imp_le order_trans zero_le_floor)

lemma round3_mono: "mono rnd \<Longrightarrow> f \<le> g \<Longrightarrow> round3 rnd f \<le> round3 rnd g"
proof -
  assume m: "mono rnd" and f: "f \<le> g"
  have "rnd (rnd (f * 1000) + 1/2) \<le> rnd (rnd (g * 1000) + 1/2)" using m f by (simp add: monoD)
  note t = truncate_mono [OF this]
  show ?thesis
    unfolding round3_def Let_def by (rule monoD [OF m], rule divide_right_mono, rule of_int_le_iff [THEN iffD2], rule t) simp
qed

text \<open>
  C33. No single source classifies an indicator: with one source row the confidence is at most that of a fully
  confident and fully reliable report, discounted by a fifth.
\<close>

theorem single_source_is_discounted:
  assumes "(ti_step rnd)\<^sup>*\<^sup>* no_intel st" and m: "mono rnd" and one: "rnd 0 = 0" "rnd 1 = 1" and idem: "\<And>y. rnd (rnd y) = rnd y"
    and x: "x \<in> set (ti_iocs st)" and single: "length (sources_of (io_id x) (ti_sources st)) = 1"
  shows "io_confidence x \<le> round3 rnd (rnd (8/10))"
proof -
  have inv: "ti_inv rnd st" using assms(1) by (rule ti_reachable)
  obtain s where s: "sources_of (io_id x) (ti_sources st) = [s]" using single by (auto simp: length_Suc_conv)
  then have "s \<in> set (ti_sources st)" by (metis filter_is_subset list.set_intros(1) sources_of_def subsetD)
  moreover have fits: "default_fits rnd"
    using monoD [OF m, of 0 "8/10"] monoD [OF m, of "8/10" 1] one by (simp add: default_fits_def)
  ultimately have u: "unit_source s" using inv by (simp add: ti_inv_def list_all_iff)
  have e: "effective rnd s \<le> 1" using monoD [OF m, of "sr_confidence s * sr_reliability s" 1] u one
    by (simp add: effective_def unit_source_def mult_le_one)
  have d: "0 \<le> rnd (8/10)" using fits by (simp add: default_fits_def)
  have "aggregate rnd (map (effective rnd) [s]) \<le> rnd (1 * rnd (8/10))"
    using mult_right_mono [OF e d] d by (auto simp: aggregate_def intro!: monoD [OF m])
  also have "rnd (1 * rnd (8/10)) = rnd (8/10)" by (simp add: idem)
  finally have "corroborated rnd [s] \<le> round3 rnd (rnd (8/10))" by (simp add: corroborated_def round3_mono [OF m])
  moreover have "io_confidence x = corroborated rnd [s]" using inv x s by (simp add: ti_inv_def list_all_iff)
  ultimately show ?thesis by simp
qed

section \<open>Matching\<close>

text \<open>The host of an event is looked up under a type that no indicator has, so it never matches.\<close>

lemma host_never_matches:
  assumes "(ti_step rnd)\<^sup>*\<^sup>* no_intel st"
  shows "lookup_by_type env ''host'' v st = []"
proof -
  have "filter (\<lambda>x. io_type x = ''host'' \<and> ioc_matches v x) (ti_iocs st) = []"
    using ti_reachable [OF assms] by (auto simp: ti_inv_def list_all_iff filter_empty_conv indicator_types_def)
  then show ?thesis by (simp add: lookup_by_type_def sort_desc_def)
qed

lemma add_hits:
  "distinct (map io_id hs) \<Longrightarrow> distinct (map io_id (fold add_hit xs hs)) \<and> set (fold add_hit xs hs) \<subseteq> set hs \<union> set xs"
proof (induction xs arbitrary: hs)
  case (Cons x xs)
  have d: "distinct (map io_id (add_hit x hs))" using Cons.prems by (auto simp: add_hit_def list_ex_iff)
  have "set (add_hit x hs) \<subseteq> insert x (set hs)" by (auto simp: add_hit_def)
  then show ?case using Cons.IH [OF d] by auto
qed simp

lemma event_hits_distinct: "distinct (map io_id (event_hits env ev st))"
  using add_hits [of "[]"] by (simp add: event_hits_def)

lemma event_hits_sound:
  assumes "\<And>xs. set (te_order env xs) = set xs" and "h \<in> set (event_hits env ev st)"
  shows "h \<in> set (ti_iocs st) \<and> list_ex (\<lambda>(t, v). io_type h = t \<and> ioc_matches v h) (candidate_values ev)"
proof -
  have "h \<in> set (concat (map (\<lambda>(t, v). lookup_by_type env t v st) (te_order env (candidate_values ev))))"
    using assms(2) add_hits [of "[]"] by (fastforce simp: event_hits_def)
  then obtain t v where "(t, v) \<in> set (candidate_values ev)" "h \<in> set (lookup_by_type env t v st)"
    using assms(1) by auto
  then show ?thesis by (auto simp: lookup_by_type_def list_ex_iff dest!: in_set_takeD)
qed

definition hit_counts :: "ti_state \<Rightarrow> (string \<times> int) list" where
  "hit_counts st = map (\<lambda>x. (io_id x, io_hits x)) (ti_iocs st)"

lemma bump_counts: "hit_counts (bump_ioc now i st) = map (\<lambda>(j, n). (j, n + (if j = i then 1 else 0))) (hit_counts st)"
  by (simp add: hit_counts_def bump_ioc_def update_rows_def)

lemma record_hits_counts:
  assumes "distinct ids"
  shows "hit_counts (record_hits now ids ev st) = map (\<lambda>(j, n). (j, n + (if j \<in> set ids then 1 else 0))) (hit_counts st)"
proof (cases ids)
  case (Cons i0 is')
  let ?f = "\<lambda>i s. let s1 = bump_ioc now i s in if ev = [] then s1 else s1\<lparr>ti_pairs := note_pair now (ordered_pair i0 i) ev (ti_pairs s1)\<rparr>"
  have pairs: "hit_counts (s\<lparr>ti_pairs := ps\<rparr>) = hit_counts s" for s ps by (simp add: hit_counts_def)
  have step: "hit_counts (?f i s) = map (\<lambda>(j, n). (j, n + (if j = i then 1 else 0))) (hit_counts s)" for i s
    by (simp add: Let_def pairs bump_counts)
  have "distinct js \<Longrightarrow> hit_counts (fold ?f js s) = map (\<lambda>(j, n). (j, n + (if j \<in> set js then 1 else 0))) (hit_counts s)" for js s
  proof (induction js arbitrary: s)
    case (Cons i js)
    then show ?case by (auto simp: step simp del: pairs)
  qed (simp add: case_prod_beta)
  then show ?thesis using assms Cons by (auto simp: record_hits_def bump_counts)
qed (simp add: record_hits_def case_prod_beta)

lemma risk_keeps_intel [simp]: "en_intel (record_ti_risk env uuids ev hits st) = en_intel st"
  by (simp add: record_ti_risk_def Let_def split: option.split)

text \<open>
  The enricher counts each matched indicator once: processing an event adds one to the hit counter of exactly the
  indicators it found, however many fields of the event they match, and it finds only stored indicators
  whose type and value are those of a field of the event.
\<close>

theorem enricher_counts_matches_once:
  assumes "\<And>xs. set (te_order env xs) = set xs"
  shows "hit_counts (en_intel (enrich_event env uuids ev st))
      = map (\<lambda>(j, n). (j, n + (if j \<in> io_id ` set (event_hits env ev (en_intel st)) then 1 else 0))) (hit_counts (en_intel st))
    \<and> list_all (\<lambda>h. h \<in> set (ti_iocs (en_intel st)) \<and> list_ex (\<lambda>(t, v). io_type h = t \<and> ioc_matches v h) (candidate_values ev))
        (event_hits env ev (en_intel st))"
proof
  show "hit_counts (en_intel (enrich_event env uuids ev st))
      = map (\<lambda>(j, n). (j, n + (if j \<in> io_id ` set (event_hits env ev (en_intel st)) then 1 else 0))) (hit_counts (en_intel st))"
    using event_hits_distinct [of env ev "en_intel st"]
    by (auto simp: enrich_event_def Let_def record_hits_counts)
  show "list_all (\<lambda>h. h \<in> set (ti_iocs (en_intel st)) \<and> list_ex (\<lambda>(t, v). io_type h = t \<and> ioc_matches v h) (candidate_values ev))
        (event_hits env ev (en_intel st))"
    using event_hits_sound [OF assms] by (auto simp: list_all_iff)
qed

section \<open>Examples\<close>

definition sample_ti_env :: ti_env where
  "sample_ti_env =
     \<lparr>te_rnd = (\<lambda>x. x), te_now = 7, te_like = (\<lambda>p s. p = s), te_strict = True, te_ioc_rank = (\<lambda>x. 0), te_actor_rank = (\<lambda>x. 0),
      te_campaign_rank = (\<lambda>x. 0), te_malware_rank = (\<lambda>x. 0), te_pair_rank = (\<lambda>x. 0), te_order = (\<lambda>xs. xs), te_risk_order = (\<lambda>xs. xs),
      te_mark = (\<lambda>a ids s. a @ concat ids @ s), te_conf_text = (\<lambda>x. ''c'')\<rparr>"

definition sample_report :: "string \<Rightarrow> in_ioc" where
  "sample_report src =
     \<lparr>ii_type = ''ip'', ii_value = ''1.2.3.4'', ii_severity = [], ii_description = [], ii_source = src, ii_confidence = 1,
      ii_reliability = 1, ii_url = [], ii_actor = ''apt''\<rparr>"

definition one_report :: ti_state where
  "one_report = snd (upsert_ioc sample_ti_env ''1'' ''1'' (sample_report ''feed'') no_intel)"

lemma one_report_reachable: "(ti_step (\<lambda>x. x))\<^sup>*\<^sup>* no_intel one_report"
  unfolding one_report_def
  by (rule r_into_rtranclp, rule ti_step.reported) (simp_all add: sample_ti_env_def no_intel_def taken_def)

lemma sample_addresses_text:
  "ip_text [32, 1, 13, 184, 0, 0, 0, 0, 0, 0, 0, 0, 0, 0, 0, 1] = ''2001:db8::1''"
  "map_option ip_text (parse_ip ''::FFFF:1.2.3.4'') = Some ''1.2.3.4''"
  "normalize_ioc ''hash'' ''SHA256:AbC'' = ''abc''" "normalize_ioc ''url'' ''http://HOST/Path'' = ''http://host/Path''"
  by code_simp+

text \<open>
  A lookup does not normalize what it looks for: another spelling of the same address is not found. The default severity of a
  report is not stored.
\<close>

lemma lookup_misses_other_spelling:
  "map io_norm (ti_iocs one_report) = [''1.2.3.4'']" "lookup_iocs sample_ti_env ''::ffff:1.2.3.4'' one_report = []"
  "map io_severity (ti_iocs one_report) = [[]]"
  by code_simp+

text \<open>
  The internal provider feeds the aggregate back as the confidence of the source: each synchronization multiplies the
  confidence of an indicator with one source by the reliability of 0.8 and the discount of 0.8, although nothing new
  was reported.
\<close>

definition internal_registry :: registry where
  "internal_registry = register_provider (Some (internal_provider sample_ti_env)) no_registry"

lemma internal_sync_decays:
  "map io_confidence (ti_iocs one_report) = [4/5]"
  "map io_confidence (ti_iocs (snd (sync_provider sample_ti_env (\<lambda>k. ([], [])) ''internal'' internal_registry one_report))) = [64/125]"
  by code_simp+

theorem confidence_is_corroborated_witness:
  "list_all (\<lambda>x. io_confidence x = corroborated (\<lambda>x. x) (sources_of (io_id x) (ti_sources one_report))) (ti_iocs one_report)
   \<and> map io_confidence (ti_iocs one_report) = [4/5]"
  using confidence_is_corroborated [OF one_report_reachable] internal_sync_decays(1) by blast

theorem single_source_is_discounted_witness:
  "io_confidence (hd (ti_iocs one_report)) \<le> round3 (\<lambda>x. x) (8/10) \<and> round3 (\<lambda>x. x) (8/10) = (4/5 :: rat)"
proof -
  have "hd (ti_iocs one_report) \<in> set (ti_iocs one_report)"
    "length (sources_of (io_id (hd (ti_iocs one_report))) (ti_sources one_report)) = 1" by code_simp+
  from single_source_is_discounted [OF one_report_reachable _ _ _ _ this]
  have "io_confidence (hd (ti_iocs one_report)) \<le> round3 (\<lambda>x. x) (8/10)" by (simp add: mono_def)
  moreover have "round3 (\<lambda>x. x) (8/10) = (4/5 :: rat)" by code_simp
  ultimately show ?thesis by blast
qed

definition seen_event :: event where
  "seen_event = blank_event\<lparr>ev_id := ''e1'', ev_ip := ''1.2.3.4'', ev_source_ip := '' 1.2.3.4 ''\<rparr>"

theorem enricher_counts_matches_once_witness:
  "hit_counts (en_intel (enrich_event sample_ti_env (\<lambda>k. ''r'') seen_event \<lparr>en_intel = one_report, en_risk = None, en_events = []\<rparr>))
     = [(''ioc-1'', 1)]
   \<and> map io_id (event_hits sample_ti_env seen_event one_report) = [''ioc-1'']"
proof -
  have "\<And>xs. set (te_order sample_ti_env xs) = set xs" by (simp add: sample_ti_env_def)
  from enricher_counts_matches_once [OF this, of "\<lambda>k. ''r''" seen_event "\<lparr>en_intel = one_report, en_risk = None, en_events = []\<rparr>"]
  have h: "hit_counts (en_intel (enrich_event sample_ti_env (\<lambda>k. ''r'') seen_event \<lparr>en_intel = one_report, en_risk = None, en_events = []\<rparr>))
      = map (\<lambda>(j, n). (j, n + (if j \<in> io_id ` set (event_hits sample_ti_env seen_event one_report) then 1 else 0))) (hit_counts one_report)"
    by simp
  have ids: "map io_id (event_hits sample_ti_env seen_event one_report) = [''ioc-1'']" by code_simp
  then have "io_id ` set (event_hits sample_ti_env seen_event one_report) = {''ioc-1''}"
    by (metis list.set_map list.simps(15) empty_set)
  moreover have "hit_counts one_report = [(''ioc-1'', 0)]" by code_simp
  ultimately show ?thesis using h ids by simp
qed

end
