(* ===== verification/ThreatModels.thy ===== *)
theory ThreatModels
  imports CoverageStore GraphQueries "HOL-Library.Word"
begin

unbundle bit_operations_syntax

text \<open>
  Threat models, \<^verbatim>\<open>internal/threatmodel\<close>: the store with its versions and drift snapshots, and the derivation of a
  model from assets, relationships and the embedded crosswalk. A list column holds the list its JSON text encodes.
  The arrow of an edge key and the upper case of a text, which need not be runes of the model, the JSON texts, the order in which a map is ranged and the
  order a statement leaves open are fields of the environment.
\<close>

section \<open>State\<close>

record threat_model =
  md_id :: string
  md_name :: string
  md_source :: string
  md_version :: int
  md_scope :: string
  md_status :: string
  md_created :: int
  md_updated :: int

record tm_node =
  nd_model :: string
  nd_id :: string
  nd_kind :: string
  nd_label :: string
  nd_ref :: string
  nd_state :: string
  nd_attrs :: string

record tm_edge =
  te_model :: string
  te_from :: string
  te_to :: string
  te_relation :: string
  te_state :: string
  te_evidence :: string

record threat =
  th_model :: string
  th_id :: string
  th_node :: string
  th_edge :: string
  th_description :: string
  th_stride :: string
  th_phase :: string
  th_techniques :: "string list"
  th_mitigations :: "string list"
  th_likelihood :: string
  th_impact :: string
  th_state :: string

record control =
  ct_id :: string
  ct_framework :: string
  ct_ref :: string
  ct_name :: string
  ct_description :: string

record threat_control =
  tc_ref :: string
  tc_control :: string
  tc_state :: string
  tc_evidence :: string

record snapshot =
  sh_model :: string
  sh_version :: int
  sh_snapshot :: string
  sh_changes :: string
  sh_by :: string
  sh_created :: int

record changes =
  ch_added_nodes :: "string list"
  ch_removed_nodes :: "string list"
  ch_added_edges :: "string list"
  ch_removed_edges :: "string list"
  ch_added_threats :: "string list"
  ch_removed_threats :: "string list"
  ch_new_risks :: "string list"
  ch_removed_risks :: "string list"

record tm_state =
  tm_models :: "threat_model list"
  tm_nodes :: "tm_node list"
  tm_edges :: "tm_edge list"
  tm_threats :: "threat list"
  tm_snapshots :: "snapshot list"
  tm_controls :: "control list"
  tm_mappings :: "threat_control list"

record tm_env =
  tx_now :: int
  tx_arrow :: string
  tx_upper :: "string \<Rightarrow> string"
  tx_order :: "string list \<Rightarrow> string list"
  tx_snapshot :: "int \<Rightarrow> nat \<Rightarrow> nat \<Rightarrow> nat \<Rightarrow> bool \<Rightarrow> string"
  tx_changes :: "changes \<Rightarrow> string"
  tx_attrs :: "asset \<Rightarrow> nat \<Rightarrow> nat \<Rightarrow> string"
  tx_like :: "string \<Rightarrow> string \<Rightarrow> bool"
  tx_asset_rank :: "asset \<Rightarrow> nat"
  tx_rel_rank :: "relationship \<times> rel_meta option \<Rightarrow> nat"
  tx_model_rank :: "threat_model \<Rightarrow> nat"
  tx_node_rank :: "tm_node \<Rightarrow> nat"
  tx_edge_rank :: "tm_edge \<Rightarrow> nat"
  tx_threat_rank :: "threat \<Rightarrow> nat"
  tx_control_rank :: "control \<Rightarrow> nat"

datatype tm_error = NilModel | TmWrite | ModelMissing string

definition no_models :: tm_state where
  "no_models = \<lparr>tm_models = [], tm_nodes = [], tm_edges = [], tm_threats = [], tm_snapshots = [], tm_controls = [], tm_mappings = []\<rparr>"

section \<open>The checks of the schema\<close>

definition node_kinds :: "string list" where
  "node_kinds = [''asset'', ''trust_boundary'', ''identity'', ''entry_point'', ''data_store'', ''process'', ''network'', ''dependency'',
     ''application'', ''cloud_resource'']"

definition label_states :: "string list" where "label_states = [''observed'', ''inferred'', ''assumed'']"

definition strides :: "string list" where
  "strides = [''spoofing'', ''tampering'', ''repudiation'', ''information_disclosure'', ''denial_of_service'', ''elevation_of_privilege'']"

definition node_check :: "tm_node \<Rightarrow> bool" where
  "node_check n = (nd_kind n \<in> set node_kinds \<and> nd_state n \<in> set label_states)"

definition edge_check :: "tm_edge \<Rightarrow> bool" where
  "edge_check e = (te_state e \<in> set label_states)"

definition threat_check :: "threat \<Rightarrow> bool" where
  "threat_check t =
     (th_stride t \<in> set strides \<and> th_likelihood t \<in> {''rare'', ''possible'', ''likely'', ''almost_certain'', ''unknown''}
      \<and> th_impact t \<in> {''low'', ''medium'', ''high'', ''critical'', ''unknown''} \<and> th_state t \<in> set label_states)"

definition model_check :: "threat_model \<Rightarrow> bool" where
  "model_check m = (md_source m \<in> {''analyst'', ''telemetry'', ''hybrid''})"

definition node_key :: "tm_node \<Rightarrow> string \<times> string" where "node_key n = (nd_model n, nd_id n)"
definition model_edge_key :: "tm_edge \<Rightarrow> string \<times> string \<times> string \<times> string" where
  "model_edge_key e = (te_model e, te_from e, te_to e, te_relation e)"
definition threat_key :: "threat \<Rightarrow> string \<times> string" where "threat_key t = (th_model t, th_id t)"
definition snapshot_key :: "snapshot \<Rightarrow> string \<times> int" where "snapshot_key s = (sh_model s, sh_version s)"

text \<open>The loop of inserts: a row with a taken key, or one that the checks refuse, stops it.\<close>

fun insert_content :: "('r \<Rightarrow> 'k) \<Rightarrow> ('r \<Rightarrow> bool) \<Rightarrow> 'r list \<Rightarrow> 'r list \<Rightarrow> 'r list option" where
  "insert_content key ok [] rows = Some rows"
| "insert_content key ok (x # xs) rows = (if taken key (key x) rows \<or> \<not> ok x then None else insert_content key ok xs (rows @ [x]))"

section \<open>Models\<close>

definition create_model :: "int \<Rightarrow> string \<Rightarrow> threat_model option \<Rightarrow> tm_state \<Rightarrow> (tm_error + threat_model) \<times> tm_state" where
  "create_model now rid m0 st =
     (case m0 of
        None \<Rightarrow> (Inl NilModel, st)
      | Some a \<Rightarrow>
          let m = a\<lparr>md_id := (if md_id a = [] then ''tm-'' @ rid else md_id a),
                    md_source := (if md_source a = [] then ''analyst'' else md_source a),
                    md_version := (if md_version a \<le> 0 then 1 else md_version a),
                    md_status := (if md_status a = [] then ''active'' else md_status a), md_created := now, md_updated := now\<rparr>
          in if taken md_id (md_id m) (tm_models st) \<or> \<not> model_check m then (Inl TmWrite, st)
             else (Inr m, st\<lparr>tm_models := tm_models st @ [m]\<rparr>))"

definition get_model :: "string \<Rightarrow> tm_state \<Rightarrow> tm_error + threat_model" where
  "get_model i st = (case select_row (\<lambda>m. md_id m = i) (tm_models st) of None \<Rightarrow> Inl (ModelMissing i) | Some m \<Rightarrow> Inr m)"

definition list_models :: "tm_env \<Rightarrow> tm_state \<Rightarrow> threat_model list" where
  "list_models env st = sort_desc (\<lambda>m. (md_created m, tx_model_rank env m)) (tm_models st)"

definition clear_content :: "string \<Rightarrow> tm_state \<Rightarrow> tm_state" where
  "clear_content i st =
     st\<lparr>tm_nodes := delete_rows (\<lambda>n. nd_model n = i) (tm_nodes st), tm_edges := delete_rows (\<lambda>e. te_model e = i) (tm_edges st),
        tm_threats := delete_rows (\<lambda>t. th_model t = i) (tm_threats st)\<rparr>"

definition delete_model :: "string \<Rightarrow> tm_state \<Rightarrow> tm_state" where
  "delete_model i st0 =
     (let st = clear_content i st0
      in st\<lparr>tm_snapshots := delete_rows (\<lambda>s. sh_model s = i) (tm_snapshots st), tm_models := delete_rows (\<lambda>m. md_id m = i) (tm_models st)\<rparr>)"

definition list_nodes :: "tm_env \<Rightarrow> string \<Rightarrow> tm_state \<Rightarrow> tm_node list" where
  "list_nodes env i st = sort_key (tx_node_rank env) (filter (\<lambda>n. nd_model n = i) (tm_nodes st))"

definition list_edges :: "tm_env \<Rightarrow> string \<Rightarrow> tm_state \<Rightarrow> tm_edge list" where
  "list_edges env i st = sort_key (tx_edge_rank env) (filter (\<lambda>e. te_model e = i) (tm_edges st))"

definition list_threats :: "tm_env \<Rightarrow> string \<Rightarrow> tm_state \<Rightarrow> threat list" where
  "list_threats env i st = sort_key (tx_threat_rank env) (filter (\<lambda>t. th_model t = i) (tm_threats st))"

definition list_snapshots :: "string \<Rightarrow> tm_state \<Rightarrow> snapshot list" where
  "list_snapshots i st = sort_desc sh_version (filter (\<lambda>s. sh_model s = i) (tm_snapshots st))"

section \<open>Drift\<close>

definition edge_text :: "tm_env \<Rightarrow> tm_edge \<Rightarrow> string" where
  "edge_text env e = te_from e @ tx_arrow env @ te_to e @ '':'' @ te_relation e"

definition risk_rank :: "string \<Rightarrow> nat" where
  "risk_rank s = (case map_of [(''low'', 1), (''medium'', 2), (''high'', 3), (''critical'', 4)] s of None \<Rightarrow> 0 | Some n \<Rightarrow> n)"

definition new_risk :: "(string \<times> string) list \<Rightarrow> threat \<Rightarrow> bool" where
  "new_risk prev t =
     (case map_of prev (th_id t) of
        None \<Rightarrow> risk_rank ''high'' \<le> risk_rank (th_impact t)
      | Some old \<Rightarrow> risk_rank old < risk_rank (th_impact t))"

text \<open>The previous threats come as their identifiers with their impacts.\<close>

definition compute_changes :: "tm_env \<Rightarrow> string list \<Rightarrow> string list \<Rightarrow> (string \<times> string) list
    \<Rightarrow> tm_node list \<Rightarrow> tm_edge list \<Rightarrow> threat list \<Rightarrow> changes" where
  "compute_changes env prev_nodes prev_edges prev_threats ns es ts =
     (let gone = tx_order env (filter (\<lambda>i. i \<notin> set (map th_id ts)) (remdups (map fst prev_threats)))
      in \<lparr>ch_added_nodes = filter (\<lambda>i. i \<notin> set prev_nodes) (map nd_id ns),
          ch_removed_nodes = tx_order env (filter (\<lambda>i. i \<notin> set (map nd_id ns)) (remdups prev_nodes)),
          ch_added_edges = filter (\<lambda>k. k \<notin> set prev_edges) (map (edge_text env) es),
          ch_removed_edges = tx_order env (filter (\<lambda>k. k \<notin> set (map (edge_text env) es)) (remdups prev_edges)),
          ch_added_threats = filter (\<lambda>i. i \<notin> fst ` set prev_threats) (map th_id ts),
          ch_removed_threats = gone,
          ch_new_risks = map th_id (filter (new_risk prev_threats) ts),
          ch_removed_risks = filter (\<lambda>i. case map_of prev_threats i of None \<Rightarrow> False | Some x \<Rightarrow> risk_rank ''high'' \<le> risk_rank x) gone\<rparr>)"

text \<open>The content a replacement reads before it clears it.\<close>

definition read_content :: "tm_env \<Rightarrow> string \<Rightarrow> tm_state \<Rightarrow> string list \<times> string list \<times> (string \<times> string) list" where
  "read_content env i st =
     (map nd_id (filter (\<lambda>n. nd_model n = i) (tm_nodes st)), map (edge_text env) (filter (\<lambda>e. te_model e = i) (tm_edges st)),
      map (\<lambda>t. (th_id t, th_impact t)) (filter (\<lambda>t. th_model t = i) (tm_threats st)))"

definition snapshot_text :: "tm_env \<Rightarrow> int \<Rightarrow> nat \<Rightarrow> nat \<Rightarrow> nat \<Rightarrow> string" where
  "snapshot_text env v n e t =
     (if 50 * 1024 < int (length (tx_snapshot env v n e t False)) then tx_snapshot env v n e t True else tx_snapshot env v n e t False)"

text \<open>The inserts of one transaction; nothing when one of them fails.\<close>

definition write_content :: "string \<Rightarrow> tm_node list \<Rightarrow> tm_edge list \<Rightarrow> threat list \<Rightarrow> tm_state \<Rightarrow> tm_state option" where
  "write_content i ns es ts st =
     (case insert_content node_key node_check (map (\<lambda>n. n\<lparr>nd_model := i\<rparr>) ns) (tm_nodes st) of
        None \<Rightarrow> None
      | Some nodes \<Rightarrow>
          (case insert_content model_edge_key edge_check (map (\<lambda>e. e\<lparr>te_model := i\<rparr>) es) (tm_edges st) of
             None \<Rightarrow> None
           | Some edges \<Rightarrow>
               (case insert_content threat_key threat_check (map (\<lambda>t. t\<lparr>th_model := i\<rparr>) ts) (tm_threats st) of
                  None \<Rightarrow> None
                | Some threats \<Rightarrow> Some (st\<lparr>tm_nodes := nodes, tm_edges := edges, tm_threats := threats\<rparr>))))"

definition replace_content :: "tm_env \<Rightarrow> string \<Rightarrow> tm_node list \<Rightarrow> tm_edge list \<Rightarrow> threat list \<Rightarrow> string \<Rightarrow> tm_state
    \<Rightarrow> (tm_error + snapshot) \<times> tm_state" where
  "replace_content env i ns es ts by st =
     (case read_content env i st of (prev_nodes, prev_edges, prev_threats) \<Rightarrow>
        (case write_content i ns es ts (clear_content i st) of
           None \<Rightarrow> (Inl TmWrite, st)
         | Some st1 \<Rightarrow>
             (case select_row (\<lambda>m. md_id m = i) (tm_models st1) of
                None \<Rightarrow> (Inl (ModelMissing i), st)
              | Some m \<Rightarrow>
                  let v = md_version m + 1;
                      s = \<lparr>sh_model = i, sh_version = v, sh_snapshot = snapshot_text env v (length ns) (length es) (length ts),
                           sh_changes = tx_changes env (compute_changes env prev_nodes prev_edges prev_threats ns es ts), sh_by = by,
                           sh_created = tx_now env\<rparr>
                  in if taken snapshot_key (snapshot_key s) (tm_snapshots st1) then (Inl TmWrite, st)
                     else (Inr s, st1\<lparr>tm_models := update_rows (\<lambda>m. md_id m = i) (\<lambda>m. m\<lparr>md_version := v, md_updated := tx_now env\<rparr>) (tm_models st1),
                                     tm_snapshots := tm_snapshots st1 @ [s]\<rparr>))))"

section \<open>Controls\<close>

definition ensure_controls :: "control list \<Rightarrow> tm_state \<Rightarrow> tm_state" where
  "ensure_controls cs st =
     st\<lparr>tm_controls := fold (\<lambda>c rows. if taken ct_id (ct_id c) rows then rows else rows @ [c]) cs (tm_controls st)\<rparr>"

definition list_controls :: "tm_env \<Rightarrow> tm_state \<Rightarrow> control list" where
  "list_controls env st = sort_key (\<lambda>c. (ct_framework c, ct_ref c, tx_control_rank env c)) (tm_controls st)"

definition mapping_key :: "threat_control \<Rightarrow> string \<times> string" where
  "mapping_key c = (tc_ref c, tc_control c)"

definition merge_mapping :: "threat_control \<Rightarrow> threat_control \<Rightarrow> threat_control" where
  "merge_mapping new old = old\<lparr>tc_state := tc_state new, tc_evidence := tc_evidence new\<rparr>"

interpretation mapping_table: upsert_table mapping_key merge_mapping
  by unfold_locales (simp add: mapping_key_def merge_mapping_def)

definition upsert_mapping :: "threat_control \<Rightarrow> tm_state \<Rightarrow> (tm_error + unit) \<times> tm_state" where
  "upsert_mapping c st =
     (if tc_state c \<notin> set label_states then (Inl TmWrite, st)
      else (Inr (), st\<lparr>tm_mappings := upsert_row mapping_key merge_mapping c (tm_mappings st)\<rparr>))"

definition threat_ref :: "string \<Rightarrow> string \<Rightarrow> string" where
  "threat_ref m t = ''model:'' @ m @ '':threat:'' @ t"

section \<open>Derivation\<close>

record crosswalk =
  cw_stride :: "(string \<times> string list) list"
  cw_kill_chain :: "(string \<times> string list) list"
  cw_d3fend :: "(string \<times> string list) list"
  cw_controls :: "control list"

record derivation =
  dv_nodes :: "tm_node list"
  dv_edges :: "tm_edge list"
  dv_threats :: "threat list"

record raw_relation =
  rr_from :: node_ref
  rr_to :: node_ref
  rr_relation :: string
  rr_state :: string
  rr_source :: string

definition kind_for :: "string \<Rightarrow> string" where
  "kind_for t =
     (let k = to_lower t
      in if k \<in> {''database'', ''db''} then ''data_store'' else if k \<in> {''application'', ''app''} then ''application''
         else if k \<in> {''cloud_resource'', ''cloud''} then ''cloud_resource'' else ''asset'')"

definition relation_for :: "string \<Rightarrow> string" where
  "relation_for rel =
     (let k = to_lower rel
      in if k \<in> {''connects_to'', ''connects'', ''flows_to'', ''network_flow''} then ''flows_to''
         else if k \<in> {''authenticates'', ''login'', ''logon'', ''auth''} then ''authenticates''
         else if k = ''reads'' then ''reads'' else if k = ''writes'' then ''writes'' else rel)"

definition ref_text :: "node_ref \<Rightarrow> string" where
  "ref_text n = fst n @ '':'' @ snd n"

definition asset_ref_of :: "asset \<Rightarrow> string" where
  "asset_ref_of a = (if as_ref a = [] then as_id a else as_ref a)"

definition ref_to_node :: "asset list \<Rightarrow> string \<Rightarrow> string option" where
  "ref_to_node as ref = map_of (rev (map (\<lambda>a. (asset_ref_of a, as_id a)) as)) ref"

definition raw_relations :: "tm_env \<Rightarrow> graph_state \<Rightarrow> raw_relation list" where
  "raw_relations env g =
     map (\<lambda>(r, om). \<lparr>rr_from = rl_from r, rr_to = rl_to r, rr_relation = rl_relation r, rr_state = meta_status om,
                    rr_source = (case om of None \<Rightarrow> [] | Some m \<Rightarrow> rm_source_id m)\<rparr>)
       (sort_key (tx_rel_rank env) (filter (\<lambda>p. meta_status (snd p) \<in> {''observed'', ''inferred''})
         (concat (map (\<lambda>r. map (Pair r) (metas_of r g)) (relationships g)))))"

definition model_node :: "string \<Rightarrow> string \<Rightarrow> string \<Rightarrow> string \<Rightarrow> string \<Rightarrow> string \<Rightarrow> tm_node" where
  "model_node i kind label ref state attrs =
     \<lparr>nd_model = [], nd_id = i, nd_kind = kind, nd_label = label, nd_ref = ref, nd_state = state, nd_attrs = attrs\<rparr>"

definition blank_edge :: "string \<Rightarrow> string \<Rightarrow> string \<Rightarrow> string \<Rightarrow> string \<Rightarrow> tm_edge" where
  "blank_edge from to rel state evidence =
     \<lparr>te_model = [], te_from = from, te_to = to, te_relation = rel, te_state = state, te_evidence = evidence\<rparr>"

definition asset_attrs :: "tm_env \<Rightarrow> class_row list option \<Rightarrow> asset \<Rightarrow> string" where
  "asset_attrs env cov a =
     (case cov of
        None \<Rightarrow> tx_attrs env a 0 0
      | Some rows \<Rightarrow> tx_attrs env a (length (filter cr_available (class_rows (as_id a) rows))) (length (class_rows (as_id a) rows)))"

definition asset_nodes :: "tm_env \<Rightarrow> class_row list option \<Rightarrow> asset \<Rightarrow> tm_node list" where
  "asset_nodes env cov a =
     model_node (as_id a) (kind_for (as_type a)) (as_name a) (asset_ref_of a) ''observed'' (asset_attrs env cov a)
     # (if as_exposed a then
          [model_node (''ep:'' @ as_id a) ''entry_point'' (''Entry point: '' @ as_name a) (asset_ref_of a) ''observed''
             (''{'' @ [CHR 34] @ ''asset_id'' @ [CHR 34] @ '':'' @ [CHR 34] @ as_id a @ [CHR 34] @ ''}'')]
        else [])"

definition asset_edges :: "asset \<Rightarrow> tm_edge list" where
  "asset_edges a =
     (if as_exposed a then
        [blank_edge (''ep:'' @ as_id a) (as_id a) ''exposes'' ''observed'' [],
         blank_edge (''ep:'' @ as_id a) ''tb:internet'' ''resides_in'' ''inferred'' []]
      else if as_environment a \<noteq> [] then [blank_edge (as_id a) (''tb:'' @ as_environment a) ''resides_in'' ''assumed'' []]
      else [])"

definition boundary_nodes :: "tm_env \<Rightarrow> asset list \<Rightarrow> tm_node list" where
  "boundary_nodes env as =
     (if list_ex as_exposed as then [model_node ''tb:internet'' ''trust_boundary'' ''Internet'' [] ''inferred'' []] else [])
     @ map (\<lambda>e. model_node (''tb:'' @ e) ''trust_boundary'' (''Boundary: '' @ e) [] ''assumed'' [])
         (tx_order env (remdups (filter (\<lambda>e. e \<noteq> []) (map as_environment as))))"

definition observed_refs :: "raw_relation list \<Rightarrow> string list" where
  "observed_refs rels = remdups (concat (map (\<lambda>r. [ref_text (rr_from r), ref_text (rr_to r)]) rels))"

definition cut_ref :: "string \<Rightarrow> string \<times> string" where
  "cut_ref ref = (case cut CHR '':'' ref of None \<Rightarrow> (ref, []) | Some tv \<Rightarrow> tv)"

definition outside_nodes :: "tm_env \<Rightarrow> asset list \<Rightarrow> raw_relation list \<Rightarrow> tm_node list" where
  "outside_nodes env as rels =
     map (\<lambda>ref. model_node (''ext:'' @ ref) (kind_for (fst (cut_ref ref))) (snd (cut_ref ref)) ref ''inferred'' [])
       (filter (\<lambda>ref. ref_to_node as ref = None) (tx_order env (observed_refs rels)))"

definition node_id_for :: "asset list \<Rightarrow> node_ref \<Rightarrow> string" where
  "node_id_for as n = (case ref_to_node as (ref_text n) of Some i \<Rightarrow> i | None \<Rightarrow> ''ext:'' @ ref_text n)"

text \<open>The loop over the relationships, with the keys it has seen.\<close>

fun relation_edges :: "asset list \<Rightarrow> raw_relation list \<Rightarrow> string list \<Rightarrow> tm_edge list" where
  "relation_edges as [] known = []"
| "relation_edges as (r # rs) known =
     (let from = node_id_for as (rr_from r); to = node_id_for as (rr_to r); rel = relation_for (rr_relation r);
          key = from @ ''|'' @ to @ ''|'' @ rel
      in if from = to \<or> key \<in> set known then relation_edges as rs known
         else blank_edge from to rel (rr_state r) (rr_source r) # relation_edges as rs (key # known))"

definition fnv_word :: "string \<Rightarrow> 32 word" where
  "fnv_word s = foldl (\<lambda>h c. (h XOR of_nat (code c)) * 16777619) 2166136261 s"

definition hex8 :: "nat \<Rightarrow> string" where
  "hex8 n = map (\<lambda>i. ''0123456789abcdef'' ! (n div 16 ^ i mod 16)) (rev [0..<8])"

definition fnv_hash :: "string \<Rightarrow> string" where
  "fnv_hash s = hex8 (unat (fnv_word s))"

definition listed_values :: "(string \<times> string list) list \<Rightarrow> string \<Rightarrow> string list" where
  "listed_values m k = (case map_of m k of None \<Rightarrow> [] | Some xs \<Rightarrow> xs)"

definition add_threat :: "crosswalk \<Rightarrow> string \<Rightarrow> string \<Rightarrow> string \<Rightarrow> string \<Rightarrow> string \<Rightarrow> string \<Rightarrow> string \<Rightarrow> string \<Rightarrow> threat" where
  "add_threat cw node edge stride phase likelihood impact label desc =
     (let techs = listed_values (cw_stride cw) stride
      in \<lparr>th_model = [], th_id = ''thr-'' @ fnv_hash (stride @ ''|'' @ node @ ''|'' @ edge @ ''|'' @ desc), th_node = node, th_edge = edge,
          th_description = desc, th_stride = stride, th_phase = phase, th_techniques = techs,
          th_mitigations = firsts_by (\<lambda>x. x) [] (concat (map (listed_values (cw_d3fend cw)) techs)),
          th_likelihood = likelihood, th_impact = impact, th_state = label\<rparr>)"

definition impact_for :: "string \<Rightarrow> string" where
  "impact_for crit = (if crit = ''critical'' then ''critical'' else ''high'')"

definition crit_by_id :: "asset list \<Rightarrow> string \<Rightarrow> string" where
  "crit_by_id as i = (case map_of (rev (map (\<lambda>a. (as_id a, as_criticality a)) as)) i of None \<Rightarrow> [] | Some c \<Rightarrow> c)"

definition entry_threats :: "crosswalk \<Rightarrow> string \<Rightarrow> string \<Rightarrow> threat list" where
  "entry_threats cw i crit =
     [add_threat cw i [] ''spoofing'' ''exploitation'' ''possible'' (impact_for crit) ''assumed''
        ''Stolen or spoofed credentials against an internet-exposed endpoint'',
      add_threat cw i [] ''information_disclosure'' ''exploitation'' ''possible'' (impact_for crit) ''assumed''
        ''Sensitive data disclosed through an internet-exposed endpoint'',
      add_threat cw i [] ''elevation_of_privilege'' ''exploitation'' ''possible'' ''high'' ''assumed''
        ''Privilege escalation via vulnerability in an internet-exposed endpoint'',
      add_threat cw i [] ''denial_of_service'' ''exploitation'' ''possible'' ''medium'' ''assumed''
        ''Availability impact on an internet-exposed endpoint'']"

definition store_threats :: "crosswalk \<Rightarrow> tm_node \<Rightarrow> threat list" where
  "store_threats cw n =
     (if nd_kind n \<noteq> ''data_store'' then []
      else [add_threat cw (nd_id n) [] ''tampering'' ''actions_on_objectives'' ''possible'' ''high'' ''assumed''
              ''Integrity loss: tampering with stored data'',
            add_threat cw (nd_id n) [] ''information_disclosure'' ''actions_on_objectives'' ''possible'' ''high'' ''assumed''
              ''Data exfiltration from the store''])"

definition lateral_threats :: "tm_env \<Rightarrow> crosswalk \<Rightarrow> tm_edge \<Rightarrow> threat list" where
  "lateral_threats env cw e =
     (if te_relation e \<notin> {''lateral_movement'', ''flows_to''} \<or> te_state e \<noteq> ''observed'' then []
      else [add_threat cw [] (te_from e @ tx_arrow env @ te_to e) ''elevation_of_privilege'' ''actions_on_objectives'' ''likely'' ''high''
              ''inferred'' (''Observed lateral movement '' @ te_from e @ '' '' @ tx_arrow env @ '' '' @ te_to e)])"

definition derive_from :: "tm_env \<Rightarrow> class_row list option \<Rightarrow> crosswalk \<Rightarrow> asset list \<Rightarrow> raw_relation list \<Rightarrow> derivation" where
  "derive_from env cov cw as rels =
     (let nodes = concat (map (asset_nodes env cov) as) @ boundary_nodes env as @ outside_nodes env as rels;
          edges = concat (map asset_edges as) @ relation_edges as rels [];
          open_ids = filter (\<lambda>i. list_ex (\<lambda>a. as_id a = i \<and> as_exposed a) as) (tx_order env (remdups (map as_id as)))
      in \<lparr>dv_nodes = nodes, dv_edges = edges,
          dv_threats = concat (map (\<lambda>i. entry_threats cw i (crit_by_id as i)) open_ids) @ concat (map (store_threats cw) nodes)
            @ concat (map (lateral_threats env cw) edges)\<rparr>)"

definition derive :: "tm_env \<Rightarrow> asset_state \<Rightarrow> class_row list option \<Rightarrow> graph_state \<Rightarrow> crosswalk \<Rightarrow> derivation" where
  "derive env ast cov g cw =
     derive_from env cov cw
       (fst (list_assets (tx_like env) (tx_asset_rank env) \<lparr>af_q = [], af_type = [], af_criticality = [], af_limit = 1000\<rparr> ast))
       (raw_relations env g)"

definition control_of_ref :: "tm_env \<Rightarrow> crosswalk \<Rightarrow> string \<Rightarrow> string option" where
  "control_of_ref env cw ref = map_of (rev (map (\<lambda>c. (tx_upper env (ct_ref c), ct_id c)) (cw_controls cw))) (tx_upper env ref)"

definition map_threat_controls :: "tm_env \<Rightarrow> derivation \<Rightarrow> string \<Rightarrow> crosswalk \<Rightarrow> threat_control list" where
  "map_threat_controls env d i cw =
     concat (map (\<lambda>t. map (\<lambda>c. \<lparr>tc_ref = threat_ref i (th_id t), tc_control = c, tc_state = ''assumed'', tc_evidence = []\<rparr>)
                        (firsts_by (\<lambda>x. x) [] (concat (map (\<lambda>m. case control_of_ref env cw m of None \<Rightarrow> [] | Some c \<Rightarrow> [c]) (th_mitigations t)))))
              (dv_threats d))"

section \<open>What a replacement writes\<close>

lemma insert_content_rows: "insert_content key ok xs rows = Some rows' \<Longrightarrow> rows' = rows @ xs \<and> list_all ok xs"
  by (induction key ok xs rows rule: insert_content.induct) (auto split: if_splits)

lemma insert_content_unique: "insert_content key ok xs rows = Some rows' \<Longrightarrow> unique_by key rows \<Longrightarrow> unique_by key rows'"
  by (induction key ok xs rows rule: insert_content.induct) (auto simp: table_simps split: if_splits)

lemma insert_content_refuses: "x \<in> set xs \<Longrightarrow> y \<in> set rows \<Longrightarrow> key x = key y \<Longrightarrow> insert_content key ok xs rows = None"
proof (induction key ok xs rows rule: insert_content.induct)
  case (2 key ok z zs rows)
  then show ?case by (auto simp: taken_iff)
qed simp

lemma insert_content_repeated: "\<not> distinct (map key xs) \<Longrightarrow> insert_content key ok xs rows = None"
proof (induction key ok xs rows rule: insert_content.induct)
  case (2 key ok x xs rows)
  show ?case
  proof (cases "key x \<in> key ` set xs")
    case True
    then obtain y where "y \<in> set xs" "key y = key x" by auto
    then have "insert_content key ok xs (rows @ [x]) = None" by (intro insert_content_refuses [of y _ x]) auto
    then show ?thesis by simp
  next
    case False
    then show ?thesis using 2 by auto
  qed
qed simp

lemma write_content_rows:
  assumes "write_content i ns es ts st = Some st'"
  shows "st' = st\<lparr>tm_nodes := tm_nodes st @ map (\<lambda>n. n\<lparr>nd_model := i\<rparr>) ns, tm_edges := tm_edges st @ map (\<lambda>e. e\<lparr>te_model := i\<rparr>) es,
    tm_threats := tm_threats st @ map (\<lambda>t. t\<lparr>th_model := i\<rparr>) ts\<rparr>"
  using assms by (auto simp: write_content_def split: option.splits dest!: insert_content_rows)

lemma replaced_state:
  assumes "replace_content env i ns es ts by st = (Inr s, st')"
  obtains m where "select_row (\<lambda>m. md_id m = i) (tm_models st) = Some m"
    and "st' = st\<lparr>tm_nodes := delete_rows (\<lambda>n. nd_model n = i) (tm_nodes st) @ map (\<lambda>n. n\<lparr>nd_model := i\<rparr>) ns,
        tm_edges := delete_rows (\<lambda>e. te_model e = i) (tm_edges st) @ map (\<lambda>e. e\<lparr>te_model := i\<rparr>) es,
        tm_threats := delete_rows (\<lambda>t. th_model t = i) (tm_threats st) @ map (\<lambda>t. t\<lparr>th_model := i\<rparr>) ts,
        tm_models := update_rows (\<lambda>m. md_id m = i) (\<lambda>x. x\<lparr>md_version := md_version m + 1, md_updated := tx_now env\<rparr>) (tm_models st),
        tm_snapshots := tm_snapshots st @ [s]\<rparr>"
    and "sh_model s = i" "sh_version s = md_version m + 1"
    and "sh_changes s = tx_changes env (case read_content env i st of (a, b, c) \<Rightarrow> compute_changes env a b c ns es ts)"
proof -
  obtain st1 where w: "write_content i ns es ts (clear_content i st) = Some st1"
    using assms by (auto simp: replace_content_def split: option.splits prod.splits)
  obtain m where m: "select_row (\<lambda>m. md_id m = i) (tm_models st1) = Some m"
    using assms w by (auto simp: replace_content_def split: option.splits prod.splits)
  have st1: "tm_models st1 = tm_models st" "tm_snapshots st1 = tm_snapshots st"
    using write_content_rows [OF w] by (simp_all add: clear_content_def)
  show thesis
    by (rule that [of m])
      (use assms w m st1 write_content_rows [OF w] in \<open>auto simp: replace_content_def clear_content_def Let_def split: prod.splits if_splits\<close>)
qed

lemma set_replaced:
  "(\<And>x. key (f x) = i) \<Longrightarrow> set (filter (\<lambda>x. key x = j) (delete_rows (\<lambda>x. key x = i) rows @ map f xs))
     = (if j = i then f ` set xs else set (filter (\<lambda>x. key x = j) rows))"
  by (auto simp: delete_rows_def)

definition drift :: "tm_env \<Rightarrow> string \<Rightarrow> tm_node list \<Rightarrow> tm_edge list \<Rightarrow> threat list \<Rightarrow> tm_state \<Rightarrow> changes" where
  "drift env i ns es ts st = (case read_content env i st of (a, b, c) \<Rightarrow> compute_changes env a b c ns es ts)"

text \<open>
  C20. A replacement that succeeds leaves exactly the content it was given in the model, whose version it increments by one,
  and leaves the content of every other model as it was.
\<close>

theorem replacement_is_exact:
  assumes "replace_content env i ns es ts by st = (Inr s, st')"
  shows "set (list_nodes env j st') = (if j = i then (\<lambda>n. n\<lparr>nd_model := i\<rparr>) ` set ns else set (list_nodes env j st))
    \<and> set (list_edges env j st') = (if j = i then (\<lambda>e. e\<lparr>te_model := i\<rparr>) ` set es else set (list_edges env j st))
    \<and> set (list_threats env j st') = (if j = i then (\<lambda>t. t\<lparr>th_model := i\<rparr>) ` set ts else set (list_threats env j st))
    \<and> map_option md_version (select_row (\<lambda>m. md_id m = j) (tm_models st'))
       = map_option (\<lambda>m. md_version m + (if j = i then 1 else 0)) (select_row (\<lambda>m. md_id m = j) (tm_models st))"
proof -
  obtain m where m: "select_row (\<lambda>m. md_id m = i) (tm_models st) = Some m"
    and st': "st' = st\<lparr>tm_nodes := delete_rows (\<lambda>n. nd_model n = i) (tm_nodes st) @ map (\<lambda>n. n\<lparr>nd_model := i\<rparr>) ns,
        tm_edges := delete_rows (\<lambda>e. te_model e = i) (tm_edges st) @ map (\<lambda>e. e\<lparr>te_model := i\<rparr>) es,
        tm_threats := delete_rows (\<lambda>t. th_model t = i) (tm_threats st) @ map (\<lambda>t. t\<lparr>th_model := i\<rparr>) ts,
        tm_models := update_rows (\<lambda>m. md_id m = i) (\<lambda>x. x\<lparr>md_version := md_version m + 1, md_updated := tx_now env\<rparr>) (tm_models st),
        tm_snapshots := tm_snapshots st @ [s]\<rparr>"
    using assms by (rule replaced_state)
  have "map_option md_version (select_row (\<lambda>m. md_id m = j) (tm_models st'))
       = map_option (\<lambda>m. md_version m + (if j = i then 1 else 0)) (select_row (\<lambda>m. md_id m = j) (tm_models st))"
  proof (cases "select_row (\<lambda>m. md_id m = j) (tm_models st)")
    case None
    then show ?thesis by (simp add: st' select_update_key [where key = md_id])
  next
    case (Some x)
    then have "md_id x = j" by (auto dest: select_row_Some)
    moreover have "j = i \<Longrightarrow> x = m" using Some m by simp
    ultimately show ?thesis using Some by (simp add: st' select_update_key [where key = md_id])
  qed
  moreover have content: "tm_nodes st' = delete_rows (\<lambda>n. nd_model n = i) (tm_nodes st) @ map (\<lambda>n. n\<lparr>nd_model := i\<rparr>) ns"
    "tm_edges st' = delete_rows (\<lambda>e. te_model e = i) (tm_edges st) @ map (\<lambda>e. e\<lparr>te_model := i\<rparr>) es"
    "tm_threats st' = delete_rows (\<lambda>t. th_model t = i) (tm_threats st) @ map (\<lambda>t. t\<lparr>th_model := i\<rparr>) ts"
    by (simp_all add: st')
  have "set (list_nodes env j st') = (if j = i then (\<lambda>n. n\<lparr>nd_model := i\<rparr>) ` set ns else set (list_nodes env j st))"
    unfolding list_nodes_def set_sort content by (rule set_replaced) simp
  moreover have "set (list_edges env j st') = (if j = i then (\<lambda>e. e\<lparr>te_model := i\<rparr>) ` set es else set (list_edges env j st))"
    unfolding list_edges_def set_sort content by (rule set_replaced) simp
  moreover have "set (list_threats env j st') = (if j = i then (\<lambda>t. t\<lparr>th_model := i\<rparr>) ` set ts else set (list_threats env j st))"
    unfolding list_threats_def set_sort content by (rule set_replaced) simp
  ultimately show ?thesis by blast
qed

text \<open>
  The recorded drift is the difference of the content before and after: what is added is what the new content has
  and the old had not, what is removed the other way round, for nodes, edges and threats.
\<close>

theorem drift_is_exact:
  assumes order: "\<And>xs. set (tx_order env xs) = set xs" and ok: "replace_content env i ns es ts by st = (Inr s, st')"
  shows "sh_changes s = tx_changes env (drift env i ns es ts st)
    \<and> set (ch_added_nodes (drift env i ns es ts st)) = nd_id ` set ns - nd_id ` set (list_nodes env i st)
    \<and> set (ch_removed_nodes (drift env i ns es ts st)) = nd_id ` set (list_nodes env i st) - nd_id ` set ns
    \<and> set (ch_added_edges (drift env i ns es ts st)) = edge_text env ` set es - edge_text env ` set (list_edges env i st)
    \<and> set (ch_removed_edges (drift env i ns es ts st)) = edge_text env ` set (list_edges env i st) - edge_text env ` set es
    \<and> set (ch_added_threats (drift env i ns es ts st)) = th_id ` set ts - th_id ` set (list_threats env i st)
    \<and> set (ch_removed_threats (drift env i ns es ts st)) = th_id ` set (list_threats env i st) - th_id ` set ts"
proof -
  obtain pn pe pt where read: "read_content env i st = (pn, pe, pt)" by (cases "read_content env i st")
  have "set pn = nd_id ` set (list_nodes env i st)" "set pe = edge_text env ` set (list_edges env i st)"
    "fst ` set pt = th_id ` set (list_threats env i st)"
    using read by (auto simp: read_content_def list_nodes_def list_edges_def list_threats_def image_image)
  moreover have "sh_changes s = tx_changes env (drift env i ns es ts st)"
    using ok by (rule replaced_state) (simp add: drift_def)
  ultimately show ?thesis using order read by (simp add: drift_def compute_changes_def Let_def set_diff_eq)
qed

section \<open>What a derivation holds\<close>

lemma ref_to_node_listed: "ref_to_node as ref = Some i \<Longrightarrow> i \<in> as_id ` set as"
  by (auto simp: ref_to_node_def dest!: map_of_SomeD)

lemma relation_edges_ends:
  "e \<in> set (relation_edges as rels known) \<Longrightarrow>
   list_ex (\<lambda>r. te_from e = node_id_for as (rr_from r) \<and> te_to e = node_id_for as (rr_to r)) rels"
  by (induction as rels known rule: relation_edges.induct) (auto simp: Let_def blank_edge_def split: if_splits)

definition node_ids :: "derivation \<Rightarrow> string set" where
  "node_ids d = nd_id ` set (dv_nodes d)"

lemma model_node_id [simp]: "nd_id (model_node i kind label ref state attrs) = i"
  by (simp add: model_node_def)

lemma derived_node_ids:
  assumes "\<And>xs. set (tx_order env xs) = set xs"
  shows "node_ids (derive_from env cov cw as rels) =
     as_id ` set as \<union> (\<lambda>a. ''ep:'' @ as_id a) ` set (filter as_exposed as)
     \<union> {x. list_ex as_exposed as \<and> x = ''tb:internet''} \<union> (\<lambda>e. ''tb:'' @ e) ` (as_environment ` set as - {[]})
     \<union> (\<lambda>ref. ''ext:'' @ ref) ` set (filter (\<lambda>ref. ref_to_node as ref = None) (observed_refs rels))"
proof -
  have "nd_id ` set (concat (map (asset_nodes env cov) as)) = as_id ` set as \<union> (\<lambda>a. ''ep:'' @ as_id a) ` set (filter as_exposed as)"
    by (induction as) (simp_all add: asset_nodes_def image_Un Un_ac insert_commute)
  moreover have "nd_id ` set (boundary_nodes env as)
      = {x. list_ex as_exposed as \<and> x = ''tb:internet''} \<union> (\<lambda>e. ''tb:'' @ e) ` (as_environment ` set as - {[]})"
    using assms by (auto simp: boundary_nodes_def image_Un image_image)
  moreover have "nd_id ` set (outside_nodes env as rels) = (\<lambda>ref. ''ext:'' @ ref) ` set (filter (\<lambda>ref. ref_to_node as ref = None) (observed_refs rels))"
    using assms by (simp add: outside_nodes_def image_image)
  ultimately show ?thesis by (simp add: node_ids_def derive_from_def Let_def image_Un Un_assoc)
qed

text \<open>
  C23. A derived model is closed: both ends of every edge, and the node of every threat that names one, are nodes of the model,
  whatever the inventory and the relationships are.
\<close>

theorem derived_model_is_closed:
  assumes order: "\<And>xs. set (tx_order env xs) = set xs"
  shows "list_all (\<lambda>e. te_from e \<in> node_ids (derive env ast cov g cw) \<and> te_to e \<in> node_ids (derive env ast cov g cw))
      (dv_edges (derive env ast cov g cw))
    \<and> list_all (\<lambda>t. th_node t = [] \<or> th_node t \<in> node_ids (derive env ast cov g cw)) (dv_threats (derive env ast cov g cw))"
proof -
  define as where "as = fst (list_assets (tx_like env) (tx_asset_rank env) \<lparr>af_q = [], af_type = [], af_criticality = [], af_limit = 1000\<rparr> ast)"
  define rels where "rels = raw_relations env g"
  let ?d = "derive_from env cov cw as rels"
  note ids = derived_node_ids [OF order, of cov cw as rels]
  have ends: "node_id_for as (rr_from r) \<in> node_ids ?d" "node_id_for as (rr_to r) \<in> node_ids ?d" if "r \<in> set rels" for r
    using that ref_to_node_listed [of as] by (auto simp: ids node_id_for_def observed_refs_def image_iff split: option.split)
  have rel: "te_from e \<in> node_ids ?d \<and> te_to e \<in> node_ids ?d" if "e \<in> set (relation_edges as rels [])" for e
    using relation_edges_ends [OF that] ends by (auto simp: list_ex_iff)
  have ast: "te_from e \<in> node_ids ?d \<and> te_to e \<in> node_ids ?d" if "a \<in> set as" "e \<in> set (asset_edges a)" for a e
    using that by (auto simp: ids asset_edges_def blank_edge_def list_ex_iff image_iff split: if_splits)
  have edges: "list_all (\<lambda>e. te_from e \<in> node_ids ?d \<and> te_to e \<in> node_ids ?d) (dv_edges ?d)"
    using rel ast by (auto simp: list_all_iff derive_from_def Let_def)
  have entry: "th_node t \<in> node_ids ?d" if "i \<in> as_id ` set as" "t \<in> set (entry_threats cw i c)" for i c t
    using that by (auto simp: ids entry_threats_def add_threat_def Let_def)
  have store: "th_node t \<in> node_ids ?d" if "n \<in> set (dv_nodes ?d)" "t \<in> set (store_threats cw n)" for n t
    using that by (auto simp: node_ids_def store_threats_def add_threat_def Let_def split: if_splits)
  have lateral: "th_node t = []" if "t \<in> set (lateral_threats env cw e)" for t e
    using that by (auto simp: lateral_threats_def add_threat_def Let_def split: if_splits)
  have "list_all (\<lambda>t. th_node t = [] \<or> th_node t \<in> node_ids ?d) (dv_threats ?d)"
    using entry store lateral order
    by (auto simp: list_all_iff derive_from_def Let_def) blast+
  then show ?thesis using edges by (simp add: derive_def as_def rels_def)
qed

section \<open>Reachable stores\<close>

inductive tm_step :: "tm_state \<Rightarrow> tm_state \<Rightarrow> bool" where
  created: "tm_step st (snd (create_model now rid m st))"
| removed: "tm_step st (delete_model i st)"
| refreshed: "tm_step st (snd (replace_content env i ns es ts by st))"
| seeded: "tm_step st (ensure_controls cs st)"
| mapped: "tm_step st (snd (upsert_mapping c st))"

definition content_inv :: "tm_state \<Rightarrow> bool" where
  "content_inv st =
     (unique_by node_key (tm_nodes st) \<and> unique_by model_edge_key (tm_edges st) \<and> unique_by threat_key (tm_threats st)
      \<and> list_all (\<lambda>n. node_check n \<and> taken md_id (nd_model n) (tm_models st)) (tm_nodes st)
      \<and> list_all (\<lambda>e. edge_check e \<and> taken md_id (te_model e) (tm_models st)) (tm_edges st)
      \<and> list_all (\<lambda>t. threat_check t \<and> taken md_id (th_model t) (tm_models st)) (tm_threats st))"

definition version_inv :: "tm_state \<Rightarrow> bool" where
  "version_inv st =
     (unique_by md_id (tm_models st) \<and> unique_by snapshot_key (tm_snapshots st)
      \<and> list_all (\<lambda>s. list_ex (\<lambda>m. md_id m = sh_model s \<and> sh_version s \<le> md_version m) (tm_models st)) (tm_snapshots st))"

lemma write_content_inv:
  assumes w: "write_content i ns es ts (clear_content i st) = Some st1" and inv: "content_inv st" and i: "taken md_id i (tm_models st)"
  shows "content_inv st1"
proof -
  have n: "insert_content node_key node_check (map (\<lambda>n. n\<lparr>nd_model := i\<rparr>) ns) (delete_rows (\<lambda>n. nd_model n = i) (tm_nodes st)) = Some (tm_nodes st1)"
    and e: "insert_content model_edge_key edge_check (map (\<lambda>e. e\<lparr>te_model := i\<rparr>) es) (delete_rows (\<lambda>e. te_model e = i) (tm_edges st)) = Some (tm_edges st1)"
    and t: "insert_content threat_key threat_check (map (\<lambda>t. t\<lparr>th_model := i\<rparr>) ts) (delete_rows (\<lambda>t. th_model t = i) (tm_threats st)) = Some (tm_threats st1)"
    and m: "tm_models st1 = tm_models st"
    using w by (auto simp: write_content_def clear_content_def split: option.splits)
  have "unique_by node_key (tm_nodes st1)" "unique_by model_edge_key (tm_edges st1)" "unique_by threat_key (tm_threats st1)"
    using insert_content_unique [OF n] insert_content_unique [OF e] insert_content_unique [OF t] inv
    by (simp_all add: content_inv_def unique_by_delete)
  moreover have "list_all (\<lambda>n. node_check n \<and> taken md_id (nd_model n) (tm_models st)) (tm_nodes st1)"
    using insert_content_rows [OF n] inv i by (simp add: content_inv_def list_all_iff) (auto simp: delete_rows_def)
  moreover have "list_all (\<lambda>e. edge_check e \<and> taken md_id (te_model e) (tm_models st)) (tm_edges st1)"
    using insert_content_rows [OF e] inv i by (simp add: content_inv_def list_all_iff) (auto simp: delete_rows_def)
  moreover have "list_all (\<lambda>t. threat_check t \<and> taken md_id (th_model t) (tm_models st)) (tm_threats st1)"
    using insert_content_rows [OF t] inv i by (simp add: content_inv_def list_all_iff) (auto simp: delete_rows_def)
  ultimately show ?thesis using m by (simp add: content_inv_def)
qed

lemma failed_replacement: "replace_content env i ns es ts by st = (Inl e, st') \<Longrightarrow> st' = st"
  by (auto simp: replace_content_def Let_def split: prod.splits option.splits if_splits)

lemma replaced_content:
  assumes "replace_content env i ns es ts by st = (Inr s, st')"
  obtains st1 where "write_content i ns es ts (clear_content i st) = Some st1" and "\<not> taken snapshot_key (snapshot_key s) (tm_snapshots st)"
    and "tm_nodes st' = tm_nodes st1" "tm_edges st' = tm_edges st1" "tm_threats st' = tm_threats st1"
proof -
  obtain st1 where w: "write_content i ns es ts (clear_content i st) = Some st1"
    using assms by (auto simp: replace_content_def split: option.splits prod.splits)
  have "tm_snapshots st1 = tm_snapshots st" using write_content_rows [OF w] by (simp add: clear_content_def)
  then show thesis
    using assms w by (intro that [OF w]) (auto simp: replace_content_def Let_def split: prod.splits option.splits if_splits)
qed

lemma replace_content_inv:
  assumes inv: "content_inv st \<and> version_inv st" and ok: "replace_content env i ns es ts by st = (Inr s, st')"
  shows "content_inv st' \<and> version_inv st'"
proof -
  obtain st1 where w: "write_content i ns es ts (clear_content i st) = Some st1"
    and fresh: "\<not> taken snapshot_key (snapshot_key s) (tm_snapshots st)"
    and rows: "tm_nodes st' = tm_nodes st1" "tm_edges st' = tm_edges st1" "tm_threats st' = tm_threats st1"
    using ok by (rule replaced_content)
  obtain m where m: "select_row (\<lambda>m. md_id m = i) (tm_models st) = Some m"
    and st': "st' = st\<lparr>tm_nodes := delete_rows (\<lambda>n. nd_model n = i) (tm_nodes st) @ map (\<lambda>n. n\<lparr>nd_model := i\<rparr>) ns,
        tm_edges := delete_rows (\<lambda>e. te_model e = i) (tm_edges st) @ map (\<lambda>e. e\<lparr>te_model := i\<rparr>) es,
        tm_threats := delete_rows (\<lambda>t. th_model t = i) (tm_threats st) @ map (\<lambda>t. t\<lparr>th_model := i\<rparr>) ts,
        tm_models := update_rows (\<lambda>m. md_id m = i) (\<lambda>x. x\<lparr>md_version := md_version m + 1, md_updated := tx_now env\<rparr>) (tm_models st),
        tm_snapshots := tm_snapshots st @ [s]\<rparr>" and s: "sh_model s = i" "sh_version s = md_version m + 1"
    using ok by (rule replaced_state)
  let ?up = "\<lambda>x. x\<lparr>md_version := md_version m + 1, md_updated := tx_now env\<rparr>"
  have models: "tm_models st' = update_rows (\<lambda>m. md_id m = i) ?up (tm_models st)" and snaps: "tm_snapshots st' = tm_snapshots st @ [s]"
    by (simp_all add: st')
  have mi: "m \<in> set (tm_models st)" "md_id m = i" using select_row_Some [OF m] by blast+
  have tk: "taken md_id k (tm_models st') = taken md_id k (tm_models st)" for k
    unfolding models by (rule taken_after_update) simp
  have "content_inv st1" by (rule write_content_inv [OF w]) (use inv mi in \<open>auto simp: taken_iff\<close>)
  moreover have "tm_models st1 = tm_models st" using write_content_rows [OF w] by (simp add: clear_content_def)
  ultimately have c: "content_inv st'" by (simp add: content_inv_def rows tk)
  have u: "unique_by md_id (tm_models st)" using inv by (simp add: version_inv_def)
  have "list_ex (\<lambda>x. md_id x = sh_model q \<and> sh_version q \<le> md_version x) (tm_models st')" if q: "q \<in> set (tm_snapshots st')" for q
  proof (cases "sh_model q = i")
    case True
    have "sh_version q \<le> md_version m + 1"
      using q inv True s unique_byD [OF u _ mi(1)] mi(2) by (fastforce simp: snaps version_inv_def list_all_iff list_ex_iff)
    moreover have "?up m \<in> set (tm_models st')" using mi by (force simp: models set_update_rows)
    ultimately show ?thesis using True mi unfolding list_ex_iff by (intro bexI [of _ "?up m"]) simp_all
  next
    case False
    then have "q \<in> set (tm_snapshots st)" using q s by (auto simp: snaps)
    then obtain x where "x \<in> set (tm_models st)" "md_id x = sh_model q" "sh_version q \<le> md_version x"
      using inv by (auto simp: version_inv_def list_all_iff list_ex_iff)
    moreover from this have "x \<in> set (tm_models st')" using False by (force simp: models set_update_rows)
    ultimately show ?thesis unfolding list_ex_iff by blast
  qed
  moreover have "unique_by md_id (tm_models st')" using u by (simp add: models unique_by_update)
  moreover have "unique_by snapshot_key (tm_snapshots st')" using inv fresh by (simp add: snaps table_simps version_inv_def)
  ultimately show ?thesis using c by (simp add: version_inv_def list_all_iff)
qed

lemma create_model_inv: "content_inv st \<and> version_inv st \<Longrightarrow> content_inv (snd (create_model now rid m st)) \<and> version_inv (snd (create_model now rid m st))"
  by (auto simp: create_model_def Let_def content_inv_def version_inv_def table_simps taken_after_snoc list_all_iff split: option.split)

lemma delete_model_inv:
  assumes "content_inv st \<and> version_inv st"
  shows "content_inv (delete_model i st) \<and> version_inv (delete_model i st)"
proof -
  have tk: "taken md_id k (delete_rows (\<lambda>m. md_id m = i) (tm_models st)) \<longleftrightarrow> k \<noteq> i \<and> taken md_id k (tm_models st)" for k
    by (auto simp: taken_iff delete_rows_def)
  have ex: "list_ex (\<lambda>m. md_id m = k \<and> v \<le> md_version m) (delete_rows (\<lambda>m. md_id m = i) (tm_models st))
      \<longleftrightarrow> k \<noteq> i \<and> list_ex (\<lambda>m. md_id m = k \<and> v \<le> md_version m) (tm_models st)" for k v
    by (auto simp: list_ex_iff delete_rows_def)
  have "content_inv (delete_model i st)"
    using assms by (simp add: delete_model_def clear_content_def content_inv_def unique_by_delete tk) (auto simp: list_all_iff delete_rows_def)
  moreover have "version_inv (delete_model i st)"
    using assms by (simp add: delete_model_def clear_content_def version_inv_def unique_by_delete ex) (auto simp: list_all_iff delete_rows_def)
  ultimately show ?thesis by blast
qed

lemma tm_step_inv: "tm_step st st' \<Longrightarrow> content_inv st \<and> version_inv st \<Longrightarrow> content_inv st' \<and> version_inv st'"
proof (induction rule: tm_step.induct)
  case (created st now rid m)
  then show ?case by (rule create_model_inv)
next
  case (removed st i)
  then show ?case by (rule delete_model_inv)
next
  case (refreshed st env i ns es ts "by")
  obtain r st' where h: "replace_content env i ns es ts by st = (r, st')" by (cases "replace_content env i ns es ts by st")
  show ?case
  proof (cases r)
    case (Inl e)
    then show ?thesis using failed_replacement [of env i ns es ts "by" st e st'] h refreshed by simp
  next
    case (Inr s)
    then show ?thesis using replace_content_inv [OF refreshed, of env i ns es ts "by" s st'] h by simp
  qed
next
  case (seeded st cs)
  then show ?case by (simp add: ensure_controls_def content_inv_def version_inv_def)
next
  case (mapped st c)
  then show ?case by (simp add: upsert_mapping_def content_inv_def version_inv_def)
qed

text \<open>
  In every reachable store keys are unique, the content satisfies the checks and belongs to stored models, and no snapshot
  has a version above that of its model, so the next version is always free.
\<close>

theorem models_reachable_inv:
  assumes "tm_step\<^sup>*\<^sup>* no_models st"
  shows "content_inv st \<and> version_inv st"
  using assms
proof (induction rule: rtranclp_induct)
  case base
  then show ?case by (simp add: no_models_def content_inv_def version_inv_def unique_by_def)
qed (rule tm_step_inv)

section \<open>Derivations that cannot be stored\<close>

lemma repeated_content:
  assumes "\<not> distinct (map nd_id ns) \<or> \<not> distinct (map th_id ts)"
  shows "replace_content env i ns es ts by st = (Inl TmWrite, st)"
proof -
  have "\<not> distinct (map nd_id ns) \<Longrightarrow> insert_content node_key node_check (map (\<lambda>n. n\<lparr>nd_model := i\<rparr>) ns) rows = None" for rows
    by (rule insert_content_repeated) (auto simp: node_key_def distinct_map inj_on_def)
  moreover have "\<not> distinct (map th_id ts) \<Longrightarrow> insert_content threat_key threat_check (map (\<lambda>t. t\<lparr>th_model := i\<rparr>) ts) rows = None" for rows
    by (rule insert_content_repeated) (auto simp: threat_key_def distinct_map inj_on_def)
  ultimately show ?thesis
    using assms by (auto simp: replace_content_def write_content_def split: prod.split option.split)
qed

lemma repeated_key:
  "x \<in> set xs \<Longrightarrow> y \<in> set xs \<Longrightarrow> x \<noteq> y \<Longrightarrow> a \<in> set (f x) \<Longrightarrow> b \<in> set (f y) \<Longrightarrow> key a = key b \<Longrightarrow>
   \<not> distinct (map key (concat (map f xs)))"
proof (induction xs)
  case (Cons z xs)
  have k: "key a \<in> key ` set (f x)" "key a \<in> key ` set (f y)" 
    using imageI [OF Cons.prems(4), of key] imageI [OF Cons.prems(5), of key] Cons.prems(6) by simp_all
  have later: "key a \<in> key ` set (concat (map f xs))" if "x \<in> set xs \<or> y \<in> set xs"
    using that k by (auto simp: image_UN)
  consider "x = z" "y \<in> set xs" | "y = z" "x \<in> set xs" | "x \<in> set xs" "y \<in> set xs" using Cons.prems(1-3) by auto
  then show ?case
  proof cases
    case 3
    then show ?thesis using Cons.IH Cons.prems(3-6) by simp
  qed (use k later in auto)
qed simp

lemma lateral_threats_last:
  "\<exists>ts. dv_threats (derive env ast cov g cw) = ts @ concat (map (lateral_threats env cw) (dv_edges (derive env ast cov g cw)))"
  unfolding derive_def derive_from_def Let_def derivation.simps append_assoc [symmetric] by (rule exI, rule refl)

text \<open>
  C31. Two nodes joined by an observed flow and an observed lateral movement get the same threat twice, with the same
  identifier: the refresh of the model is refused as a whole, now and at every later attempt.
\<close>

theorem parallel_flows_break_refresh:
  assumes "e \<in> set (dv_edges (derive env ast cov g cw))" and "e' \<in> set (dv_edges (derive env ast cov g cw))"
    and "te_relation e = ''flows_to''" and "te_relation e' = ''lateral_movement''"
    and "te_from e = te_from e'" and "te_to e = te_to e'" and "te_state e = ''observed''" and "te_state e' = ''observed''"
  shows "replace_content env' i (dv_nodes (derive env ast cov g cw)) (dv_edges (derive env ast cov g cw))
     (dv_threats (derive env ast cov g cw)) by st = (Inl TmWrite, st)"
proof (rule repeated_content, rule disjI2)
  let ?d = "derive env ast cov g cw"
  have "\<not> distinct (map th_id (concat (map (lateral_threats env cw) (dv_edges ?d))))"
    by (rule repeated_key [of e _ e' "hd (lateral_threats env cw e)" _ "hd (lateral_threats env cw e')"])
      (use assms in \<open>auto simp: lateral_threats_def add_threat_def Let_def\<close>)
  then show "\<not> distinct (map th_id (dv_threats ?d))"
    using lateral_threats_last [of env ast cov g cw] by auto
qed

text \<open>An exposed asset and another in an environment called internet give two nodes for one boundary.\<close>

lemma internet_environment_breaks_refresh:
  assumes "\<And>xs. set (tx_order env xs) = set xs" and "a \<in> set as" "as_exposed a" "b \<in> set as" "as_environment b = ''internet''"
  shows "replace_content env' i (dv_nodes (derive_from env cov cw as rels)) es ts by st = (Inl TmWrite, st)"
proof (rule repeated_content, rule disjI1)
  have "''internet'' \<in> set (tx_order env (remdups (filter (\<lambda>e. e \<noteq> []) (map as_environment as))))"
    using assms by (force simp: image_iff)
  then have "\<not> distinct (map nd_id (boundary_nodes env as))"
    using assms(2,3) by (auto simp: boundary_nodes_def list_ex_iff image_iff)
  then show "\<not> distinct (map nd_id (dv_nodes (derive_from env cov cw as rels)))"
    by (simp add: derive_from_def Let_def)
qed

section \<open>Examples\<close>

definition sample_tm_env :: tm_env where
  "sample_tm_env =
     \<lparr>tx_now = 9, tx_arrow = ''->'', tx_upper = (\<lambda>s. s), tx_order = (\<lambda>xs. xs), tx_snapshot = (\<lambda>v n e t b. ''s''),
      tx_changes = (\<lambda>c. concat (ch_added_nodes c) @ ''/'' @ concat (ch_removed_nodes c)), tx_attrs = (\<lambda>a n m. []), tx_like = (\<lambda>p s. True),
      tx_asset_rank = (\<lambda>a. 0), tx_rel_rank = (\<lambda>r. 0), tx_model_rank = (\<lambda>m. 0), tx_node_rank = (\<lambda>n. 0), tx_edge_rank = (\<lambda>e. 0),
      tx_threat_rank = (\<lambda>t. 0), tx_control_rank = (\<lambda>c. 0)\<rparr>"

definition sample_model :: threat_model where
  "sample_model = \<lparr>md_id = ''m'', md_name = ''web'', md_source = [], md_version = 0, md_scope = [], md_status = [], md_created = 0, md_updated = 0\<rparr>"

definition modelled :: tm_state where
  "modelled = snd (create_model 1 ''r'' (Some sample_model) no_models)"

definition sample_node :: "string \<Rightarrow> tm_node" where
  "sample_node i = model_node i ''asset'' i [] ''observed'' []"

definition refreshed_once :: "(tm_error + snapshot) \<times> tm_state" where
  "refreshed_once = replace_content sample_tm_env ''m'' [sample_node ''a'', sample_node ''b''] [] [] ''ann'' modelled"

definition refreshed_twice :: "(tm_error + snapshot) \<times> tm_state" where
  "refreshed_twice = replace_content sample_tm_env ''m'' [sample_node ''b'', sample_node ''c''] [] [] ''ann'' (snd refreshed_once)"

lemma refreshed_twice_ok: "refreshed_twice = (Inr (projr (fst refreshed_twice)), snd refreshed_twice)"
proof -
  have "isl (fst refreshed_twice) = False" by code_simp
  then show ?thesis using sum.collapse(2) [of "fst refreshed_twice"] by simp
qed

lemma second_refresh:
  "replace_content sample_tm_env ''m'' [sample_node ''b'', sample_node ''c''] [] [] ''ann'' (snd refreshed_once)
     = (Inr (projr (fst refreshed_twice)), snd refreshed_twice)"
  using refreshed_twice_ok by (simp only: refreshed_twice_def)

theorem replacement_is_exact_witness:
  "set (list_nodes sample_tm_env ''m'' (snd refreshed_twice))
     = (\<lambda>n. n\<lparr>nd_model := ''m''\<rparr>) ` set [sample_node ''b'', sample_node ''c'']
   \<and> map md_version (tm_models (snd refreshed_twice)) = [3]"
proof
  show "set (list_nodes sample_tm_env ''m'' (snd refreshed_twice)) = (\<lambda>n. n\<lparr>nd_model := ''m''\<rparr>) ` set [sample_node ''b'', sample_node ''c'']"
    using conjunct1 [OF replacement_is_exact [OF second_refresh, of "''m''"]] unfolding if_P [OF refl] .
  show "map md_version (tm_models (snd refreshed_twice)) = [3]" by code_simp
qed

theorem drift_is_exact_witness:
  "sh_changes (projr (fst refreshed_twice)) = ''c/a''
   \<and> set (ch_added_nodes (drift sample_tm_env ''m'' [sample_node ''b'', sample_node ''c''] [] [] (snd refreshed_once))) = {''c''}"
proof
  show "sh_changes (projr (fst refreshed_twice)) = ''c/a''" by code_simp
  have order: "\<And>xs. set (tx_order sample_tm_env xs) = set xs" by (simp add: sample_tm_env_def)
  have "set (ch_added_nodes (drift sample_tm_env ''m'' [sample_node ''b'', sample_node ''c''] [] [] (snd refreshed_once)))
      = nd_id ` set [sample_node ''b'', sample_node ''c''] - nd_id ` set (list_nodes sample_tm_env ''m'' (snd refreshed_once))"
    by (rule conjunct1 [OF conjunct2 [OF drift_is_exact [OF order second_refresh]]])
  moreover have "map nd_id (list_nodes sample_tm_env ''m'' (snd refreshed_once)) = [''a'', ''b'']" by code_simp
  then have "nd_id ` set (list_nodes sample_tm_env ''m'' (snd refreshed_once)) = {''a'', ''b''}" by (metis list.set_map list.simps(15) empty_set)
  ultimately show "set (ch_added_nodes (drift sample_tm_env ''m'' [sample_node ''b'', sample_node ''c''] [] [] (snd refreshed_once))) = {''c''}"
    by (simp add: sample_node_def)
qed

definition two_flows :: graph_state where
  "two_flows = \<lparr>entities = [],
     relationships = [\<lparr>rl_id = ''1'', rl_from = (''host'', ''a''), rl_to = (''host'', ''b''), rl_relation = ''connects_to'', rl_weight = 1, rl_created = 1\<rparr>,
       \<lparr>rl_id = ''2'', rl_from = (''host'', ''a''), rl_to = (''host'', ''b''), rl_relation = ''lateral_movement'', rl_weight = 1, rl_created = 1\<rparr>],
     rel_metas = []\<rparr>"

definition no_crosswalk :: crosswalk where
  "no_crosswalk = \<lparr>cw_stride = [], cw_kill_chain = [], cw_d3fend = [], cw_controls = []\<rparr>"

lemma two_flows_edges:
  "dv_edges (derive sample_tm_env no_assets None two_flows no_crosswalk)
     = [blank_edge ''ext:host:a'' ''ext:host:b'' ''flows_to'' ''observed'' [], blank_edge ''ext:host:a'' ''ext:host:b'' ''lateral_movement'' ''observed'' []]"
proof -
  have "fst (list_assets (tx_like sample_tm_env) (tx_asset_rank sample_tm_env) \<lparr>af_q = [], af_type = [], af_criticality = [], af_limit = 1000\<rparr> no_assets) = []"
    by code_simp
  moreover have "relation_edges [] (raw_relations sample_tm_env two_flows) []
     = [blank_edge ''ext:host:a'' ''ext:host:b'' ''flows_to'' ''observed'' [], blank_edge ''ext:host:a'' ''ext:host:b'' ''lateral_movement'' ''observed'' []]"
    by code_simp
  ultimately show ?thesis by (simp add: derive_def derive_from_def Let_def)
qed

theorem parallel_flows_break_refresh_witness:
  "replace_content sample_tm_env ''m'' (dv_nodes (derive sample_tm_env no_assets None two_flows no_crosswalk))
     (dv_edges (derive sample_tm_env no_assets None two_flows no_crosswalk)) (dv_threats (derive sample_tm_env no_assets None two_flows no_crosswalk))
     ''ann'' modelled = (Inl TmWrite, modelled)"
  by (rule parallel_flows_break_refresh [of "blank_edge ''ext:host:a'' ''ext:host:b'' ''flows_to'' ''observed'' []" _ _ _ _ _
        "blank_edge ''ext:host:a'' ''ext:host:b'' ''lateral_movement'' ''observed'' []"])
    (simp_all add: two_flows_edges, simp_all add: blank_edge_def)

theorem derived_model_is_closed_witness:
  "list_all (\<lambda>e. te_from e \<in> node_ids (derive sample_tm_env no_assets None two_flows no_crosswalk)
       \<and> te_to e \<in> node_ids (derive sample_tm_env no_assets None two_flows no_crosswalk))
     (dv_edges (derive sample_tm_env no_assets None two_flows no_crosswalk))
   \<and> length (dv_edges (derive sample_tm_env no_assets None two_flows no_crosswalk)) = 2"
proof -
  have "\<And>xs. set (tx_order sample_tm_env xs) = set xs" by (simp add: sample_tm_env_def)
  from derived_model_is_closed [OF this, of no_assets None two_flows no_crosswalk] show ?thesis by (simp add: two_flows_edges)
qed

theorem models_reachable_inv_witness:
  "content_inv (snd refreshed_once) \<and> version_inv (snd refreshed_once) \<and> map nd_id (tm_nodes (snd refreshed_once)) = [''a'', ''b'']"
proof -
  have "tm_step\<^sup>*\<^sup>* no_models (snd refreshed_once)"
    unfolding refreshed_once_def modelled_def
    by (rule rtranclp_trans [OF r_into_rtranclp r_into_rtranclp]) (rule tm_step.created, rule tm_step.refreshed)
  from models_reachable_inv [OF this] show ?thesis by (simp, code_simp)
qed

end
