(* ===== verification/AttackGraphs.thy ===== *)
theory AttackGraphs
  imports ThreatModels Scenarios "HOL-Library.AList"
begin

text \<open>
  The attack graph, \<^verbatim>\<open>internal/attackgraph\<close>: the compromise state of each node, the materialized attack paths and the
  views over them. The order in which a map is ranged and the order a statement leaves open are ranks
  (\<^verbatim>\<open>gx_node_rank\<close> ranks the nodes ranged from a node, and from the empty name those of a map over all nodes); what the JSON
  decoder reads in a scenario's definition and the arrow of a description are fields of the environment, and
  \<^verbatim>\<open>gx_now\<close> stands for both readings of the clock in a recomputation.
\<close>

section \<open>State\<close>

datatype node_state = NotAffected | CompromisedObserved | CompromisedInferred | AtRiskPotential

record edge_row =
  er_from :: node_ref
  er_to :: node_ref
  er_relation :: string
  er_state :: string
  er_source_id :: string
  er_evidence :: string

record path_step =
  sp_path :: string
  sp_pos :: nat
  sp_from :: string
  sp_to :: string
  sp_relation :: string
  sp_state :: string
  sp_technique :: string
  sp_evidence :: string

record attack_path =
  ap_id :: string
  ap_run :: string
  ap_source :: string
  ap_target :: string
  ap_status :: string
  ap_description :: string
  ap_risk :: rat
  ap_by :: string
  ap_created :: int

record ag_state =
  ag_paths :: "attack_path list"
  ag_steps :: "path_step list"

record ag_env =
  gx_now :: int
  gx_arrow :: string
  gx_rnd :: "rat \<Rightarrow> rat"
  gx_like :: "string \<Rightarrow> string \<Rightarrow> bool"
  gx_graph :: graph_env
  gx_asset_rank :: "asset \<Rightarrow> nat"
  gx_software_rank :: "software \<Rightarrow> nat"
  gx_row_rank :: "relationship \<times> rel_meta option \<Rightarrow> nat"
  gx_node_rank :: "string \<Rightarrow> string \<Rightarrow> nat"
  gx_ref_rank :: "node_ref \<Rightarrow> nat"
  gx_path_rank :: "attack_path \<Rightarrow> nat"
  gx_run_rank :: "scenario_run \<Rightarrow> nat"
  gx_expected :: "string \<Rightarrow> string list option"

datatype ag_error = PathMissing string | AssetMissing asset_error

definition step_weight :: "(rat \<Rightarrow> rat) \<Rightarrow> string \<Rightarrow> rat" where
  "step_weight rnd s =
     (case map_of [(''observed'', 1), (''inferred'', rnd (6/10)), (''potential'', rnd (3/10)), (''blocked'', 0)] s of
        None \<Rightarrow> rnd (3/10) | Some w \<Rightarrow> w)"

definition access_relations :: "string list" where
  "access_relations = [''authenticates'', ''auth'', ''login'', ''logon'', ''exec'', ''execs'', ''executes'', ''runs'', ''accesses'', ''reads'',
     ''writes'', ''transfers'', ''lateral_movement'', ''connects_to'', ''connects'']"

definition crit_factor :: "(rat \<Rightarrow> rat) \<Rightarrow> string \<Rightarrow> rat" where
  "crit_factor rnd c =
     (case map_of [(''critical'', 1), (''high'', rnd (7/10)), (''medium'', rnd (4/10)), (''low'', rnd (2/10))] c of
        None \<Rightarrow> rnd (4/10) | Some f \<Rightarrow> f)"

definition max_attack_paths :: nat where "max_attack_paths = 50"

section \<open>Boundaries\<close>

definition asset_for :: "ag_env \<Rightarrow> asset_state \<Rightarrow> node_ref \<Rightarrow> asset option" where
  "asset_for env ast n = (if fst n = [] \<or> snd n = [] then None else get_by_entity_ref (gx_asset_rank env) (ref_text n) ast)"

definition trust_key :: "asset option \<Rightarrow> string" where
  "trust_key oa =
     (case oa of
        None \<Rightarrow> ''unknown''
      | Some a \<Rightarrow>
          (case find (\<lambda>t. prefix ''trust_boundary:'' t) (as_tags a) of
             Some t \<Rightarrow> trim_prefix ''trust_boundary:'' t
           | None \<Rightarrow> if as_environment a \<noteq> [] then as_environment a else ''unknown''))"

definition crosses_boundary :: "ag_env \<Rightarrow> asset_state \<Rightarrow> node_ref \<Rightarrow> node_ref \<Rightarrow> bool" where
  "crosses_boundary env ast a b =
     (case (asset_for env ast a, asset_for env ast b) of
        (Some fa, Some ta) \<Rightarrow>
          (as_exposed fa \<and> \<not> as_exposed ta)
          \<or> (trust_key (Some fa) \<noteq> ''unknown'' \<and> trust_key (Some ta) \<noteq> ''unknown'' \<and> trust_key (Some fa) \<noteq> trust_key (Some ta))
      | (None, Some ta) \<Rightarrow> \<not> as_exposed ta
      | _ \<Rightarrow> False)"

definition joined_rows :: "ag_env \<Rightarrow> graph_state \<Rightarrow> (relationship \<times> rel_meta option) list" where
  "joined_rows env g = sort_key (gx_row_rank env) (concat (map (\<lambda>r. map (Pair r) (metas_of r g)) (relationships g)))"

definition edge_row_of :: "relationship \<times> rel_meta option \<Rightarrow> edge_row" where
  "edge_row_of = (\<lambda>(r, om).
     \<lparr>er_from = rl_from r, er_to = rl_to r, er_relation = rl_relation r, er_state = meta_status om,
      er_source_id = (case om of None \<Rightarrow> [] | Some m \<Rightarrow> rm_source_id m), er_evidence = (case om of None \<Rightarrow> [] | Some m \<Rightarrow> rm_evidence m)\<rparr>)"

definition all_stateful_edges :: "ag_env \<Rightarrow> graph_state \<Rightarrow> edge_row list" where
  "all_stateful_edges env g = map edge_row_of (joined_rows env g)"

section \<open>Compromise\<close>

definition from_id :: "edge_row \<Rightarrow> string" where "from_id e = ref_text (er_from e)"
definition to_id :: "edge_row \<Rightarrow> string" where "to_id e = ref_text (er_to e)"

definition live_edge :: "edge_row \<Rightarrow> bool" where
  "live_edge e = (er_state e \<in> {''observed'', ''inferred''})"

definition access_edge :: "edge_row \<Rightarrow> bool" where
  "access_edge e = (to_lower (er_relation e) \<in> set access_relations)"

text \<open>The states and the sources, as maps from node ids.\<close>

type_synonym assessment = "(string \<times> node_state) list \<times> (string \<times> string) list"

definition mark_edge :: "ag_env \<Rightarrow> asset_state \<Rightarrow> edge_row \<Rightarrow> assessment \<Rightarrow> assessment" where
  "mark_edge env ast e = (\<lambda>(st, src).
     if \<not> access_edge e \<or> \<not> live_edge e \<or> \<not> crosses_boundary env ast (er_from e) (er_to e) then (st, src)
     else if map_of st (to_id e) = Some CompromisedObserved then (st, src)
     else (AList.update (to_id e) (if er_state e = ''observed'' then CompromisedObserved else CompromisedInferred) st,
           AList.update (to_id e) (from_id e) src))"

definition is_compromised :: "node_state \<Rightarrow> bool" where
  "is_compromised s = (s = CompromisedObserved \<or> s = CompromisedInferred)"

definition compromised_nodes :: "ag_env \<Rightarrow> (string \<times> node_state) list \<Rightarrow> string list" where
  "compromised_nodes env st = map fst (sort_key (\<lambda>p. gx_node_rank env [] (fst p)) (filter (\<lambda>p. is_compromised (snd p)) st))"

definition next_nodes :: "ag_env \<Rightarrow> edge_row list \<Rightarrow> string \<Rightarrow> string list" where
  "next_nodes env es n = sort_key (gx_node_rank env n) (remdups (map to_id (filter (\<lambda>e. live_edge e \<and> from_id e = n) es)))"

definition risk_fresh :: "string list \<Rightarrow> (string \<times> node_state) list \<Rightarrow> (string \<times> node_state) list" where
  "risk_fresh ns st =
     fold (\<lambda>n st. case map_of st n of
                   Some s \<Rightarrow> if is_compromised s then st else AList.update n AtRiskPotential st
                 | None \<Rightarrow> AList.update n AtRiskPotential st) ns st"

lemma next_nodes_listed: "set (next_nodes env es n) \<subseteq> to_id ` set es"
  by (auto simp: next_nodes_def)

text \<open>The queue, the nodes seen, the depth of each and the states.\<close>

function spread_risk :: "ag_env \<Rightarrow> edge_row list \<Rightarrow> string list \<Rightarrow> string list \<Rightarrow> (string \<Rightarrow> nat) \<Rightarrow> (string \<times> node_state) list
    \<Rightarrow> string list \<times> (string \<times> node_state) list" where
  "spread_risk env es [] known depth st = (known, st)"
| "spread_risk env es (c # queue) known depth st =
     (if 4 \<le> depth c then spread_risk env es queue known depth st
      else let fresh = filter (\<lambda>n. n \<notin> set known) (next_nodes env es c)
           in spread_risk env es (queue @ fresh) (known @ fresh) (\<lambda>n. if n \<in> set fresh then depth c + 1 else depth n) (risk_fresh fresh st))"
  by pat_completeness auto
termination
proof (relation "measure (\<lambda>(env, es, queue, known, depth, st). length queue + 2 * card (to_id ` set es - set known))", goal_cases)
  case (3 env es c queue known depth st fresh)
  have d: "distinct fresh" using 3(2) by (simp add: next_nodes_def)
  have sub: "set fresh \<subseteq> to_id ` set es - set known" using 3(2) next_nodes_listed [of env es c] by auto
  have eq: "to_id ` set es - set (known @ fresh) = (to_id ` set es - set known) - set fresh" by auto
  have "card (to_id ` set es - set (known @ fresh)) = card (to_id ` set es - set known) - length fresh"
    unfolding eq using sub by (simp add: card_Diff_subset distinct_card [OF d])
  moreover have "length fresh \<le> card (to_id ` set es - set known)"
    using card_mono [OF _ sub] by (simp add: distinct_card [OF d])
  ultimately show ?case by simp
qed simp_all

text \<open>What was seen and has no state yet is not affected.\<close>

definition mark_rest :: "string list \<Rightarrow> (string \<times> node_state) list \<Rightarrow> (string \<times> node_state) list" where
  "mark_rest known st = fold (\<lambda>n st. case map_of st n of None \<Rightarrow> AList.update n NotAffected st | Some s \<Rightarrow> st) known st"

definition evaluate_compromise :: "ag_env \<Rightarrow> asset_state \<Rightarrow> edge_row list \<Rightarrow> assessment" where
  "evaluate_compromise env ast es =
     (case fold (mark_edge env ast) es ([], []) of
        (st, src) \<Rightarrow>
          let start = compromised_nodes env st
          in (case spread_risk env es start start (\<lambda>n. 0) st of (known, st') \<Rightarrow> (mark_rest known st', src)))"

section \<open>Paths\<close>

definition path_risk :: "(rat \<Rightarrow> rat) \<Rightarrow> path_step list \<Rightarrow> string \<Rightarrow> rat" where
  "path_risk rnd steps crit = rnd (foldl (\<lambda>s t. rnd (s + step_weight rnd (sp_state t))) 0 steps * crit_factor rnd crit)"

definition refresh_path :: "attack_path \<Rightarrow> attack_path \<Rightarrow> attack_path" where
  "refresh_path p old = old\<lparr>ap_status := ap_status p, ap_description := ap_description p, ap_risk := ap_risk p, ap_created := ap_created p\<rparr>"

interpretation path_table: upsert_table ap_id refresh_path
  by unfold_locales (simp add: refresh_path_def)

definition number_steps :: "string \<Rightarrow> path_step list \<Rightarrow> path_step list" where
  "number_steps i steps = map (\<lambda>(k, s). s\<lparr>sp_path := i, sp_pos := k\<rparr>) (enumerate 0 steps)"

definition write_path :: "attack_path \<times> path_step list \<Rightarrow> ag_state \<Rightarrow> ag_state" where
  "write_path = (\<lambda>(p, steps) st.
     \<lparr>ag_paths = upsert_row ap_id refresh_path p (ag_paths st),
      ag_steps = delete_rows (\<lambda>s. sp_path s = ap_id p) (ag_steps st) @ number_steps (ap_id p) steps\<rparr>)"

definition new_step :: "string \<Rightarrow> string \<Rightarrow> string \<Rightarrow> string \<Rightarrow> string \<Rightarrow> path_step" where
  "new_step a b rel state evidence =
     \<lparr>sp_path = [], sp_pos = 0, sp_from = a, sp_to = b, sp_relation = rel, sp_state = state, sp_technique = [], sp_evidence = evidence\<rparr>"

definition zero_sep :: string where "zero_sep = [CHR 0x00]"

definition new_path :: "ag_env \<Rightarrow> string \<Rightarrow> string \<Rightarrow> string \<Rightarrow> string \<Rightarrow> rat \<Rightarrow> attack_path" where
  "new_path env kind src dst desc risk =
     \<lparr>ap_id = ''ap-'' @ fnv_hash (kind @ zero_sep @ src @ zero_sep @ dst), ap_run = [], ap_source = src, ap_target = dst, ap_status = kind,
      ap_description = desc, ap_risk = risk, ap_by = ''engine'', ap_created = gx_now env\<rparr>"

subsection \<open>Observed paths\<close>

definition criticality_of :: "ag_env \<Rightarrow> asset_state \<Rightarrow> node_ref \<Rightarrow> string" where
  "criticality_of env ast n = (case asset_for env ast n of None \<Rightarrow> [] | Some a \<Rightarrow> as_criticality a)"

definition path_from_graph :: "path \<Rightarrow> path_step list option" where
  "path_from_graph p =
     (if length (pa_nodes p) < 2 then None
      else Some (map (\<lambda>i. new_step (ref_text (pa_nodes p ! i)) (ref_text (pa_nodes p ! (i + 1))) ''observed-edge''
                           (if i < length (pa_states p) then pa_states p ! i else ''observed'') [])
                   [0..<length (pa_nodes p) - 1]))"

definition observed_into :: "edge_row list \<Rightarrow> string \<Rightarrow> edge_row option" where
  "observed_into es n = find (\<lambda>e. er_state e = ''observed'' \<and> access_edge e \<and> to_id e = n) es"

definition observed_steps :: "ag_env \<Rightarrow> graph_state \<Rightarrow> string \<Rightarrow> string \<Rightarrow> edge_row \<Rightarrow> path_step list" where
  "observed_steps env g src dst e =
     (let direct = [new_step src dst (er_relation e) ''observed'' (er_evidence e)]
      in case find_paths (gx_graph env) g (cut_ref src) (cut_ref dst) 4 [''observed''] of
           [] \<Rightarrow> direct
         | p # _ \<Rightarrow> (case path_from_graph p of None \<Rightarrow> direct | Some steps \<Rightarrow> steps))"

definition observed_write :: "ag_env \<Rightarrow> asset_state \<Rightarrow> graph_state \<Rightarrow> string \<Rightarrow> string \<Rightarrow> edge_row \<Rightarrow> attack_path \<times> path_step list" where
  "observed_write env ast g src dst e =
     (let steps = observed_steps env g src dst e
      in (new_path env ''observed'' src dst
            (''Observed access chain '' @ src @ '' '' @ gx_arrow env @ '' '' @ dst @ '' ('' @ er_relation e @ '')'')
            (path_risk (gx_rnd env) steps (criticality_of env ast (cut_ref dst))), steps))"

definition observed_writes :: "ag_env \<Rightarrow> asset_state \<Rightarrow> graph_state \<Rightarrow> edge_row list \<Rightarrow> (string \<times> string) list \<Rightarrow> (attack_path \<times> path_step list) list" where
  "observed_writes env ast g es src =
     concat (map (\<lambda>(dst, s). case observed_into es dst of None \<Rightarrow> [] | Some e \<Rightarrow> [observed_write env ast g s dst e])
       (sort_key (\<lambda>p. gx_node_rank env [] (fst p)) src))"

subsection \<open>Potential paths\<close>

text \<open>The second statement runs after the first: the paths it looks up are gone.\<close>

definition drop_potential :: "ag_state \<Rightarrow> ag_state" where
  "drop_potential st =
     (let st' = st\<lparr>ag_paths := delete_rows (\<lambda>p. ap_status p = ''potential'') (ag_paths st)\<rparr>
      in st'\<lparr>ag_steps := delete_rows (\<lambda>s. list_ex (\<lambda>p. ap_status p = ''potential'' \<and> ap_id p = sp_path s) (ag_paths st')) (ag_steps st')\<rparr>)"

definition asset_value :: "asset \<Rightarrow> string" where
  "asset_value a =
     (if as_ref a = [] then as_name a else if snd (cut_ref (as_ref a)) = [] then as_name a else snd (cut_ref (as_ref a)))"

definition critical_targets :: "ag_env \<Rightarrow> asset_state \<Rightarrow> string list" where
  "critical_targets env ast =
     map (\<lambda>a. ref_text (as_type a, asset_value a))
       (filter (\<lambda>a. as_criticality a = ''critical'')
         (fst (list_assets (gx_like env) (gx_asset_rank env) \<lparr>af_q = [], af_type = [], af_criticality = [], af_limit = 0\<rparr> ast)))"

type_synonym candidate = "path_step list \<times> string"

text \<open>The nodes visited from one compromised node, the candidates hits, and the next frontier.\<close>

type_synonym hunt_state = "string list \<times> (string \<times> path_step list) list \<times> candidate list"

definition edge_between :: "edge_row list \<Rightarrow> string \<Rightarrow> string \<Rightarrow> edge_row option" where
  "edge_between es a b = find (\<lambda>e. live_edge e \<and> from_id e = a \<and> to_id e = b) es"

definition keep_found :: "string \<Rightarrow> path_step list \<Rightarrow> path_step \<Rightarrow> (string \<times> path_step list) list \<Rightarrow> (string \<times> path_step list) list" where
  "keep_found n pre s hits =
     (case map_of hits n of
        None \<Rightarrow> AList.update n (pre @ [s]) hits
      | Some prev \<Rightarrow> if length pre < length prev then AList.update n (pre @ [s]) hits else hits)"

fun hunt_edges :: "edge_row list \<Rightarrow> string list \<Rightarrow> candidate \<Rightarrow> string list \<Rightarrow> hunt_state \<Rightarrow> hunt_state" where
  "hunt_edges es targets pre [] h = h"
| "hunt_edges es targets (steps, c) (n # ns) (visited, hits, nxt) =
     (case edge_between es c n of
        None \<Rightarrow> hunt_edges es targets (steps, c) ns (visited, hits, nxt)
      | Some e \<Rightarrow>
          if n \<in> set visited then hunt_edges es targets (steps, c) ns (visited, hits, nxt)
          else let s = new_step c n (er_relation e) (er_state e) (er_evidence e)
               in if n \<in> set targets then hunt_edges es targets (steps, c) ns (n # visited, keep_found n steps s hits, nxt)
                  else hunt_edges es targets (steps, c) ns (n # visited, hits, nxt @ [(steps @ [s], n)]))"

fun hunt_frontier :: "ag_env \<Rightarrow> edge_row list \<Rightarrow> string list \<Rightarrow> candidate list \<Rightarrow> hunt_state \<Rightarrow> hunt_state" where
  "hunt_frontier env es targets [] h = h"
| "hunt_frontier env es targets (c # cs) h =
     hunt_frontier env es targets cs (hunt_edges es targets c (next_nodes env es (snd c)) h)"

fun hunt_levels :: "ag_env \<Rightarrow> edge_row list \<Rightarrow> string list \<Rightarrow> nat \<Rightarrow> hunt_state \<Rightarrow> (string \<times> path_step list) list" where
  "hunt_levels env es targets 0 (visited, hits, front) = hits"
| "hunt_levels env es targets (Suc k) (visited, hits, front) =
     (if front = [] then hits
      else hunt_levels env es targets k (hunt_frontier env es targets front (visited, hits, [])))"

definition hunt_all :: "ag_env \<Rightarrow> edge_row list \<Rightarrow> string list \<Rightarrow> string list \<Rightarrow> (string \<times> path_step list) list" where
  "hunt_all env es targets starts = fold (\<lambda>c hits. hunt_levels env es targets 4 ([c], hits, [([], c)])) starts []"

definition state_class :: "path_step list \<Rightarrow> string" where
  "state_class steps = join ''+'' (sort (remdups (map sp_state steps)))"

definition potential_write :: "ag_env \<Rightarrow> string \<times> path_step list \<Rightarrow> attack_path \<times> path_step list" where
  "potential_write env = (\<lambda>(k, steps).
     (new_path env ''potential'' (sp_from (hd steps)) k
        (''Potential path '' @ sp_from (hd steps) @ '' '' @ gx_arrow env @ '' '' @ k @ '' ('' @ decimal (int (length steps)) @ '' hops, '' @ state_class steps @ '')'')
        (path_risk (gx_rnd env) steps ''critical''), steps))"

definition potential_writes :: "ag_env \<Rightarrow> asset_state \<Rightarrow> edge_row list \<Rightarrow> (string \<times> node_state) list \<Rightarrow> (attack_path \<times> path_step list) list" where
  "potential_writes env ast es st =
     map (potential_write env)
       (take max_attack_paths (sort_key (\<lambda>p. length (snd p)) (sort_key fst
         (hunt_all env es (critical_targets env ast) (sort (map fst (filter (\<lambda>p. is_compromised (snd p)) st)))))))"

subsection \<open>The recomputation\<close>

text \<open>The two sets of writes, the drop of the old potential paths between them, and the number of paths written.\<close>

definition recompute :: "ag_env \<Rightarrow> asset_state \<Rightarrow> graph_state \<Rightarrow> ag_state \<Rightarrow> nat \<times> ag_state" where
  "recompute env ast g st =
     (let es = all_stateful_edges env g; (ns, src) = evaluate_compromise env ast es;
          obs = observed_writes env ast g es src; pot = potential_writes env ast es ns
      in (length obs + length pot, fold write_path pot (drop_potential (fold write_path obs st))))"

section \<open>Views\<close>

record snapshot_node =
  gn_node :: string
  gn_ref :: node_ref
  gn_compromise :: node_state
  gn_criticality :: string
  gn_environment :: string
  gn_exposed :: bool
  gn_covered :: nat
  gn_classes :: nat

record snapshot_edge =
  ge_from :: string
  ge_to :: string
  ge_relation :: string
  ge_state :: string
  ge_source :: string
  ge_source_id :: string
  ge_crosses :: bool
  ge_evidence :: string

record graph_snapshot =
  gs_time :: int
  gs_states :: "string list"
  gs_nodes :: "snapshot_node list"
  gs_edges :: "snapshot_edge list"
  gs_truncated :: bool

definition max_snapshot_nodes :: nat where "max_snapshot_nodes = 1000"
definition max_snapshot_edges :: nat where "max_snapshot_edges = 5000"

definition top_node :: "ag_env \<Rightarrow> graph_state \<Rightarrow> node_ref" where
  "top_node env g =
     (let ends = map rl_from (relationships g) @ map rl_to (relationships g)
      in case sort_desc (count_list ends) (sort_key (gx_ref_rank env) (remdups ends)) of
           [] \<Rightarrow> ([], [])
         | n # _ \<Rightarrow> if fst n = [] then ([], []) else n)"

definition snapshot_depth :: "int \<Rightarrow> int" where
  "snapshot_depth d = (let k = (if d \<le> 0 then 2 else d) in if max_depth < k then max_depth else k)"

definition snapshot_node_of :: "ag_env \<Rightarrow> asset_state \<Rightarrow> class_row list \<Rightarrow> (string \<times> node_state) list \<Rightarrow> node_ref \<Rightarrow> snapshot_node" where
  "snapshot_node_of env ast cov st n =
     (let oa = asset_for env ast n; rows = (case oa of None \<Rightarrow> [] | Some a \<Rightarrow> class_rows (as_id a) cov)
      in \<lparr>gn_node = ref_text n, gn_ref = n, gn_compromise = (case map_of st (ref_text n) of None \<Rightarrow> NotAffected | Some s \<Rightarrow> s),
          gn_criticality = (case oa of None \<Rightarrow> [] | Some a \<Rightarrow> as_criticality a),
          gn_environment = (case oa of None \<Rightarrow> [] | Some a \<Rightarrow> as_environment a),
          gn_exposed = (case oa of None \<Rightarrow> False | Some a \<Rightarrow> as_exposed a),
          gn_covered = length (filter cr_available rows), gn_classes = length rows\<rparr>)"

definition edges_within :: "ag_env \<Rightarrow> asset_state \<Rightarrow> graph_state \<Rightarrow> string list \<Rightarrow> string list \<Rightarrow> snapshot_edge list" where
  "edges_within env ast g included states =
     map (\<lambda>(r, om).
         \<lparr>ge_from = ref_text (rl_from r), ge_to = ref_text (rl_to r), ge_relation = rl_relation r, ge_state = meta_status om,
          ge_source = meta_source om, ge_source_id = (case om of None \<Rightarrow> [] | Some m \<Rightarrow> rm_source_id m),
          ge_crosses = crosses_boundary env ast (rl_from r) (rl_to r), ge_evidence = (case om of None \<Rightarrow> [] | Some m \<Rightarrow> rm_evidence m)\<rparr>)
       (filter (\<lambda>(r, om). state_wanted states (meta_status om) \<and> ref_text (rl_from r) \<in> set included \<and> ref_text (rl_to r) \<in> set included)
         (joined_rows env g))"

definition snapshot_root :: "ag_env \<Rightarrow> asset_state \<Rightarrow> graph_state \<Rightarrow> string \<Rightarrow> ag_error + node_ref" where
  "snapshot_root env ast g i =
     (if i = [] then Inr (top_node env g)
      else case get_asset (gx_software_rank env) i ast of
             Inl e \<Rightarrow> Inl (AssetMissing e)
           | Inr v \<Rightarrow> Inr (cut_ref (as_ref (av_asset v))))"

definition take_snapshot :: "ag_env \<Rightarrow> asset_state \<Rightarrow> class_row list \<Rightarrow> graph_state \<Rightarrow> string list \<Rightarrow> int \<Rightarrow> string \<Rightarrow> ag_error + graph_snapshot" where
  "take_snapshot env ast cov g states depth i =
     (case snapshot_root env ast g i of
        Inl e \<Rightarrow> Inl e
      | Inr centre \<Rightarrow>
          (let near = firsts_by ref_text [] (map tn_node (neighbors (gx_graph env) g centre (snapshot_depth depth) states));
               st = fst (evaluate_compromise env ast (all_stateful_edges env g));
               ns = map (snapshot_node_of env ast cov st) near;
               es = (if near = [] then [] else edges_within env ast g (map ref_text near) states)
           in Inr \<lparr>gs_time = gx_now env, gs_states = states, gs_nodes = take max_snapshot_nodes ns, gs_edges = take max_snapshot_edges es,
                   gs_truncated = (max_snapshot_nodes < length ns \<or> max_snapshot_edges < length es)\<rparr>))"

record path_filter =
  pf_from :: string
  pf_to :: string
  pf_critical :: bool
  pf_status :: string
  pf_limit :: int

definition path_wanted :: "asset_state \<Rightarrow> path_filter \<Rightarrow> attack_path \<Rightarrow> bool" where
  "path_wanted ast f p =
     ((pf_from f = [] \<or> ap_source p = pf_from f) \<and> (pf_to f = [] \<or> ap_target p = pf_to f)
      \<and> (\<not> pf_critical f \<or> list_ex (\<lambda>a. as_criticality a = ''critical'' \<and> as_ref a = ap_target p) (assets ast))
      \<and> (pf_status f = [] \<or> ap_status p = pf_status f))"

definition list_paths :: "ag_env \<Rightarrow> asset_state \<Rightarrow> path_filter \<Rightarrow> ag_state \<Rightarrow> attack_path list" where
  "list_paths env ast f st =
     take (if pf_limit f \<le> 0 then 50 else nat (pf_limit f))
       (sort_desc ap_risk (sort_desc ap_created (sort_key (gx_path_rank env) (filter (path_wanted ast f) (ag_paths st)))))"

definition get_path :: "string \<Rightarrow> ag_state \<Rightarrow> ag_error + attack_path \<times> path_step list" where
  "get_path i st =
     (case row_at ap_id (ag_paths st) i of
        None \<Rightarrow> Inl (PathMissing i)
      | Some p \<Rightarrow> Inr (p, sort_key sp_pos (filter (\<lambda>s. sp_path s = i) (ag_steps st))))"

record next_steps =
  wn_node :: string
  wn_techniques :: "string list"
  wn_scenarios :: "string list"
  wn_edges :: "snapshot_edge list"

definition edge_view :: "ag_env \<Rightarrow> asset_state \<Rightarrow> edge_row \<Rightarrow> snapshot_edge" where
  "edge_view env ast e =
     \<lparr>ge_from = from_id e, ge_to = to_id e, ge_relation = er_relation e, ge_state = er_state e, ge_source = [], ge_source_id = [],
      ge_crosses = crosses_boundary env ast (er_from e) (er_to e), ge_evidence = er_evidence e\<rparr>"

definition active_expectations :: "ag_env \<Rightarrow> scenario_state \<Rightarrow> node_ref \<Rightarrow> (string \<times> string list) list" where
  "active_expectations env sc n =
     (if fst n \<noteq> ''host'' then []
      else concat (map (\<lambda>r. case gx_expected env (sn_definition r) of None \<Rightarrow> [] | Some ts \<Rightarrow> [(sn_id r, ts)])
             (sort_key (gx_run_rank env) (filter (\<lambda>r. sn_status r = ''active'' \<and> sn_scope r = ''host:'' @ snd n) (sc_runs sc)))))"

definition what_next :: "ag_env \<Rightarrow> asset_state \<Rightarrow> graph_state \<Rightarrow> scenario_state \<Rightarrow> node_ref \<Rightarrow> next_steps" where
  "what_next env ast g sc n =
     \<lparr>wn_node = ref_text n, wn_techniques = concat (map snd (active_expectations env sc n)), wn_scenarios = map fst (active_expectations env sc n),
      wn_edges = map (\<lambda>e. (edge_view env ast e)\<lparr>ge_crosses := crosses_boundary env ast n (er_to e)\<rparr>)
                   (filter (\<lambda>e. from_id e = ref_text n \<and> live_edge e \<and> access_edge e) (all_stateful_edges env g))\<rparr>"

record graph_brief =
  gb_compromised :: "string list"
  gb_at_risk :: "string list"
  gb_edges :: "snapshot_edge list"

definition brief_limit :: "int \<Rightarrow> nat" where
  "brief_limit n = (if n \<le> 0 \<or> 100 < n then 25 else nat n)"

definition brief_of :: "ag_env \<Rightarrow> asset_state \<Rightarrow> graph_state \<Rightarrow> string list \<Rightarrow> int \<Rightarrow> graph_brief" where
  "brief_of env ast g hosts n =
     (let es = all_stateful_edges env g; st = fst (evaluate_compromise env ast es); hs = map (\<lambda>h. ''host:'' @ h) hosts
      in \<lparr>gb_compromised = sort (map fst (filter (\<lambda>p. is_compromised (snd p)) st)),
          gb_at_risk = sort (map fst (filter (\<lambda>p. snd p = AtRiskPotential) st)),
          gb_edges = map (edge_view env ast)
                       (take (brief_limit n) (filter (\<lambda>e. live_edge e \<and> (from_id e \<in> set hs \<or> to_id e \<in> set hs)) es))\<rparr>)"

section \<open>The compromise state of a node\<close>

text \<open>An access edge in the given state that enters the node from outside its boundary.\<close>

definition breach :: "ag_env \<Rightarrow> asset_state \<Rightarrow> string \<Rightarrow> string \<Rightarrow> edge_row \<Rightarrow> bool" where
  "breach env ast state n e =
     (access_edge e \<and> er_state e = state \<and> crosses_boundary env ast (er_from e) (er_to e) \<and> to_id e = n)"

lemma live_states: "live_edge e \<longleftrightarrow> er_state e = ''observed'' \<or> er_state e = ''inferred''"
  by (auto simp: live_edge_def)

lemma mark_edge_at:
  "mark_edge env ast e (st, src) =
     (if \<not> access_edge e \<or> \<not> live_edge e \<or> \<not> crosses_boundary env ast (er_from e) (er_to e) then (st, src)
      else if map_of st (to_id e) = Some CompromisedObserved then (st, src)
      else (AList.update (to_id e) (if er_state e = ''observed'' then CompromisedObserved else CompromisedInferred) st,
            AList.update (to_id e) (from_id e) src))"
  by (simp add: mark_edge_def)

lemma marked_state:
  "map_of (fst (mark_edge env ast e (st, src))) n =
     (if breach env ast ''observed'' n e then Some CompromisedObserved
      else if breach env ast ''inferred'' n e \<and> map_of st n \<noteq> Some CompromisedObserved then Some CompromisedInferred else map_of st n)"
  by (cases "to_id e = n") (auto simp: mark_edge_at breach_def live_states update_conv')

lemma marked_source:
  "map_of (snd (mark_edge env ast e (st, src))) n =
     (if (breach env ast ''observed'' n e \<or> breach env ast ''inferred'' n e) \<and> map_of st n \<noteq> Some CompromisedObserved
      then Some (from_id e) else map_of src n)"
  by (cases "to_id e = n") (auto simp: mark_edge_at breach_def live_states update_conv')

lemma marked_snoc: "fold (mark_edge env ast) (es @ [e]) p = mark_edge env ast e (fst (fold (mark_edge env ast) es p), snd (fold (mark_edge env ast) es p))"
  by simp

lemma marked_states:
  "map_of (fst (fold (mark_edge env ast) es ([], []))) n =
     (if list_ex (breach env ast ''observed'' n) es then Some CompromisedObserved
      else if list_ex (breach env ast ''inferred'' n) es then Some CompromisedInferred else None)"
  by (induction es rule: rev_induct) (simp, simp only: marked_snoc marked_state list_ex_append, simp)

lemma marked_sources:
  "map_of (snd (fold (mark_edge env ast) es ([], []))) n = Some a
     \<Longrightarrow> list_ex (\<lambda>e. from_id e = a \<and> (breach env ast ''observed'' n e \<or> breach env ast ''inferred'' n e)) es"
  by (induction es rule: rev_induct) (simp, simp only: marked_snoc marked_source list_ex_append, auto split: if_splits)

lemma marked_domain:
  "map_of (snd (fold (mark_edge env ast) es ([], []))) n = None \<longleftrightarrow> map_of (fst (fold (mark_edge env ast) es ([], []))) n = None"
  by (induction es rule: rev_induct) (simp, simp only: marked_snoc marked_source marked_state, auto split: if_splits)

text \<open>The nodes a spread reaches in a number of hops, along the live edges.\<close>

definition live_hop :: "edge_row list \<Rightarrow> string \<Rightarrow> string \<Rightarrow> bool" where
  "live_hop es a b = list_ex (\<lambda>e. live_edge e \<and> from_id e = a \<and> to_id e = b) es"

lemma next_nodes_iff: "b \<in> set (next_nodes env es a) \<longleftrightarrow> live_hop es a b"
  by (auto simp: next_nodes_def live_hop_def list_ex_iff)

fun spread_to :: "edge_row list \<Rightarrow> string set \<Rightarrow> nat \<Rightarrow> string set" where
  "spread_to es S 0 = S"
| "spread_to es S (Suc k) = spread_to es S k \<union> {b. \<exists>a \<in> spread_to es S k. live_hop es a b}"

lemma spread_mono: "spread_to es S k \<subseteq> spread_to es S (k + j)"
  by (induction j) auto

lemma spread_stops: "spread_to es S (Suc k) = spread_to es S k \<Longrightarrow> spread_to es S (k + j) = spread_to es S k"
proof (induction j)
  case (Suc j)
  then have "spread_to es S (k + Suc j) = spread_to es S (Suc k)" by simp
  then show ?case using Suc.prems by (simp only:)
qed simp

lemma within_step: "Walks.within link k a b \<or> (\<exists>c. Walks.within link k a c \<and> link c b) \<longleftrightarrow> Walks.within link (Suc k) a b"
proof
  assume "Walks.within link k a b \<or> (\<exists>c. Walks.within link k a c \<and> link c b)"
  then show "Walks.within link (Suc k) a b"
    unfolding Walks.within_def by (metis Suc_le_mono le_SucI relpowp_Suc_I)
next
  assume "Walks.within link (Suc k) a b"
  then obtain j where j: "j \<le> Suc k" "(link ^^ j) a b" unfolding Walks.within_def by blast
  show "Walks.within link k a b \<or> (\<exists>c. Walks.within link k a c \<and> link c b)"
  proof (cases "j \<le> k")
    case False
    then have "(link ^^ Suc k) a b" using j le_Suc_eq by auto
    then show ?thesis unfolding Walks.within_def by (auto elim!: relpowp_Suc_E)
  qed (use j in \<open>auto simp: Walks.within_def\<close>)
qed

lemma spread_within: "b \<in> spread_to es S k \<longleftrightarrow> (\<exists>a \<in> S. Walks.within (live_hop es) k a b)"
proof (induction k arbitrary: b)
  case (Suc k)
  have "b \<in> spread_to es S (Suc k) \<longleftrightarrow>
      (\<exists>a \<in> S. Walks.within (live_hop es) k a b \<or> (\<exists>c. Walks.within (live_hop es) k a c \<and> live_hop es c b))"
    unfolding spread_to.simps Un_iff mem_Collect_eq Bex_def Suc by blast
  then show ?case by (simp only: within_step)
qed simp

text \<open>The queue holds the nodes at one depth and then those one deeper.\<close>

definition spreading :: "edge_row list \<Rightarrow> string set \<Rightarrow> nat \<Rightarrow> string list \<Rightarrow> string list \<Rightarrow> string list \<Rightarrow> (string \<Rightarrow> nat) \<Rightarrow> bool" where
  "spreading es S d now later known depth =
     (set known = spread_to es S d \<union> set later \<and> (\<forall>n \<in> set now. depth n = d) \<and> (\<forall>n \<in> set later. depth n = Suc d)
      \<and> set now \<subseteq> spread_to es S d \<and> set later \<subseteq> spread_to es S (Suc d)
      \<and> spread_to es S (Suc d) \<subseteq> set known \<union> {b. \<exists>a \<in> set now. live_hop es a b})"

lemma spreading_shift:
  assumes "spreading es S d [] later known depth"
  shows "spreading es S (Suc d) later [] known depth"
proof -
  have k: "set known = spread_to es S (Suc d)" "set later \<subseteq> spread_to es S (Suc d)" "\<forall>n \<in> set later. depth n = Suc d"
    using assms by (auto simp: spreading_def)
  have "b \<in> set known" if "a \<in> spread_to es S d" and "live_hop es a b" for a b
    using that by (auto simp: k(1))
  moreover have "a \<in> spread_to es S d \<or> a \<in> set later" if "a \<in> spread_to es S (Suc d)" for a
    using that assms unfolding k(1) [symmetric] by (auto simp: spreading_def)
  ultimately have "spread_to es S (Suc (Suc d)) \<subseteq> set known \<union> {b. \<exists>a \<in> set later. live_hop es a b}"
    unfolding spread_to.simps(2) [of es S "Suc d"] k(1) by blast
  then show ?thesis using k by (simp only: spreading_def set_empty empty_set) simp
qed

lemma spreading_done: "spreading es S d [] [] known depth \<Longrightarrow> set known = spread_to es S (d + j)"
  using spread_stops [of es S d j] by (auto simp: spreading_def)

lemma spreading_step:
  assumes "spreading es S d (c # now) later known depth"
    and fresh: "fresh = filter (\<lambda>n. n \<notin> set known) (next_nodes env es c)"
  shows "spreading es S d now (later @ fresh) (known @ fresh) (\<lambda>n. if n \<in> set fresh then depth c + 1 else depth n)"
proof -
  have c: "c \<in> spread_to es S d" "depth c = d" using assms(1) by (auto simp: spreading_def)
  have f: "n \<in> set fresh \<longleftrightarrow> live_hop es c n \<and> n \<notin> set known" for n by (auto simp: fresh next_nodes_iff)
  have "set now \<subseteq> set known" "set later \<subseteq> set known" using assms(1) by (auto simp: spreading_def)
  then show ?thesis using assms(1) c f by (auto simp: spreading_def)
qed

lemma spread_risk_stops: "\<forall>n \<in> set queue. 4 \<le> depth n \<Longrightarrow> spread_risk env es queue known depth st = (known, st)"
  by (induction queue) auto

lemma spreading_front:
  assumes "spreading es S d now later known depth" and "c # queue = now @ later" and "d \<le> 4" and "d = 4 \<Longrightarrow> later = []"
  shows "\<exists>d' now' later'. spreading es S d' (c # now') later' known depth \<and> queue = now' @ later' \<and> d' \<le> 4 \<and> (d' = 4 \<longrightarrow> later' = [])"
proof (cases now)
  case Nil
  then have l: "later = c # queue" using assms(2) by simp
  have "d \<noteq> 4" using assms(4) l by auto
  then have "Suc d \<le> 4" using assms(3) by simp
  moreover have "spreading es S (Suc d) (c # queue) [] known depth" using spreading_shift [of es S d later known depth] assms(1) Nil l by simp
  ultimately show ?thesis by (intro exI [of _ "Suc d"] exI [of _ queue] exI [of _ "[]"]) simp
next
  case (Cons x xs)
  then show ?thesis using assms by (intro exI [of _ d] exI [of _ xs] exI [of _ later]) auto
qed

lemma spread_risk_reaches:
  assumes "spreading es S d now later known depth" and "queue = now @ later" and "d \<le> 4" and "d = 4 \<Longrightarrow> later = []"
  shows "set (fst (spread_risk env es queue known depth st)) = spread_to es S 4"
  using assms
proof (induction env es queue known depth st arbitrary: d now later rule: spread_risk.induct)
  case (1 env es known depth st)
  then show ?case using spreading_done [of es S d known depth "4 - d"] by simp
next
  case (2 env es c queue known depth st)
  obtain d now later where s: "spreading es S d (c # now) later known depth" and q: "queue = now @ later"
    and d: "d \<le> 4" "d = 4 \<longrightarrow> later = []"
    using spreading_front [OF 2(3,4,5,6)] by blast
  have c: "depth c = d" using s by (simp add: spreading_def)
  show ?case
  proof (cases "d = 4")
    case True
    then have "spread_risk env es (c # queue) known depth st = (known, st)"
      using s q d(2) by (intro spread_risk_stops) (simp add: spreading_def)
    then show ?thesis using s True d(2) by (simp add: spreading_def)
  next
    case False
    let ?fresh = "filter (\<lambda>n. n \<notin> set known) (next_nodes env es c)"
    have n: "\<not> 4 \<le> depth c" using False c d(1) by simp
    have "set (fst (spread_risk env es (queue @ ?fresh) (known @ ?fresh) (\<lambda>n. if n \<in> set ?fresh then depth c + 1 else depth n)
        (risk_fresh ?fresh st))) = spread_to es S 4"
      by (rule 2(2) [OF n refl spreading_step [OF s refl, of env]]) (use q d(1) False in simp_all)
    then show ?thesis using n by (simp add: Let_def)
  qed
qed

lemma risk_fresh_simps [simp]:
  "risk_fresh [] st = st"
  "risk_fresh (n # ns) st =
     risk_fresh ns (if \<exists>s. map_of st n = Some s \<and> is_compromised s then st else AList.update n AtRiskPotential st)"
  by (auto simp: risk_fresh_def split: option.split)

definition fallen :: "(string \<times> node_state) list \<Rightarrow> string \<Rightarrow> bool" where
  "fallen st n = (case map_of st n of None \<Rightarrow> False | Some s \<Rightarrow> is_compromised s)"

lemma fallen_iff: "(\<exists>s. map_of st n = Some s \<and> is_compromised s) \<longleftrightarrow> fallen st n"
  by (simp add: fallen_def split: option.split)

lemma not_fallen_at_risk [simp]: "\<not> is_compromised AtRiskPotential"
  by (simp add: is_compromised_def)

lemma fallen_update: "fallen (AList.update m AtRiskPotential st) n \<longleftrightarrow> n \<noteq> m \<and> fallen st n"
  by (simp add: fallen_def update_conv')

lemma risk_fresh_state:
  "map_of (risk_fresh ns st) n = (if n \<in> set ns \<and> \<not> fallen st n then Some AtRiskPotential else map_of st n)"
  by (induction ns arbitrary: st) (auto simp: fallen_iff fallen_update update_conv')

lemma fallen_after: "fallen (risk_fresh ns st) n \<longleftrightarrow> fallen st n"
  by (simp add: fallen_def [of "risk_fresh ns st"] risk_fresh_state) (simp add: fallen_def)

lemma spread_risk_keeps: "set known \<subseteq> set (fst (spread_risk env es queue known depth st))"
  by (induction env es queue known depth st rule: spread_risk.induct) (auto simp: Let_def)

lemma spread_risk_state:
  "map_of (snd (spread_risk env es queue known depth st)) n =
     (if n \<in> set (fst (spread_risk env es queue known depth st)) \<and> n \<notin> set known \<and> \<not> fallen st n
      then Some AtRiskPotential else map_of st n)"
proof (induction env es queue known depth st rule: spread_risk.induct)
  case (2 env es c queue known depth st)
  show ?case
  proof (cases "4 \<le> depth c")
    case False
    let ?fresh = "filter (\<lambda>n. n \<notin> set known) (next_nodes env es c)"
    have k: "set (known @ ?fresh) \<subseteq> set (fst (spread_risk env es (c # queue) known depth st))"
      using spread_risk_keeps [of "known @ ?fresh" env es "queue @ ?fresh"] False by (simp add: Let_def)
    have "map_of (snd (spread_risk env es (c # queue) known depth st)) n =
       (if n \<in> set (fst (spread_risk env es (c # queue) known depth st)) \<and> n \<notin> set (known @ ?fresh) \<and> \<not> fallen st n
        then Some AtRiskPotential else map_of (risk_fresh ?fresh st) n)"
      using 2(2) [OF False refl] False by (simp add: Let_def fallen_after)
    then show ?thesis using k by (auto simp: risk_fresh_state)
  qed (use 2(1) in simp)
qed auto

text \<open>Every node the spread has seen has a state already.\<close>

lemma mark_rest_state:
  "map_of (mark_rest ns st) n = (if n \<in> set ns \<and> map_of st n = None then Some NotAffected else map_of st n)"
proof (induction ns arbitrary: st)
  case (Cons m ns)
  then show ?case by (simp add: mark_rest_def update_conv' split: option.split)
qed (simp add: mark_rest_def)

definition fallen_nodes :: "ag_env \<Rightarrow> asset_state \<Rightarrow> edge_row list \<Rightarrow> string set" where
  "fallen_nodes env ast es = {n. list_ex (\<lambda>e. breach env ast ''observed'' n e \<or> breach env ast ''inferred'' n e) es}"

definition assessed :: "ag_env \<Rightarrow> asset_state \<Rightarrow> edge_row list \<Rightarrow> string \<Rightarrow> node_state option" where
  "assessed env ast es n =
     (if list_ex (breach env ast ''observed'' n) es then Some CompromisedObserved
      else if list_ex (breach env ast ''inferred'' n) es then Some CompromisedInferred
      else if \<exists>a \<in> fallen_nodes env ast es. Walks.within (live_hop es) 4 a n then Some AtRiskPotential else None)"

lemma marked_distinct: "distinct (map fst (fst (fold (mark_edge env ast) es ([], []))))"
proof (induction es rule: rev_induct)
  case (snoc e es)
  then show ?case unfolding marked_snoc mark_edge_at by (simp add: distinct_update)
qed simp

lemma fallen_marked: "fallen (fst (fold (mark_edge env ast) es ([], []))) n \<longleftrightarrow> n \<in> fallen_nodes env ast es"
  unfolding fallen_def marked_states fallen_nodes_def by (auto simp: is_compromised_def list_ex_iff)

lemma compromised_start:
  "set (compromised_nodes env (fst (fold (mark_edge env ast) es ([], [])))) = fallen_nodes env ast es"
proof -
  have "n \<in> set (compromised_nodes env st) \<longleftrightarrow> fallen st n" if d: "distinct (map fst st)" for n st
  proof -
    have "n \<in> set (compromised_nodes env st) \<longleftrightarrow> (\<exists>s. (n, s) \<in> set st \<and> is_compromised s)"
      by (force simp: compromised_nodes_def)
    also have "\<dots> \<longleftrightarrow> fallen st n" using d by (simp add: fallen_iff [symmetric])
    finally show ?thesis .
  qed
  then have "n \<in> set (compromised_nodes env (fst (fold (mark_edge env ast) es ([], []))))
      \<longleftrightarrow> fallen (fst (fold (mark_edge env ast) es ([], []))) n" for n
    using marked_distinct by blast
  then show ?thesis unfolding fallen_marked by blast
qed

lemma spread_from_start:
  assumes "set start = S"
  shows "set (fst (spread_risk env es start start (\<lambda>n. 0) st)) = {n. \<exists>a \<in> S. Walks.within (live_hop es) 4 a n}"
proof -
  have "spreading es S 0 start [] start (\<lambda>n. 0)" using assms by (auto simp: spreading_def)
  then have "set (fst (spread_risk env es start start (\<lambda>n. 0) st)) = spread_to es S 4"
    using spread_risk_reaches [where d = 0 and now = start and later = "[]" and queue = start] by simp
  also have "\<dots> = {n. \<exists>a \<in> S. Walks.within (live_hop es) 4 a n}" by (rule set_eqI) (simp only: spread_within mem_Collect_eq)
  finally show ?thesis .
qed

lemma assessment_exact:
  "map_of (fst (evaluate_compromise env ast es)) n = assessed env ast es n"
proof -
  let ?p = "fold (mark_edge env ast) es ([], [])"
  let ?start = "compromised_nodes env (fst ?p)"
  let ?r = "spread_risk env es ?start ?start (\<lambda>n. 0) (fst ?p)"
  have start: "set ?start = fallen_nodes env ast es" by (rule compromised_start)
  note reached = spread_from_start [OF start, where st = "fst ?p" and env = env and es = es]
  have st: "map_of (snd ?r) m = assessed env ast es m" for m
    unfolding spread_risk_state start reached fallen_marked marked_states assessed_def
    by (auto simp: fallen_nodes_def list_ex_iff)
  have "evaluate_compromise env ast es = (mark_rest (fst ?r) (snd ?r), snd ?p)"
    by (simp add: evaluate_compromise_def Let_def split_beta)
  moreover have "map_of (snd ?r) m \<noteq> None" if "m \<in> set (fst ?r)" for m
    using that unfolding st reached assessed_def by auto
  ultimately show ?thesis by (auto simp: mark_rest_state st)
qed

text \<open>
  C10. The compromise assessment is exact. A node is compromised (observed) when an observed access edge enters it across
  a trust boundary, else compromised (inferred) when an inferred one does, else at risk when it is within four hops
  of a compromised node over live edges, and has no state otherwise. Live edges are the observed and the inferred
  ones, as the comments of the code say; \<^verbatim>\<open>docs/attack-graph.md\<close>, section 1.1, lets the risk spread over observed and
  potential edges instead, which the code does not do.
\<close>

theorem compromise_is_exact:
  "map_of (fst (evaluate_compromise env ast es)) n = assessed env ast es n"
  by (rule assessment_exact)

text \<open>Where the code and the document part: edges that are not live, potential ones among them, never count.\<close>

lemma live_hop_filter: "live_hop (filter live_edge es) = live_hop es"
  by (intro ext) (auto simp: live_hop_def list_ex_iff)

theorem potential_edges_never_count:
  "map_of (fst (evaluate_compromise env ast (filter live_edge es))) n = map_of (fst (evaluate_compromise env ast es)) n"
proof -
  have "list_ex (breach env ast s m) (filter live_edge es) = list_ex (breach env ast s m) es"
    if "s = ''observed'' \<or> s = ''inferred''" for s m
    using that by (auto simp: list_ex_iff breach_def live_edge_def)
  moreover have "fallen_nodes env ast (filter live_edge es) = fallen_nodes env ast es"
    by (auto simp: fallen_nodes_def list_ex_iff breach_def live_edge_def)
  ultimately show ?thesis by (simp add: assessment_exact assessed_def live_hop_filter)
qed

section \<open>Observed paths\<close>

lemma evaluated_sources: "snd (evaluate_compromise env ast es) = snd (fold (mark_edge env ast) es ([], []))"
  by (simp add: evaluate_compromise_def Let_def split_beta)

lemma new_path_simps [simp]:
  "ap_id (new_path env kind src dst desc risk) = ''ap-'' @ fnv_hash (kind @ zero_sep @ src @ zero_sep @ dst)"
  "ap_source (new_path env kind src dst desc risk) = src" "ap_target (new_path env kind src dst desc risk) = dst"
  "ap_status (new_path env kind src dst desc risk) = kind"
  by (simp_all add: new_path_def)

lemma observed_write_path [simp]:
  "ap_source (fst (observed_write env ast g src dst e)) = src" "ap_target (fst (observed_write env ast g src dst e)) = dst"
  "ap_status (fst (observed_write env ast g src dst e)) = ''observed''"
  "snd (observed_write env ast g src dst e) = observed_steps env g src dst e"
  by (simp_all add: observed_write_def Let_def)

text \<open>C22. A node that is compromised by inferred edges only is given a path with status observed, from the origin of an
  inferred edge, as soon as some observed access edge enters it, be it from inside its boundary: the map of
  sources does not say in which state the compromise was.\<close>

theorem inferred_shown_as_observed:
  assumes "map_of (fst (evaluate_compromise env ast es)) n = Some CompromisedInferred" and "observed_into es n \<noteq> None"
  shows "list_ex (\<lambda>w. ap_status (fst w) = ''observed'' \<and> ap_target (fst w) = n
             \<and> list_ex (\<lambda>e. from_id e = ap_source (fst w) \<and> breach env ast ''inferred'' n e) es
             \<and> \<not> list_ex (breach env ast ''observed'' n) es)
           (observed_writes env ast g es (snd (evaluate_compromise env ast es)))"
proof -
  have i: "\<not> list_ex (breach env ast ''observed'' n) es" "list_ex (breach env ast ''inferred'' n) es"
    using assms(1) unfolding assessment_exact assessed_def by (auto split: if_splits)
  let ?src = "snd (evaluate_compromise env ast es)"
  have "map_of ?src n \<noteq> None" unfolding evaluated_sources marked_domain marked_states using i by simp
  then obtain a where a: "map_of ?src n = Some a" by blast
  have "list_ex (\<lambda>e. from_id e = a \<and> (breach env ast ''observed'' n e \<or> breach env ast ''inferred'' n e)) es"
    using a unfolding evaluated_sources by (rule marked_sources)
  then have b: "list_ex (\<lambda>e. from_id e = a \<and> breach env ast ''inferred'' n e) es"
    using i(1) by (auto simp: list_ex_iff)
  obtain e where e: "observed_into es n = Some e" using assms(2) by blast
  have "observed_write env ast g a n e \<in> set (observed_writes env ast g es ?src)"
    unfolding observed_writes_def using map_of_SomeD [OF a] e by force
  then show ?thesis using b i(1) unfolding list_ex_iff [of _ "observed_writes env ast g es ?src"]
    by (intro bexI [of _ "observed_write env ast g a n e"]) simp_all
qed

section \<open>Potential paths\<close>

definition step_of_edge :: "edge_row list \<Rightarrow> path_step \<Rightarrow> bool" where
  "step_of_edge es s =
     list_ex (\<lambda>e. live_edge e \<and> from_id e = sp_from s \<and> to_id e = sp_to s \<and> er_relation e = sp_relation s
               \<and> er_state e = sp_state s \<and> er_evidence e = sp_evidence s) es"

fun hop_chain :: "edge_row list \<Rightarrow> string \<Rightarrow> path_step list \<Rightarrow> string \<Rightarrow> bool" where
  "hop_chain es a [] b = (a = b)"
| "hop_chain es a (s # ss) b = (sp_from s = a \<and> step_of_edge es s \<and> hop_chain es (sp_to s) ss b)"

lemma hop_chain_snoc: "hop_chain es a (ss @ [s]) b \<longleftrightarrow> hop_chain es a ss (sp_from s) \<and> step_of_edge es s \<and> sp_to s = b"
  by (induction ss arbitrary: a) auto

definition good_hit :: "edge_row list \<Rightarrow> string list \<Rightarrow> string list \<Rightarrow> string \<times> path_step list \<Rightarrow> bool" where
  "good_hit es targets starts = (\<lambda>(n, ss).
     n \<in> set targets \<and> ss \<noteq> [] \<and> length ss \<le> 4 \<and> (\<exists>c \<in> set starts. hop_chain es c ss n))"

definition good_candidate :: "edge_row list \<Rightarrow> string list \<Rightarrow> nat \<Rightarrow> candidate \<Rightarrow> bool" where
  "good_candidate es starts k = (\<lambda>(ss, n). length ss = k \<and> (\<exists>c \<in> set starts. hop_chain es c ss n))"

lemma edge_between_in: "edge_between es a b = Some e \<Longrightarrow> e \<in> set es \<and> live_edge e \<and> from_id e = a \<and> to_id e = b"
  by (auto simp: edge_between_def find_Some_iff)

lemma edge_step: "edge_between es a b = Some e \<Longrightarrow> step_of_edge es (new_step a b (er_relation e) (er_state e) (er_evidence e))"
  unfolding step_of_edge_def list_ex_iff by (rule bexI [of _ e]) (simp_all add: new_step_def edge_between_in)

lemma new_step_ends [simp]: "sp_from (new_step a b rel state ev) = a" "sp_to (new_step a b rel state ev) = b"
  by (simp_all add: new_step_def)

lemma extended_chain:
  "edge_between es c n = Some e \<Longrightarrow> hop_chain es a ss c \<Longrightarrow> hop_chain es a (ss @ [new_step c n (er_relation e) (er_state e) (er_evidence e)]) n"
  by (simp add: hop_chain_snoc edge_step)

lemma all_assoc_update: "list_all P xs \<Longrightarrow> P (k, v) \<Longrightarrow> list_all P (AList.update k v xs)"
  by (induction xs) auto

lemma keep_found_good: "list_all P hits \<Longrightarrow> P (n, ss @ [s]) \<Longrightarrow> list_all P (keep_found n ss s hits)"
  unfolding keep_found_def by (simp add: all_assoc_update split: option.split)

lemma hunt_edges_good:
  assumes "good_candidate es starts k c" and "k < 4"
    and "list_all (good_hit es targets starts) hits" and "list_all (good_candidate es starts (Suc k)) nxt"
    and "hunt_edges es targets c ns (visited, hits, nxt) = (visited', hits', nxt')"
  shows "list_all (good_hit es targets starts) hits' \<and> list_all (good_candidate es starts (Suc k)) nxt'"
  using assms
proof (induction es targets c ns "(visited, hits, nxt)" arbitrary: visited hits nxt rule: hunt_edges.induct)
  case (2 es targets steps c n ns visited hits nxt)
  show ?case
  proof (cases "edge_between es c n")
    case None
    then show ?thesis using 2 by simp
  next
    case (Some e)
    let ?s = "new_step c n (er_relation e) (er_state e) (er_evidence e)"
    obtain a where a: "a \<in> set starts" "hop_chain es a (steps @ [?s]) n" and k: "length steps = k"
      using 2(5) extended_chain [OF Some] by (auto simp: good_candidate_def)
    have g: "good_candidate es starts (Suc k) (steps @ [?s], n)" using a k by (auto simp: good_candidate_def)
    have h: "n \<in> set targets \<Longrightarrow> good_hit es targets starts (n, steps @ [?s])" using a k 2(6) by (auto simp: good_hit_def)
    show ?thesis using 2 Some g h by (auto simp: Let_def keep_found_good split: if_splits)
  qed
qed simp

lemma hunt_frontier_good:
  assumes "list_all (good_candidate es starts k) cs" and "k < 4"
    and "list_all (good_hit es targets starts) hits" and "list_all (good_candidate es starts (Suc k)) nxt"
    and "hunt_frontier env es targets cs (visited, hits, nxt) = (visited', hits', nxt')"
  shows "list_all (good_hit es targets starts) hits' \<and> list_all (good_candidate es starts (Suc k)) nxt'"
  using assms
proof (induction cs arbitrary: visited hits nxt)
  case (Cons c cs)
  obtain v h n where e: "hunt_edges es targets c (next_nodes env es (snd c)) (visited, hits, nxt) = (v, h, n)"
    by (metis prod_cases3)
  have "list_all (good_hit es targets starts) h \<and> list_all (good_candidate es starts (Suc k)) n"
    using Cons.prems by (intro hunt_edges_good [OF _ _ _ _ e]) simp_all
  then show ?case using Cons.prems e by (intro Cons.IH [of h n v]) simp_all
qed simp

lemma hunt_levels_good:
  assumes "list_all (good_candidate es starts d) front" and "d + k = 4" and "list_all (good_hit es targets starts) hits"
  shows "list_all (good_hit es targets starts) (hunt_levels env es targets k (visited, hits, front))"
  using assms
proof (induction k arbitrary: d visited hits front)
  case (Suc k)
  obtain v h n where f: "hunt_frontier env es targets front (visited, hits, []) = (v, h, n)" by (metis prod_cases3)
  have "list_all (good_hit es targets starts) h \<and> list_all (good_candidate es starts (Suc d)) n"
    using Suc.prems by (intro hunt_frontier_good [OF _ _ _ _ f]) simp_all
  then show ?case using Suc.IH [of "Suc d" n h v] Suc.prems f by simp
qed simp

lemma hunt_all_good:
  assumes "set starts \<subseteq> set ss" and "list_all (good_hit es targets ss) hits"
  shows "list_all (good_hit es targets ss) (fold (\<lambda>c found. hunt_levels env es targets 4 ([c], found, [([], c)])) starts hits)"
  using assms
proof (induction starts arbitrary: hits)
  case (Cons c cs)
  have "list_all (good_hit es targets ss) (hunt_levels env es targets 4 ([c], hits, [([], c)]))"
    using Cons.prems by (intro hunt_levels_good [where d = 0]) (auto simp: good_candidate_def)
  then show ?case using Cons by simp
qed simp

lemma potential_write_path [simp]:
  "ap_source (fst (potential_write env (k, ss))) = sp_from (hd ss)" "ap_target (fst (potential_write env (k, ss))) = k"
  "ap_status (fst (potential_write env (k, ss))) = ''potential''" "snd (potential_write env h) = snd h"
  by (simp_all add: potential_write_def split_beta)

lemma chain_start: "hop_chain es a ss b \<Longrightarrow> ss \<noteq> [] \<Longrightarrow> sp_from (hd ss) = a"
  by (cases ss) simp_all

lemma potential_chains:
  "list_all (\<lambda>w. snd w \<noteq> [] \<and> length (snd w) \<le> 4 \<and> hop_chain es (ap_source (fst w)) (snd w) (ap_target (fst w))
       \<and> ap_target (fst w) \<in> set (critical_targets env ast) \<and> list_ex (\<lambda>(n, s). n = ap_source (fst w) \<and> is_compromised s) st
       \<and> ap_status (fst w) = ''potential'')
     (potential_writes env ast es st)
   \<and> length (potential_writes env ast es st) \<le> 50"
proof -
  let ?starts = "sort (map fst (filter (\<lambda>p. is_compromised (snd p)) st))"
  let ?t = "critical_targets env ast"
  have good: "list_all (good_hit es ?t ?starts) (hunt_all env es ?t ?starts)"
    unfolding hunt_all_def by (rule hunt_all_good) simp_all
  have written: "snd w \<noteq> [] \<and> length (snd w) \<le> 4 \<and> hop_chain es (ap_source (fst w)) (snd w) (ap_target (fst w))
       \<and> ap_target (fst w) \<in> set ?t \<and> list_ex (\<lambda>(n, s). n = ap_source (fst w) \<and> is_compromised s) st \<and> ap_status (fst w) = ''potential''"
    if h: "good_hit es ?t ?starts h" and w: "w = potential_write env h" for w h
  proof -
    obtain k ss where ks: "h = (k, ss)" by (cases h)
    obtain c where c: "c \<in> set ?starts" "hop_chain es c ss k" and n: "ss \<noteq> []" "length ss \<le> 4" "k \<in> set ?t"
      using h unfolding good_hit_def ks prod.case by blast
    have "list_ex (\<lambda>(n, s). n = c \<and> is_compromised s) st" using c(1) by (auto simp: list_ex_iff)
    then show ?thesis using c(2) n chain_start [OF c(2) n(1)] by (simp add: w ks)
  qed
  have "w \<in> set (potential_writes env ast es st) \<Longrightarrow> \<exists>h. good_hit es ?t ?starts h \<and> w = potential_write env h" for w
  proof -
    assume "w \<in> set (potential_writes env ast es st)"
    then obtain h where "h \<in> set (hunt_all env es ?t ?starts)" "w = potential_write env h"
      by (auto simp: potential_writes_def dest!: in_set_takeD)
    then show ?thesis using good unfolding list_all_iff by blast
  qed
  then have "list_all (\<lambda>w. snd w \<noteq> [] \<and> length (snd w) \<le> 4 \<and> hop_chain es (ap_source (fst w)) (snd w) (ap_target (fst w))
       \<and> ap_target (fst w) \<in> set ?t \<and> list_ex (\<lambda>(n, s). n = ap_source (fst w) \<and> is_compromised s) st \<and> ap_status (fst w) = ''potential'')
     (potential_writes env ast es st)"
    unfolding list_all_iff using written by blast
  moreover have "length (potential_writes env ast es st) \<le> 50" by (simp add: potential_writes_def max_attack_paths_def)
  ultimately show ?thesis by (rule conjI)
qed

text \<open>
  C21. A potential path is a chain of one to four live edges of the graph, from a compromised node to a critical
  asset, and a recomputation writes at most fifty. The steps are observed or inferred edges; \<^verbatim>\<open>docs/attack-graph.md\<close>,
  section 2, speaks of observed and potential ones, which the search of the code never follows.
\<close>

theorem potential_paths_are_chains:
  "list_all (\<lambda>w. snd w \<noteq> [] \<and> length (snd w) \<le> 4 \<and> hop_chain es (ap_source (fst w)) (snd w) (ap_target (fst w))
       \<and> ap_target (fst w) \<in> set (critical_targets env ast) \<and> list_ex (\<lambda>(n, s). n = ap_source (fst w) \<and> is_compromised s) st
       \<and> ap_status (fst w) = ''potential'')
     (potential_writes env ast es st)
   \<and> length (potential_writes env ast es st) \<le> 50"
  by (rule potential_chains)

section \<open>The stored paths\<close>

lemma stale_steps_stay: "ag_steps (drop_potential st) = ag_steps st"
proof -
  have "\<not> list_ex (\<lambda>p. ap_status p = ''potential'' \<and> ap_id p = i) (filter (\<lambda>p. ap_status p \<noteq> ''potential'') rows)"
    for i and rows :: "attack_path list"
    by (auto simp: list_ex_iff)
  note none = this
  show ?thesis by (simp add: drop_potential_def Let_def delete_rows_def none)
qed

lemma kept_paths: "ag_paths (drop_potential st) = filter (\<lambda>p. ap_status p \<noteq> ''potential'') (ag_paths st)"
  by (simp add: drop_potential_def Let_def delete_rows_def)

definition steps_of :: "string \<Rightarrow> ag_state \<Rightarrow> path_step list" where
  "steps_of i st = filter (\<lambda>s. sp_path s = i) (ag_steps st)"

definition whole :: "ag_state \<Rightarrow> string \<Rightarrow> bool" where
  "whole st i = (steps_of i st \<noteq> [] \<and> map sp_pos (steps_of i st) = [0..<length (steps_of i st)])"

definition ag_inv :: "ag_state \<Rightarrow> bool" where
  "ag_inv st =
     (unique_by ap_id (ag_paths st) \<and> unique_by (\<lambda>s. (sp_path s, sp_pos s)) (ag_steps st) \<and> list_all (\<lambda>p. whole st (ap_id p)) (ag_paths st))"

lemma numbered: "map sp_pos (number_steps i ss) = [0..<length ss]"
proof -
  have "map sp_pos (number_steps i ss) = map fst (enumerate 0 ss)" unfolding number_steps_def map_map by (rule map_cong) auto
  then show ?thesis by simp
qed

lemma numbered_length [simp]: "length (number_steps i ss) = length ss"
  by (simp add: number_steps_def)

lemma numbered_path: "s \<in> set (number_steps i ss) \<Longrightarrow> sp_path s = i"
  by (auto simp: number_steps_def)

lemma write_path_rows:
  "ag_paths (write_path w st) = upsert_row ap_id refresh_path (fst w) (ag_paths st)"
  "ag_steps (write_path w st) = filter (\<lambda>s. sp_path s \<noteq> ap_id (fst w)) (ag_steps st) @ number_steps (ap_id (fst w)) (snd w)"
  by (simp_all add: write_path_def split_beta delete_rows_def)

lemma steps_written:
  "steps_of i (write_path w st) = (if i = ap_id (fst w) then number_steps i (snd w) else steps_of i st)"
proof (cases "i = ap_id (fst w)")
  case True
  have "filter (\<lambda>s. sp_path s = i) (number_steps i (snd w)) = number_steps i (snd w)"
    by (rule filter_True) (auto dest: numbered_path)
  then show ?thesis using True by (simp add: steps_of_def write_path_rows)
next
  case False
  have "filter (\<lambda>s. sp_path s = i) (number_steps (ap_id (fst w)) (snd w)) = []"
    using False by (auto simp: filter_empty_conv dest: numbered_path)
  then show ?thesis using False by (auto simp: steps_of_def write_path_rows intro: filter_cong)
qed

lemma write_path_inv:
  assumes "ag_inv st" and "snd w \<noteq> []"
  shows "ag_inv (write_path w st)"
proof -
  let ?i = "ap_id (fst w)" and ?k = "\<lambda>s. (sp_path s, sp_pos s)"
  have inv: "unique_by ap_id (ag_paths st)" "distinct (map ?k (ag_steps st))" "list_all (\<lambda>p. whole st (ap_id p)) (ag_paths st)"
    using assms(1) by (auto simp: ag_inv_def unique_by_def)
  have "distinct (map ?k (number_steps ?i (snd w)))"
    using arg_cong [where f = distinct, OF numbered [of ?i "snd w"]] by (auto simp: distinct_map inj_on_def)
  then have "unique_by ?k (ag_steps (write_path w st))"
    using inv(2) numbered_path [of _ ?i "snd w"] by (auto simp: unique_by_def write_path_rows distinct_map_filter)
  moreover have "whole (write_path w st) (ap_id p)" if "p \<in> set (ag_paths (write_path w st))" for p
  proof (cases "ap_id p = ?i")
    case True
    then show ?thesis using assms(2) numbered [of ?i "snd w"] by (simp add: whole_def steps_written) (metis length_0_conv numbered_length)
  next
    case False
    have "taken ap_id (ap_id p) (ag_paths (write_path w st))" using that by (auto simp: taken_keys)
    then have "taken ap_id (ap_id p) (ag_paths st)" using False by (simp add: write_path_rows path_table.taken_upsert)
    then have "whole st (ap_id p)" using inv(3) by (auto simp: taken_keys list_all_iff)
    then show ?thesis using False by (simp add: whole_def steps_written)
  qed
  ultimately show ?thesis
    using path_table.unique_upsert [OF inv(1), of "fst w"] by (simp add: ag_inv_def list_all_iff write_path_rows(1))
qed

lemma drop_potential_inv: "ag_inv st \<Longrightarrow> ag_inv (drop_potential st)"
  by (auto simp: ag_inv_def whole_def steps_of_def stale_steps_stay kept_paths list_all_iff unique_by_def distinct_map_filter)

lemma write_paths_inv: "ag_inv st \<Longrightarrow> \<forall>w \<in> set ws. snd w \<noteq> [] \<Longrightarrow> ag_inv (fold write_path ws st)"
  by (induction ws arbitrary: st) (simp_all add: write_path_inv)

lemma observed_steps_some: "observed_steps env g src dst e \<noteq> []"
  by (auto simp: observed_steps_def path_from_graph_def Let_def split: list.split option.split if_splits)

lemma observed_writes_some: "\<forall>w \<in> set (observed_writes env ast g es src). snd w \<noteq> []"
proof
  fix w
  assume "w \<in> set (observed_writes env ast g es src)"
  then obtain dst s e where "w = observed_write env ast g s dst e"
    by (auto simp: observed_writes_def split: option.splits)
  then show "snd w \<noteq> []" by (simp add: observed_steps_some)
qed

lemma potential_writes_some: "\<forall>w \<in> set (potential_writes env ast es st). snd w \<noteq> []"
  using conjunct1 [OF potential_chains, of es env ast st] by (auto simp: list_all_iff)

lemma recompute_inv: "ag_inv st \<Longrightarrow> ag_inv (snd (recompute env ast g st))"
  unfolding recompute_def
  by (simp add: Let_def split_beta write_paths_inv drop_potential_inv observed_writes_some potential_writes_some)

definition no_paths :: ag_state where "no_paths = \<lparr>ag_paths = [], ag_steps = []\<rparr>"

text \<open>After any sequence of recomputations the identifiers of the paths are unique, and the steps read back for a
  listed path are numbered from zero without a gap.\<close>

theorem stored_paths_are_whole:
  "ag_inv (fold (\<lambda>(env, ast, g) st. snd (recompute env ast g st)) runs no_paths)"
proof -
  have "ag_inv st \<Longrightarrow> ag_inv (fold (\<lambda>(env, ast, g) st. snd (recompute env ast g st)) runs st)" for st
    by (induction runs arbitrary: st) (simp_all add: split_beta recompute_inv)
  then show ?thesis by (simp add: ag_inv_def no_paths_def unique_by_def)
qed


section \<open>Samples\<close>

definition sample_ag_env :: ag_env where
  "sample_ag_env = \<lparr>gx_now = 0, gx_arrow = ''>'', gx_rnd = id, gx_like = (\<lambda>p s. True), gx_graph = sample_graph_env, gx_asset_rank = (\<lambda>a. 0),
     gx_software_rank = (\<lambda>x. 0), gx_row_rank = (\<lambda>r. 0), gx_node_rank = (\<lambda>a n. 0), gx_ref_rank = (\<lambda>n. 0), gx_path_rank = (\<lambda>p. 0),
     gx_run_rank = (\<lambda>r. 0), gx_expected = (\<lambda>d. None)\<rparr>"

definition sample_host :: "string \<Rightarrow> asset" where
  "sample_host h = (draft_of h ''host'' h ''linux'' 0)\<lparr>as_ref := ''host:'' @ h, as_environment := ''prod''\<rparr>"

definition two_hosts :: asset_state where
  "two_hosts = no_assets\<lparr>assets := [sample_host ''db'', sample_host ''web'']\<rparr>"

definition sample_edge :: "node_ref \<Rightarrow> node_ref \<Rightarrow> string \<Rightarrow> edge_row" where
  "sample_edge a b state = \<lparr>er_from = a, er_to = b, er_relation = ''logon'', er_state = state, er_source_id = [], er_evidence = []\<rparr>"

definition inferred_entry :: "edge_row list" where
  "inferred_entry = [sample_edge (''ip'', ''1'') (''host'', ''db'') ''inferred'', sample_edge (''host'', ''web'') (''host'', ''db'') ''observed'']"

theorem inferred_shown_as_observed_witness:
  "map_of (fst (evaluate_compromise sample_ag_env two_hosts inferred_entry)) ''host:db'' = Some CompromisedInferred
   \<and> list_ex (\<lambda>w. ap_status (fst w) = ''observed'' \<and> ap_target (fst w) = ''host:db''
             \<and> list_ex (\<lambda>e. from_id e = ap_source (fst w) \<and> breach sample_ag_env two_hosts ''inferred'' ''host:db'' e) inferred_entry
             \<and> \<not> list_ex (breach sample_ag_env two_hosts ''observed'' ''host:db'') inferred_entry)
           (observed_writes sample_ag_env two_hosts empty_graph inferred_entry (snd (evaluate_compromise sample_ag_env two_hosts inferred_entry)))"
proof -
  have a: "map_of (fst (evaluate_compromise sample_ag_env two_hosts inferred_entry)) ''host:db'' = Some CompromisedInferred" by code_simp
  have b: "observed_into inferred_entry ''host:db'' \<noteq> None" by code_simp
  show ?thesis using inferred_shown_as_observed [OF a b] a by (rule conjI [rotated])
qed

end
