(* ===== verification/Spec2Isabelle.thy ===== *)
theory Spec2Isabelle
  imports SplReading SplCommands SplSerializer SplRoundTrip SplPlanner SplExecutor AuthStore FindingStore CorrelationEngine
    GraphQueries EventStore EntityStore AssetStore RiskStore DetectionStore DetectionRuns
    IngestTokens CaseStore ResponseActions Behavioral AlertStore ThreatIntel AttackGraphs
begin

text \<open>
  A model of the core of quetzalog, a small SIEM (security event management system) written in Go.

  \<^bold>\<open>The program.\<close> Events are ingested, stored in SQLite and correlated. Analysts search them with a query
  language (SPL); detections raise findings, which analysts triage; accounts and tokens guard the API.
  The model covers these parts.

  \<^item> \<^bold>\<open>Queries\<close> (\<^verbatim>\<open>internal/spl\<close>). \<^verbatim>\<open>lexer.Tokenize\<close> cuts a text into tokens, \<^verbatim>\<open>parser.Parse\<close>
    builds a syntax tree, \<^verbatim>\<open>planner\<close> lowers the filters to SQL with bound arguments and
    \<^verbatim>\<open>executor.Run\<close> sends it to the database and runs the rest of the pipeline on the rows in
    memory, with \<^verbatim>\<open>eval.go\<close> evaluating expressions. \<^verbatim>\<open>serializer\<close> prints a tree back as text for the
    visual query builder, which exchanges trees in the wire form of \<^verbatim>\<open>ast/command.go\<close>.
  \<^item> \<^bold>\<open>Accounts\<close> (\<^verbatim>\<open>internal/auth\<close>). Users with lockout, API tokens, the audit list and the decision of
    the HTTP middleware.
  \<^item> \<^bold>\<open>Findings\<close> (\<^verbatim>\<open>internal/findings\<close>). The analyst queue, written by every detection through
    \<^verbatim>\<open>CreateOrUpdateFromDetection\<close> and by analysts.
  \<^item> \<^bold>\<open>Online detection\<close> (\<^verbatim>\<open>internal/detections/correlation.go\<close>). The sequence and correlation rules,
    evaluated on every stored event; they write findings.
  \<^item> \<^bold>\<open>Events\<close> (\<^verbatim>\<open>internal/events\<close>). The event table with its search. Every stored event is
    handed to the entity graph (\<^verbatim>\<open>internal/correlation\<close>) and to the observers.
  \<^item> \<^bold>\<open>Entities\<close> (\<^verbatim>\<open>internal/entities\<close>, \<^verbatim>\<open>internal/graph\<close>). Normalized identifiers with aliases and
    the state of edges; the neighbourhood of a node and the paths between two of them.
  \<^item> \<^bold>\<open>Assets and risk\<close> (\<^verbatim>\<open>internal/assets\<close>, \<^verbatim>\<open>internal/risk\<close>). The inventory, and the risk of an entity as the
    sum of its contributions, which events, detections and analysts record.
  \<^item> \<^bold>\<open>Scheduled detection\<close> (\<^verbatim>\<open>internal/detections\<close>). Rules and their catalog; a run searches the events,
    or runs an SPL query, and raises a finding and risk for each group that reaches the threshold.
  \<^item> \<^bold>\<open>Threats\<close> (\<^verbatim>\<open>internal/threatintel\<close>, \<^verbatim>\<open>internal/threatmodel\<close>, \<^verbatim>\<open>internal/attackgraph\<close>). Indicators of
    compromise from feeds and analysts, matched against events; a threat model derived from assets and relationships;
    the compromise state of nodes and the paths an attacker took or could take.
  \<^item> \<^bold>\<open>Alerts and response\<close> (\<^verbatim>\<open>internal/alerts\<close>, \<^verbatim>\<open>internal/response\<close>). Alerts with signed webhooks; actions that
    call out behind a guard on addresses.

  \<^bold>\<open>The theories and the code.\<close>

  \<^item> \<^theory_text>\<open>Prelude\<close>: the Go string functions on texts (lists of runes), \<^verbatim>\<open>strconv\<close>, association lists as
    Go maps in iteration order, and list lemmas. \<^theory_text>\<open>Tables\<close>: SQL tables as lists of rows with select,
    insert under a UNIQUE column, update and delete; the locale \<open>revocable\<close>.
  \<^item> \<^theory_text>\<open>SplLexer\<close>, \<^theory_text>\<open>SplReading\<close>: \<^verbatim>\<open>lexer/lexer.go\<close>, one definition for each function; \<open>tokenize\<close> is
    \<^verbatim>\<open>Tokenize\<close>. Which token each kind of text is read as.
  \<^item> \<^theory_text>\<open>SplAst\<close>: \<^verbatim>\<open>ast/ast.go\<close> and \<^verbatim>\<open>ast/command.go\<close>: trees, validation, the wire form.
  \<^item> \<^theory_text>\<open>SplParser\<close>, \<^theory_text>\<open>SplCommands\<close>: \<^verbatim>\<open>parser/parser.go\<close>; \<open>parse_expr_tokens\<close> is the boolean grammar and
    \<open>parse_spl\<close> is \<^verbatim>\<open>Parse\<close>.
  \<^item> \<^theory_text>\<open>SplSerializer\<close>, \<^theory_text>\<open>SplRoundTrip\<close>: \<^verbatim>\<open>serializer/serializer.go\<close>, and printing followed by reading.
  \<^item> \<^theory_text>\<open>SplPlanner\<close>: \<^verbatim>\<open>planner/planner.go\<close>; \<open>build_where\<close> is \<^verbatim>\<open>BuildWhere\<close>, \<open>build_aggregate\<close> is
    \<^verbatim>\<open>BuildAggregate\<close>.
  \<^item> \<^theory_text>\<open>SplEval\<close>, \<^theory_text>\<open>SplEvalMeaning\<close>: the evaluator of \<^verbatim>\<open>executor/eval.go\<close> and the meaning of the
    expressions it reads.
  \<^item> \<^theory_text>\<open>SplExecutor\<close>: \<^verbatim>\<open>executor/executor.go\<close> and the batch operations of \<^verbatim>\<open>eval.go\<close>; \<open>run_query\<close> is
    \<^verbatim>\<open>RunQuery\<close> and \<open>run_spl\<close> is \<^verbatim>\<open>Run\<close>.
  \<^item> \<^theory_text>\<open>AuthStore\<close>: \<^verbatim>\<open>auth/auth.go\<close>. The record \<open>auth_state\<close> holds the three tables; \<open>auth_step\<close> is one
    operation of the store.
  \<^item> \<^theory_text>\<open>EventModel\<close>: the part of \<^verbatim>\<open>pkg/event/event.go\<close> the detections read. \<^theory_text>\<open>FindingStore\<close>:
    \<^verbatim>\<open>findings/findings.go\<close>; \<open>finding_state\<close> holds the findings and the notes, \<open>finding_step\<close> is one
    operation.
  \<^item> \<^theory_text>\<open>CorrelationEngine\<close>: \<^verbatim>\<open>detections/correlation.go\<close>; \<open>process\<close> evaluates one event under every rule.
  \<^item> \<^theory_text>\<open>GoText\<close>: more of Go's \<^verbatim>\<open>strings\<close>. \<^theory_text>\<open>Rows\<close>: tables with upserts, the locale \<open>upsert_table\<close>. \<^theory_text>\<open>Walks\<close>:
    distances in a graph, the locale \<open>adjacency\<close>.
  \<^item> \<^theory_text>\<open>EntityGraph\<close>: \<^verbatim>\<open>correlation/graph.go\<close>; \<open>add_entity_from_event\<close> is \<^verbatim>\<open>AddEntityFromEvent\<close>. \<^theory_text>\<open>GraphQueries\<close>:
    \<^verbatim>\<open>graph/graph.go\<close>; \<open>neighbors\<close> is \<^verbatim>\<open>Neighbors\<close> and \<open>find_paths\<close> is \<^verbatim>\<open>Path\<close>.
  \<^item> \<^theory_text>\<open>EventStore\<close>: \<^verbatim>\<open>events/store.go\<close>, \<^verbatim>\<open>query.go\<close> and \<^verbatim>\<open>EventToMap\<close>. The record \<open>event_store\<close> holds the rows,
    each a list of cells in column order, the graph and what the observers keep.
  \<^item> \<^theory_text>\<open>EntityStore\<close>: the four files of \<^verbatim>\<open>entities\<close>; \<open>from_event\<close> is \<^verbatim>\<open>FromEvent\<close>.
  \<^item> \<^theory_text>\<open>AssetStore\<close>: \<^verbatim>\<open>assets\<close>, one definition for each operation. \<^theory_text>\<open>RiskStore\<close>: \<^verbatim>\<open>risk\<close>; \<open>record_risk\<close> is
    \<^verbatim>\<open>Record\<close> and \<open>score_event\<close> is \<^verbatim>\<open>ScoreEvent\<close>.
  \<^item> \<^theory_text>\<open>DetectionStore\<close>: the rule table of \<^verbatim>\<open>detections/detection.go\<close> and \<^verbatim>\<open>catalog.go\<close>. \<^theory_text>\<open>DetectionRuns\<close>: the
    threshold engine and \<^verbatim>\<open>spl_rule.go\<close>; \<open>run_with_findings\<close> is \<^verbatim>\<open>RunWithFindings\<close>.
  \<^item> \<^theory_text>\<open>IngestTokens\<close>: \<^verbatim>\<open>auth/event_tokens.go\<close>. \<^theory_text>\<open>CaseStore\<close>: \<^verbatim>\<open>incidents\<close> and \<^verbatim>\<open>investigations\<close>.
    \<^theory_text>\<open>NetAddr\<close>: \<^verbatim>\<open>net.ParseIP\<close> and the classes of addresses. \<^theory_text>\<open>ResponseActions\<close>: \<^verbatim>\<open>response/response.go\<close>;
    \<open>execute_action\<close> is \<^verbatim>\<open>Execute\<close>. \<^theory_text>\<open>RowLaws\<close>: further laws of tables.
  \<^item> \<^theory_text>\<open>CoverageStore\<close>: \<^verbatim>\<open>coverage/coverage.go\<close> and \<^verbatim>\<open>normalization/classes.go\<close>; \<open>coverage_of\<close> is the report of an
    asset. \<^theory_text>\<open>Scenarios\<close>: \<^verbatim>\<open>detections/scenario.go\<close>; \<open>evaluate_scenarios\<close> is one tick of \<^verbatim>\<open>Evaluate\<close>. \<^theory_text>\<open>Behavioral\<close>:
    \<^verbatim>\<open>detections/behavioral.go\<close>; \<open>update_all\<close> writes the baselines and \<open>process_event\<close> evaluates an event.
  \<^item> \<^theory_text>\<open>AlertStore\<close>: \<^verbatim>\<open>alerts/alert.go\<close> and \<^verbatim>\<open>webhook.go\<close>; \<open>notify\<close> is one delivery with its retries. \<^theory_text>\<open>ThreatIntel\<close>:
    the files of \<^verbatim>\<open>threatintel\<close>; \<open>upsert_ioc\<close> is \<^verbatim>\<open>Upsert\<close>, \<open>sync_provider\<close> is \<^verbatim>\<open>Registry.Sync\<close> and \<open>enrich_event\<close> is
    \<^verbatim>\<open>Enricher.process\<close>. \<^theory_text>\<open>ThreatModels\<close>: \<^verbatim>\<open>threatmodel\<close>; \<open>derive\<close> is \<^verbatim>\<open>Derive\<close> and \<open>replace_content\<close> is
    \<^verbatim>\<open>ReplaceContent\<close>. \<^theory_text>\<open>AttackGraphs\<close>: \<^verbatim>\<open>attackgraph\<close>; \<open>evaluate_compromise\<close> derives the states, \<open>recompute\<close> writes
    the paths.

  \<^bold>\<open>What the lemmas show.\<close> The scanner retells its input and returns on every input without a negative
  number, where it does not return (\<^theory_text>\<open>SplReading\<close>). A printed expression with plain names and values is read back as one of the
  same meaning, except below a negation (\<^theory_text>\<open>SplRoundTrip\<close>). The WHERE text holds one placeholder for
  each bound argument, no user value and only characters of a fixed alphabet (\<^theory_text>\<open>SplPlanner\<close>). The evaluator
  answers the meaning of the expression and always returns, with a value or a panic
  (\<^theory_text>\<open>SplEvalMeaning\<close>). A query answers at most the rows asked for, its answer does not depend on the
  order of commands of different stages behind the search, a dedup keeps first rows (\<^theory_text>\<open>SplExecutor\<close>). The tables of both
  stores keep their invariants in every reachable state; a revoked token stays revoked; five
  failures lock an account (\<^theory_text>\<open>AuthStore\<close>). A detection leaves one finding for its key and keeps the triage
  (\<^theory_text>\<open>FindingStore\<close>). A correlation or sequence finding is backed by events, and the buffers are bounded
  (\<^theory_text>\<open>CorrelationEngine\<close>). The graph of the stored events is well formed (\<^theory_text>\<open>EntityGraph\<close>); the neighbourhood
  and the paths are those of the graph, and the depth-first traversal is not (\<^theory_text>\<open>GraphQueries\<close>). A stored
  event is read back, every stored row scans, a batch is atomic and a search binds what it holds
  (\<^theory_text>\<open>EventStore\<close>). An observation of an alias is a join of its evidence (\<^theory_text>\<open>EntityStore\<close>); the inventory keeps
  its invariant (\<^theory_text>\<open>AssetStore\<close>); the stored risk refines the log of contributions (\<^theory_text>\<open>RiskStore\<close>). A rule reads
  back (\<^theory_text>\<open>DetectionStore\<close>); a grouped run raises exactly the groups that reach the threshold and a suppressed
  rule nothing (\<^theory_text>\<open>DetectionRuns\<close>). A scenario step without telemetry is unknown and not absent, and a scenario whose
  name is plain opens its runs again at every tick (\<^theory_text>\<open>Scenarios\<close>). A baseline that is not trusted scores nothing, the
  exchange sort is the sort, a suppressed travel raises nothing (\<^theory_text>\<open>Behavioral\<close>). A webhook is retried while it should
  be, and the list of alerts shows each as it is read (\<^theory_text>\<open>AlertStore\<close>). The confidence of an indicator is the aggregate of
  its sources (\<^theory_text>\<open>ThreatIntel\<close>). A replacement of a threat model is exact and so is its drift; a derived model is closed,
  but some derived models cannot be stored (\<^theory_text>\<open>ThreatModels\<close>). The compromise state is that of the observed and inferred edges, stored paths have
  all their steps, and a potential path is a chain of edges (\<^theory_text>\<open>AttackGraphs\<close>). An action calls out exactly for the webhooks whose host is public
  (\<^theory_text>\<open>ResponseActions\<close>). Theorems that show behaviour the code does not mean to have are stated as
  they are: the negated conjunction, the negative number, the last administrator, the repeated
  step, the head before a dedup, the filter of events after the aggregation, the panics of eval, the disjunction that selects everything and others.

  \<^bold>\<open>Interfaces.\<close> \<open>revocable\<close> is the contract of a credential table, interpreted for API tokens
  (\<open>api_tokens\<close>) and for ingest tokens (\<open>ingest_keys\<close>). \<open>operator_chain\<close> is the contract of a loop over operators of one precedence in the
  evaluator, interpreted for its four levels. \<open>adjacency\<close> is the contract of an adjacency query, on which the
  breadth-first searches rest, interpreted for the edges of the stored graph. \<open>upsert_table\<close> is the contract of a
  table written by \<^verbatim>\<open>INSERT ... ON CONFLICT DO UPDATE\<close>, interpreted for the alias, metadata, edge, software,
  vulnerability, risk, coverage, scenario step, baseline, indicator source, actor, campaign, malware, provider, control mapping
  and attack path tables.

  \<^bold>\<open>Fuel and termination.\<close> \<^verbatim>\<open>Tokenize\<close> may run for ever, so \<open>tokens_from\<close> is a partial function in the
  option monad and \<open>None\<close> is divergence. The grammar of boolean expressions is mutually recursive and takes
  fuel; \<open>expr_fuel\<close>, six for each token and six more, is always enough by \<open>parse_or_enough\<close>. The
  evaluator takes as much fuel as there are tokens and one more, enough by \<open>eval_enough\<close>: every
  level reads at least one token before it comes back to the first level. All else terminates by structure.

  \<^bold>\<open>Parameters.\<close> Code that is not in the repository is an argument: SHA-256, SHA-1 and bcrypt;
  \<^verbatim>\<open>strconv.ParseFloat\<close> and floating-point arithmetic; \<^verbatim>\<open>time.ParseDuration\<close>; \<^verbatim>\<open>encoding/json\<close>; regular
  expressions; \<^verbatim>\<open>sort.Slice\<close>; the answers of the database to a SQL text with its arguments, where the
  model of a store does not hold the table itself; the URL parser; the affinity of a column and
  the \<^verbatim>\<open>LIKE\<close> of SQLite. Where a statement leaves the order of its rows open, a rank gives it. Clock readings, random identifiers and the iteration order
  of a map are arguments too, so a theorem holds for all of them.

  \<^bold>\<open>Bounds of the model.\<close> Runes are the code points U+0000 to U+00FF, on which the case mapping and the
  classes are those of Go; dashes and arrows beyond them in messages are written in ASCII. Trees have no nil
  children. A store runs one operation at a time; SQLite serializes writers, and a failing disk
  is not modelled, nor is a query that fails while a scenario step is looked up. Foreign keys are enforced, as
  \<^verbatim>\<open>database.Open\<close> sets up for a file; accounts are also modelled without them, as on \<^verbatim>\<open>:memory:\<close>. The correlation engine is one worker.

  \<^bold>\<open>Not modelled.\<close> HTTP handlers and routes, configuration, logging, telemetry, plugins, the web pages and
  \<^verbatim>\<open>main\<close>, which are glue and I/O; the AI analyst, which composes prompts for an external service;
  ingestion over the network and from files. The manifest lists each part with its reason.
\<close>

end
